(* ===== verification/Prelude.thy ===== *)
theory Prelude
  imports
    Complex_Main
    "HOL-Library.List_Lexorder"
    "HOL-Library.Char_ord"
begin

text \<open>
  Shared vocabulary of the development: the parts of Python and of SQLite that the
  modelled code uses, and the lemmas about them that the component theories share.

  \<^item> Strings are \<open>char list\<close>s read as sequences of code points below 256.
  \<^item> A moment is an \<open>int\<close>: microseconds since the epoch.  The code writes every moment
    as \<open>datetime.now(UTC).isoformat()\<close>, whose lexicographic order is the chronological
    one, so SQL's text comparison of two stamps is \<open>\<le>\<close> on moments.
  \<^item> A JSON value is a \<open>json\<close>; a string that is such a stamp is \<open>JStamp\<close>.
  \<^item> An SQL table is the list of its rows in rowid order, with \<open>row_find\<close> (point lookup),
    \<open>rows_update\<close> (\<open>UPDATE ... WHERE\<close>), \<open>rows_delete\<close> (\<open>DELETE ... WHERE\<close>) and
    \<open>sql_limit\<close> / \<open>order_desc\<close> (\<open>LIMIT\<close>, \<open>ORDER BY ... DESC\<close>) on it.
\<close>

named_theorems table_simps "how the SQL table operations compose"

named_theorems py_simps "Python string operations on literals"

section \<open>Python strings\<close>

definition py_isspace :: "char \<Rightarrow> bool" where
  "py_isspace c \<longleftrightarrow> of_char c \<in> {9, 10, 11, 12, 13, 28, 29, 30, 31, 32, 133, 160 :: nat}"

definition lstrip :: "string \<Rightarrow> string" where
  "lstrip s = dropWhile py_isspace s"

definition rstrip :: "string \<Rightarrow> string" where
  "rstrip s = rev (dropWhile py_isspace (rev s))"

definition strip :: "string \<Rightarrow> string" where
  "strip s = rstrip (lstrip s)"

definition lstrip_chars :: "string \<Rightarrow> string \<Rightarrow> string" where
  "lstrip_chars cs s = dropWhile (\<lambda>c. c \<in> set cs) s"

text \<open>\<open>str.lower()\<close> on code points below 256: the ASCII and the Latin-1 capitals.\<close>

definition lower_char :: "char \<Rightarrow> char" where
  "lower_char c =
     (let n = of_char c :: nat
      in if (65 \<le> n \<and> n \<le> 90) \<or> (192 \<le> n \<and> n \<le> 222 \<and> n \<noteq> 215) then char_of (n + 32) else c)"

definition lower :: "string \<Rightarrow> string" where
  "lower s = map lower_char s"

definition replace_char :: "char \<Rightarrow> char \<Rightarrow> string \<Rightarrow> string" where
  "replace_char a b s = map (\<lambda>c. if c = a then b else c) s"

fun starts_with :: "string \<Rightarrow> string \<Rightarrow> bool" where
  "starts_with s [] = True"
| "starts_with [] (p # ps) = False"
| "starts_with (c # s) (p # ps) = (c = p \<and> starts_with s ps)"

text \<open>\<open>s.split(c)\<close> for a one-character separator: always at least one piece.\<close>

fun split_on :: "char \<Rightarrow> string \<Rightarrow> string list" where
  "split_on c [] = [[]]"
| "split_on c (x # xs) =
     (if x = c then [] # split_on c xs
      else (case split_on c xs of [] \<Rightarrow> [[x]] | p # ps \<Rightarrow> (x # p) # ps))"

fun join :: "string \<Rightarrow> string list \<Rightarrow> string" where
  "join sep [] = []"
| "join sep [x] = x"
| "join sep (x # y # ys) = x @ sep @ join sep (y # ys)"

text \<open>Truth of an optional string: \<open>if s:\<close> holds for a non-empty string only.\<close>

definition truthy :: "string option \<Rightarrow> bool" where
  "truthy s \<longleftrightarrow> (case s of None \<Rightarrow> False | Some t \<Rightarrow> t \<noteq> [])"

definition or_str :: "string option \<Rightarrow> string \<Rightarrow> string" where
  "or_str s d = (case s of None \<Rightarrow> d | Some t \<Rightarrow> if t = [] then d else t)"

definition digit_char :: "nat \<Rightarrow> char" where
  "digit_char d = char_of (48 + d)"

fun nat_str :: "nat \<Rightarrow> string" where
  "nat_str n = (if n < 10 then [digit_char n] else nat_str (n div 10) @ [digit_char (n mod 10)])"

declare nat_str.simps [simp del]

definition int_str :: "int \<Rightarrow> string" where
  "int_str i = (if i < 0 then CHR ''-'' # nat_str (nat (- i)) else nat_str (nat i))"

lemma starts_with_append [simp]: "starts_with (p @ s) p"
  by (induction p) auto

lemma starts_with_iff: "starts_with s p \<longleftrightarrow> (\<exists>t. s = p @ t)"
  by (induction s p rule: starts_with.induct) auto

lemma split_on_not_Nil [simp]: "split_on c s \<noteq> []"
  by (induction s) (auto split: list.splits)

lemma join_split_on: "join [c] (split_on c s) = s"
proof (induction s)
  case Nil
  then show ?case by simp
next
  case (Cons x xs)
  then show ?case
    by (cases "split_on c xs") (auto, (metis join.simps append_Cons append_Nil neq_Nil_conv)+)
qed

lemma split_on_piece: "p \<in> set (split_on c s) \<Longrightarrow> c \<notin> set p"
proof (induction s arbitrary: p)
  case Nil
  then show ?case by simp
next
  case (Cons x xs)
  show ?case
  proof (cases "x = c")
    case True
    with Cons show ?thesis by auto
  next
    case False
    with Cons show ?thesis by (cases "split_on c xs") auto
  qed
qed

lemma split_on_no_sep: "c \<notin> set s \<Longrightarrow> split_on c s = [s]"
  by (induction s) auto

lemma split_on_append: "c \<notin> set p \<Longrightarrow> split_on c (p @ c # s) = p # split_on c s"
  by (induction p) auto

lemma strip_no_space: "\<forall>c \<in> set s. \<not> py_isspace c \<Longrightarrow> strip s = s"
proof -
  assume a: "\<forall>c \<in> set s. \<not> py_isspace c"
  have d: "dropWhile py_isspace t = t" if "\<forall>c \<in> set t. \<not> py_isspace c" for t
    using that by (cases t) auto
  show "strip s = s"
    using a by (simp add: strip_def lstrip_def rstrip_def d)
qed

lemma dropWhile_not_hd: "dropWhile P s = [] \<or> \<not> P (hd (dropWhile P s))"
  by (induction s) auto

lemma rstrip_last: "rstrip s = [] \<or> \<not> py_isspace (last (rstrip s))"
  using dropWhile_not_hd [of py_isspace "rev s"] by (auto simp: rstrip_def last_rev)

lemma rstrip_rstrip: "rstrip (rstrip s) = rstrip s"
  by (simp add: rstrip_def)

lemma rstrip_prefix: "\<exists>t. s = rstrip s @ t"
proof -
  have "rev s = takeWhile py_isspace (rev s) @ dropWhile py_isspace (rev s)" by simp
  then have "s = rev (dropWhile py_isspace (rev s)) @ rev (takeWhile py_isspace (rev s))"
    by (metis rev_append rev_rev_ident)
  then show ?thesis by (metis rstrip_def)
qed

lemma lstrip_id: "s = [] \<or> \<not> py_isspace (hd s) \<Longrightarrow> lstrip s = s"
  by (cases s) (auto simp: lstrip_def)

lemma strip_strip: "strip (strip s) = strip s"
proof -
  obtain t where t: "lstrip s = strip s @ t"
    unfolding strip_def using rstrip_prefix by blast
  have "lstrip s = [] \<or> \<not> py_isspace (hd (lstrip s))"
    unfolding lstrip_def by (rule dropWhile_not_hd)
  with t have "strip s = [] \<or> \<not> py_isspace (hd (strip s))"
    by (cases "strip s") auto
  then have "lstrip (strip s) = strip s" by (rule lstrip_id)
  then show ?thesis by (simp add: strip_def [of "strip s"]) (simp add: strip_def rstrip_rstrip)
qed

subsection \<open>Decimal numerals\<close>

lemma digit_char_inj: "a < 10 \<Longrightarrow> b < 10 \<Longrightarrow> digit_char a = digit_char b \<longleftrightarrow> a = b"
proof -
  assume "a < 10" "b < 10"
  then have "of_char (digit_char a) = (48 + a :: nat)" "of_char (digit_char b) = (48 + b :: nat)"
    by (simp_all add: digit_char_def)
  then show ?thesis by (metis add_left_cancel)
qed

lemma digit_char_code: "d < 10 \<Longrightarrow> of_char (digit_char d) = (48 + d :: nat)"
  by (simp add: digit_char_def)

lemma nat_str_digits: "c \<in> set (nat_str n) \<Longrightarrow> \<exists>d < 10. c = digit_char d"
proof (induction n rule: nat_str.induct)
  case (1 n)
  show ?case
  proof (cases "n < 10")
    case True
    with "1.prems" show ?thesis by (subst (asm) nat_str.simps) auto
  next
    case False
    then have eq: "nat_str n = nat_str (n div 10) @ [digit_char (n mod 10)]"
      by (simp add: nat_str.simps [of n])
    with "1.prems" consider "c \<in> set (nat_str (n div 10))" | "c = digit_char (n mod 10)"
      by auto
    then show ?thesis
    proof cases
      case 1
      with "1.IH" False show ?thesis by blast
    next
      case 2
      have "n mod 10 < 10" by simp
      with 2 show ?thesis by blast
    qed
  qed
qed

lemma nat_str_not_Nil [simp]: "nat_str n \<noteq> []"
  by (subst nat_str.simps) auto

lemma Nil_not_nat_str [simp]: "[] \<noteq> nat_str n"
  using nat_str_not_Nil by metis

lemma nat_str_no_colon: "CHR '':'' \<notin> set (nat_str n)"
proof
  assume "CHR '':'' \<in> set (nat_str n)"
  then obtain d where "d < 10" "CHR '':'' = digit_char d" using nat_str_digits by blast
  then have "(of_char (CHR '':'') :: nat) = 48 + d" by (metis digit_char_code)
  with \<open>d < 10\<close> show False by simp
qed

lemma nat_str_inj: "nat_str m = nat_str n \<Longrightarrow> m = n"
proof (induction m arbitrary: n rule: nat_str.induct)
  case (1 m)
  have step: "nat_str k = (if k < 10 then [digit_char k] else nat_str (k div 10) @ [digit_char (k mod 10)])"
    for k by (simp add: nat_str.simps [of k])
  show ?case
  proof (cases "m < 10")
    case True
    with "1.prems" show ?thesis
      by (cases "n < 10") (simp_all add: step [of m] step [of n] digit_char_inj)
  next
    case False
    show ?thesis
    proof (cases "n < 10")
      case True
      with False "1.prems" show ?thesis by (simp add: step [of m] step [of n])
    next
      case n: False
      with False "1.prems" have "nat_str (m div 10) = nat_str (n div 10)"
        and d: "digit_char (m mod 10) = digit_char (n mod 10)"
        by (simp_all add: step [of m] step [of n])
      with "1.IH" False have "m div 10 = n div 10" by blast
      moreover from d have "m mod 10 = n mod 10" by (simp add: digit_char_inj)
      ultimately show ?thesis by (metis div_mult_mod_eq)
    qed
  qed
qed


section \<open>Moments\<close>

type_synonym moment = int

definition sec :: "int \<Rightarrow> int" where
  "sec n = n * 1000000"

definition minutes :: "int \<Rightarrow> int" where
  "minutes n = sec (n * 60)"

definition hours :: "int \<Rightarrow> int" where
  "hours n = sec (n * 3600)"

definition days :: "int \<Rightarrow> int" where
  "days n = sec (n * 86400)"

lemma sec_mono: "a \<le> b \<Longrightarrow> sec a \<le> sec b"
  by (simp add: sec_def)

text \<open>A stored ISO text column: one that parses (a naive stamp is read as UTC), or another text.\<close>

datatype iso_text = Iso moment | NotIso string

text \<open>The civil date of a day number (proleptic Gregorian, day 0 is 1970-01-01).\<close>

definition civil_from_days :: "int \<Rightarrow> int \<times> int \<times> int" where
  "civil_from_days z0 =
     (let z = z0 + 719468; era = z div 146097; doe = z mod 146097;
          yoe = (doe - doe div 1460 + doe div 36524 - doe div 146096) div 365;
          doy = doe - (365 * yoe + yoe div 4 - yoe div 100);
          mp = (5 * doy + 2) div 153;
          d = doy - (153 * mp + 2) div 5 + 1;
          m = (if mp < 10 then mp + 3 else mp - 9);
          y = yoe + era * 400
      in (if m \<le> 2 then y + 1 else y, m, d))"

definition zpad :: "nat \<Rightarrow> int \<Rightarrow> string" where
  "zpad w i = (let s = nat_str (nat i) in replicate (w - length s) (CHR ''0'') @ s)"

text \<open>\<open>isoformat()\<close> of an aware UTC datetime; the microseconds are left out when zero.\<close>

definition isoformat :: "moment \<Rightarrow> string" where
  "isoformat t =
     (let day = t div 86400000000; rest = t mod 86400000000;
          s = rest div 1000000; us = rest mod 1000000
      in (case civil_from_days day of (y, m, d) \<Rightarrow>
            zpad 4 y @ ''-'' @ zpad 2 m @ ''-'' @ zpad 2 d @ ''T'' @
            zpad 2 (s div 3600) @ '':'' @ zpad 2 (s div 60 mod 60) @ '':'' @ zpad 2 (s mod 60) @
            (if us = 0 then [] else ''.'' @ zpad 6 us) @ ''+00:00''))"

section \<open>JSON values\<close>

datatype json =
    JNull
  | JBool bool
  | JInt int
  | JReal real
  | JStr string
  | JStamp moment
  | JArr "json list"
  | JObj "(string \<times> json) list"

type_synonym metadata = "string \<rightharpoonup> json"

text \<open>A Python string value: a string, or the text of a stamp.\<close>

definition json_str :: "json \<Rightarrow> string option" where
  "json_str v = (case v of JStr s \<Rightarrow> Some s | JStamp t \<Rightarrow> Some (isoformat t) | _ \<Rightarrow> None)"

definition json_truthy :: "json \<Rightarrow> bool" where
  "json_truthy v =
     (case v of JNull \<Rightarrow> False | JBool b \<Rightarrow> b | JInt i \<Rightarrow> i \<noteq> 0 | JReal r \<Rightarrow> r \<noteq> 0
      | JStr s \<Rightarrow> s \<noteq> [] | JStamp _ \<Rightarrow> True | JArr xs \<Rightarrow> xs \<noteq> [] | JObj kvs \<Rightarrow> kvs \<noteq> [])"

definition is_digit :: "char \<Rightarrow> bool" where
  "is_digit c \<longleftrightarrow> (let n = of_char c :: nat in 48 \<le> n \<and> n \<le> 57)"

definition digits_val :: "string \<Rightarrow> int" where
  "digits_val s = foldl (\<lambda>acc c. acc * 10 + (int (of_char c) - 48)) 0 s"

definition trunc_real :: "real \<Rightarrow> int" where
  "trunc_real r = (if 0 \<le> r then \<lfloor>r\<rfloor> else \<lceil>r\<rceil>)"

text \<open>
  SQLite's \<open>CAST(text AS INTEGER)\<close>: the longest integer prefix after leading blanks, 0 when
  there is none.
\<close>

definition sql_space :: "char \<Rightarrow> bool" where
  "sql_space c \<longleftrightarrow> of_char c \<in> {9, 10, 11, 12, 13, 32 :: nat}"

definition sql_text_to_int :: "string \<Rightarrow> int" where
  "sql_text_to_int s0 =
     (case dropWhile sql_space s0 of
        [] \<Rightarrow> 0
      | c # s \<Rightarrow>
          if c = CHR ''-'' then - digits_val (takeWhile is_digit s)
          else if c = CHR ''+'' then digits_val (takeWhile is_digit s)
          else digits_val (takeWhile is_digit (c # s)))"

text \<open>\<open>CAST(COALESCE(json_extract(metadata, '$.k'), 0) AS INTEGER)\<close>\<close>

definition sql_cast_int :: "json option \<Rightarrow> int" where
  "sql_cast_int v =
     (case v of
        None \<Rightarrow> 0
      | Some JNull \<Rightarrow> 0
      | Some (JBool b) \<Rightarrow> (if b then 1 else 0)
      | Some (JInt i) \<Rightarrow> i
      | Some (JReal r) \<Rightarrow> trunc_real r
      | Some (JStr s) \<Rightarrow> sql_text_to_int s
      | Some (JStamp t) \<Rightarrow> sql_text_to_int (isoformat t)
      | Some (JArr _) \<Rightarrow> 0
      | Some (JObj _) \<Rightarrow> 0)"

text \<open>
  \<open>COALESCE(json_extract(metadata, '$.k'), '') <= now\<close> for a stamp \<open>now\<close>: numbers sort
  before text, an array or object is the text of its JSON and starts after every digit.
\<close>

definition sql_le_stamp :: "json option \<Rightarrow> moment \<Rightarrow> bool" where
  "sql_le_stamp v now =
     (case v of
        None \<Rightarrow> True
      | Some JNull \<Rightarrow> True
      | Some (JBool _) \<Rightarrow> True
      | Some (JInt _) \<Rightarrow> True
      | Some (JReal _) \<Rightarrow> True
      | Some (JStr s) \<Rightarrow> s \<le> isoformat now
      | Some (JStamp t) \<Rightarrow> t \<le> now
      | Some (JArr _) \<Rightarrow> False
      | Some (JObj _) \<Rightarrow> False)"

text \<open>\<open>json_extract(metadata, '$.k') = s\<close> for a text parameter.\<close>

definition sql_eq_text :: "json option \<Rightarrow> string \<Rightarrow> bool" where
  "sql_eq_text v s = (case v of Some j \<Rightarrow> json_str j = Some s | None \<Rightarrow> False)"

text \<open>
  Python's \<open>int(d.get(k) or 0)\<close>; \<open>None\<close> is the exception \<open>int\<close> raises on a string that
  is no numeral or on a container.
\<close>

definition py_int_of_str :: "string \<Rightarrow> int option" where
  "py_int_of_str s0 =
     (let s = strip s0;
          (neg, ds) = (case s of [] \<Rightarrow> (False, [])
                       | c # t \<Rightarrow> if c = CHR ''-'' then (True, t)
                                  else if c = CHR ''+'' then (False, t) else (False, s));
          parts = split_on (CHR ''_'') ds
      in if \<forall>p \<in> set parts. p \<noteq> [] \<and> list_all is_digit p
         then Some (if neg then - digits_val (concat parts) else digits_val (concat parts))
         else None)"

definition py_int_or_zero :: "json option \<Rightarrow> int option" where
  "py_int_or_zero v =
     (case v of
        None \<Rightarrow> Some 0
      | Some j \<Rightarrow>
          if \<not> json_truthy j then Some 0
          else (case j of
                  JBool _ \<Rightarrow> Some 1
                | JInt i \<Rightarrow> Some i
                | JReal r \<Rightarrow> Some (trunc_real r)
                | JStr s \<Rightarrow> py_int_of_str s
                | _ \<Rightarrow> None))"

lemma sql_le_stamp_simps [simp]:
  "sql_le_stamp None now"
  "sql_le_stamp (Some (JStr [])) now"
  "sql_le_stamp (Some (JStamp t)) now \<longleftrightarrow> t \<le> now"
  by (simp_all add: sql_le_stamp_def)

lemma sql_cast_int_simps [simp]:
  "sql_cast_int None = 0"
  "sql_cast_int (Some (JInt i)) = i"
  by (simp_all add: sql_cast_int_def)

lemma py_int_or_zero_simps [simp]:
  "py_int_or_zero None = Some 0"
  "py_int_or_zero (Some (JInt i)) = Some i"
  by (simp_all add: py_int_or_zero_def json_truthy_def)

lemma digits_val_append: "digits_val (s @ [c]) = digits_val s * 10 + (int (of_char c) - 48)"
  by (simp add: digits_val_def)

lemma digits_val_nat_str: "digits_val (nat_str n) = int n"
proof (induction n rule: nat_str.induct)
  case (1 n)
  show ?case
  proof (cases "n < 10")
    case True
    then show ?thesis by (simp add: nat_str.simps [of n] digits_val_def digit_char_code)
  next
    case False
    with 1 have "digits_val (nat_str n) = int (n div 10) * 10 + int (n mod 10)"
      by (simp add: nat_str.simps [of n] digits_val_append digit_char_code)
    also have "\<dots> = int n" by (simp add: zdiv_int zmod_int)
    finally show ?thesis .
  qed
qed

lemma is_digit_digit_char: "d < 10 \<Longrightarrow> is_digit (digit_char d)"
  by (simp add: is_digit_def digit_char_code)

lemma nat_str_is_digit: "c \<in> set (nat_str n) \<Longrightarrow> is_digit c"
  using nat_str_digits is_digit_digit_char by blast

lemma digit_not_space: "is_digit c \<Longrightarrow> \<not> py_isspace c"
  by (auto simp: is_digit_def py_isspace_def Let_def)

lemma py_int_of_int_str: "py_int_of_str (int_str i) = Some i"
proof -
  have under: "CHR ''_'' \<notin> set (nat_str n)" for n
    using nat_str_is_digit [of "CHR ''_''" n] by (auto simp: is_digit_def)
  have split: "split_on (CHR ''_'') (nat_str n) = [nat_str n]" for n
    by (rule split_on_no_sep) (rule under)
  have minus: "\<not> py_isspace (CHR ''-'')" by (simp add: py_isspace_def)
  have "\<not> py_isspace c" if "c \<in> set (int_str i)" for c
  proof -
    from that have "c = CHR ''-'' \<or> (\<exists>n. c \<in> set (nat_str n))"
      by (simp add: int_str_def split: if_splits) blast+
    with minus digit_not_space nat_str_is_digit show ?thesis by blast
  qed
  then have strip: "strip (int_str i) = int_str i"
    by (intro strip_no_space) blast
  have signs: "\<not> is_digit (CHR ''-'')" "\<not> is_digit (CHR ''+'')" by (simp_all add: is_digit_def)
  have hd: "\<exists>c t. nat_str n = c # t \<and> c \<noteq> CHR ''-'' \<and> c \<noteq> CHR ''+''" for n
  proof -
    obtain c t where ct: "nat_str n = c # t" using nat_str_not_Nil neq_Nil_conv by metis
    then have "is_digit c" using nat_str_is_digit by (metis list.set_intros(1))
    with ct signs show ?thesis by blast
  qed
  have all: "list_all is_digit (nat_str n)" for n
    by (auto simp: list_all_iff nat_str_is_digit)
  show ?thesis
  proof (cases "i < 0")
    case True
    then show ?thesis
      by (simp add: py_int_of_str_def strip) (simp add: int_str_def split all digits_val_nat_str)
  next
    case False
    obtain c t where ct: "nat_str (nat i) = c # t" "c \<noteq> CHR ''-''" "c \<noteq> CHR ''+''" using hd by blast
    with False split [of "nat i"] all [of "nat i"] digits_val_nat_str [of "nat i"] show ?thesis
      by (simp add: py_int_of_str_def strip) (simp add: int_str_def)
  qed
qed

section \<open>SQL tables\<close>

definition row_find :: "('r \<Rightarrow> 'k) \<Rightarrow> 'k \<Rightarrow> 'r list \<Rightarrow> 'r option" where
  "row_find key k rs = find (\<lambda>r. key r = k) rs"

definition rows_update :: "('r \<Rightarrow> bool) \<Rightarrow> ('r \<Rightarrow> 'r) \<Rightarrow> 'r list \<Rightarrow> 'r list" where
  "rows_update P f rs = map (\<lambda>r. if P r then f r else r) rs"

definition rows_delete :: "('r \<Rightarrow> bool) \<Rightarrow> 'r list \<Rightarrow> 'r list" where
  "rows_delete P rs = filter (\<lambda>r. \<not> P r) rs"

text \<open>The \<open>rowcount\<close> of an UPDATE or DELETE.\<close>

definition rowcount :: "('r \<Rightarrow> bool) \<Rightarrow> 'r list \<Rightarrow> nat" where
  "rowcount P rs = length (filter P rs)"

text \<open>A negative \<open>LIMIT\<close> is no limit; a negative \<open>OFFSET\<close> is 0.\<close>

definition sql_limit :: "int \<Rightarrow> 'r list \<Rightarrow> 'r list" where
  "sql_limit n rs = (if n < 0 then rs else take (nat n) rs)"

definition sql_offset :: "int \<Rightarrow> 'r list \<Rightarrow> 'r list" where
  "sql_offset n rs = drop (nat n) rs"

text \<open>\<open>ORDER BY key\<close>: rows with equal keys stay in rowid order.\<close>

definition order_asc :: "('r \<Rightarrow> 'k::linorder) \<Rightarrow> 'r list \<Rightarrow> 'r list" where
  "order_asc key rs = sort_key key rs"

definition order_desc :: "('r \<Rightarrow> int) \<Rightarrow> 'r list \<Rightarrow> 'r list" where
  "order_desc key rs = sort_key (\<lambda>r. - key r) rs"

lemma row_find_Nil [simp]: "row_find key k [] = None"
  by (simp add: row_find_def)

lemma row_find_Cons [simp]:
  "row_find key k (r # rs) = (if key r = k then Some r else row_find key k rs)"
  by (simp add: row_find_def)

lemma row_find_SomeD: "row_find key k rs = Some r \<Longrightarrow> key r = k \<and> r \<in> set rs"
  by (induction rs) (auto split: if_splits)

lemma row_find_None_iff: "row_find key k rs = None \<longleftrightarrow> k \<notin> key ` set rs"
  by (induction rs) auto

lemma row_find_update [table_simps]:
  assumes "\<And>r. key (f r) = key r"
  shows "row_find key k (rows_update P f rs) =
           map_option (\<lambda>r. if P r then f r else r) (row_find key k rs)"
  using assms by (induction rs) (auto simp: rows_update_def)

lemma row_find_append [table_simps]:
  "row_find key k (rs @ rs') =
     (case row_find key k rs of None \<Rightarrow> row_find key k rs' | Some r \<Rightarrow> Some r)"
  by (induction rs) auto

lemma row_find_delete_key [table_simps]:
  "row_find key k (rows_delete (\<lambda>r. key r = k') rs) = (if k = k' then None else row_find key k rs)"
  by (induction rs) (auto simp: rows_delete_def)

lemma row_find_distinct:
  "distinct (map key rs) \<Longrightarrow> r \<in> set rs \<Longrightarrow> row_find key (key r) rs = Some r"
  by (induction rs) (auto simp: image_iff)

lemma map_key_update [table_simps]:
  "(\<And>r. key (f r) = key r) \<Longrightarrow> map key (rows_update P f rs) = map key rs"
  by (induction rs) (auto simp: rows_update_def)

lemma length_rows_update [simp]: "length (rows_update P f rs) = length rs"
  by (simp add: rows_update_def)

lemma set_rows_update: "set (rows_update P f rs) = f ` {r \<in> set rs. P r} \<union> {r \<in> set rs. \<not> P r}"
  by (auto simp: rows_update_def)

lemma set_rows_delete [simp]: "set (rows_delete P rs) = {r \<in> set rs. \<not> P r}"
  by (auto simp: rows_delete_def)

lemma rows_update_none: "\<forall>r \<in> set rs. \<not> P r \<Longrightarrow> rows_update P f rs = rs"
  by (induction rs) (auto simp: rows_update_def)

lemma rowcount_pos [simp]: "0 < rowcount P rs \<longleftrightarrow> (\<exists>r \<in> set rs. P r)"
  by (simp add: rowcount_def filter_empty_conv)

lemma length_rows_delete: "length (rows_delete P rs) = length rs - rowcount P rs"
  using sum_length_filter_compl [of P rs] by (simp add: rows_delete_def rowcount_def)

lemma distinct_map_delete: "distinct (map key rs) \<Longrightarrow> distinct (map key (rows_delete P rs))"
  by (induction rs) (auto simp: rows_delete_def)

lemma set_sql_limit: "set (sql_limit n rs) \<subseteq> set rs"
  by (auto simp: sql_limit_def dest: in_set_takeD)

lemma length_sql_limit: "0 \<le> n \<Longrightarrow> length (sql_limit n rs) \<le> nat n"
  by (simp add: sql_limit_def)

lemma set_sql_offset: "set (sql_offset n rs) \<subseteq> set rs"
  by (auto simp: sql_offset_def dest: in_set_dropD)

lemma set_order_desc [simp]: "set (order_desc key rs) = set rs"
  by (simp add: order_desc_def)

lemma set_order_asc [simp]: "set (order_asc key rs) = set rs"
  by (simp add: order_asc_def)

lemma sorted_order_desc: "sorted_wrt (\<lambda>a b. key b \<le> key a) (order_desc key rs)"
proof -
  have "sorted (map (\<lambda>r. - key r) (order_desc key rs))"
    by (simp add: order_desc_def)
  then show ?thesis by (simp add: sorted_map)
qed

text \<open>A forward walk in rowid order: what follows the last row of a page is the rest.\<close>

lemma filter_after_last:
  fixes rid :: "'r \<Rightarrow> nat"
  assumes "sorted_wrt (<) (map rid (X @ Y))" "X \<noteq> []"
  shows "filter (\<lambda>r. rid (last X) < rid r) (X @ Y) = Y"
proof -
  have X: "sorted_wrt (<) (map rid X)" and XY: "\<forall>a \<in> set X. \<forall>b \<in> set Y. rid a < rid b"
    using assms(1) by (auto simp: sorted_wrt_append)
  have "X = butlast X @ [last X]" using assms(2) by simp
  with X have "sorted_wrt (<) (map rid (butlast X @ [last X]))" by metis
  then have "\<forall>a \<in> set (butlast X). rid a < rid (last X)"
    by (auto simp: sorted_wrt_append)
  then have "\<forall>a \<in> set X. \<not> rid (last X) < rid a"
    by (metis \<open>X = butlast X @ [last X]\<close> Un_iff empty_iff less_irrefl_nat list.set(1) not_less_iff_gr_or_eq
        set_ConsD set_append)
  moreover have "\<forall>b \<in> set Y. rid (last X) < rid b" using XY assms(2) by simp
  ultimately show ?thesis by (simp add: filter_empty_conv filter_id_conv)
qed

section \<open>Maps kept by key: the interface of a key-value table\<close>

text \<open>
  The contract of every keyed read and write of the store (\<open>get_meta\<close> / \<open>set_meta\<close>,
  \<open>get_poll_state\<close> / \<open>mark_poll_ok\<close>, ...): a read returns the last value written under its
  key, and a write leaves the other keys alone.
\<close>

locale kv_store =
  fixes get :: "'s \<Rightarrow> 'k \<Rightarrow> 'v option"
    and put :: "'k \<Rightarrow> 'v \<Rightarrow> 's \<Rightarrow> 's"
  assumes get_put_same: "get (put k v s) k = Some v"
    and get_put_other: "k \<noteq> k' \<Longrightarrow> get (put k v s) k' = get s k'"
begin

lemma get_put: "get (put k v s) k' = (if k = k' then Some v else get s k')"
  by (simp add: get_put_same get_put_other)

lemma put_put_same: "get (put k v' (put k v s)) k' = get (put k v' s) k'"
  by (simp add: get_put)

lemma put_commute: "k \<noteq> k2 \<Longrightarrow> get (put k v (put k2 v2 s)) k' = get (put k2 v2 (put k v s)) k'"
  by (auto simp: get_put)

end

section \<open>Life cycles: the interface of a state machine\<close>

text \<open>
  A transition relation and its terminal states.  What has no outgoing edge is left by no
  sequence of transitions.
\<close>

locale lifecycle =
  fixes edge :: "'s \<Rightarrow> 's \<Rightarrow> bool"
    and terminal :: "'s \<Rightarrow> bool"
  assumes terminal_no_edge: "terminal s \<Longrightarrow> \<not> edge s s'"
begin

lemma stuck: "edge\<^sup>*\<^sup>* s s' \<Longrightarrow> terminal s \<Longrightarrow> s' = s"
  by (induction rule: rtranclp_induct) (auto dest: terminal_no_edge)

end

end
