(* ===== verification/Json_Text.thy ===== *)
theory Json_Text
  imports Prelude
begin

text \<open>
  The text codecs of the signed envelopes: unpadded URL-safe base64 with Python's lenient
  decoder, and compact JSON with Python's parser.  A byte is a \<open>char\<close>.  Outside the model:
  parsing bytes above 127, NUL bytes (\<open>json.loads\<close> takes a text that holds them for UTF-16 or
  UTF-32) and escapes of code points above 255: all are errors here, and the encoder writes none.  The interpreter's recursion limit is the number of arrays and
  objects it can still open inside one another, the argument \<open>d\<close> of the parser.
\<close>

section \<open>Base64\<close>

text \<open>The alphabet: capitals, small letters, digits, hyphen, underscore.\<close>

definition b64_char :: "nat \<Rightarrow> char" where
  "b64_char n =
     (if n < 26 then char_of (n + 65) else if n < 52 then char_of (n + 71)
      else if n < 62 then char_of (n - 4) else if n = 62 then CHR ''-'' else CHR ''_'')"

text \<open>The value of an input character; the standard alphabet's last two are accepted too.\<close>

definition b64_val :: "char \<Rightarrow> nat option" where
  "b64_val c =
     (let n = of_char c :: nat in
      if 65 \<le> n \<and> n \<le> 90 then Some (n - 65)
      else if 97 \<le> n \<and> n \<le> 122 then Some (n - 71)
      else if 48 \<le> n \<and> n \<le> 57 then Some (n + 4)
      else if c = CHR ''-'' \<or> c = CHR ''+'' then Some 62
      else if c = CHR ''_'' \<or> c = CHR ''/'' then Some 63
      else None)"

fun b64url_encode :: "string \<Rightarrow> string" where
  "b64url_encode [] = []"
| "b64url_encode [a] = (let n = of_char a :: nat in [b64_char (n div 4), b64_char (n mod 4 * 16)])"
| "b64url_encode [a, b] =
     (let n = of_char a :: nat; m = of_char b :: nat
      in [b64_char (n div 4), b64_char (n mod 4 * 16 + m div 16), b64_char (m mod 16 * 4)])"
| "b64url_encode (a # b # c # s) =
     (let n = of_char a :: nat; m = of_char b :: nat; k = of_char c :: nat
      in [b64_char (n div 4), b64_char (n mod 4 * 16 + m div 16),
          b64_char (m mod 16 * 4 + k div 64), b64_char (k mod 64)] @ b64url_encode s)"

text \<open>
  The lenient decoder: \<open>q\<close> characters of the current group are read, \<open>l\<close> are the bits left
  over, \<open>p\<close> counts padding signs.  Other characters are skipped; enough padding ends the input.
\<close>

fun b64_run :: "nat \<Rightarrow> nat \<Rightarrow> nat \<Rightarrow> string \<Rightarrow> string option" where
  "b64_run q l p [] = (if q = 0 then Some [] else None)"
| "b64_run q l p (c # s) =
     (if c = CHR ''='' then
        (if 2 \<le> q \<and> 4 \<le> q + Suc p then Some [] else b64_run q l (if 2 \<le> q then Suc p else p) s)
      else (case b64_val c of
              None \<Rightarrow> b64_run q l p s
            | Some v \<Rightarrow>
                if q = 0 then b64_run 1 v 0 s
                else if q = 1 then map_option (Cons (char_of (l * 4 + v div 16))) (b64_run 2 (v mod 16) 0 s)
                else if q = 2 then map_option (Cons (char_of (l * 16 + v div 4))) (b64_run 3 (v mod 4) 0 s)
                else map_option (Cons (char_of (l * 64 + v))) (b64_run 0 0 0 s)))"

definition is_ascii :: "string \<Rightarrow> bool" where
  "is_ascii s \<longleftrightarrow> list_all (\<lambda>c. of_char c < (128 :: nat)) s"

definition b64url_decode :: "string \<Rightarrow> string option" where
  "b64url_decode segment =
     (if is_ascii segment
      then b64_run 0 0 0 (segment @ replicate ((4 - length segment mod 4) mod 4) (CHR ''=''))
      else None)"

lemma char_less_256: "(of_char c :: nat) < 256"
  using of_char_mod_256 [of c, where 'a = nat] by (metis mod_less_divisor zero_less_numeral)

lemma of_char_char_of_nat: "n < 256 \<Longrightarrow> (of_char (char_of n :: char) :: nat) = n"
  by simp

lemma char_of_neq: "n < 256 \<Longrightarrow> n \<noteq> of_char c \<Longrightarrow> (char_of (n :: nat) :: char) \<noteq> c"
  by (metis of_char_char_of_nat)

lemma b64_char_facts:
  assumes "n < 64"
  shows "b64_val (b64_char n) = Some n \<and> b64_char n \<noteq> CHR ''='' \<and> b64_char n \<noteq> CHR ''.'' \<and>
     (of_char (b64_char n) :: nat) < 128"
proof -
  consider "n < 26" | "26 \<le> n" "n < 52" | "52 \<le> n" "n < 62" | "n = 62" | "n = 63" using assms by linarith
  then show ?thesis
    by cases (auto simp: b64_char_def b64_val_def Let_def char_of_neq)
qed

lemma b64_shift: "(b :: nat) < d \<Longrightarrow> (a * d + b) div d = a \<and> (a * d + b) mod d = b"
  by simp

lemma b64_digits:
  fixes n m k :: nat
  assumes "n < 256" "m < 256" "k < 256"
  shows "n div 4 < 64" "n mod 4 * 16 + m div 16 < 64" "n mod 4 * 16 < 64"
    "m mod 16 * 4 + k div 64 < 64" "m mod 16 * 4 < 64" "k mod 64 < 64"
    "n div 4 * 4 + (n mod 4 * 16 + m div 16) div 16 = n" "n div 4 * 4 + (n mod 4 * 16) div 16 = n"
    "(n mod 4 * 16 + m div 16) mod 16 * 16 + (m mod 16 * 4 + k div 64) div 4 = m"
    "(n mod 4 * 16 + m div 16) mod 16 * 16 + (m mod 16 * 4) div 4 = m"
    "(m mod 16 * 4 + k div 64) mod 4 * 64 + k mod 64 = k"
proof -
  have b: "n div 4 < 64" "m div 16 < 16" "k div 64 < 4" using assms by (simp_all add: div_less_iff_less_mult)
  have c: "n mod 4 < 4" "m mod 16 < 16" "k mod 64 < 64" by simp_all
  show "n div 4 < 64" "n mod 4 * 16 + m div 16 < 64" "n mod 4 * 16 < 64"
    "m mod 16 * 4 + k div 64 < 64" "m mod 16 * 4 < 64" "k mod 64 < 64"
    using b c by linarith+
  show "n div 4 * 4 + (n mod 4 * 16 + m div 16) div 16 = n" "n div 4 * 4 + (n mod 4 * 16) div 16 = n"
    "(n mod 4 * 16 + m div 16) mod 16 * 16 + (m mod 16 * 4 + k div 64) div 4 = m"
    "(n mod 4 * 16 + m div 16) mod 16 * 16 + (m mod 16 * 4) div 4 = m"
    "(m mod 16 * 4 + k div 64) mod 4 * 64 + k mod 64 = k"
    using b64_shift [OF b(2), of "n mod 4"] b64_shift [OF b(3), of "m mod 16"]
    by (simp_all add: div_mult_mod_eq)
qed

lemma b64_run_encode:
  "b64_run 0 0 p (b64url_encode s @ replicate ((4 - length (b64url_encode s) mod 4) mod 4) (CHR ''='')) = Some s"
proof (induction s arbitrary: p rule: b64url_encode.induct)
  case (2 a)
  note d = b64_digits [OF char_less_256 [of a] char_less_256 [of a] char_less_256 [of a]]
  show ?case
    using b64_char_facts [OF d(1)] b64_char_facts [OF d(3)] d(8)
    by (simp add: Let_def numeral_2_eq_2 replicate_Suc)
next
  case (3 a b)
  note d = b64_digits [OF char_less_256 [of a] char_less_256 [of b] char_less_256 [of b]]
  show ?case
    using b64_char_facts [OF d(1)] b64_char_facts [OF d(2)] b64_char_facts [OF d(5)] d(7,10)
    by (simp add: Let_def)
next
  case (4 a b c s)
  note d = b64_digits [OF char_less_256 [of a] char_less_256 [of b] char_less_256 [of c]]
  have len: "length (b64url_encode (a # b # c # s)) mod 4 = length (b64url_encode s) mod 4"
    by (simp add: Let_def)
  show ?case
    unfolding len
    using b64_char_facts [OF d(1)] b64_char_facts [OF d(2)] b64_char_facts [OF d(4)] b64_char_facts [OF d(6)]
      d(7,9,11) 4 [OF refl refl refl, of 0]
    by (simp add: Let_def)
qed simp

lemma ex_b64_char: "k < 64 \<Longrightarrow> \<exists>n < 64. b64_char k = b64_char n"
  by blast

lemma b64url_encode_chars:
  "c \<in> set (b64url_encode s) \<Longrightarrow> \<exists>n < 64. c = b64_char n"
proof (induction s rule: b64url_encode.induct)
  case (2 a)
  note d = b64_digits [OF char_less_256 [of a] char_less_256 [of a] char_less_256 [of a]]
  from 2 show ?case by (auto simp: Let_def intro!: ex_b64_char d(1-6))
next
  case (3 a b)
  note d = b64_digits [OF char_less_256 [of a] char_less_256 [of b] char_less_256 [of b]]
  from 3 show ?case by (auto simp: Let_def intro!: ex_b64_char d(1-6))
next
  case (4 a b c s)
  note d = b64_digits [OF char_less_256 [of a] char_less_256 [of b] char_less_256 [of c]]
  from 4 show ?case by (auto simp: Let_def intro!: ex_b64_char d(1-6))
qed simp

lemma b64url_encode_plain:
  "c \<in> set (b64url_encode s) \<Longrightarrow> c \<noteq> CHR ''.'' \<and> (of_char c :: nat) < 128"
  using b64url_encode_chars [of c s] b64_char_facts by auto

lemma b64url_encode_Nil [simp]: "b64url_encode s = [] \<longleftrightarrow> s = []"
  by (cases s rule: b64url_encode.cases) (simp_all add: Let_def)

lemma length_b64url_encode: "3 * length (b64url_encode s) \<le> 4 * length s + 4"
  by (induction s rule: b64url_encode.induct) (fastforce simp: Let_def)+

theorem b64url_roundtrip [simp]: "b64url_decode (b64url_encode s) = Some s"
proof -
  have "is_ascii (b64url_encode s)"
    using b64url_encode_plain by (auto simp: is_ascii_def list_all_iff)
  then show ?thesis by (simp add: b64url_decode_def b64_run_encode)
qed

section \<open>JSON\<close>

text \<open>\<open>WNum\<close> is a number that is no integer, with its text.\<close>

datatype wire =
    WNull
  | WBool bool
  | WInt int
  | WNum string
  | WStr string
  | WArr "wire list"
  | WObj "(string \<times> wire) list"

abbreviation quote_char :: char where
  "quote_char \<equiv> CHR 0x22"

abbreviation escape_char :: char where
  "escape_char \<equiv> CHR 0x5C"

definition hex_digit :: "nat \<Rightarrow> char" where
  "hex_digit n = (if n < 10 then char_of (48 + n) else char_of (87 + n))"

definition hex_value :: "char \<Rightarrow> nat option" where
  "hex_value c =
     (let n = of_char c :: nat in
      if 48 \<le> n \<and> n \<le> 57 then Some (n - 48)
      else if 97 \<le> n \<and> n \<le> 102 then Some (n - 87)
      else if 65 \<le> n \<and> n \<le> 70 then Some (n - 55)
      else None)"

text \<open>The ASCII-only escapes of \<open>json.dumps\<close>.\<close>

definition esc :: "char \<Rightarrow> string" where
  "esc c =
     (let n = of_char c :: nat in
      if c = quote_char then [escape_char, quote_char]
      else if c = escape_char then [escape_char, escape_char]
      else if n = 10 then [escape_char, CHR ''n'']
      else if n = 13 then [escape_char, CHR ''r'']
      else if n = 9 then [escape_char, CHR ''t'']
      else if n = 12 then [escape_char, CHR ''f'']
      else if n = 8 then [escape_char, CHR ''b'']
      else if 32 \<le> n \<and> n \<le> 126 then [c]
      else [escape_char, CHR ''u'', CHR ''0'', CHR ''0'', hex_digit (n div 16), hex_digit (n mod 16)])"

definition quoted :: "string \<Rightarrow> string" where
  "quoted s = quote_char # concat (map esc s) @ [quote_char]"

fun dumps :: "wire \<Rightarrow> string" where
  "dumps WNull = ''null''"
| "dumps (WBool b) = (if b then ''true'' else ''false'')"
| "dumps (WInt i) = int_str i"
| "dumps (WNum s) = s"
| "dumps (WStr s) = quoted s"
| "dumps (WArr xs) = ''['' @ join '','' (map dumps xs) @ '']''"
| "dumps (WObj kvs) = ''{'' @ join '','' (map (\<lambda>(k, v). quoted k @ '':'' @ dumps v) kvs) @ ''}''"

text \<open>Why parsing stops: no JSON, an integer of more digits than \<open>int\<close> takes (a bare
  \<open>ValueError\<close>, not a \<open>JSONDecodeError\<close>), more nesting than the interpreter's stack takes
  (a \<open>RecursionError\<close>), or no fuel.\<close>

datatype json_error = NotJson | IntegerTooLong | TooDeep | NoFuel

definition json_space :: "char \<Rightarrow> bool" where
  "json_space c \<longleftrightarrow> of_char c \<in> {9, 10, 13, 32 :: nat}"

definition skip_space :: "string \<Rightarrow> string" where
  "skip_space s = dropWhile json_space s"

definition simple_escape :: "char \<Rightarrow> char option" where
  "simple_escape c =
     (if c = quote_char \<or> c = escape_char \<or> c = CHR ''/'' then Some c
      else if c = CHR ''b'' then Some (char_of (8 :: nat)) else if c = CHR ''f'' then Some (char_of (12 :: nat))
      else if c = CHR ''n'' then Some (char_of (10 :: nat)) else if c = CHR ''r'' then Some (char_of (13 :: nat))
      else if c = CHR ''t'' then Some (char_of (9 :: nat)) else None)"

text \<open>\<open>00XY\<close> after \<open>\u\<close>.\<close>

definition unicode_escape :: "string \<Rightarrow> char option" where
  "unicode_escape s =
     (case s of
        a # b # x # y # _ \<Rightarrow>
          (case (hex_value a, hex_value b, hex_value x, hex_value y) of
             (Some 0, Some 0, Some h, Some l) \<Rightarrow> Some (char_of (h * 16 + l))
           | _ \<Rightarrow> None)
      | _ \<Rightarrow> None)"

function str_body :: "string \<Rightarrow> json_error + string \<times> string" where
  "str_body s =
     (case s of
        [] \<Rightarrow> Inl NotJson
      | c # r \<Rightarrow>
          if c = quote_char then Inr ([], r)
          else if c = escape_char then
            (case r of
               [] \<Rightarrow> Inl NotJson
             | e # r1 \<Rightarrow>
                 if e = CHR ''u'' then
                   (case unicode_escape r1 of
                      None \<Rightarrow> Inl NotJson
                    | Some d \<Rightarrow> map_sum id (map_prod (Cons d) id) (str_body (drop 4 r1)))
                 else (case simple_escape e of
                         None \<Rightarrow> Inl NotJson
                       | Some d \<Rightarrow> map_sum id (map_prod (Cons d) id) (str_body r1)))
          else if of_char c < (32 :: nat) then Inl NotJson
          else map_sum id (map_prod (Cons c) id) (str_body r))"
  by pat_completeness auto
termination
  by (relation "measure length") auto

declare str_body.simps [simp del]

definition p_frac :: "string \<Rightarrow> string \<times> string" where
  "p_frac s =
     (case s of
        c # r \<Rightarrow> if c = CHR ''.'' \<and> takeWhile is_digit r \<noteq> []
                 then (c # takeWhile is_digit r, dropWhile is_digit r) else ([], s)
      | [] \<Rightarrow> ([], []))"

definition p_exp :: "string \<Rightarrow> string \<times> string" where
  "p_exp s =
     (case s of
        c # r \<Rightarrow>
          if c = CHR ''e'' \<or> c = CHR ''E'' then
            (let (sign, t) = (case r of x # t \<Rightarrow> if x = CHR ''+'' \<or> x = CHR ''-'' then ([x], t) else ([], r)
                              | [] \<Rightarrow> ([], []))
             in if takeWhile is_digit t \<noteq> []
                then (c # sign @ takeWhile is_digit t, dropWhile is_digit t) else ([], s))
          else ([], s)
      | [] \<Rightarrow> ([], []))"

definition MAX_INT_DIGITS :: nat where
  "MAX_INT_DIGITS = 4300"

definition p_number :: "string \<Rightarrow> json_error + wire \<times> string" where
  "p_number s =
     (let (neg, t) = (case s of c # r \<Rightarrow> if c = CHR ''-'' then (True, r) else (False, s) | [] \<Rightarrow> (False, []));
          ds = takeWhile is_digit t
      in if ds = [] then Inl NotJson
         else
           (let ip = (if hd ds = CHR ''0'' then ''0'' else ds);
                (fr, r1) = p_frac (drop (length ip) t);
                (ex, r2) = p_exp r1
            in if fr = [] \<and> ex = [] then
                 (if MAX_INT_DIGITS < length ip then Inl IntegerTooLong
                  else Inr (WInt (if neg then - digits_val ip else digits_val ip), r2))
               else Inr (WNum ((if neg then ''-'' else []) @ ip @ fr @ ex), r2)))"

definition p_atom :: "string \<Rightarrow> json_error + wire \<times> string" where
  "p_atom s =
     (if starts_with s ''null'' then Inr (WNull, drop 4 s)
      else if starts_with s ''true'' then Inr (WBool True, drop 4 s)
      else if starts_with s ''false'' then Inr (WBool False, drop 5 s)
      else if starts_with s ''NaN'' then Inr (WNum ''NaN'', drop 3 s)
      else if starts_with s ''Infinity'' then Inr (WNum ''Infinity'', drop 8 s)
      else if starts_with s ''-Infinity'' then Inr (WNum ''-Infinity'', drop 9 s)
      else p_number s)"

fun p_value :: "nat \<Rightarrow> nat \<Rightarrow> string \<Rightarrow> json_error + wire \<times> string"
  and p_items :: "nat \<Rightarrow> nat \<Rightarrow> string \<Rightarrow> json_error + wire list \<times> string"
  and p_members :: "nat \<Rightarrow> nat \<Rightarrow> string \<Rightarrow> json_error + (string \<times> wire) list \<times> string" where
  "p_value d 0 s = Inl NoFuel"
| "p_value d (Suc n) s =
     (case s of
        [] \<Rightarrow> Inl NotJson
      | c # r \<Rightarrow>
          if c = quote_char then map_sum id (map_prod WStr id) (str_body r)
          else if c = CHR ''['' then
            if d = 0 then Inl TooDeep else
            (case skip_space r of
               [] \<Rightarrow> Inl NotJson
             | b # r1 \<Rightarrow> if b = CHR '']'' then Inr (WArr [], r1)
                        else map_sum id (map_prod WArr id) (p_items (d - 1) n (b # r1)))
          else if c = CHR ''{'' then
            if d = 0 then Inl TooDeep else
            (case skip_space r of
               [] \<Rightarrow> Inl NotJson
             | b # r1 \<Rightarrow> if b = CHR ''}'' then Inr (WObj [], r1)
                        else map_sum id (map_prod WObj id) (p_members (d - 1) n (b # r1)))
          else p_atom s)"
| "p_items d 0 s = Inl NoFuel"
| "p_items d (Suc n) s =
     (case p_value d n s of
        Inl e \<Rightarrow> Inl e
      | Inr (v, r) \<Rightarrow>
          (case skip_space r of
             [] \<Rightarrow> Inl NotJson
           | c # r1 \<Rightarrow>
               if c = CHR '']'' then Inr ([v], r1)
               else if c = CHR '','' then map_sum id (map_prod (Cons v) id) (p_items d n (skip_space r1))
               else Inl NotJson))"
| "p_members d 0 s = Inl NoFuel"
| "p_members d (Suc n) s =
     (case s of
        [] \<Rightarrow> Inl NotJson
      | q # r0 \<Rightarrow>
          if q \<noteq> quote_char then Inl NotJson
          else
            (case str_body r0 of
               Inl e \<Rightarrow> Inl e
             | Inr (k, r) \<Rightarrow>
                 (case skip_space r of
                    [] \<Rightarrow> Inl NotJson
                  | c # r1 \<Rightarrow>
                      if c \<noteq> CHR '':'' then Inl NotJson
                      else
                        (case p_value d n (skip_space r1) of
                           Inl e \<Rightarrow> Inl e
                         | Inr (v, r2) \<Rightarrow>
                             (case skip_space r2 of
                                [] \<Rightarrow> Inl NotJson
                              | b # r3 \<Rightarrow>
                                  if b = CHR ''}'' then Inr ([(k, v)], r3)
                                  else if b = CHR '','' then
                                    map_sum id (map_prod (Cons (k, v)) id) (p_members d n (skip_space r3))
                                  else Inl NotJson)))))"

definition loads :: "nat \<Rightarrow> string \<Rightarrow> json_error + wire" where
  "loads d s =
     (if \<not> is_ascii s then Inl NotJson
      else (case p_value d (2 * length s + 2) (skip_space s) of
              Inl e \<Rightarrow> Inl e
            | Inr (v, r) \<Rightarrow> if skip_space r = [] then Inr v else Inl NotJson))"

text \<open>\<open>payload.get(name)\<close> on a parsed object: the last of several equal keys counts.\<close>

definition wire_get :: "(string \<times> wire) list \<Rightarrow> string \<Rightarrow> wire option" where
  "wire_get kvs name = map_of (rev kvs) name"

section \<open>Parsing what was printed\<close>

lemma hex_value_digit: "n < 16 \<Longrightarrow> hex_value (hex_digit n) = Some n"
  by (auto simp: hex_value_def hex_digit_def Let_def)

lemma unicode_escape_esc:
  "unicode_escape (CHR ''0'' # CHR ''0'' # hex_digit (of_char c div 16) # hex_digit (of_char c mod 16) # t) = Some c"
proof -
  have "(of_char c :: nat) div 16 < 16" using char_less_256 [of c] by (simp add: div_less_iff_less_mult)
  moreover have "hex_value (CHR ''0'') = Some 0" by (simp add: hex_value_def)
  moreover have "char_of ((of_char c :: nat) div 16 * 16 + of_char c mod 16) = c"
    by (simp only: div_mult_mod_eq char_of_char)
  ultimately show ?thesis by (simp add: unicode_escape_def hex_value_digit)
qed

lemma char_of_of_char_nat: "(of_char c :: nat) = n \<Longrightarrow> char_of n = c"
  by (metis char_of_char)

lemma str_body_esc: "str_body (esc c @ t) = map_sum id (map_prod (Cons c) id) (str_body t)"
proof -
  have neq: "quote_char \<noteq> escape_char" "CHR ''u'' \<noteq> quote_char" by simp_all
  show ?thesis
    by (subst str_body.simps)
       (auto simp: esc_def Let_def unicode_escape_esc simple_escape_def char_of_of_char_nat)
qed

lemma str_body_quoted: "str_body (concat (map esc s) @ quote_char # t) = Inr (s, t)"
proof (induction s)
  case Nil
  show ?case by (subst str_body.simps) simp
next
  case (Cons c s)
  then show ?case by (simp add: str_body_esc)
qed

text \<open>What may follow a value: nothing, or a character that ends a number.\<close>

definition ends_value :: "string \<Rightarrow> bool" where
  "ends_value s \<longleftrightarrow> s = [] \<or> hd s \<in> set '',]}''"

lemma takeWhile_stop: "r = [] \<or> \<not> P (hd r) \<Longrightarrow> takeWhile P (ds @ r) = takeWhile P ds"
  by (induction ds) (cases r, auto)

lemma ends_value_hd: "ends_value (c # r) \<Longrightarrow> \<not> is_digit c \<and> c \<noteq> CHR ''.'' \<and> c \<noteq> CHR ''e'' \<and> c \<noteq> CHR ''E''"
  by (simp add: ends_value_def is_digit_def) auto

lemma ends_value_facts:
  assumes "ends_value r"
  shows "takeWhile is_digit (ds @ r) = takeWhile is_digit ds" "p_frac r = ([], r)" "p_exp r = ([], r)"
proof -
  have "r = [] \<or> \<not> is_digit (hd r)" using assms ends_value_hd by (cases r) auto
  then show "takeWhile is_digit (ds @ r) = takeWhile is_digit ds" by (rule takeWhile_stop)
  show "p_frac r = ([], r)" "p_exp r = ([], r)"
    using assms ends_value_hd by (cases r; simp add: p_frac_def p_exp_def)+
qed

lemma nat_str_leading: "0 < n \<Longrightarrow> hd (nat_str n) \<noteq> CHR ''0''"
proof (induction n rule: nat_str.induct)
  case (1 n)
  show ?case
  proof (cases "n < 10")
    case True
    with 1(2) have "digit_char n \<noteq> digit_char 0" by (simp add: digit_char_inj)
    moreover have "digit_char 0 = CHR ''0''" by code_simp
    ultimately show ?thesis using True by (simp add: nat_str.simps [of n])
  next
    case False
    with 1 show ?thesis by (simp add: nat_str.simps [of n])
  qed
qed

lemma p_number_nat:
  assumes "ends_value r" "length (nat_str n) \<le> MAX_INT_DIGITS"
  shows "p_number (nat_str n @ r) = Inr (WInt (int n), r)"
    and "p_number (CHR ''-'' # nat_str n @ r) = Inr (WInt (- int n), r)"
proof -
  have tw: "takeWhile is_digit (nat_str n @ r) = nat_str n"
    using ends_value_facts(1) [OF assms(1), of "nat_str n"] by (simp add: nat_str_is_digit)
  have ip: "(if hd (nat_str n) = CHR ''0'' then ''0'' else nat_str n) = nat_str n"
  proof (cases "n = 0")
    case True
    show ?thesis unfolding True by code_simp
  qed (simp add: nat_str_leading)
  obtain c cs where c: "nat_str n = c # cs" using nat_str_not_Nil neq_Nil_conv by metis
  then have "c \<noteq> CHR ''-''" using nat_str_is_digit [of c n] by (auto simp: is_digit_def)
  then have sgn: "(case nat_str n @ r of c # x \<Rightarrow> if c = CHR ''-'' then (True, x) else (False, nat_str n @ r)
      | [] \<Rightarrow> (False, [])) = (False, nat_str n @ r)"
    by (simp add: c)
  show "p_number (nat_str n @ r) = Inr (WInt (int n), r)"
    unfolding p_number_def sgn Let_def prod.case tw ip
    using ends_value_facts(2,3) [OF assms(1)] assms(2)
    by (simp add: digits_val_nat_str)
  show "p_number (CHR ''-'' # nat_str n @ r) = Inr (WInt (- int n), r)"
    unfolding p_number_def Let_def list.case if_True simp_thms prod.case tw ip
    using ends_value_facts(2,3) [OF assms(1)] assms(2)
    by (simp add: digits_val_nat_str)
qed

definition int_digits :: "int \<Rightarrow> nat" where
  "int_digits i = length (nat_str (nat \<bar>i\<bar>))"

lemma p_number_int:
  assumes "ends_value r" "int_digits i \<le> MAX_INT_DIGITS"
  shows "p_number (int_str i @ r) = Inr (WInt i, r)"
  using p_number_nat [OF assms(1), of "nat (- i)"] p_number_nat [OF assms(1), of "nat i"] assms(2)
  by (auto simp: int_str_def int_digits_def)

text \<open>The values the encoder writes: no other numbers, no integers past the limit.\<close>

fun plain :: "wire \<Rightarrow> bool" where
  "plain (WNum s) = False"
| "plain (WInt i) = (int_digits i \<le> MAX_INT_DIGITS)"
| "plain (WArr xs) = list_all plain xs"
| "plain (WObj kvs) = list_all (\<lambda>(k, v). plain v) kvs"
| "plain _ = True"

text \<open>A value whose arrays and objects nest at most \<open>d\<close> deep.\<close>

fun fits :: "nat \<Rightarrow> wire \<Rightarrow> bool" where
  "fits d (WArr xs) = (0 < d \<and> list_all (fits (d - 1)) xs)"
| "fits d (WObj kvs) = (0 < d \<and> list_all (\<lambda>(k, v). fits (d - 1) v) kvs)"
| "fits d _ = True"

lemma int_str_hd: "\<exists>c cs. int_str i = c # cs \<and> (is_digit c \<or> c = CHR ''-'' \<and> (\<exists>d ds. cs = d # ds \<and> is_digit d))"
proof -
  have h: "\<exists>d ds. nat_str n = d # ds \<and> is_digit d" for n
  proof -
    obtain d ds where d: "nat_str n = d # ds" using nat_str_not_Nil neq_Nil_conv by metis
    then have "is_digit d" by (intro nat_str_is_digit [of d n]) simp
    with d show ?thesis by blast
  qed
  show ?thesis
  proof (cases "i < 0")
    case True
    obtain d ds where "nat_str (nat (- i)) = d # ds" "is_digit d" using h by blast
    with True show ?thesis by (simp add: int_str_def)
  next
    case False
    obtain d ds where "nat_str (nat i) = d # ds" "is_digit d" using h by blast
    with False show ?thesis by (simp add: int_str_def)
  qed
qed

lemma p_atom_int:
  assumes "ends_value r" "int_digits i \<le> MAX_INT_DIGITS"
  shows "p_atom (int_str i @ r) = Inr (WInt i, r)"
proof -
  from int_str_hd [of i] obtain c cs where c: "int_str i = c # cs"
    "is_digit c \<or> c = CHR ''-'' \<and> (\<exists>d ds. cs = d # ds \<and> is_digit d)"
    by (elim exE conjE)
  have no: "is_digit x \<Longrightarrow> x \<noteq> CHR ''n'' \<and> x \<noteq> CHR ''t'' \<and> x \<noteq> CHR ''f'' \<and> x \<noteq> CHR ''N'' \<and> x \<noteq> CHR ''I'' \<and> x \<noteq> CHR ''-''" for x
    by (auto simp: is_digit_def)
  from c(2) have "p_atom (c # cs @ r) = p_number (c # cs @ r)"
    by (elim disjE conjE exE) (simp_all add: p_atom_def no)
  then have "p_atom (int_str i @ r) = p_number (int_str i @ r)" by (simp add: c(1))
  with p_number_int [OF assms] show ?thesis by simp
qed

lemma skip_space_hd: "s \<noteq> [] \<Longrightarrow> \<not> json_space (hd s) \<Longrightarrow> skip_space s = s"
  by (cases s) (simp_all add: skip_space_def)

lemma dumps_hd: "plain w \<Longrightarrow> \<exists>c cs. dumps w = c # cs \<and> \<not> json_space c \<and> c \<noteq> CHR '']'' \<and> c \<noteq> CHR ''}''"
proof (cases w)
  case (WInt i)
  then show ?thesis using int_str_hd [of i] by (auto simp: json_space_def is_digit_def)
qed (auto simp: json_space_def quoted_def)

lemma skip_space_dumps: "plain w \<Longrightarrow> skip_space (dumps w @ r) = dumps w @ r"
  using dumps_hd [of w] by (auto intro: skip_space_hd)

text \<open>The printed forms of the elements of an array and of the members of an object.\<close>

abbreviation member :: "string \<times> wire \<Rightarrow> string" where
  "member kv \<equiv> (case kv of (k, v) \<Rightarrow> quoted k @ '':'' @ dumps v)"

lemma join_Cons: "xs \<noteq> [] \<Longrightarrow> join sep (x # xs) = x @ sep @ join sep xs"
  by (cases xs) simp_all

lemma p_value_dumps:
  "plain w \<Longrightarrow> ends_value r \<Longrightarrow> length (dumps w) \<le> n \<Longrightarrow> fits d w \<Longrightarrow> p_value d n (dumps w @ r) = Inr (w, r)"
proof (induction w arbitrary: d n r)
  case WNull
  then show ?case by (cases n) (simp_all add: p_atom_def)
next
  case (WBool b)
  then show ?case by (cases n; cases b) (auto simp: p_atom_def)
next
  case (WInt i)
  from int_str_hd [of i] obtain c cs where c: "int_str i = c # cs" "is_digit c \<or> c = CHR ''-''"
    by (elim exE conjE) blast
  moreover obtain m where "n = Suc m" using WInt.prems(3) c by (cases n) auto
  ultimately show ?case
    using p_atom_int [OF WInt.prems(2), of i] WInt.prems(1) by (auto simp: is_digit_def)
next
  case (WStr s)
  then obtain m where "n = Suc m" by (cases n) (auto simp: quoted_def)
  then show ?case by (simp add: quoted_def str_body_quoted)
next
  case (WArr xs)
  then obtain e where d: "d = Suc e" by (cases d) auto
  have items: "vs \<noteq> [] \<Longrightarrow> set vs \<subseteq> set xs \<Longrightarrow> Suc (length (join '','' (map dumps vs))) \<le> k \<Longrightarrow>
      p_items e k (join '','' (map dumps vs) @ CHR '']'' # r) = Inr (vs, r)" for vs k
  proof (induction vs arbitrary: k)
    case (Cons v vs)
    then obtain m where k: "k = Suc m" by (cases k) auto
    have v: "plain v" "v \<in> set xs" "fits e v"
      using Cons.prems(2) WArr.prems(1,4) by (auto simp: list_all_iff d)
    have rb: "ends_value (CHR '']'' # r)" "ends_value (CHR '','' # s)" for s by (simp_all add: ends_value_def)
    show ?case
    proof (cases "vs = []")
      case True
      with Cons.prems(3) k have "length (dumps v) \<le> m" by simp
      from WArr.IH [OF v(2,1) rb(1) this v(3)] True k show ?thesis by (simp add: skip_space_def json_space_def)
    next
      case False
      with Cons.prems(3) k have l: "length (dumps v) \<le> m" "Suc (length (join '','' (map dumps vs))) \<le> m"
        by (simp_all add: join_Cons)
      have "skip_space (join '','' (map dumps vs) @ CHR '']'' # r) = join '','' (map dumps vs) @ CHR '']'' # r"
      proof -
        obtain v' vs' where vs: "vs = v' # vs'" using False by (cases vs) auto
        with Cons.prems(2) WArr.prems(1) have "plain v'" by (auto simp: list_all_iff)
        from dumps_hd [OF this] vs show ?thesis by (cases vs') (auto intro!: skip_space_hd)
      qed
      with WArr.IH [OF v(2,1) rb(2) l(1) v(3)] Cons.IH [OF False _ l(2)] Cons.prems(2) False k
      show ?thesis by (simp add: join_Cons skip_space_def json_space_def)
    qed
  qed simp
  show ?case
  proof (cases xs)
    case Nil
    with WArr.prems(3) show ?thesis by (cases n) (simp_all add: d skip_space_def json_space_def)
  next
    case (Cons v vs)
    with WArr.prems(1) have "plain v" by simp
    from dumps_hd [OF this] Cons obtain c cs where c: "join '','' (map dumps xs) = c # cs"
      "\<not> json_space c" "c \<noteq> CHR '']''" by (cases vs) auto
    obtain m where n: "n = Suc m" using WArr.prems(3) by (cases n) auto
    have "p_items e m (c # cs @ CHR '']'' # r) = Inr (xs, r)"
      using items [of xs m] Cons WArr.prems(3) n c(1) by simp
    with c n show ?thesis by (simp add: d skip_space_def)
  qed
next
  case (WObj kvs)
  then obtain e where d: "d = Suc e" by (cases d) auto
  have members: "vs \<noteq> [] \<Longrightarrow> set vs \<subseteq> set kvs \<Longrightarrow> Suc (length (join '','' (map member vs))) \<le> k \<Longrightarrow>
      p_members e k (join '','' (map member vs) @ CHR ''}'' # r) = Inr (vs, r)" for vs k
  proof (induction vs arbitrary: k)
    case (Cons kv vs)
    then obtain m where k: "k = Suc m" by (cases k) auto
    obtain a v where kv: "kv = (a, v)" by fastforce
    have v: "plain v" "(a, v) \<in> set kvs" "fits e v"
      using Cons.prems(2) WObj.prems(1,4) kv by (auto simp: list_all_iff d)
    have rb: "ends_value (CHR ''}'' # r)" "ends_value (CHR '','' # s)" for s by (simp_all add: ends_value_def)
    have sp: "skip_space (dumps v @ s) = dumps v @ s" "skip_space (CHR '':'' # s) = CHR '':'' # s"
        "skip_space (CHR '','' # s) = CHR '','' # s" "skip_space (CHR ''}'' # s) = CHR ''}'' # s" for s
      using skip_space_dumps [OF v(1)] by (simp_all add: skip_space_def json_space_def)
    have IH: "ends_value s \<Longrightarrow> length (dumps v) \<le> m \<Longrightarrow> p_value e m (dumps v @ s) = Inr (v, s)" for s
      using WObj.IH [OF v(2), of v] v(1,3) by simp
    show ?case
    proof (cases "vs = []")
      case True
      with Cons.prems(3) k have "length (dumps v) \<le> m" by (simp add: kv)
      from IH [OF rb(1) this] True k show ?thesis by (simp add: kv quoted_def str_body_quoted sp)
    next
      case False
      with Cons.prems(3) k have l: "length (dumps v) \<le> m" "Suc (length (join '','' (map member vs))) \<le> m"
        by (simp_all add: join_Cons kv)
      have "skip_space (join '','' (map member vs) @ CHR ''}'' # r) = join '','' (map member vs) @ CHR ''}'' # r"
        using False by (cases vs; cases "tl vs") (auto simp: quoted_def skip_space_def json_space_def)
      with IH [OF rb(2) l(1)] Cons.IH [OF False _ l(2)] Cons.prems(2) False k
      show ?thesis by (simp add: join_Cons kv quoted_def str_body_quoted sp)
    qed
  qed simp
  show ?case
  proof (cases kvs)
    case Nil
    with WObj.prems(3) show ?thesis by (cases n) (simp_all add: d skip_space_def json_space_def)
  next
    case (Cons kv vs)
    then obtain cs where c: "join '','' (map member kvs) = quote_char # cs"
      by (cases vs; cases kv) (auto simp: quoted_def)
    obtain m where n: "n = Suc m" using WObj.prems(3) by (cases n) auto
    have "p_members e m (quote_char # cs @ CHR ''}'' # r) = Inr (kvs, r)"
      using members [of kvs m] Cons WObj.prems(3) n c by simp
    with c n show ?thesis by (simp add: d skip_space_def json_space_def)
  qed
qed simp

lemma esc_ascii: "x \<in> set (esc c) \<Longrightarrow> (of_char x :: nat) < 128"
proof -
  have "(of_char (hex_digit n) :: nat) < 128" if "n < 16" for n
    using that by (simp add: hex_digit_def)
  moreover have "(of_char c :: nat) div 16 < 16" using char_less_256 [of c] by (simp add: div_less_iff_less_mult)
  ultimately show "x \<in> set (esc c) \<Longrightarrow> (of_char x :: nat) < 128"
    by (auto simp: esc_def Let_def split: if_splits)
qed

lemma quoted_ascii: "x \<in> set (quoted s) \<Longrightarrow> (of_char x :: nat) < 128"
  by (auto simp: quoted_def dest: esc_ascii)

lemma int_str_ascii: "x \<in> set (int_str i) \<Longrightarrow> (of_char x :: nat) < 128"
  using nat_str_is_digit by (fastforce simp: int_str_def is_digit_def Let_def split: if_splits)

lemma set_join: "x \<in> set (join sep xs) \<Longrightarrow> x \<in> set sep \<or> (\<exists>y \<in> set xs. x \<in> set y)"
  by (induction sep xs rule: join.induct) auto

lemma dumps_ascii: "plain w \<Longrightarrow> x \<in> set (dumps w) \<Longrightarrow> (of_char x :: nat) < 128"
proof (induction w)
  case (WBool b)
  then show ?case by (cases b) auto
next
  case (WArr xs)
  then show ?case by (auto simp: list_all_iff dest!: set_join)
next
  case (WObj kvs)
  then show ?case by (fastforce simp: list_all_iff dest!: set_join dest: quoted_ascii)
qed (auto simp: int_str_ascii quoted_ascii)

theorem loads_dumps: "plain w \<Longrightarrow> fits d w \<Longrightarrow> loads d (dumps w) = Inr w"
proof -
  assume w: "plain w" and d: "fits d w"
  from w have "is_ascii (dumps w)" by (auto simp: is_ascii_def list_all_iff dumps_ascii)
  moreover have "p_value d (2 * length (dumps w) + 2) (dumps w @ []) = Inr (w, [])"
    using w by (rule p_value_dumps) (simp_all add: ends_value_def d)
  moreover have "skip_space (dumps w) = dumps w" using skip_space_dumps [OF w, of "[]"] by simp
  ultimately show ?thesis by (simp add: loads_def skip_space_def)
qed

section \<open>Parsing always ends\<close>

lemma length_skip_space: "length (skip_space s) \<le> length s"
  by (simp add: skip_space_def length_dropWhile_le)

lemma skip_space_Cons_length: "skip_space s = c # r \<Longrightarrow> Suc (length r) \<le> length s"
  using length_skip_space [of s] by simp

lemma str_body_length: "str_body s = Inr (t, r) \<Longrightarrow> length r < length s"
proof (induction s arbitrary: t rule: str_body.induct)
  case (1 s)
  show ?case
  proof (cases s)
    case Nil
    with 1(4) show ?thesis by (subst (asm) str_body.simps) simp
  next
    case (Cons c rr)
    have ms: "map_sum id (map_prod (Cons d) id) x = Inr (t, r) \<Longrightarrow> \<exists>t'. x = Inr (t', r)" for d and x :: "json_error + string \<times> string"
      by (cases x) auto
    from 1(4) Cons show ?thesis
      apply (subst (asm) str_body.simps)
      apply (auto split: if_splits list.splits option.splits dest!: ms)
         apply (drule 1(1) [OF Cons, rotated -1]; fastforce)
        apply (drule 1(2) [OF Cons, rotated -1]; fastforce)
       apply (drule 1(3) [OF Cons, rotated -1]; fastforce)
      done
  qed
qed

lemma map_sum_Inr: "map_sum id (map_prod f id) x = Inr (t, r) \<Longrightarrow> \<exists>t'. x = Inr (t', r) \<and> t = f t'"
  by (cases x) auto

lemma map_sum_Inl: "map_sum id (map_prod f id) x = Inl e \<longleftrightarrow> x = Inl e"
  by (cases x) auto

lemma str_body_fuel: "str_body s \<noteq> Inl NoFuel"
proof (induction s rule: str_body.induct)
  case (1 s)
  show ?case
  proof (cases s)
    case Nil
    then show ?thesis by (subst str_body.simps) simp
  next
    case (Cons c rr)
    then show ?thesis
      by (subst str_body.simps)
         (auto split: if_splits list.splits option.splits simp: map_sum_Inl 1)
  qed
qed

lemma p_frac_length: "p_frac s = (f, r) \<Longrightarrow> length r \<le> length s"
  by (cases s) (auto simp: p_frac_def length_dropWhile_le le_SucI split: if_splits)

lemma p_exp_length: "p_exp s = (f, r) \<Longrightarrow> length r \<le> length s"
proof (cases s)
  case (Cons c t)
  have d: "length (dropWhile is_digit x) \<le> length x" for x :: string by (rule length_dropWhile_le)
  assume "p_exp s = (f, r)"
  with Cons d [of t] d [of "tl t"] show ?thesis
    by (cases t) (auto simp: p_exp_def split: if_splits prod.splits)
qed (simp add: p_exp_def)

lemma p_number_length: "p_number s = Inr (v, r) \<Longrightarrow> length r < length s"
proof -
  assume a: "p_number s = Inr (v, r)"
  define t where "t = snd (case s of c # r \<Rightarrow> if c = CHR ''-'' then (True, r) else (False, s) | [] \<Rightarrow> (False, []))"
  have t: "length t \<le> length s" by (auto simp: t_def split: list.split)
  define ip where "ip = (if hd (takeWhile is_digit t) = CHR ''0'' then ''0'' else takeWhile is_digit t)"
  from a have ds: "takeWhile is_digit t \<noteq> []"
    by (auto simp: p_number_def Let_def t_def split: prod.splits)
  then have "t \<noteq> []" "0 < length ip" by (auto simp: ip_def)
  then have "length (drop (length ip) t) < length t" by (cases t) auto
  moreover from a ds obtain f r1 e where "p_frac (drop (length ip) t) = (f, r1)" "p_exp r1 = (e, r)"
    by (auto simp: p_number_def Let_def t_def ip_def split: prod.splits if_splits)
  ultimately show ?thesis using p_frac_length p_exp_length t by fastforce
qed

lemma starts_with_length: "starts_with s p \<Longrightarrow> length p \<le> length s"
  by (auto simp: starts_with_iff)

lemma p_atom_length: "p_atom s = Inr (v, r) \<Longrightarrow> length r < length s"
  by (auto simp: p_atom_def p_number_length split: if_splits dest!: starts_with_length)

lemma p_atom_fuel: "p_atom s \<noteq> Inl NoFuel"
  by (auto simp: p_atom_def p_number_def Let_def split: if_splits prod.splits)

lemma p_items_SucD:
  assumes "p_items d (Suc n) s = Inr (vs, r)"
  obtains v r0 c r1 where "p_value d n s = Inr (v, r0)" "skip_space r0 = c # r1"
    "r = r1 \<or> (\<exists>ws. p_items d n (skip_space r1) = Inr (ws, r))"
  using assms by (auto split: sum.splits prod.splits list.splits if_splits dest!: map_sum_Inr)

lemma p_members_SucD:
  assumes "p_members d (Suc n) s = Inr (kvs, r)"
  obtains q r0 k r' c r1 v r2 b r3 where "s = q # r0" "str_body r0 = Inr (k, r')" "skip_space r' = c # r1"
    "p_value d n (skip_space r1) = Inr (v, r2)" "skip_space r2 = b # r3"
    "r = r3 \<or> (\<exists>ws. p_members d n (skip_space r3) = Inr (ws, r))"
  using assms by (auto split: sum.splits prod.splits list.splits if_splits dest!: map_sum_Inr)

lemma p_value_SucD:
  assumes "p_value d (Suc n) s = Inr (v, r)"
  obtains c t where "s = c # t"
    "(\<exists>w. str_body t = Inr (w, r)) \<or> p_atom s = Inr (v, r) \<or> (\<exists>x. skip_space t = x # r) \<or>
     (\<exists>x r1 w. skip_space t = x # r1 \<and> (p_items (d - 1) n (x # r1) = Inr (w, r))) \<or>
     (\<exists>x r1 w. skip_space t = x # r1 \<and> (p_members (d - 1) n (x # r1) = Inr (w, r)))"
  using assms by (auto split: list.splits if_splits dest!: map_sum_Inr)

lemma parse_length:
  "(\<forall>d s v r. p_value d n s = Inr (v, r) \<longrightarrow> length r < length s) \<and>
   (\<forall>d s vs r. p_items d n s = Inr (vs, r) \<longrightarrow> length r < length s) \<and>
   (\<forall>d s kvs r. p_members d n s = Inr (kvs, r) \<longrightarrow> length r < length s)"
proof (induction n)
  case (Suc n)
  have V: "p_value d n s = Inr (v, r) \<Longrightarrow> length r < length s"
    and I: "p_items d n s = Inr (vs, r) \<Longrightarrow> length r < length s"
    and M: "p_members d n s = Inr (kvs, r) \<Longrightarrow> length r < length s" for d s v r vs kvs
    using Suc by blast+
  have "length r < length s" if "p_value d (Suc n) s = Inr (v, r)" for d s v r
    using that
  proof (cases rule: p_value_SucD)
    case (1 c t)
    then show ?thesis
      by (fastforce dest: I M str_body_length p_atom_length skip_space_Cons_length)
  qed
  moreover have "length r < length s" if "p_items d (Suc n) s = Inr (vs, r)" for d s vs r
    using that
  proof (cases rule: p_items_SucD)
    case (1 v r0 c r1)
    from 1(3) have "length r \<le> length r1" using length_skip_space [of r1] by (auto dest!: I)
    with V [OF 1(1)] skip_space_Cons_length [OF 1(2)] show ?thesis by simp
  qed
  moreover have "length r < length s" if "p_members d (Suc n) s = Inr (kvs, r)" for d s kvs r
    using that
  proof (cases rule: p_members_SucD)
    case (1 q r0 k r' c r1 v r2 b r3)
    from 1(6) have "length r \<le> length r3" using length_skip_space [of r3] by (auto dest!: M)
    moreover have "length r1 < length r'" "length r3 < length r2"
      using skip_space_Cons_length [OF 1(3)] skip_space_Cons_length [OF 1(5)] by simp_all
    ultimately show ?thesis
      using V [OF 1(4)] str_body_length [OF 1(2)] length_skip_space [of r1] 1(1) by simp
  qed
  ultimately show ?case by blast
qed simp

lemma parse_fuel:
  "(\<forall>d s. 2 * length s + 1 \<le> n \<longrightarrow> p_value d n s \<noteq> Inl NoFuel) \<and>
   (\<forall>d s. 2 * length s + 2 \<le> n \<longrightarrow> p_items d n s \<noteq> Inl NoFuel) \<and>
   (\<forall>d s. 2 * length s + 2 \<le> n \<longrightarrow> p_members d n s \<noteq> Inl NoFuel)"
proof (induction n)
  case (Suc n)
  have V: "2 * length s + 1 \<le> n \<Longrightarrow> p_value d n s \<noteq> Inl NoFuel"
    and I: "2 * length s + 2 \<le> n \<Longrightarrow> p_items d n s \<noteq> Inl NoFuel"
    and M: "2 * length s + 2 \<le> n \<Longrightarrow> p_members d n s \<noteq> Inl NoFuel" for d s
    using Suc by blast+
  have LV: "p_value d n s = Inr (v, r) \<Longrightarrow> length r < length s" for d s v r
    using parse_length by blast
  have "p_value d (Suc n) s \<noteq> Inl NoFuel" if "2 * length s + 1 \<le> Suc n" for d s
  proof (cases s)
    case (Cons c t)
    have "p_items (d - 1) n (b # r) \<noteq> Inl NoFuel \<and> p_members (d - 1) n (b # r) \<noteq> Inl NoFuel" if "skip_space t = b # r" for b r
      using skip_space_Cons_length [OF that] Cons \<open>2 * length s + 1 \<le> Suc n\<close> I M by simp
    then show ?thesis
      using Cons by (auto simp: map_sum_Inl str_body_fuel p_atom_fuel split: list.splits if_splits)
  qed simp
  moreover have "p_items d (Suc n) s \<noteq> Inl NoFuel" if b: "2 * length s + 2 \<le> Suc n" for d s
  proof -
    have "p_items d n (skip_space r1) \<noteq> Inl NoFuel" if "p_value d n s = Inr (v, r)" "skip_space r = c # r1" for v r c r1
      using LV [OF that(1)] skip_space_Cons_length [OF that(2)] length_skip_space [of r1] b by (intro I) simp
    with V [of s] b show ?thesis by (auto simp: map_sum_Inl split: sum.splits prod.splits list.splits if_splits)
  qed
  moreover have "p_members d (Suc n) s \<noteq> Inl NoFuel" if b: "2 * length s + 2 \<le> Suc n" for d s
  proof (cases s)
    case (Cons q r0)
    have v: "2 * length (skip_space r1) + 1 \<le> n \<and> length r1 < length r0"
      if "str_body r0 = Inr (k, r)" "skip_space r = c # r1" for k r c r1
      using str_body_length [OF that(1)] skip_space_Cons_length [OF that(2)] length_skip_space [of r1] b Cons by simp
    have m: "p_members d n (skip_space r3) \<noteq> Inl NoFuel"
      if "str_body r0 = Inr (k, r)" "skip_space r = c # r1" "p_value d n (skip_space r1) = Inr (w, r2)"
        "skip_space r2 = b # r3" for k r c r1 w r2 b r3
    proof (rule M)
      have "length r3 < length r2" using skip_space_Cons_length [OF that(4)] by simp
      also have "\<dots> < length (skip_space r1)" by (rule LV [OF that(3)])
      finally show "2 * length (skip_space r3) + 2 \<le> n"
        using v [OF that(1,2)] length_skip_space [of r3] by simp
    qed
    show ?thesis
      using Cons V v m str_body_fuel [of r0]
      by (auto simp: map_sum_Inl split: sum.splits prod.splits list.splits if_splits)
  qed simp
  ultimately show ?case by blast
qed simp

theorem loads_total: "loads d s \<noteq> Inl NoFuel"
proof -
  have "p_value d (2 * length s + 2) (skip_space s) \<noteq> Inl NoFuel"
    using length_skip_space [of s] parse_fuel [of "2 * length s + 2"] by simp
  then show ?thesis by (auto simp: loads_def split: sum.splits prod.splits)
qed

text \<open>An integer past the limit is no parse failure but a bare \<open>ValueError\<close>.\<close>

lemma loads_long_integer:
  assumes "MAX_INT_DIGITS < n"
  shows "loads d (replicate n (CHR ''7'')) = Inl IntegerTooLong"
proof -
  have d: "is_digit (CHR ''7'')" by (simp add: is_digit_def)
  obtain m where n: "n = Suc m" using assms by (cases n) auto
  have tw: "takeWhile is_digit (replicate n (CHR ''7'')) = replicate n (CHR ''7'')" using d by simp
  have "p_number (replicate n (CHR ''7'')) = Inl IntegerTooLong"
    unfolding p_number_def using tw assms by (simp add: n Let_def p_frac_def p_exp_def d)
  moreover have "p_atom (replicate n (CHR ''7'')) = p_number (replicate n (CHR ''7''))"
    by (simp add: p_atom_def n)
  ultimately have "p_value d (2 * n + 2) (replicate n (CHR ''7'')) = Inl IntegerTooLong" by (simp add: n)
  moreover have "skip_space (replicate n (CHR ''7'')) = replicate n (CHR ''7'')"
    by (simp add: n skip_space_def json_space_def)
  moreover have "is_ascii (replicate n (CHR ''7''))" by (simp add: is_ascii_def list_all_iff)
  ultimately show ?thesis by (simp add: loads_def)
qed

text \<open>Nor is more nesting than the stack takes: a \<open>RecursionError\<close>.\<close>

lemma p_value_deep: "2 * d < n \<Longrightarrow> p_value d n (replicate (Suc d) (CHR ''['')) = Inl TooDeep"
proof (induction d arbitrary: n)
  case 0
  then show ?case by (cases n) simp_all
next
  case (Suc d)
  then obtain m where n: "n = Suc (Suc m)" "2 * d < m" by (cases n; cases "n - 1") auto
  then show ?case using Suc.IH [of m] by (simp add: skip_space_def json_space_def)
qed

lemma loads_deep: "loads d (replicate (Suc d) (CHR ''['')) = Inl TooDeep"
proof -
  have "skip_space (replicate (Suc d) (CHR ''['')) = replicate (Suc d) (CHR ''['')"
    by (simp add: skip_space_def json_space_def)
  moreover have "is_ascii (replicate (Suc d) (CHR ''[''))" by (simp add: is_ascii_def list_all_iff)
  moreover have "p_value d (2 * length (replicate (Suc d) (CHR ''['')) + 2) (replicate (Suc d) (CHR ''['')) = Inl TooDeep"
    by (rule p_value_deep) simp
  ultimately show ?thesis by (simp add: loads_def del: replicate.simps)
qed

end
