(* ===== verification/Floats.thy ===== *)
theory Floats
  imports Complex_Main "HOL-Library.Log_Nat"
begin

text \<open>
  Python's \<open>float\<close> where an integer is computed from one: a binary64 value is the rational number
  it stands for, and \<open>fl\<close> rounds the exact result of an operation to the nearest such value,
  ties to even.  \<open>binade\<close> is the exponent of the leading bit; below \<open>2 ^ -1022\<close> the spacing stops
  shrinking.  Overflow to infinity is left out: the values rounded here are below \<open>2 ^ 17\<close>.
\<close>

definition binade :: "rat \<Rightarrow> int" where
  "binade x =
     (let k = bitlen (fst (quotient_of x)) - bitlen (snd (quotient_of x))
      in if 2 powi k \<le> x then k else k - 1)"

definition round_half_even :: "rat \<Rightarrow> int" where
  "round_half_even x =
     (let f = \<lfloor>x\<rfloor>; d = x - of_int f
      in if d < 1 / 2 then f else if 1 / 2 < d then f + 1 else if even f then f else f + 1)"

definition fl_pos :: "rat \<Rightarrow> rat" where
  "fl_pos x =
     (let e = max (binade x) (-1022) - 52
      in of_int (round_half_even (x / 2 powi e)) * 2 powi e)"

definition fl :: "rat \<Rightarrow> rat" where
  "fl x = (if x = 0 then 0 else if 0 < x then fl_pos x else - fl_pos (- x))"

lemma round_half_even_error: "\<bar>of_int (round_half_even x) - x\<bar> \<le> 1 / 2"
proof -
  have "of_int \<lfloor>x\<rfloor> \<le> x" "x < of_int \<lfloor>x\<rfloor> + 1" by linarith+
  then show ?thesis by (auto simp: round_half_even_def Let_def abs_le_iff)
qed

lemma bitlen_powi:
  assumes "0 < n"
  shows "2 powi (bitlen n - 1) \<le> (of_int n :: rat)" "(of_int n :: rat) < 2 powi bitlen n"
proof -
  have b: "2 ^ nat (bitlen n - 1) \<le> n" "n < 2 ^ nat (bitlen n)"
    using bitlen_bounds [OF assms] by auto
  have p: "0 < bitlen n" using assms bitlen_nonneg [of n] bitlen_eq_zero_iff [of n] by linarith
  have e: "(2 :: rat) powi k = of_int (2 ^ nat k)" if "0 \<le> k" for k
    using that by (simp add: power_int_def)
  show "2 powi (bitlen n - 1) \<le> (of_int n :: rat)"
    using b(1) p by (metis e of_int_le_iff zle_diff1_eq)
  show "(of_int n :: rat) < 2 powi bitlen n"
    using b(2) p by (metis e less_imp_le of_int_less_iff)
qed

lemma binade_bounds:
  assumes "0 < x"
  shows "2 powi binade x \<le> x" "x < 2 powi (binade x + 1)"
proof -
  obtain a b where q: "quotient_of x = (a, b)" by fastforce
  have x: "x = of_int a / of_int b" and b: "0 < b"
    using quotient_of_div [OF q] quotient_of_denom_pos [OF q] by auto
  have a: "0 < a" using assms b by (simp add: x zero_less_divide_iff)
  define k where "k = bitlen a - bitlen b"
  note A = bitlen_powi [OF a] and B = bitlen_powi [OF b]
  have b': "(0 :: rat) < of_int b" using b by simp
  have "2 powi (k - 1) * of_int b \<le> (2 powi (k - 1) * 2 powi bitlen b :: rat)"
    using B(2) by (intro mult_left_mono) auto
  also have "\<dots> = 2 powi (bitlen a - 1)"
    by (simp add: power_int_add [symmetric] k_def)
  finally have lo: "2 powi (k - 1) \<le> x" using A(1) b' by (simp add: x pos_le_divide_eq)
  have "of_int a < (2 powi (k + 1) * 2 powi (bitlen b - 1) :: rat)"
    using A(2) by (simp add: power_int_add [symmetric] k_def)
  also have "\<dots> \<le> 2 powi (k + 1) * of_int b"
    using B(1) by (intro mult_left_mono) auto
  finally have hi: "x < 2 powi (k + 1)" using b' by (simp add: x pos_divide_less_eq)
  show "2 powi binade x \<le> x" "x < 2 powi (binade x + 1)"
    using lo hi by (auto simp: binade_def q k_def [symmetric])
qed

lemma fl_pos_error:
  assumes "0 < x" "x < 2 powi k" "-1021 \<le> k"
  shows "\<bar>fl_pos x - x\<bar> \<le> 2 powi (k - 54)"
proof -
  have "(2 :: rat) powi binade x < 2 powi k" using binade_bounds(1) [OF assms(1)] assms(2) by linarith
  then have "binade x < k" using power_int_increasing [of k "binade x" "2 :: rat"] by linarith
  define e where "e = max (binade x) (-1022) - 52"
  then have e: "e \<le> k - 53" using \<open>binade x < k\<close> assms(3) by linarith
  have p: "(0 :: rat) < 2 powi e" by simp
  have "\<bar>fl_pos x - x\<bar> = \<bar>(of_int (round_half_even (x / 2 powi e)) - x / 2 powi e) * 2 powi e\<bar>"
    using p by (simp add: fl_pos_def Let_def e_def [symmetric] left_diff_distrib)
  also have "\<dots> = \<bar>of_int (round_half_even (x / 2 powi e)) - x / 2 powi e\<bar> * 2 powi e"
    using p by (simp add: abs_mult)
  also have "\<dots> \<le> 1 / 2 * 2 powi e"
    using round_half_even_error p by (intro mult_right_mono) auto
  also have "\<dots> = 2 powi (e - 1)" by (simp add: power_int_diff)
  also have "\<dots> \<le> 2 powi (k - 54)" using e by (intro power_int_increasing) auto
  finally show ?thesis .
qed

lemma fl_error: "0 < x \<Longrightarrow> x < 2 powi k \<Longrightarrow> -1021 \<le> k \<Longrightarrow> \<bar>fl x - x\<bar> \<le> 2 powi (k - 54)"
  using fl_pos_error by (simp add: fl_def)

lemma fl_nonneg: "0 \<le> x \<Longrightarrow> 0 \<le> fl x"
proof -
  have "0 \<le> round_half_even y" if "0 \<le> y" for y
    using that by (auto simp: round_half_even_def Let_def)
  then show "0 \<le> x \<Longrightarrow> 0 \<le> fl x" by (auto simp: fl_def fl_pos_def Let_def)
qed

end
