(* ===== verification/Agent_Tokens.thy ===== *)
theory Agent_Tokens
  imports Json_Text Floats
begin

text \<open>
  Agent tokens, \<open>agent_tokens.py\<close>: the scope grammar, the signed envelope, the registry
  table and the operations issue, rotate, revoke and validate.

  \<open>sign\<close> and \<open>verify\<close> are Ed25519 under the instance's key, \<open>jti\<close> is the fresh identifier
  \<open>uuid4\<close> gives; times are whole seconds.  A time to live is a float, the rational number it
  stands for, and \<open>fl\<close> of \<open>Floats\<close> rounds what is computed from it.  \<open>d\<close> is how many arrays and
  objects the interpreter can still open inside one another when it parses a segment.
\<close>

section \<open>Constants and errors\<close>

definition AGENT_TOKEN_HEADER_TYPE :: string where
  "AGENT_TOKEN_HEADER_TYPE = ''mnemos-agent-token''"

definition MAX_TTL_HOURS :: rat where
  "MAX_TTL_HOURS = 24"

definition SCOPE_READ :: string where
  "SCOPE_READ = ''read''"

definition SCOPE_RW :: string where
  "SCOPE_RW = ''rw''"

definition DEFAULT_ISSUER :: string where
  "DEFAULT_ISSUER = ''vesma''"

definition MAX_AGENT_ID_LEN :: nat where
  "MAX_AGENT_ID_LEN = 128"

definition MAX_NODE_ID_LEN :: nat where
  "MAX_NODE_ID_LEN = 128"

definition MAX_SLUG_LEN :: nat where
  "MAX_SLUG_LEN = 64"

text \<open>The typed errors, and the exceptions that are none of them: a plain \<open>ValueError\<close> or a
  \<open>RecursionError\<close> of the JSON parser, the failed insert of a known identifier, and the missing token of a rotation.\<close>

datatype token_error =
    MalformedToken
  | BadSignature
  | UnsupportedVersion
  | ScopeError
  | AgentTokenError
  | UncaughtValueError
  | UncaughtRecursionError
  | IntegrityError
  | LookupError

section \<open>Scopes\<close>

definition valid_project_slug :: "string \<Rightarrow> bool" where
  "valid_project_slug slug \<longleftrightarrow>
     slug \<noteq> [] \<and> length slug \<le> MAX_SLUG_LEN \<and> strip slug = slug \<and>
     \<not> list_ex (\<lambda>c. c \<in> set slug) [CHR '':'', CHR '','', CHR '' '', CHR 0x09, CHR ''*'']"

abbreviation project_prefix :: string where
  "project_prefix \<equiv> ''project:''"

text \<open>The loop over the grants: the class grant and the projects so far.\<close>

fun scope_loop :: "string list \<Rightarrow> string option \<Rightarrow> string list \<Rightarrow> token_error + string option \<times> string list" where
  "scope_loop [] cls projects = Inr (cls, projects)"
| "scope_loop (g # gs) cls projects =
     (if g = SCOPE_READ \<or> g = SCOPE_RW then
        (if cls \<noteq> None \<and> cls \<noteq> Some g then Inl ScopeError else scope_loop gs (Some g) projects)
      else if starts_with g project_prefix then
        (let slug = drop (length project_prefix) g in
         if \<not> valid_project_slug slug then Inl ScopeError
         else scope_loop gs cls (List.insert slug projects))
      else Inl ScopeError)"

definition parse_scope :: "string \<Rightarrow> token_error + string list" where
  "parse_scope spec =
     (let grants = filter (\<lambda>g. g \<noteq> []) (map strip (split_on (CHR '','') spec)) in
      if grants = [] then Inr [SCOPE_READ]
      else (case scope_loop grants None [] of
              Inl e \<Rightarrow> Inl e
            | Inr (cls, projects) \<Rightarrow>
                if 32 < length projects then Inl ScopeError
                else Inr ((case cls of None \<Rightarrow> SCOPE_READ | Some c \<Rightarrow> c) #
                          map (\<lambda>p. project_prefix @ p) (sort projects))))"

definition scope_allows_write :: "string list \<Rightarrow> bool" where
  "scope_allows_write scope \<longleftrightarrow> SCOPE_RW \<in> set scope"

definition token_project_grants :: "string list \<Rightarrow> string list" where
  "token_project_grants scope =
     map (drop (length project_prefix)) (filter (\<lambda>g. starts_with g project_prefix) scope)"

section \<open>Envelopes\<close>

record claims =
  c_iss :: string
  c_sub :: string
  c_aud :: string
  c_scope :: "string list"
  c_iat :: int
  c_exp :: int
  c_jti :: string
  c_v :: int

definition header_of :: "claims \<Rightarrow> wire" where
  "header_of c =
     WObj [(''typ'', WStr AGENT_TOKEN_HEADER_TYPE), (''alg'', WStr ''Ed25519''), (''v'', WInt (c_v c))]"

definition payload_of :: "claims \<Rightarrow> wire" where
  "payload_of c =
     WObj [(''v'', WInt (c_v c)), (''iss'', WStr (c_iss c)), (''sub'', WStr (c_sub c)),
           (''aud'', WStr (c_aud c)), (''scope'', WArr (map WStr (c_scope c))),
           (''iat'', WInt (c_iat c)), (''exp'', WInt (c_exp c)), (''jti'', WStr (c_jti c))]"

definition encode_agent_token :: "(string \<Rightarrow> string) \<Rightarrow> claims \<Rightarrow> string" where
  "encode_agent_token sign c =
     (let header_b64 = b64url_encode (dumps (header_of c));
          payload_b64 = b64url_encode (dumps (payload_of c));
          signature = sign (header_b64 @ ''.'' @ payload_b64)
      in header_b64 @ ''.'' @ payload_b64 @ ''.'' @ b64url_encode signature)"

definition require_str :: "(string \<times> wire) list \<Rightarrow> string \<Rightarrow> nat \<Rightarrow> token_error + string" where
  "require_str payload name max_len =
     (case wire_get payload name of
        Some (WStr s) \<Rightarrow> if s = [] \<or> max_len < length s then Inl MalformedToken else Inr s
      | _ \<Rightarrow> Inl MalformedToken)"

definition require_int :: "(string \<times> wire) list \<Rightarrow> string \<Rightarrow> token_error + int" where
  "require_int payload name =
     (case wire_get payload name of Some (WInt i) \<Rightarrow> Inr i | _ \<Rightarrow> Inl MalformedToken)"

fun wire_strings :: "wire list \<Rightarrow> string list option" where
  "wire_strings [] = Some []"
| "wire_strings (WStr s # ws) = map_option (Cons s) (wire_strings ws)"
| "wire_strings (_ # ws) = None"

definition validated_scope :: "(string \<times> wire) list \<Rightarrow> token_error + string list" where
  "validated_scope payload =
     (case wire_get payload ''scope'' of
        Some (WArr ws) \<Rightarrow>
          if ws = [] then Inl MalformedToken
          else
            (case wire_strings ws of
               None \<Rightarrow> Inl MalformedToken
             | Some scope \<Rightarrow>
                 if scope_allows_write scope \<and> SCOPE_READ \<in> set scope then Inl MalformedToken
                 else (case parse_scope (join '','' scope) of
                         Inl e \<Rightarrow> Inl e
                       | Inr normalized \<Rightarrow> if normalized \<noteq> scope then Inl MalformedToken else Inr scope))
      | _ \<Rightarrow> Inl MalformedToken)"

definition bind :: "token_error + 'a \<Rightarrow> ('a \<Rightarrow> token_error + 'b) \<Rightarrow> token_error + 'b" where
  "bind x f = (case x of Inl e \<Rightarrow> Inl e | Inr a \<Rightarrow> f a)"

definition claims_from_payload :: "(string \<times> wire) list \<Rightarrow> token_error + claims" where
  "claims_from_payload payload =
     bind (require_str payload ''iss'' MAX_AGENT_ID_LEN) (\<lambda>iss.
     bind (require_str payload ''sub'' MAX_AGENT_ID_LEN) (\<lambda>sub.
     bind (require_str payload ''aud'' MAX_NODE_ID_LEN) (\<lambda>aud.
     bind (validated_scope payload) (\<lambda>scope.
     bind (require_int payload ''iat'') (\<lambda>iat.
     bind (require_int payload ''exp'') (\<lambda>exp.
     bind (require_str payload ''jti'' 64) (\<lambda>jti.
       if exp \<le> iat then Inl MalformedToken
       else Inr \<lparr>c_iss = iss, c_sub = sub, c_aud = aud, c_scope = scope, c_iat = iat, c_exp = exp,
                 c_jti = jti, c_v = 1\<rparr>)))))))"

definition load_segment :: "nat \<Rightarrow> string \<Rightarrow> token_error + wire" where
  "load_segment d segment =
     (case b64url_decode segment of
        None \<Rightarrow> Inl MalformedToken
      | Some text \<Rightarrow>
          (case loads d text of
             Inl IntegerTooLong \<Rightarrow> Inl UncaughtValueError
           | Inl TooDeep \<Rightarrow> Inl UncaughtRecursionError
           | Inl _ \<Rightarrow> Inl MalformedToken
           | Inr w \<Rightarrow> Inr w))"

text \<open>The number a JSON text with a fraction or an exponent denotes, before it is rounded to a float.\<close>

definition exponent_value :: "string \<Rightarrow> int" where
  "exponent_value s =
     (case s of
        [] \<Rightarrow> 0
      | c # ds \<Rightarrow> if c = CHR ''-'' then - digits_val ds
                 else if c = CHR ''+'' then digits_val ds else digits_val s)"

definition number_value :: "string \<Rightarrow> rat option" where
  "number_value s =
     (if s \<in> {''NaN'', ''Infinity'', ''-Infinity''} then None
      else
        (let t = (if starts_with s ''-'' then drop 1 s else s);
             whole = takeWhile is_digit t;
             (fraction, r) = p_frac (dropWhile is_digit t);
             exponent = exponent_value (drop 1 (fst (p_exp r)))
         in Some ((if starts_with s ''-'' then -1 else 1) * of_int (digits_val (whole @ drop 1 fraction)) *
                  10 powi (exponent - int (length fraction - 1)))))"

text \<open>\<open>== 1\<close> in Python: the integer, the float and \<open>True\<close>.\<close>

definition is_version_1 :: "wire option \<Rightarrow> bool" where
  "is_version_1 w =
     (case w of
        Some (WInt i) \<Rightarrow> i = 1
      | Some (WBool b) \<Rightarrow> b
      | Some (WNum s) \<Rightarrow> (case number_value s of None \<Rightarrow> False | Some q \<Rightarrow> fl q = 1)
      | _ \<Rightarrow> False)"

definition decode_agent_token :: "nat \<Rightarrow> (string \<Rightarrow> string \<Rightarrow> bool) \<Rightarrow> string \<Rightarrow> token_error + claims" where
  "decode_agent_token d verify token =
     (case split_on (CHR ''.'') (strip token) of
        [header_b64, payload_b64, signature_b64] \<Rightarrow>
          if header_b64 = [] \<or> payload_b64 = [] \<or> signature_b64 = [] then Inl MalformedToken
          else
            bind (load_segment d header_b64) (\<lambda>header.
            bind (load_segment d payload_b64) (\<lambda>payload.
              (case b64url_decode signature_b64 of
                 None \<Rightarrow> Inl MalformedToken
               | Some signature \<Rightarrow>
                   (case (header, payload) of
                      (WObj h, WObj p) \<Rightarrow>
                        if wire_get h ''typ'' \<noteq> Some (WStr AGENT_TOKEN_HEADER_TYPE) \<or>
                           wire_get h ''alg'' \<noteq> Some (WStr ''Ed25519'')
                        then Inl UnsupportedVersion
                        else if \<not> is_version_1 (wire_get h ''v'') \<or> \<not> is_version_1 (wire_get p ''v'')
                        then Inl UnsupportedVersion
                        else if \<not> verify signature (header_b64 @ ''.'' @ payload_b64) then Inl BadSignature
                        else claims_from_payload p
                    | _ \<Rightarrow> Inl MalformedToken))))
      | _ \<Rightarrow> Inl MalformedToken)"

section \<open>The registry\<close>

record token_row =
  tr_jti :: string
  tr_agent_id :: string
  tr_aud :: string
  tr_scope :: string
  tr_iat :: int
  tr_exp :: int
  tr_revoked_at :: "int option"
  tr_grace_until :: "int option"

type_synonym token_table = "token_row list"

definition register :: "claims \<Rightarrow> token_table \<Rightarrow> token_error + token_table" where
  "register c t =
     (if row_find tr_jti (c_jti c) t \<noteq> None then Inl IntegrityError
      else Inr (t @ [\<lparr>tr_jti = c_jti c, tr_agent_id = c_sub c, tr_aud = c_aud c,
                     tr_scope = join '','' (c_scope c), tr_iat = c_iat c, tr_exp = c_exp c,
                     tr_revoked_at = None, tr_grace_until = None\<rparr>]))"

definition revoke_jti :: "string \<Rightarrow> int \<Rightarrow> token_table \<Rightarrow> bool \<times> token_table" where
  "revoke_jti jti now t =
     (let P = (\<lambda>r. tr_jti r = jti \<and> tr_revoked_at r = None)
      in (0 < rowcount P t, rows_update P (\<lambda>r. r\<lparr>tr_revoked_at := Some now\<rparr>) t))"

definition revoke_agent :: "string \<Rightarrow> int \<Rightarrow> token_table \<Rightarrow> nat \<times> token_table" where
  "revoke_agent agent_id now t =
     (let P = (\<lambda>r. tr_agent_id r = agent_id \<and> tr_revoked_at r = None)
      in (rowcount P t, rows_update P (\<lambda>r. r\<lparr>tr_revoked_at := Some now\<rparr>) t))"

definition set_grace :: "string \<Rightarrow> int \<Rightarrow> token_table \<Rightarrow> bool \<times> token_table" where
  "set_grace jti grace_until t =
     (let P = (\<lambda>r. tr_jti r = jti \<and> tr_revoked_at r = None)
      in (0 < rowcount P t, rows_update P (\<lambda>r. r\<lparr>tr_grace_until := Some grace_until\<rparr>) t))"

definition get_token :: "token_table \<Rightarrow> string \<Rightarrow> token_row option" where
  "get_token t jti = row_find tr_jti jti t"

definition live_rows_for_agent :: "string \<Rightarrow> token_table \<Rightarrow> token_row list" where
  "live_rows_for_agent agent_id t =
     order_desc tr_iat (filter (\<lambda>r. tr_agent_id r = agent_id \<and> tr_revoked_at r = None) t)"

definition list_tokens :: "token_table \<Rightarrow> token_row list" where
  "list_tokens t = order_desc tr_iat t"

section \<open>Operations\<close>

definition issue_agent_token ::
  "(string \<Rightarrow> string) \<Rightarrow> string \<Rightarrow> int \<Rightarrow> string \<Rightarrow> string \<Rightarrow> string \<Rightarrow> rat \<Rightarrow> string \<Rightarrow> token_table \<Rightarrow>
   (token_error + string \<times> claims) \<times> token_table" where
  "issue_agent_token sign jti now agent_id node_id scope_spec ttl_hours issuer_id t =
     (if agent_id = [] \<or> MAX_AGENT_ID_LEN < length agent_id then (Inl AgentTokenError, t)
      else if node_id = [] \<or> MAX_NODE_ID_LEN < length node_id then (Inl AgentTokenError, t)
      else if \<not> (0 < ttl_hours \<and> ttl_hours \<le> MAX_TTL_HOURS) then (Inl AgentTokenError, t)
      else
        (case parse_scope scope_spec of
           Inl e \<Rightarrow> (Inl e, t)
         | Inr scope \<Rightarrow>
             (let c = \<lparr>c_iss = issuer_id, c_sub = agent_id, c_aud = node_id, c_scope = scope, c_iat = now,
                       c_exp = now + \<lfloor>fl (ttl_hours * 3600)\<rfloor>, c_jti = jti, c_v = 1\<rparr>
              in (case register c t of
                    Inl e \<Rightarrow> (Inl e, t)
                  | Inr t1 \<Rightarrow> (Inr (encode_agent_token sign c, c), t1)))))"

text \<open>One round of the grace loop; the state is the table and the count.\<close>

definition grace_step :: "int \<Rightarrow> int \<Rightarrow> token_table \<times> nat \<Rightarrow> token_row \<Rightarrow> token_table \<times> nat" where
  "grace_step now grace_until st r =
     (case st of (t, graced) \<Rightarrow>
        if now < tr_exp r \<and> tr_grace_until r = None then
          (case set_grace (tr_jti r) grace_until t of
             (ok, t1) \<Rightarrow> (t1, if ok then graced + 1 else graced))
        else (t, graced))"

text \<open>The grace marks are committed row by row, so an error of the issue leaves them in place.\<close>

definition rotate_agent_token ::
  "(string \<Rightarrow> string) \<Rightarrow> string \<Rightarrow> int \<Rightarrow> string \<Rightarrow> int \<Rightarrow> token_table \<Rightarrow>
   (token_error + string \<times> claims \<times> nat) \<times> token_table" where
  "rotate_agent_token sign jti now agent_id grace_minutes t =
     (if grace_minutes < 0 \<or> 60 < grace_minutes then (Inl AgentTokenError, t)
      else
        (let live = live_rows_for_agent agent_id t in
         (case find (\<lambda>r. now < tr_exp r \<and> tr_grace_until r = None) live of
            None \<Rightarrow> (Inl LookupError, t)
          | Some current \<Rightarrow>
              (case foldl (grace_step now (now + grace_minutes * 60)) (t, 0) live of
                 (t1, graced) \<Rightarrow>
                   (let lifetime = min (tr_exp current - tr_iat current) \<lfloor>MAX_TTL_HOURS * 3600\<rfloor>;
                        ttl_hours = max (fl (of_int lifetime / 3600)) (fl (1 / 3600))
                    in (case issue_agent_token sign jti now agent_id (tr_aud current) (tr_scope current)
                               ttl_hours DEFAULT_ISSUER t1 of
                          (Inl e, t2) \<Rightarrow> (Inl e, t2)
                        | (Inr (token, c), t2) \<Rightarrow> (Inr (token, c, graced), t2)))))))"

datatype reject_reason =
    Malformed | BadSig | Unsupported | Expired | NotYetValid | AudMismatch | UnknownJti | Revoked | GraceExpired

record token_verdict =
  tv_valid :: bool
  tv_agent_id :: "string option"
  tv_scope :: "string list"
  tv_jti :: "string option"
  tv_aud :: "string option"
  tv_exp_ok :: bool
  tv_revoked :: bool
  tv_reason :: "reject_reason option"

definition reject_unread :: "reject_reason \<Rightarrow> token_verdict" where
  "reject_unread why =
     \<lparr>tv_valid = False, tv_agent_id = None, tv_scope = [], tv_jti = None, tv_aud = None,
      tv_exp_ok = False, tv_revoked = False, tv_reason = Some why\<rparr>"

definition verdict_on :: "claims \<Rightarrow> bool \<Rightarrow> bool \<Rightarrow> bool \<Rightarrow> reject_reason option \<Rightarrow> token_verdict" where
  "verdict_on c valid exp_ok revoked why =
     \<lparr>tv_valid = valid, tv_agent_id = Some (c_sub c), tv_scope = c_scope c, tv_jti = Some (c_jti c),
      tv_aud = Some (c_aud c), tv_exp_ok = exp_ok, tv_revoked = revoked, tv_reason = why\<rparr>"

fun reason_for :: "token_error \<Rightarrow> reject_reason" where
  "reason_for BadSignature = BadSig"
| "reason_for UnsupportedVersion = Unsupported"
| "reason_for _ = Malformed"

definition validate_agent_token ::
  "nat \<Rightarrow> (string \<Rightarrow> string \<Rightarrow> bool) \<Rightarrow> int \<Rightarrow> string \<Rightarrow> string \<Rightarrow> token_table \<Rightarrow> token_error + token_verdict" where
  "validate_agent_token d verify now token node_id t =
     (if token = [] \<or> 8192 < length token then Inr (reject_unread Malformed)
      else
        (case decode_agent_token d verify token of
           Inl e \<Rightarrow> if e \<in> {UncaughtValueError, UncaughtRecursionError} then Inl e else Inr (reject_unread (reason_for e))
         | Inr c \<Rightarrow>
             if \<not> (c_iat c \<le> now \<and> now < c_exp c) then
               Inr (verdict_on c False False False (Some (if c_exp c \<le> now then Expired else NotYetValid)))
             else if c_aud c \<noteq> node_id then Inr (verdict_on c False True False (Some AudMismatch))
             else
               (case get_token t (c_jti c) of
                  None \<Rightarrow> Inr (verdict_on c False True False (Some UnknownJti))
                | Some r \<Rightarrow>
                    if tr_revoked_at r \<noteq> None then Inr (verdict_on c False True True (Some Revoked))
                    else if (case tr_grace_until r of None \<Rightarrow> False | Some g \<Rightarrow> g \<le> now) then
                      Inr (verdict_on c False True False (Some GraceExpired))
                    else Inr (verdict_on c True True False None))))"

section \<open>Canonical scopes\<close>

definition canonical_scope :: "string list \<Rightarrow> bool" where
  "canonical_scope scope \<longleftrightarrow>
     (\<exists>cls ps. scope = cls # map (\<lambda>p. project_prefix @ p) ps \<and> cls \<in> {SCOPE_READ, SCOPE_RW} \<and>
        sorted ps \<and> distinct ps \<and> list_all valid_project_slug ps \<and> length ps \<le> 32)"

lemma scope_loop_inv:
  assumes "scope_loop gs cls ps = Inr (cls', ps')"
    and "cls \<in> {None, Some SCOPE_READ, Some SCOPE_RW}" "distinct ps" "list_all valid_project_slug ps"
  shows "cls' \<in> {None, Some SCOPE_READ, Some SCOPE_RW} \<and> distinct ps' \<and> list_all valid_project_slug ps'"
  using assms
  by (induction gs cls ps rule: scope_loop.induct)
     (auto simp: Let_def List.insert_def split: if_splits)

lemma parse_scope_canonical: "parse_scope spec = Inr scope \<Longrightarrow> canonical_scope scope"
proof -
  assume a: "parse_scope spec = Inr scope"
  define gs where "gs = filter (\<lambda>g. g \<noteq> []) (map strip (split_on (CHR '','') spec))"
  show ?thesis
  proof (cases "gs = []")
    case True
    with a show ?thesis by (auto simp: parse_scope_def gs_def [symmetric] canonical_scope_def)
  next
    case False
    with a obtain cls ps where l: "scope_loop gs None [] = Inr (cls, ps)" "length ps \<le> 32"
      "scope = (case cls of None \<Rightarrow> SCOPE_READ | Some c \<Rightarrow> c) # map (\<lambda>p. project_prefix @ p) (sort ps)"
      by (auto simp: parse_scope_def gs_def [symmetric] Let_def split: sum.splits prod.splits if_splits)
    from scope_loop_inv [OF l(1)] have "cls \<in> {None, Some SCOPE_READ, Some SCOPE_RW}" "distinct ps"
      "list_all valid_project_slug ps" by auto
    with l(2,3) show ?thesis
      unfolding canonical_scope_def
      by (intro exI [of _ "case cls of None \<Rightarrow> SCOPE_READ | Some c \<Rightarrow> c"] exI [of _ "sort ps"])
         (auto simp: list_all_iff)
  qed
qed

lemma split_on_join:
  "xs \<noteq> [] \<Longrightarrow> \<forall>x \<in> set xs. c \<notin> set x \<Longrightarrow> split_on c (join [c] xs) = xs"
proof (induction xs)
  case (Cons x xs)
  then show ?case
    by (cases xs) (auto simp: split_on_no_sep split_on_append)
qed simp

lemma strip_ends: "s \<noteq> [] \<Longrightarrow> \<not> py_isspace (hd s) \<Longrightarrow> \<not> py_isspace (last s) \<Longrightarrow> strip s = s"
proof -
  assume a: "s \<noteq> []" "\<not> py_isspace (hd s)" "\<not> py_isspace (last s)"
  then have "lstrip s = s" by (intro lstrip_id) simp
  moreover obtain x xs where x: "rev s = x # xs" using a(1) by (cases "rev s") auto
  then have "last s = x" by (metis hd_rev list.sel(1))
  then have "rstrip s = rev (x # xs)" using a(3) x by (simp add: rstrip_def)
  then have "rstrip s = s" by (simp only: x [symmetric] rev_rev_ident)
  ultimately show ?thesis by (simp add: strip_def)
qed

lemma stripped_last: "strip s = s \<Longrightarrow> s \<noteq> [] \<Longrightarrow> \<not> py_isspace (last s)"
  using rstrip_last [of "lstrip s"] by (auto simp: strip_def)

lemma valid_slug_grant:
  assumes "valid_project_slug p"
  shows "strip (project_prefix @ p) = project_prefix @ p" "CHR '','' \<notin> set (project_prefix @ p)"
    "project_prefix @ p \<noteq> SCOPE_READ" "project_prefix @ p \<noteq> SCOPE_RW"
  using assms stripped_last [of p]
  by (auto simp: valid_project_slug_def SCOPE_READ_def SCOPE_RW_def py_isspace_def intro!: strip_ends)

lemma scope_loop_projects:
  "distinct (qs @ acc) \<Longrightarrow> list_all valid_project_slug qs \<Longrightarrow>
   scope_loop (map (\<lambda>p. project_prefix @ p) qs) cls acc = Inr (cls, rev qs @ acc)"
proof (induction qs arbitrary: acc)
  case (Cons q qs)
  then have "valid_project_slug q" by simp
  from valid_slug_grant [OF this] Cons show ?case
    by (simp add: Let_def List.insert_def)
qed simp

lemma class_grant:
  assumes "cls \<in> {SCOPE_READ, SCOPE_RW}"
  shows "strip cls = cls" "CHR '','' \<notin> set cls" "cls \<noteq> []" "\<not> starts_with cls project_prefix"
  using assms by (auto simp: SCOPE_READ_def SCOPE_RW_def strip_no_space py_isspace_def)

lemma parse_canonical_scope:
  assumes "canonical_scope scope"
  shows "parse_scope (join '','' scope) = Inr scope"
proof -
  from assms obtain cls ps where sc: "scope = cls # map (\<lambda>p. project_prefix @ p) ps"
    and cls: "cls \<in> {SCOPE_READ, SCOPE_RW}" and ps: "sorted ps" "distinct ps" "list_all valid_project_slug ps"
      "length ps \<le> 32"
    by (auto simp: canonical_scope_def)
  have g: "strip g = g" "CHR '','' \<notin> set g" "g \<noteq> []" if "g \<in> set scope" for g
    using that valid_slug_grant class_grant [OF cls] ps(3) by (auto simp: sc list_all_iff)
  have "split_on (CHR '','') (join '','' scope) = scope"
    using g(2) by (intro split_on_join) (auto simp: sc)
  then have "filter (\<lambda>g. g \<noteq> []) (map strip (split_on (CHR '','') (join '','' scope))) = scope"
    using g by (simp add: map_idI filter_id_conv)
  moreover have "scope_loop scope None [] = Inr (Some cls, rev ps)"
    using cls scope_loop_projects [of ps "[]" "Some cls"] ps(2,3) by (simp add: sc)
  moreover have "sort (rev ps) = ps"
    using ps(1,2) by (intro sorted_distinct_set_unique) simp_all
  ultimately show ?thesis using ps(4) by (simp add: parse_scope_def sc)
qed

lemma canonical_not_both: "canonical_scope scope \<Longrightarrow> \<not> (scope_allows_write scope \<and> SCOPE_READ \<in> set scope)"
  by (auto simp: canonical_scope_def scope_allows_write_def SCOPE_READ_def SCOPE_RW_def)

section \<open>Decoding what was encoded\<close>

definition claims_ok :: "claims \<Rightarrow> bool" where
  "claims_ok c \<longleftrightarrow>
     c_iss c \<noteq> [] \<and> length (c_iss c) \<le> MAX_AGENT_ID_LEN \<and> c_sub c \<noteq> [] \<and> length (c_sub c) \<le> MAX_AGENT_ID_LEN \<and>
     c_aud c \<noteq> [] \<and> length (c_aud c) \<le> MAX_NODE_ID_LEN \<and> c_jti c \<noteq> [] \<and> length (c_jti c) \<le> 64 \<and>
     canonical_scope (c_scope c) \<and> c_iat c < c_exp c \<and> c_v c = 1 \<and>
     int_digits (c_iat c) \<le> MAX_INT_DIGITS \<and> int_digits (c_exp c) \<le> MAX_INT_DIGITS"

text \<open>Ed25519 as the code relies on it: a signature is not empty and verifies.\<close>

definition signs :: "(string \<Rightarrow> string) \<Rightarrow> (string \<Rightarrow> string \<Rightarrow> bool) \<Rightarrow> bool" where
  "signs sign verify \<longleftrightarrow> (\<forall>m. sign m \<noteq> [] \<and> verify (sign m) m)"

lemma wire_strings_map [simp]: "wire_strings (map WStr xs) = Some xs"
  by (induction xs) simp_all

lemma b64_char_not_space:
  assumes "n < 64"
  shows "\<not> py_isspace (b64_char n)"
proof -
  consider "n < 26" | "26 \<le> n" "n < 52" | "52 \<le> n" "n < 62" | "n = 62" | "n = 63" using assms by linarith
  then show ?thesis
    by cases (auto simp: b64_char_def py_isspace_def)
qed

lemma b64_no_space: "c \<in> set (b64url_encode s) \<Longrightarrow> \<not> py_isspace c"
proof -
  assume "c \<in> set (b64url_encode s)"
  then obtain n where "n < 64" "c = b64_char n" using b64url_encode_chars by blast
  then show ?thesis using b64_char_not_space by simp
qed

lemma segments:
  "split_on (CHR ''.'') (strip (b64url_encode a @ ''.'' @ b64url_encode b @ ''.'' @ b64url_encode c)) =
     [b64url_encode a, b64url_encode b, b64url_encode c]"
proof -
  have dot: "CHR ''.'' \<notin> set (b64url_encode s)" for s using b64url_encode_plain by blast
  have "\<not> py_isspace (CHR ''.'')" by (simp add: py_isspace_def)
  then have "strip (b64url_encode a @ ''.'' @ b64url_encode b @ ''.'' @ b64url_encode c) =
      b64url_encode a @ ''.'' @ b64url_encode b @ ''.'' @ b64url_encode c"
    using b64_no_space by (intro strip_no_space) auto
  then show ?thesis by (simp add: split_on_append dot split_on_no_sep)
qed

lemma load_segment_dumps: "plain w \<Longrightarrow> fits d w \<Longrightarrow> load_segment d (b64url_encode (dumps w)) = Inr w"
  by (simp add: load_segment_def loads_dumps)

lemma int_digits_one: "int_digits 1 \<le> MAX_INT_DIGITS"
proof -
  have "int_digits 1 = 1" by code_simp
  then show ?thesis by (simp add: MAX_INT_DIGITS_def)
qed

lemma payload_fields:
  assumes "payload_of c = WObj p"
  shows "wire_get p ''iss'' = Some (WStr (c_iss c))" "wire_get p ''sub'' = Some (WStr (c_sub c))"
    "wire_get p ''aud'' = Some (WStr (c_aud c))" "wire_get p ''scope'' = Some (WArr (map WStr (c_scope c)))"
    "wire_get p ''iat'' = Some (WInt (c_iat c))" "wire_get p ''exp'' = Some (WInt (c_exp c))"
    "wire_get p ''jti'' = Some (WStr (c_jti c))" "wire_get p ''v'' = Some (WInt (c_v c))"
  using assms by (auto simp: payload_of_def wire_get_def)

lemma validated_scope_of:
  assumes "canonical_scope (c_scope c)" "payload_of c = WObj p"
  shows "validated_scope p = Inr (c_scope c)"
proof -
  have "c_scope c \<noteq> []" using assms(1) by (auto simp: canonical_scope_def)
  then show ?thesis
    using assms(1) parse_canonical_scope [of "c_scope c"] canonical_not_both [of "c_scope c"]
    by (simp add: validated_scope_def payload_fields [OF assms(2)])
qed

lemma claims_from_payload_of:
  assumes "claims_ok c" "payload_of c = WObj p"
  shows "claims_from_payload p = Inr c"
  using assms(1) validated_scope_of [OF _ assms(2)]
  by (simp add: claims_from_payload_def require_str_def require_int_def payload_fields [OF assms(2)] bind_def claims_ok_def)

lemma claims_from_payload_bad:
  assumes "canonical_scope (c_scope c)" "payload_of c = WObj p"
    and "c_iss c = [] \<or> MAX_AGENT_ID_LEN < length (c_iss c) \<or> c_exp c \<le> c_iat c"
  shows "claims_from_payload p = Inl MalformedToken"
  using assms(3) validated_scope_of [OF assms(1,2)]
  by (auto simp: claims_from_payload_def require_str_def require_int_def payload_fields [OF assms(2)] bind_def)

text \<open>A token the encoder wrote decodes to what its payload is read as.\<close>

lemma decode_payload:
  assumes "signs sign verify" "c_v c = 1" "int_digits (c_iat c) \<le> MAX_INT_DIGITS" "int_digits (c_exp c) \<le> MAX_INT_DIGITS"
    and "2 \<le> d" "payload_of c = WObj p"
  shows "decode_agent_token d verify (encode_agent_token sign c) = claims_from_payload p"
proof -
  have h: "plain (header_of c)" and p: "plain (payload_of c)"
    using assms(2-4) int_digits_one by (simp_all add: header_of_def payload_of_def list_all_iff)
  have fit: "fits d (header_of c)" "fits d (payload_of c)"
    using assms(5) by (simp_all add: header_of_def payload_of_def list_all_iff)
  define hb where "hb = b64url_encode (dumps (header_of c))"
  define pb where "pb = b64url_encode (dumps (payload_of c))"
  define sg where "sg = sign (hb @ ''.'' @ pb)"
  have ne: "hb \<noteq> []" "pb \<noteq> []" "sg \<noteq> []" and v: "verify sg (hb @ ''.'' @ pb)"
    using assms(1) dumps_hd [OF h] dumps_hd [OF p] by (auto simp: hb_def pb_def sg_def signs_def)
  have t: "encode_agent_token sign c = hb @ ''.'' @ pb @ ''.'' @ b64url_encode sg"
    by (simp add: encode_agent_token_def hb_def pb_def sg_def Let_def)
  have seg: "split_on (CHR ''.'') (strip (encode_agent_token sign c)) = [hb, pb, b64url_encode sg]"
    unfolding t hb_def pb_def by (rule segments)
  obtain hd where o': "header_of c = WObj hd" by (simp add: header_of_def)
  have "wire_get hd ''typ'' = Some (WStr AGENT_TOKEN_HEADER_TYPE)" "wire_get hd ''alg'' = Some (WStr ''Ed25519'')"
    "is_version_1 (wire_get hd ''v'')" "is_version_1 (wire_get p ''v'')"
    using o' assms(2) payload_fields [OF assms(6)] by (auto simp: header_of_def wire_get_def is_version_1_def)
  moreover have "load_segment d hb = Inr (WObj hd)" "load_segment d pb = Inr (WObj p)"
    using load_segment_dumps [OF h fit(1)] load_segment_dumps [OF p fit(2)] by (simp_all only: hb_def pb_def o' assms(6))
  ultimately show ?thesis
    using ne v by (simp add: decode_agent_token_def seg bind_def)
qed

lemma decode_encode:
  assumes "signs sign verify" "claims_ok c" "2 \<le> d"
  shows "decode_agent_token d verify (encode_agent_token sign c) = Inr c"
proof -
  obtain p where p: "payload_of c = WObj p" by (simp add: payload_of_def)
  have "c_v c = 1" "int_digits (c_iat c) \<le> MAX_INT_DIGITS" "int_digits (c_exp c) \<le> MAX_INT_DIGITS"
    using assms(2) by (simp_all add: claims_ok_def)
  from decode_payload [OF assms(1) this assms(3) p] claims_from_payload_of [OF assms(2) p] show ?thesis by simp
qed

text \<open>A version written as a float is accepted, also one that only rounds to 1.\<close>

lemma float_version_is_1:
  "is_version_1 (Some (WNum ''1.0''))" "is_version_1 (Some (WNum ''10e-1''))"
  "is_version_1 (Some (WNum ''0.99999999999999999999''))" "\<not> is_version_1 (Some (WNum ''1.5''))"
  by code_simp+

end
