(* ===== verification/Token_Registry.thy ===== *)
theory Token_Registry
  imports Agent_Tokens
begin

text \<open>
  What the agent tokens of \<open>Agent_Tokens\<close> promise.  The registry table is refined to the map
  from a token's identifier to its holder and what is left of its life; every operation is an
  operation on that map.  A step relation runs the operations in any order, and the lemmas show
  that a life only ever gets shorter, that every row stays well formed, and what a validation
  answers.
\<close>

section \<open>Lifetimes in floating point\<close>

lemma ttl_seconds:
  assumes "0 < ttl" "ttl \<le> MAX_TTL_HOURS"
  shows "0 \<le> \<lfloor>fl (ttl * 3600)\<rfloor>" "\<lfloor>fl (ttl * 3600)\<rfloor> \<le> 86400"
proof -
  have "\<bar>fl (ttl * 3600) - ttl * 3600\<bar> \<le> 2 powi (17 - 54)"
    using assms by (intro fl_error) (auto simp: MAX_TTL_HOURS_def)
  also have "(2 :: rat) powi (17 - 54) < 1" by simp
  finally have "fl (ttl * 3600) < 86401" using assms by (simp add: MAX_TTL_HOURS_def)
  then show "\<lfloor>fl (ttl * 3600)\<rfloor> \<le> 86400" by linarith
  show "0 \<le> \<lfloor>fl (ttl * 3600)\<rfloor>" using fl_nonneg [of "ttl * 3600"] assms(1) by simp
qed

text \<open>The lifetime a rotation computes from a row, through hours and back to seconds.\<close>

definition rotated_seconds :: "int \<Rightarrow> int" where
  "rotated_seconds l = \<lfloor>fl (max (fl (of_int (min l 86400) / 3600)) (fl (1 / 3600)) * 3600)\<rfloor>"

lemma fl_24: "fl 24 = 24"
  by code_simp

lemma hours_error:
  assumes "1 \<le> l" "l \<le> 86400"
  shows "\<bar>fl (of_int l / 3600) - of_int l / 3600\<bar> \<le> 2 powi (-49)" "fl (of_int l / 3600) \<le> 24"
    "1 / 7200 < fl (of_int l / 3600)"
proof -
  have l: "(1 :: rat) \<le> of_int l" "(of_int l :: rat) \<le> 86400" using assms by simp_all
  have "\<bar>fl (of_int l / 3600) - of_int l / 3600\<bar> \<le> 2 powi (5 - 54)"
    using l by (intro fl_error) auto
  then show e: "\<bar>fl (of_int l / 3600) - of_int l / 3600\<bar> \<le> 2 powi (-49)" by simp
  have s: "(2 :: rat) powi (-49) < 1 / 7200" by simp
  show "1 / 7200 < fl (of_int l / 3600)"
    using e s l by linarith
  show "fl (of_int l / 3600) \<le> 24"
  proof (cases "l = 86400")
    case True
    then show ?thesis by (simp add: fl_24)
  next
    case False
    then have "l \<le> 86399" using assms(2) by linarith
    then have "(of_int l :: rat) \<le> 86399" by simp
    then show ?thesis using e s by linarith
  qed
qed

lemma rotated_hours:
  assumes "1 \<le> l" "l \<le> 86400"
  shows "\<bar>max (fl (of_int l / 3600)) (fl (1 / 3600)) - of_int l / 3600\<bar> \<le> 2 powi (-49)"
    "0 < max (fl (of_int l / 3600)) (fl (1 / 3600))" "max (fl (of_int l / 3600)) (fl (1 / 3600)) \<le> 24"
proof -
  note h = hours_error [OF assms]
  have s: "(2 :: rat) powi (-49) < 1 / 7200" by simp
  have "fl (1 / 3600) \<le> fl (of_int l / 3600) \<or> l = 1"
  proof (cases "l = 1")
    case False
    then have "2 \<le> l" using assms(1) by linarith
    then have "(2 :: rat) \<le> of_int l" by simp
    moreover have "\<bar>fl (1 / 3600) - 1 / 3600\<bar> \<le> (2 :: rat) powi (-49)" using hours_error(1) [of 1] by simp
    ultimately have "fl (1 / 3600) \<le> fl (of_int l / 3600)" using h(1) s by linarith
    then show ?thesis ..
  qed simp
  then have m: "max (fl (of_int l / 3600)) (fl (1 / 3600)) = fl (of_int l / 3600)" by auto
  show "\<bar>max (fl (of_int l / 3600)) (fl (1 / 3600)) - of_int l / 3600\<bar> \<le> 2 powi (-49)"
    "0 < max (fl (of_int l / 3600)) (fl (1 / 3600))" "max (fl (of_int l / 3600)) (fl (1 / 3600)) \<le> 24"
    unfolding m using h by linarith+
qed

lemma rotated_ttl:
  "0 < max (fl (of_int (min l 86400) / 3600)) (fl (1 / 3600)) \<and>
   max (fl (of_int (min l 86400) / 3600)) (fl (1 / 3600)) \<le> MAX_TTL_HOURS"
proof (cases "1 \<le> l")
  case True
  then have "1 \<le> min l 86400" "min l 86400 \<le> 86400" by auto
  from rotated_hours(2,3) [OF this] show ?thesis by (simp add: MAX_TTL_HOURS_def)
next
  case False
  then have n: "(of_int (min l 86400) :: rat) / 3600 \<le> 0" by auto
  have "fl x \<le> 0" if "x \<le> 0" for x
    using that fl_nonneg [of "- x"] by (auto simp: fl_def split: if_splits)
  with n have "fl (of_int (min l 86400) / 3600) \<le> 0" by blast
  with hours_error [of 1] show ?thesis by (simp add: MAX_TTL_HOURS_def max_def)
qed

lemma rotated_seconds_bounds:
  assumes "1 \<le> l"
  shows "min l 86400 - 1 \<le> rotated_seconds l" "rotated_seconds l \<le> min l 86400"
proof -
  define k where "k = min l 86400"
  define h where "h = max (fl (of_int k / 3600)) (fl (1 / 3600))"
  have k: "1 \<le> k" "k \<le> 86400" using assms by (auto simp: k_def)
  note hh = rotated_hours [OF k, folded h_def]
  have "\<bar>fl (h * 3600) - h * 3600\<bar> \<le> 2 powi (17 - 54)"
    using hh by (intro fl_error) auto
  moreover have "(2 :: rat) powi (17 - 54) < 1 / 2" "(2 :: rat) powi (-49) < 1 / 7200" by simp_all
  ultimately have b: "of_int k - 1 < fl (h * 3600)" "fl (h * 3600) < of_int k + 1"
    using hh(1) by linarith+
  then have "k - 1 \<le> \<lfloor>fl (h * 3600)\<rfloor>" "\<lfloor>fl (h * 3600)\<rfloor> \<le> k" by linarith+
  then show "min l 86400 - 1 \<le> rotated_seconds l" "rotated_seconds l \<le> min l 86400"
    by (simp_all add: rotated_seconds_def h_def k_def)
qed

lemma rotation_loses_a_second: "rotated_seconds 115 = 114"
  by code_simp

section \<open>The table as a map of lives\<close>

text \<open>What is left of a token: its full life, the rest of a grace window, or nothing.\<close>

datatype life = Full int | Ending int | Gone

definition life_of :: "token_row \<Rightarrow> life" where
  "life_of r =
     (if tr_revoked_at r \<noteq> None then Gone
      else (case tr_grace_until r of None \<Rightarrow> Full (tr_exp r) | Some g \<Rightarrow> Ending (min (tr_exp r) g)))"

definition holders :: "token_table \<Rightarrow> string \<Rightarrow> (string \<times> life) option" where
  "holders t jti = map_option (\<lambda>r. (tr_agent_id r, life_of r)) (row_find tr_jti jti t)"

fun alive :: "life \<Rightarrow> int \<Rightarrow> bool" where
  "alive (Full e) now \<longleftrightarrow> now < e"
| "alive (Ending u) now \<longleftrightarrow> now < u"
| "alive Gone now \<longleftrightarrow> False"

fun shorten :: "int \<Rightarrow> int \<Rightarrow> life \<Rightarrow> life" where
  "shorten now u (Full e) = (if now < e then Ending (min e u) else Full e)"
| "shorten now u l = l"

text \<open>What can happen to the registry; a rotation names its new token.\<close>

datatype event =
    Issued string string int
  | Rotated string int int string int
  | TokenRevoked string
  | AgentRevoked string
  | Refused

fun apply_event :: "event \<Rightarrow> (string \<Rightarrow> (string \<times> life) option) \<Rightarrow> string \<Rightarrow> (string \<times> life) option" where
  "apply_event (Issued jti a e) m = m(jti \<mapsto> (a, Full e))"
| "apply_event (Rotated a now u jti e) m =
     (\<lambda>j. map_option (\<lambda>(b, l). (b, if b = a then shorten now u l else l)) (m j))(jti \<mapsto> (a, Full e))"
| "apply_event (TokenRevoked jti) m = (\<lambda>j. if j = jti then map_option (\<lambda>(b, l). (b, Gone)) (m j) else m j)"
| "apply_event (AgentRevoked a) m = (\<lambda>j. map_option (\<lambda>(b, l). (b, if b = a then Gone else l)) (m j))"
| "apply_event Refused m = m"

lemma holders_update:
  assumes "\<And>r. tr_jti (f r) = tr_jti r"
  shows "holders (rows_update P f t) j =
     (case row_find tr_jti j t of
        None \<Rightarrow> None
      | Some r \<Rightarrow> if P r then Some (tr_agent_id (f r), life_of (f r)) else Some (tr_agent_id r, life_of r))"
  using row_find_update [of tr_jti f j P t] assms
  by (simp add: holders_def split: option.split)

lemma holders_register:
  "register c t = Inr t1 \<Longrightarrow> holders t1 = (holders t)(c_jti c \<mapsto> (c_sub c, Full (c_exp c)))"
proof
  fix j
  assume "register c t = Inr t1"
  then obtain r where "t1 = t @ [r]" "row_find tr_jti (c_jti c) t = None" "tr_jti r = c_jti c"
    "(tr_agent_id r, life_of r) = (c_sub c, Full (c_exp c))"
    by (auto simp: register_def life_of_def split: if_splits)
  then show "holders t1 j = ((holders t)(c_jti c \<mapsto> (c_sub c, Full (c_exp c)))) j"
    by (simp add: holders_def row_find_append split: option.split)
qed

lemma holders_revoke_jti:
  "holders (snd (revoke_jti jti now t)) = apply_event (TokenRevoked jti) (holders t)"
proof
  fix j
  have "holders (snd (revoke_jti jti now t)) j =
      (case row_find tr_jti j t of None \<Rightarrow> None | Some r \<Rightarrow> Some (tr_agent_id r, if tr_jti r = jti then Gone else life_of r))"
    by (simp add: revoke_jti_def Let_def holders_update life_of_def split: option.split)
  then show "holders (snd (revoke_jti jti now t)) j = apply_event (TokenRevoked jti) (holders t) j"
    by (cases "row_find tr_jti j t") (auto simp: holders_def dest: row_find_SomeD)
qed

lemma holders_revoke_agent:
  "holders (snd (revoke_agent a now t)) = apply_event (AgentRevoked a) (holders t)"
proof
  fix j
  have "holders (snd (revoke_agent a now t)) j =
      (case row_find tr_jti j t of None \<Rightarrow> None | Some r \<Rightarrow> Some (tr_agent_id r, if tr_agent_id r = a then Gone else life_of r))"
    by (simp add: revoke_agent_def Let_def holders_update life_of_def split: option.split)
  then show "holders (snd (revoke_agent a now t)) j = apply_event (AgentRevoked a) (holders t) j"
    by (cases "row_find tr_jti j t") (auto simp: holders_def dest: row_find_SomeD)
qed

section \<open>The grace loop\<close>

abbreviation ungraced :: "int \<Rightarrow> token_row \<Rightarrow> bool" where
  "ungraced now r \<equiv> now < tr_exp r \<and> tr_grace_until r = None"

lemma rows_update_twice:
  assumes "\<And>r. P r \<Longrightarrow> Q (f r) = Q r" "\<And>r. f (f r) = f r"
  shows "rows_update Q f (rows_update P f t) = rows_update (\<lambda>r. P r \<or> Q r) f t"
  using assms by (auto simp: rows_update_def)

lemma grace_loop:
  assumes "\<forall>x \<in> set L. \<exists>r \<in> set t. tr_jti r = tr_jti x \<and> tr_revoked_at r = None"
  shows "foldl (grace_step now u) (t, n) L =
     (rows_update (\<lambda>r. tr_revoked_at r = None \<and> tr_jti r \<in> tr_jti ` {x \<in> set L. ungraced now x})
        (\<lambda>r. r\<lparr>tr_grace_until := Some u\<rparr>) t, n + length (filter (ungraced now) L))"
  using assms
proof (induction L arbitrary: t n)
  case Nil
  then show ?case by (simp add: rows_update_def)
next
  case (Cons x L)
  show ?case
  proof (cases "ungraced now x")
    case False
    have "{y \<in> set (x # L). ungraced now y} = {y \<in> set L. ungraced now y}" using False by auto
    moreover have "grace_step now u (t, n) x = (t, n)" using False by (auto simp: grace_step_def)
    ultimately show ?thesis using Cons False by simp
  next
    case True
    define t1 where "t1 = snd (set_grace (tr_jti x) u t)"
    have t1: "t1 = rows_update (\<lambda>r. tr_jti r = tr_jti x \<and> tr_revoked_at r = None) (\<lambda>r. r\<lparr>tr_grace_until := Some u\<rparr>) t"
      by (simp add: t1_def set_grace_def Let_def)
    have step: "grace_step now u (t, n) x = (t1, n + 1)"
      using True Cons.prems by (auto simp: grace_step_def set_grace_def Let_def t1)
    have pre: "\<forall>y \<in> set L. \<exists>r \<in> set t1. tr_jti r = tr_jti y \<and> tr_revoked_at r = None"
    proof
      fix y assume "y \<in> set L"
      with Cons.prems obtain r where r: "r \<in> set t" "tr_jti r = tr_jti y" "tr_revoked_at r = None" by auto
      let ?f = "\<lambda>r. if tr_jti r = tr_jti x \<and> tr_revoked_at r = None then r\<lparr>tr_grace_until := Some u\<rparr> else r"
      have "?f r \<in> set t1" using r(1) by (auto simp: t1 rows_update_def)
      moreover have "tr_jti (?f r) = tr_jti y \<and> tr_revoked_at (?f r) = None" using r by simp
      ultimately show "\<exists>r \<in> set t1. tr_jti r = tr_jti y \<and> tr_revoked_at r = None" by blast
    qed
    have "{y \<in> set (x # L). ungraced now y} = insert x {y \<in> set L. ungraced now y}" using True by auto
    then show ?thesis
      using True Cons.IH [OF pre, of "n + 1"] unfolding t1
      by (simp add: step t1 rows_update_twice) (auto simp: rows_update_def)
  qed
qed

definition wf_table :: "token_table \<Rightarrow> bool" where
  "wf_table t \<longleftrightarrow> distinct (map tr_jti t)"

lemma grace_live:
  assumes "wf_table t"
  shows "foldl (grace_step now u) (t, 0) (live_rows_for_agent a t) =
     (rows_update (\<lambda>r. tr_agent_id r = a \<and> tr_revoked_at r = None \<and> ungraced now r)
        (\<lambda>r. r\<lparr>tr_grace_until := Some u\<rparr>) t, length (filter (ungraced now) (live_rows_for_agent a t)))"
proof -
  have L: "set (live_rows_for_agent a t) = {r \<in> set t. tr_agent_id r = a \<and> tr_revoked_at r = None}"
    by (simp add: live_rows_for_agent_def)
  have "inj_on tr_jti (set t)" using assms by (simp add: wf_table_def distinct_map)
  then have "tr_revoked_at r = None \<and> tr_jti r \<in> tr_jti ` {x \<in> set (live_rows_for_agent a t). ungraced now x} \<longleftrightarrow>
      tr_agent_id r = a \<and> tr_revoked_at r = None \<and> ungraced now r" if "r \<in> set t" for r
    using that by (auto simp: L dest: inj_onD)
  then have "rows_update (\<lambda>r. tr_revoked_at r = None \<and>
         tr_jti r \<in> tr_jti ` {x \<in> set (live_rows_for_agent a t). ungraced now x}) f t =
       rows_update (\<lambda>r. tr_agent_id r = a \<and> tr_revoked_at r = None \<and> ungraced now r) f t" for f
    unfolding rows_update_def by (intro map_cong) auto
  then show ?thesis by (subst grace_loop) (auto simp: L)
qed

lemma holders_grace:
  "holders (rows_update (\<lambda>r. tr_agent_id r = a \<and> tr_revoked_at r = None \<and> ungraced now r)
       (\<lambda>r. r\<lparr>tr_grace_until := Some u\<rparr>) t) j =
   map_option (\<lambda>(b, l). (b, if b = a then shorten now u l else l)) (holders t j)"
proof -
  have "life_of (r\<lparr>tr_grace_until := Some u\<rparr>) = shorten now u (life_of r)"
    if "tr_revoked_at r = None \<and> ungraced now r" for r
    using that by (simp add: life_of_def)
  moreover have "shorten now u (life_of r) = life_of r" if "\<not> (tr_revoked_at r = None \<and> ungraced now r)" for r
    using that by (auto simp: life_of_def split: option.split)
  ultimately show ?thesis
    by (cases "row_find tr_jti j t") (simp_all add: holders_update, simp_all add: holders_def)
qed

section \<open>Well-formed rows\<close>

definition row_ok :: "token_row \<Rightarrow> bool" where
  "row_ok r \<longleftrightarrow>
     tr_agent_id r \<noteq> [] \<and> length (tr_agent_id r) \<le> MAX_AGENT_ID_LEN \<and>
     tr_aud r \<noteq> [] \<and> length (tr_aud r) \<le> MAX_NODE_ID_LEN \<and>
     (\<exists>scope. canonical_scope scope \<and> tr_scope r = join '','' scope) \<and>
     tr_iat r \<le> tr_exp r \<and> tr_exp r \<le> tr_iat r + 86400"

definition registry_ok :: "token_table \<Rightarrow> bool" where
  "registry_ok t \<longleftrightarrow> wf_table t \<and> (\<forall>r \<in> set t. row_ok r)"

lemma row_ok_marks [simp]:
  "row_ok (r\<lparr>tr_grace_until := g\<rparr>) = row_ok r" "row_ok (r\<lparr>tr_revoked_at := v\<rparr>) = row_ok r"
  by (simp_all add: row_ok_def)

lemma registry_ok_update:
  assumes "registry_ok t" "\<And>r. tr_jti (f r) = tr_jti r" "\<And>r. row_ok (f r) = row_ok r"
  shows "registry_ok (rows_update P f t)"
  using assms by (auto simp: registry_ok_def wf_table_def map_key_update set_rows_update)

lemma registry_ok_revoke:
  "registry_ok t \<Longrightarrow> registry_ok (snd (revoke_jti jti now t))"
  "registry_ok t \<Longrightarrow> registry_ok (snd (revoke_agent a now t))"
  by (simp_all add: revoke_jti_def revoke_agent_def Let_def registry_ok_update)

text \<open>What a successful issue did.\<close>

lemma issue_Inr:
  assumes "issue_agent_token sign jti now agent node spec ttl issuer t = (Inr (tok, c), t')"
  shows "register c t = Inr t'" "tok = encode_agent_token sign c"
    "\<exists>scope. parse_scope spec = Inr scope \<and>
       c = \<lparr>c_iss = issuer, c_sub = agent, c_aud = node, c_scope = scope, c_iat = now,
            c_exp = now + \<lfloor>fl (ttl * 3600)\<rfloor>, c_jti = jti, c_v = 1\<rparr>"
    "agent \<noteq> []" "length agent \<le> MAX_AGENT_ID_LEN" "node \<noteq> []" "length node \<le> MAX_NODE_ID_LEN"
    "0 < ttl" "ttl \<le> MAX_TTL_HOURS"
  using assms by (auto simp: issue_agent_token_def Let_def split: if_splits sum.splits)

lemma issue_Inl: "issue_agent_token sign jti now agent node spec ttl issuer t = (Inl e, t') \<Longrightarrow> t' = t"
  by (auto simp: issue_agent_token_def Let_def split: if_splits sum.splits)

lemma issue_ok:
  assumes "issue_agent_token sign jti now agent node spec ttl issuer t = (Inr (tok, c), t')" "registry_ok t"
  shows "registry_ok t'" "holders t' = (holders t)(jti \<mapsto> (agent, Full (c_exp c)))"
proof -
  note I = issue_Inr [OF assms(1)]
  from I(3) obtain scope where s: "parse_scope spec = Inr scope" and
    c: "c = \<lparr>c_iss = issuer, c_sub = agent, c_aud = node, c_scope = scope, c_iat = now,
            c_exp = now + \<lfloor>fl (ttl * 3600)\<rfloor>, c_jti = jti, c_v = 1\<rparr>" by blast
  from I(1) show "holders t' = (holders t)(jti \<mapsto> (agent, Full (c_exp c)))"
    using holders_register by (fastforce simp: c)
  have "0 \<le> \<lfloor>fl (ttl * 3600)\<rfloor> \<and> \<lfloor>fl (ttl * 3600)\<rfloor> \<le> 86400" using ttl_seconds I(8,9) by blast
  moreover obtain r where t': "t' = t @ [r]" and new: "row_find tr_jti jti t = None" and
    r: "r = \<lparr>tr_jti = jti, tr_agent_id = agent, tr_aud = node, tr_scope = join '','' scope, tr_iat = now,
         tr_exp = c_exp c, tr_revoked_at = None, tr_grace_until = None\<rparr>"
    using I(1) by (auto simp: register_def c split: if_splits)
  ultimately have "row_ok r"
    using I(4-7) parse_scope_canonical [OF s] unfolding row_ok_def by (auto simp: c)
  then show "registry_ok t'"
    using assms(2) new by (auto simp: registry_ok_def wf_table_def t' r row_find_None_iff)
qed

text \<open>A rotation of a well-formed registry with a fresh identifier.\<close>

lemma find_SomeD: "find P xs = Some x \<Longrightarrow> P x \<and> x \<in> set xs"
  by (induction xs) (auto split: if_splits)

lemma rotate_cases:
  assumes "registry_ok t" "jti \<notin> tr_jti ` set t"
  shows "(\<exists>current c. rotate_agent_token sign jti now a g t =
            (Inr (encode_agent_token sign c, c, length (filter (ungraced now) (live_rows_for_agent a t))),
             rows_update (\<lambda>r. tr_agent_id r = a \<and> tr_revoked_at r = None \<and> ungraced now r)
               (\<lambda>r. r\<lparr>tr_grace_until := Some (now + g * 60)\<rparr>) t @
             [\<lparr>tr_jti = jti, tr_agent_id = a, tr_aud = c_aud c, tr_scope = tr_scope current,
               tr_iat = now, tr_exp = c_exp c, tr_revoked_at = None, tr_grace_until = None\<rparr>]) \<and>
            find (ungraced now) (live_rows_for_agent a t) = Some current \<and> 0 \<le> g \<and> g \<le> 60 \<and>
            c_iss c = DEFAULT_ISSUER \<and> c_sub c = a \<and> c_aud c = tr_aud current \<and>
            tr_scope current = join '','' (c_scope c) \<and> canonical_scope (c_scope c) \<and> c_iat c = now \<and>
            c_exp c = now + rotated_seconds (tr_exp current - tr_iat current) \<and> c_jti c = jti \<and> c_v c = 1) \<or>
         rotate_agent_token sign jti now a g t = (Inl AgentTokenError, t) \<and> (g < 0 \<or> 60 < g) \<or>
         rotate_agent_token sign jti now a g t = (Inl LookupError, t) \<and>
           find (ungraced now) (live_rows_for_agent a t) = None"
proof (cases "g < 0 \<or> 60 < g")
  case True
  then show ?thesis by (auto simp: rotate_agent_token_def)
next
  case g: False
  show ?thesis
  proof (cases "find (ungraced now) (live_rows_for_agent a t)")
    case None
    with g show ?thesis by (auto simp: rotate_agent_token_def)
  next
    case (Some r)
    then have r: "r \<in> set t" "tr_agent_id r = a"
      by (auto dest!: find_SomeD simp: live_rows_for_agent_def)
    with assms(1) have ok: "row_ok r" by (auto simp: registry_ok_def)
    then obtain sc where sc: "canonical_scope sc" "tr_scope r = join '','' sc" by (auto simp: row_ok_def)
    define t1 where "t1 = rows_update (\<lambda>r. tr_agent_id r = a \<and> tr_revoked_at r = None \<and> ungraced now r)
               (\<lambda>r. r\<lparr>tr_grace_until := Some (now + g * 60)\<rparr>) t"
    define c where "c = \<lparr>c_iss = DEFAULT_ISSUER, c_sub = a, c_aud = tr_aud r, c_scope = sc, c_iat = now,
            c_exp = now + rotated_seconds (tr_exp r - tr_iat r), c_jti = jti, c_v = 1\<rparr>"
    have wf: "wf_table t" using assms(1) by (simp add: registry_ok_def)
    have "map tr_jti t1 = map tr_jti t" unfolding t1_def by (rule map_key_update) simp
    then have "tr_jti ` set t1 = tr_jti ` set t" by (metis list.set_map)
    then have fresh: "row_find tr_jti jti t1 = None" using assms(2) by (simp add: row_find_None_iff)
    have h: "\<lfloor>MAX_TTL_HOURS * 3600\<rfloor> = 86400" by (simp add: MAX_TTL_HOURS_def)
    have issue: "issue_agent_token sign jti now a (tr_aud r) (tr_scope r)
        (max (fl (of_int (min (tr_exp r - tr_iat r) 86400) / 3600)) (fl (1 / 3600))) DEFAULT_ISSUER t1 =
        (Inr (encode_agent_token sign c, c),
         t1 @ [\<lparr>tr_jti = jti, tr_agent_id = a, tr_aud = tr_aud r, tr_scope = tr_scope r,
               tr_iat = now, tr_exp = c_exp c, tr_revoked_at = None, tr_grace_until = None\<rparr>])"
      using ok r(2) rotated_ttl [of "tr_exp r - tr_iat r"] parse_canonical_scope [OF sc(1)] fresh
      by (simp add: issue_agent_token_def row_ok_def sc(2) register_def c_def rotated_seconds_def Let_def)
    have rot: "rotate_agent_token sign jti now a g t =
        (Inr (encode_agent_token sign c, c, length (filter (ungraced now) (live_rows_for_agent a t))),
         t1 @ [\<lparr>tr_jti = jti, tr_agent_id = a, tr_aud = tr_aud r, tr_scope = tr_scope r,
               tr_iat = now, tr_exp = c_exp c, tr_revoked_at = None, tr_grace_until = None\<rparr>])"
      unfolding rotate_agent_token_def using g
      by (simp add: Some grace_live [OF wf] t1_def [symmetric] h issue Let_def)
    have "c_iss c = DEFAULT_ISSUER \<and> c_sub c = a \<and> c_aud c = tr_aud r \<and> tr_scope r = join '','' (c_scope c) \<and>
        canonical_scope (c_scope c) \<and> c_iat c = now \<and>
        c_exp c = now + rotated_seconds (tr_exp r - tr_iat r) \<and> c_jti c = jti \<and> c_v c = 1"
      using sc by (simp add: c_def)
    with rot Some g show ?thesis unfolding t1_def
      by (intro disjI1 exI [of _ r] exI [of _ c]) (simp add: not_less)
  qed
qed

lemma rotate_ok:
  assumes "rotate_agent_token sign jti now a g t = (Inr (tok, c, n), t')" "registry_ok t" "jti \<notin> tr_jti ` set t"
  shows "registry_ok t'" "holders t' = apply_event (Rotated a now (now + g * 60) jti (c_exp c)) (holders t)"
proof -
  let ?P = "\<lambda>r. tr_agent_id r = a \<and> tr_revoked_at r = None \<and> ungraced now r"
  let ?t1 = "rows_update ?P (\<lambda>r. r\<lparr>tr_grace_until := Some (now + g * 60)\<rparr>) t"
  from rotate_cases [OF assms(2,3), of sign now a g] assms(1) obtain cur where
    cur: "find (ungraced now) (live_rows_for_agent a t) = Some cur" and
    c: "tr_scope cur = join '','' (c_scope c)" "canonical_scope (c_scope c)" "c_aud c = tr_aud cur"
      "c_exp c = now + rotated_seconds (tr_exp cur - tr_iat cur)" and
    t': "t' = ?t1 @ [\<lparr>tr_jti = jti, tr_agent_id = a, tr_aud = c_aud c, tr_scope = tr_scope cur,
               tr_iat = now, tr_exp = c_exp c, tr_revoked_at = None, tr_grace_until = None\<rparr>]"
    by auto
  from cur have r: "cur \<in> set t" "tr_agent_id cur = a"
    by (auto dest!: find_SomeD simp: live_rows_for_agent_def)
  with assms(2) have ok: "row_ok cur" by (auto simp: registry_ok_def)
  have "0 \<le> rotated_seconds (tr_exp cur - tr_iat cur) \<and> rotated_seconds (tr_exp cur - tr_iat cur) \<le> 86400"
    using rotated_ttl [of "tr_exp cur - tr_iat cur"] ttl_seconds unfolding rotated_seconds_def by blast
  with ok r(2) c have new: "row_ok \<lparr>tr_jti = jti, tr_agent_id = a, tr_aud = c_aud c, tr_scope = tr_scope cur,
               tr_iat = now, tr_exp = c_exp c, tr_revoked_at = None, tr_grace_until = None\<rparr>"
    unfolding row_ok_def by auto
  have t1: "registry_ok ?t1" using assms(2) by (intro registry_ok_update) auto
  have "map tr_jti ?t1 = map tr_jti t" by (rule map_key_update) simp
  then have fresh: "jti \<notin> tr_jti ` set ?t1" using assms(3) by (metis list.set_map)
  with t1 new show "registry_ok t'"
    by (auto simp: registry_ok_def wf_table_def t')
  show "holders t' = apply_event (Rotated a now (now + g * 60) jti (c_exp c)) (holders t)"
  proof
    fix j
    have "holders t' j = ((holders ?t1)(jti \<mapsto> (a, Full (c_exp c)))) j"
      using fresh row_find_None_iff [of tr_jti jti ?t1]
      by (simp add: holders_def t' row_find_append life_of_def split: option.split)
    then show "holders t' j = apply_event (Rotated a now (now + g * 60) jti (c_exp c)) (holders t) j"
      by (simp add: holders_grace)
  qed
qed

lemma rotate_Inl:
  assumes "rotate_agent_token sign jti now a g t = (Inl e, t')" "registry_ok t" "jti \<notin> tr_jti ` set t"
  shows "t' = t"
  using rotate_cases [OF assms(2,3), of sign now a g] assms(1) by auto

section \<open>Runs of the registry\<close>

text \<open>One operation with what happened; the identifiers come from \<open>uuid4\<close>, so they are fresh.\<close>

inductive token_step :: "(string \<Rightarrow> string) \<Rightarrow> token_table \<Rightarrow> event \<Rightarrow> token_table \<Rightarrow> bool" for sign where
  issue: "jti \<notin> tr_jti ` set t \<Longrightarrow>
     issue_agent_token sign jti now a node spec ttl issuer t = (Inr (tok, c), t') \<Longrightarrow>
     token_step sign t (Issued jti a (c_exp c)) t'"
| issue_refused: "issue_agent_token sign jti now a node spec ttl issuer t = (Inl e, t') \<Longrightarrow>
     token_step sign t Refused t'"
| rotate: "jti \<notin> tr_jti ` set t \<Longrightarrow>
     rotate_agent_token sign jti now a g t = (Inr (tok, c, n), t') \<Longrightarrow>
     token_step sign t (Rotated a now (now + g * 60) jti (c_exp c)) t'"
| rotate_refused: "jti \<notin> tr_jti ` set t \<Longrightarrow>
     rotate_agent_token sign jti now a g t = (Inl e, t') \<Longrightarrow> token_step sign t Refused t'"
| revoke: "revoke_jti jti now t = (ok, t') \<Longrightarrow> token_step sign t (TokenRevoked jti) t'"
| revoke_all: "revoke_agent a now t = (k, t') \<Longrightarrow> token_step sign t (AgentRevoked a) t'"

inductive token_run :: "(string \<Rightarrow> string) \<Rightarrow> token_table \<Rightarrow> event list \<Rightarrow> token_table \<Rightarrow> bool" for sign where
  done_run: "token_run sign t [] t"
| step_run: "token_step sign t ev t1 \<Longrightarrow> token_run sign t1 evs t2 \<Longrightarrow> token_run sign t (ev # evs) t2"

inductive_cases token_run_NilE: "token_run sign t [] t'"
inductive_cases token_run_ConsE: "token_run sign t (ev # evs) t'"

lemma token_step_simulates:
  "token_step sign t ev t' \<Longrightarrow> registry_ok t \<Longrightarrow> registry_ok t' \<and> holders t' = apply_event ev (holders t)"
proof (induction rule: token_step.induct)
  case (issue jti t now a node spec ttl issuer tok c t')
  then show ?case using issue_ok by (metis apply_event.simps(1))
next
  case (issue_refused jti now a node spec ttl issuer t e t')
  then show ?case by (auto dest: issue_Inl)
next
  case (rotate jti t now a g tok c n t')
  then show ?case using rotate_ok by metis
next
  case (rotate_refused jti t now a g e t')
  then show ?case using rotate_Inl by (metis apply_event.simps(5))
next
  case (revoke jti now t ok t')
  then show ?case using holders_revoke_jti registry_ok_revoke(1) by (metis snd_conv)
next
  case (revoke_all a now t k t')
  then show ?case using holders_revoke_agent registry_ok_revoke(2) by (metis snd_conv)
qed

lemma token_run_simulates:
  "token_run sign t evs t' \<Longrightarrow> registry_ok t \<Longrightarrow>
   registry_ok t' \<and> holders t' = fold apply_event evs (holders t)"
proof (induction rule: token_run.induct)
  case (step_run t ev t1 evs t2)
  with token_step_simulates [OF step_run(1,4)] show ?case by simp
qed simp

text \<open>An identifier in use is never minted again.\<close>

lemma token_step_fresh:
  "token_step sign t ev t' \<Longrightarrow> (case ev of Issued j _ _ \<Rightarrow> j \<notin> tr_jti ` set t | Rotated _ _ _ j _ \<Rightarrow> j \<notin> tr_jti ` set t | _ \<Rightarrow> True)"
  by (induction rule: token_step.induct) auto

lemma holders_known: "holders t j = None \<longleftrightarrow> j \<notin> tr_jti ` set t"
  by (simp add: holders_def row_find_None_iff)

lemma alive_shorten: "alive (shorten now u l) m \<Longrightarrow> alive l m"
  by (cases l) (auto split: if_splits)

lemma event_shortens:
  assumes "m j = Some (a, l)"
    and "case ev of Issued i _ _ \<Rightarrow> m i = None | Rotated _ _ _ i _ \<Rightarrow> m i = None | _ \<Rightarrow> True"
  shows "\<exists>l'. apply_event ev m j = Some (a, l') \<and> (\<forall>now. alive l' now \<longrightarrow> alive l now)"
  using assms by (cases ev) (auto dest: alive_shorten)

lemma token_run_shortens:
  "token_run sign t evs t' \<Longrightarrow> registry_ok t \<Longrightarrow> holders t j = Some (a, l) \<Longrightarrow>
   \<exists>l'. holders t' j = Some (a, l') \<and> (\<forall>now. alive l' now \<longrightarrow> alive l now)"
proof (induction arbitrary: l rule: token_run.induct)
  case (step_run t ev t1 evs t2)
  have "case ev of Issued i _ _ \<Rightarrow> holders t i = None | Rotated _ _ _ i _ \<Rightarrow> holders t i = None | _ \<Rightarrow> True"
    using token_step_fresh [OF step_run(1)] by (auto simp: holders_known split: event.split_asm event.split)
  from event_shortens [OF step_run(5) this] token_step_simulates [OF step_run(1,4)]
  obtain l1 where "holders t1 j = Some (a, l1)" "\<forall>now. alive l1 now \<longrightarrow> alive l now" by auto
  with step_run(3) [OF _ this(1)] token_step_simulates [OF step_run(1,4)] show ?case by blast
qed auto

section \<open>What a validation answers\<close>

lemma validate_of_decode:
  assumes "decode_agent_token d verify token = Inr c" "token \<noteq> []" "length token \<le> 8192"
  shows "\<exists>v. validate_agent_token d verify now token node t = Inr v \<and>
    (tv_valid v \<longleftrightarrow> c_iat c \<le> now \<and> now < c_exp c \<and> c_aud c = node \<and>
       (\<exists>r. get_token t (c_jti c) = Some r \<and> tr_revoked_at r = None \<and>
          (case tr_grace_until r of None \<Rightarrow> True | Some g \<Rightarrow> now < g)))"
  using assms
  by (cases "get_token t (c_jti c)")
     (auto simp: validate_agent_token_def verdict_on_def split: option.split)

lemma validate_valid:
  assumes "validate_agent_token d verify now token node t = Inr v" "tv_valid v"
  obtains c where "decode_agent_token d verify token = Inr c" "token \<noteq> []" "length token \<le> 8192"
    "v = verdict_on c True True False None"
  using assms
  by (auto simp: validate_agent_token_def verdict_on_def reject_unread_def
      split: if_splits sum.splits option.splits)

lemma decode_lifetime: "decode_agent_token d verify token = Inr c \<Longrightarrow> c_iat c < c_exp c"
  by (auto simp: decode_agent_token_def claims_from_payload_def bind_def
      split: list.splits if_splits sum.splits option.splits wire.splits)

text \<open>A row is the minting record of the claims it was made from.\<close>

definition recorded :: "claims \<Rightarrow> token_table \<Rightarrow> bool" where
  "recorded c t \<longleftrightarrow> (case get_token t (c_jti c) of None \<Rightarrow> True | Some r \<Rightarrow> tr_exp r = c_exp c)"

lemma valid_iff_alive:
  assumes "decode_agent_token d verify token = Inr c" "token \<noteq> []" "length token \<le> 8192" "recorded c t"
  shows "\<exists>v. validate_agent_token d verify now token node t = Inr v \<and>
    (tv_valid v \<longleftrightarrow> c_iat c \<le> now \<and> now < c_exp c \<and> c_aud c = node \<and>
       (\<exists>a l. holders t (c_jti c) = Some (a, l) \<and> alive l now))"
proof -
  have "(\<exists>r. get_token t (c_jti c) = Some r \<and> tr_revoked_at r = None \<and>
          (case tr_grace_until r of None \<Rightarrow> True | Some g \<Rightarrow> now < g)) \<longleftrightarrow>
       (\<exists>a l. holders t (c_jti c) = Some (a, l) \<and> alive l now)" if "now < c_exp c"
    using that assms(4)
    by (cases "get_token t (c_jti c)")
       (auto simp: recorded_def get_token_def holders_def life_of_def split: option.splits)
  with validate_of_decode [OF assms(1-3), of now node t] show ?thesis by blast
qed

lemma token_step_exp:
  "token_step sign t ev t' \<Longrightarrow> registry_ok t \<Longrightarrow> row_find tr_jti j t = Some r \<Longrightarrow>
   \<exists>r'. row_find tr_jti j t' = Some r' \<and> tr_exp r' = tr_exp r"
proof (induction rule: token_step.induct)
  case (issue jti t now a node spec ttl issuer tok c t')
  from issue_Inr(1) [OF issue(2)] issue(4) show ?case
    by (auto simp: register_def row_find_append split: if_splits)
next
  case (issue_refused jti now a node spec ttl issuer t e t')
  then show ?case by (auto dest: issue_Inl)
next
  case (rotate jti t now a g tok c n t')
  from rotate_cases [OF rotate(3,1), of sign now a g] rotate(2) show ?case
    by (auto simp: row_find_append row_find_update rotate(4))
next
  case (rotate_refused jti t now a g e t')
  then show ?case using rotate_Inl by metis
qed (auto simp: revoke_jti_def revoke_agent_def Let_def row_find_update)

lemma token_run_exp:
  "token_run sign t evs t' \<Longrightarrow> registry_ok t \<Longrightarrow> row_find tr_jti j t = Some r \<Longrightarrow>
   \<exists>r'. row_find tr_jti j t' = Some r' \<and> tr_exp r' = tr_exp r"
proof (induction arbitrary: r rule: token_run.induct)
  case (step_run t ev t1 evs t2)
  from token_step_exp [OF step_run(1,4,5)] step_run(3) token_step_simulates [OF step_run(1,4)]
  show ?case by metis
qed blast

lemma registry_ok_Nil [simp]: "registry_ok []"
  by (simp add: registry_ok_def wf_table_def)

section \<open>Properties\<close>

definition example_sign :: "string \<Rightarrow> string" where
  "example_sign m = ''s''"

definition example_verify :: "string \<Rightarrow> string \<Rightarrow> bool" where
  "example_verify s m \<longleftrightarrow> s = ''s''"

lemma example_signs: "signs example_sign example_verify"
  by (simp add: signs_def example_sign_def example_verify_def)

text \<open>What the issuer does not check: a time to live under a second, an empty issuer and one too long
  are issued and registered, and the token is malformed to the validator.\<close>

lemma issued_but_unreadable:
  assumes "signs sign verify" "2 \<le> d"
    and "issue_agent_token sign jti now agent node spec ttl issuer t = (Inr (tok, c), t1)"
    and "int_digits (c_iat c) \<le> MAX_INT_DIGITS" "int_digits (c_exp c) \<le> MAX_INT_DIGITS"
    and "issuer = [] \<or> MAX_AGENT_ID_LEN < length issuer \<or> \<lfloor>fl (ttl * 3600)\<rfloor> \<le> 0"
  shows "decode_agent_token d verify tok = Inl MalformedToken"
proof -
  note I = issue_Inr [OF assms(3)]
  from I(3) obtain scope where s: "parse_scope spec = Inr scope" and
    c: "c = \<lparr>c_iss = issuer, c_sub = agent, c_aud = node, c_scope = scope, c_iat = now,
            c_exp = now + \<lfloor>fl (ttl * 3600)\<rfloor>, c_jti = jti, c_v = 1\<rparr>" by blast
  obtain p where p: "payload_of c = WObj p" by (simp add: payload_of_def)
  have "decode_agent_token d verify tok = claims_from_payload p"
    unfolding I(2) by (rule decode_payload [OF assms(1) _ assms(4,5,2) p]) (simp add: c)
  also have "\<dots> = Inl MalformedToken"
    using assms(6) parse_scope_canonical [OF s]
    by (intro claims_from_payload_bad [OF _ p]) (auto simp: c)
  finally show ?thesis .
qed

text \<open>C17. What is issued is what is validated, wherever the token keeps within what the validator
  reads: the configured issuer and the identifier are not empty and at most 128 and 64 characters
  long, the time to live makes at least one whole second, the times have no more digits than the
  parser converts, the token has at most 8192 characters, and two levels of nesting can be parsed.
  Such a token decodes to its claims, and it is accepted exactly by its own node, from its issue to
  its expiry, while its row is known, not revoked and within its grace window.  The issuer checks
  none of these bounds: see \<open>issued_but_unreadable\<close>.\<close>

theorem issued_token_validates:
  assumes "signs sign verify"
    and "issue_agent_token sign jti now agent node spec ttl issuer t = (Inr (tok, c), t1)"
    and "issuer \<noteq> []" "length issuer \<le> MAX_AGENT_ID_LEN" "jti \<noteq> []" "length jti \<le> 64"
    and "1 \<le> \<lfloor>fl (ttl * 3600)\<rfloor>" "int_digits (c_iat c) \<le> MAX_INT_DIGITS" "int_digits (c_exp c) \<le> MAX_INT_DIGITS"
    and "length tok \<le> 8192" "2 \<le> d"
  shows "decode_agent_token d verify tok = Inr c \<and>
    (\<exists>v. validate_agent_token d verify m tok gateway t' = Inr v \<and>
      (tv_valid v \<longleftrightarrow> now \<le> m \<and> m < now + \<lfloor>fl (ttl * 3600)\<rfloor> \<and> gateway = node \<and>
        (case get_token t' jti of
           None \<Rightarrow> False
         | Some r \<Rightarrow> tr_revoked_at r = None \<and>
             (case tr_grace_until r of None \<Rightarrow> True | Some g \<Rightarrow> m < g))))"
proof (intro conjI)
  note I = issue_Inr [OF assms(2)]
  from I(3) obtain scope where s: "parse_scope spec = Inr scope" and
    c: "c = \<lparr>c_iss = issuer, c_sub = agent, c_aud = node, c_scope = scope, c_iat = now,
            c_exp = now + \<lfloor>fl (ttl * 3600)\<rfloor>, c_jti = jti, c_v = 1\<rparr>" by blast
  have "claims_ok c"
    using I(4-7) assms(3-9) parse_scope_canonical [OF s] by (simp add: claims_ok_def c)
  with assms(1) show d: "decode_agent_token d verify tok = Inr c"
    unfolding I(2) using assms(11) by (rule decode_encode)
  then have "tok \<noteq> []" by (auto simp: decode_agent_token_def strip_def lstrip_def rstrip_def)
  from validate_of_decode [OF d this assms(10), of m gateway t'] show
    "\<exists>v. validate_agent_token d verify m tok gateway t' = Inr v \<and>
      (tv_valid v \<longleftrightarrow> now \<le> m \<and> m < now + \<lfloor>fl (ttl * 3600)\<rfloor> \<and> gateway = node \<and>
        (case get_token t' jti of
           None \<Rightarrow> False
         | Some r \<Rightarrow> tr_revoked_at r = None \<and>
             (case tr_grace_until r of None \<Rightarrow> True | Some g \<Rightarrow> m < g)))"
    by (auto simp: c split: option.splits)
qed

text \<open>C16. The registry implements its specification: from a well-formed registry every run of
  operations acts on the map of lives as the events it reports do, one after another, and the
  registry stays well formed.\<close>

theorem registry_refinement:
  assumes "token_run sign t evs t'" "registry_ok t"
  shows "registry_ok t' \<and> holders t' = fold apply_event evs (holders t)"
  by (rule token_run_simulates [OF assms])

text \<open>C18. Every row of a registry built by the operations is well typed: identifiers are unique,
  names within their limits, a lifetime between zero and a day, and the stored scope parses back
  to itself.\<close>

theorem registry_rows_typed:
  assumes "token_run sign [] evs t" "r \<in> set t"
  shows "distinct (map tr_jti t) \<and>
    (\<exists>scope. parse_scope (tr_scope r) = Inr scope \<and> tr_scope r = join '','' scope) \<and>
    length (tr_agent_id r) \<le> MAX_AGENT_ID_LEN \<and> length (tr_aud r) \<le> MAX_NODE_ID_LEN \<and>
    0 \<le> tr_exp r - tr_iat r \<and> of_int (tr_exp r - tr_iat r) \<le> MAX_TTL_HOURS * 3600"
proof (intro conjI)
  have ok: "registry_ok t" using token_run_simulates [OF assms(1)] by simp
  then show "distinct (map tr_jti t)" by (simp add: registry_ok_def wf_table_def)
  from ok assms(2) have r: "row_ok r" by (simp add: registry_ok_def)
  then obtain sc where "canonical_scope sc" "tr_scope r = join '','' sc" by (auto simp: row_ok_def)
  then show "\<exists>scope. parse_scope (tr_scope r) = Inr scope \<and> tr_scope r = join '','' scope"
    using parse_canonical_scope by metis
  have "(of_int (tr_exp r - tr_iat r) :: rat) \<le> of_int 86400" using r by (simp only: of_int_le_iff row_ok_def) linarith
  then show "of_int (tr_exp r - tr_iat r) \<le> MAX_TTL_HOURS * 3600" by (simp add: MAX_TTL_HOURS_def)
qed (use token_run_simulates [OF assms(1) registry_ok_Nil] assms(2) in \<open>auto simp: registry_ok_def row_ok_def\<close>)

text \<open>C15. No operation brings access back: whatever is issued, rotated or revoked in between, a
  known token that is accepted later would have been accepted, at the same instant, before.\<close>

theorem no_access_regained:
  assumes "token_run sign t evs t'" "registry_ok t"
    and "decode_agent_token d verify token = Inr c" "get_token t (c_jti c) = Some r" "tr_exp r = c_exp c"
    and "validate_agent_token d verify now token node t' = Inr v'" "tv_valid v'"
  shows "\<exists>v. validate_agent_token d verify now token node t = Inr v \<and> tv_valid v"
proof -
  obtain c0 where "token \<noteq> []" "length token \<le> 8192" using assms(6,7) validate_valid by metis
  note d = assms(3) this
  have rec: "recorded c t" using assms(4,5) by (simp add: recorded_def)
  from token_run_exp [OF assms(1,2), of "c_jti c" r] assms(4,5) have "recorded c t'"
    by (auto simp: recorded_def get_token_def)
  from valid_iff_alive [OF d this, of now node] assms(6,7) obtain a l' where
    v': "c_iat c \<le> now" "now < c_exp c" "c_aud c = node" "holders t' (c_jti c) = Some (a, l')" "alive l' now"
    by auto
  obtain l where l: "holders t (c_jti c) = Some (tr_agent_id r, l)"
    using assms(4) by (simp add: holders_def get_token_def)
  from token_run_shortens [OF assms(1,2) l] v'(4,5) have "alive l now" by auto
  with l v'(1-3) valid_iff_alive [OF d rec, of now node] show ?thesis by blast
qed

text \<open>A rotation marks every live token of the agent to end with the grace window, and mints one
  for the node and scope of the newest, with its lifetime up to a second; the rounding of the hours
  never lengthens it.\<close>

theorem rotation_effect:
  assumes "registry_ok t" "jti \<notin> tr_jti ` set t" "0 \<le> g" "g \<le> 60"
    and "r \<in> set t" "tr_agent_id r = a" "life_of r = Full e" "now < e"
  shows "\<exists>tok c n t' cur. rotate_agent_token sign jti now a g t = (Inr (tok, c, n), t') \<and>
      holders t' = apply_event (Rotated a now (now + g * 60) jti (c_exp c)) (holders t) \<and>
      cur \<in> set t \<and> tr_agent_id cur = a \<and> tr_revoked_at cur = None \<and> tr_iat r \<le> tr_iat cur \<and>
      c_aud c = tr_aud cur \<and> join '','' (c_scope c) = tr_scope cur \<and>
      c_exp c = now + rotated_seconds (tr_exp cur - tr_iat cur) \<and>
      (tr_iat cur < tr_exp cur \<longrightarrow>
         tr_exp cur - tr_iat cur - 1 \<le> c_exp c - c_iat c \<and> c_exp c - c_iat c \<le> tr_exp cur - tr_iat cur)"
proof -
  let ?L = "live_rows_for_agent a t"
  have r: "r \<in> set ?L" "ungraced now r"
    using assms(5-8) by (auto simp: live_rows_for_agent_def life_of_def split: if_splits option.splits)
  then have "find (ungraced now) ?L \<noteq> None" by (auto simp: find_None_iff)
  with rotate_cases [OF assms(1,2), of sign now a g] assms(3,4) obtain cur c where
    rot: "\<exists>t'. rotate_agent_token sign jti now a g t =
      (Inr (encode_agent_token sign c, c, length (filter (ungraced now) ?L)), t')" and
    cur: "find (ungraced now) ?L = Some cur" and
    c: "c_aud c = tr_aud cur" "tr_scope cur = join '','' (c_scope c)" "c_iat c = now"
      "c_exp c = now + rotated_seconds (tr_exp cur - tr_iat cur)"
    by auto
  from cur obtain i where i: "i < length ?L" "ungraced now (?L ! i)" "cur = ?L ! i"
    "\<forall>j < i. \<not> ungraced now (?L ! j)" by (auto simp: find_Some_iff)
  from r obtain k where k: "k < length ?L" "?L ! k = r" by (auto simp: in_set_conv_nth)
  with i r(2) have "i \<le> k" by (metis not_le)
  then have newest: "tr_iat r \<le> tr_iat cur"
    using sorted_order_desc [of tr_iat "filter (\<lambda>r. tr_agent_id r = a \<and> tr_revoked_at r = None) t"] i(3) k
    by (cases "i = k") (auto simp: live_rows_for_agent_def sorted_wrt_iff_nth_less)
  have cin: "cur \<in> set ?L" using i(1,3) by simp
  then have cs: "cur \<in> set t" "tr_agent_id cur = a" "tr_revoked_at cur = None"
    by (auto simp: live_rows_for_agent_def)
  with assms(1) have "row_ok cur" by (simp add: registry_ok_def)
  then have "tr_exp cur - tr_iat cur \<le> 86400" by (simp add: row_ok_def)
  then have "tr_iat cur < tr_exp cur \<longrightarrow>
      tr_exp cur - tr_iat cur - 1 \<le> c_exp c - c_iat c \<and> c_exp c - c_iat c \<le> tr_exp cur - tr_iat cur"
    using rotated_seconds_bounds [of "tr_exp cur - tr_iat cur"] by (auto simp: c min_def split: if_splits)
  moreover from rot obtain t' where rot': "rotate_agent_token sign jti now a g t =
      (Inr (encode_agent_token sign c, c, length (filter (ungraced now) ?L)), t')" by blast
  ultimately show ?thesis
    using rotate_ok(2) [OF rot' assms(1,2)] newest cs c
    by (intro exI conjI) (rule rot', simp_all)
qed




section \<open>Witnesses\<close>

definition example_row :: token_row where
  "example_row = \<lparr>tr_jti = ''j1'', tr_agent_id = ''a'', tr_aud = ''n'', tr_scope = ''rw,project:x'',
     tr_iat = 100, tr_exp = 215, tr_revoked_at = None, tr_grace_until = None\<rparr>"

definition example_claims :: claims where
  "example_claims = \<lparr>c_iss = ''vesma'', c_sub = ''a'', c_aud = ''n'', c_scope = [''rw'', ''project:x''],
     c_iat = 100, c_exp = 215, c_jti = ''j1'', c_v = 1\<rparr>"

lemma example_issue:
  "issue_agent_token example_sign ''j1'' 100 ''a'' ''n'' ''project:x, rw'' (115 / 3600) ''vesma'' [] =
     (Inr (encode_agent_token example_sign example_claims, example_claims), [example_row])"
proof -
  have "parse_scope ''project:x, rw'' = Inr [''rw'', ''project:x'']" by code_simp
  moreover have "\<lfloor>fl (115 / 3600 * 3600)\<rfloor> = 115" by code_simp
  ultimately show ?thesis
    by (simp add: issue_agent_token_def Let_def example_claims_def example_row_def register_def
        MAX_AGENT_ID_LEN_def MAX_NODE_ID_LEN_def MAX_TTL_HOURS_def)
qed

lemma example_run: "token_run example_sign [] [Issued ''j1'' ''a'' 215] [example_row]"
  using token_run.step_run [OF token_step.issue [OF _ example_issue] token_run.done_run]
  by (simp add: example_claims_def)

lemma example_ok: "registry_ok [example_row]"
  using token_run_simulates [OF example_run] by simp

lemma example_revoked:
  "token_run example_sign [example_row] [TokenRevoked ''other''] [example_row]"
proof -
  have "revoke_jti ''other'' 120 [example_row] = (False, [example_row])"
    by (simp add: revoke_jti_def Let_def rowcount_def rows_update_def example_row_def)
  then show ?thesis by (rule token_run.step_run [OF token_step.revoke token_run.done_run])
qed

lemma example_token:
  "length (encode_agent_token example_sign example_claims) \<le> 8192"
  "encode_agent_token example_sign example_claims \<noteq> []"
  by code_simp+

lemma example_digits: "int_digits 100 \<le> MAX_INT_DIGITS" "int_digits 215 \<le> MAX_INT_DIGITS"
  by code_simp+

lemma example_decode:
  "decode_agent_token 2 example_verify (encode_agent_token example_sign example_claims) = Inr example_claims"
proof (rule decode_encode [OF example_signs _ order_refl])
  have "parse_scope ''project:x, rw'' = Inr (c_scope example_claims)" by code_simp
  then have "canonical_scope (c_scope example_claims)" by (rule parse_scope_canonical)
  then show "claims_ok example_claims"
    using example_digits by (simp add: claims_ok_def example_claims_def MAX_AGENT_ID_LEN_def MAX_NODE_ID_LEN_def)
qed

theorem issued_token_validates_witness:
  "\<exists>tok. \<exists>v. validate_agent_token 2 example_verify 214 tok ''n'' [example_row] = Inr v \<and> tv_valid v"
proof -
  have fl: "\<lfloor>fl (115 / 3600 * 3600)\<rfloor> = 115" by code_simp
  have one: "1 \<le> \<lfloor>fl (115 / 3600 * 3600)\<rfloor>" unfolding fl by simp
  have names: "''vesma'' \<noteq> []" "length ''vesma'' \<le> MAX_AGENT_ID_LEN" "''j1'' \<noteq> []" "length ''j1'' \<le> 64"
    by (simp_all add: MAX_AGENT_ID_LEN_def)
  have digits: "int_digits (c_iat example_claims) \<le> MAX_INT_DIGITS" "int_digits (c_exp example_claims) \<le> MAX_INT_DIGITS"
    using example_digits by (simp_all add: example_claims_def)
  have row: "get_token [example_row] ''j1'' = Some example_row"
    by (simp add: get_token_def example_row_def)
  obtain v where "validate_agent_token 2 example_verify 214 (encode_agent_token example_sign example_claims) ''n''
      [example_row] = Inr v" "tv_valid v"
    using issued_token_validates [OF example_signs example_issue names one digits example_token(1) order_refl,
        of 214 "''n''" "[example_row]"]
    unfolding fl row by (auto simp: example_row_def)
  then show ?thesis by blast
qed


theorem registry_refinement_witness:
  "holders [example_row] = fold apply_event [Issued ''j1'' ''a'' 215] (holders [])"
  using registry_refinement [OF example_run] by simp

theorem registry_rows_typed_witness: "\<exists>scope. parse_scope (tr_scope example_row) = Inr scope"
  using registry_rows_typed [OF example_run, of example_row] by auto

theorem no_access_regained_witness:
  "\<exists>v. validate_agent_token 2 example_verify 150 (encode_agent_token example_sign example_claims) ''n'' [example_row] =
     Inr v \<and> tv_valid v"
proof -
  obtain v where v: "validate_agent_token 2 example_verify 150 (encode_agent_token example_sign example_claims) ''n''
      [example_row] = Inr v" "tv_valid v"
    using validate_of_decode [OF example_decode example_token(2,1), of 150 "''n''" "[example_row]"]
    by (auto simp: example_claims_def example_row_def get_token_def)
  show ?thesis
    by (rule no_access_regained [OF example_revoked example_ok example_decode, where r = example_row, OF _ _ v])
       (simp_all add: example_claims_def example_row_def get_token_def)
qed

theorem rotation_effect_witness:
  "\<exists>tok c n t'. rotate_agent_token example_sign ''j2'' 200 ''a'' 5 [example_row] = (Inr (tok, c, n), t') \<and>
     holders t' ''j1'' = Some (''a'', Ending 215)"
proof -
  have "life_of example_row = Full 215" by (simp add: life_of_def example_row_def)
  with rotation_effect [OF example_ok, of "''j2''" 5 example_row "''a''" 215 200 example_sign]
  obtain tok c n t' where "rotate_agent_token example_sign ''j2'' 200 ''a'' 5 [example_row] = (Inr (tok, c, n), t')"
    "holders t' = apply_event (Rotated ''a'' 200 500 ''j2'' (c_exp c)) (holders [example_row])"
    by (auto simp: example_row_def)
  then show ?thesis
    by (intro exI conjI) (assumption, simp add: holders_def example_row_def life_of_def)
qed

end
