(* ===== verification/Memory_Model.thy ===== *)
theory Memory_Model
  imports Prelude
begin

text \<open>
  The data model of \<open>src/src/vesmaro/models.py\<close>: the enumerations, the unified
  \<open>Memory\<close> record, the admissibility predicates that every path to a model's context
  composes, and the doc-grouping convention carried in a memory's metadata.
\<close>

section \<open>Enumerations\<close>

datatype memory_type = NOTE | FACT | SNIPPET | BOOKMARK | CONVERSATION | SESSION_CONTEXT

datatype memory_source = MANUAL | WEB | FILE | MCP | OBSIDIAN | CLI | RULE | SYNTHESIZED

datatype memory_status = RAW | PROCESSING | PROCESSED | PUBLISHED | ARCHIVED

datatype pipeline_state = PS_PENDING | PS_PROCESSING | PS_REFINED | PS_FAILED | PS_QUARANTINED

instantiation memory_status :: enum
begin

definition enum_memory_status :: "memory_status list" where
  "enum_memory_status = [RAW, PROCESSING, PROCESSED, PUBLISHED, ARCHIVED]"

definition enum_all_memory_status :: "(memory_status \<Rightarrow> bool) \<Rightarrow> bool" where
  "enum_all_memory_status P \<longleftrightarrow> P RAW \<and> P PROCESSING \<and> P PROCESSED \<and> P PUBLISHED \<and> P ARCHIVED"

definition enum_ex_memory_status :: "(memory_status \<Rightarrow> bool) \<Rightarrow> bool" where
  "enum_ex_memory_status P \<longleftrightarrow> P RAW \<or> P PROCESSING \<or> P PROCESSED \<or> P PUBLISHED \<or> P ARCHIVED"

instance
proof
  have all: "x \<in> {RAW, PROCESSING, PROCESSED, PUBLISHED, ARCHIVED}" for x
    by (cases x) auto
  then show "(UNIV :: memory_status set) = set enum_class.enum"
    by (auto simp: enum_memory_status_def)
  show "distinct (enum_class.enum :: memory_status list)"
    by (simp add: enum_memory_status_def)
  show "enum_class.enum_all P = Ball UNIV P" for P :: "memory_status \<Rightarrow> bool"
    using all by (auto simp: enum_all_memory_status_def) (metis memory_status.exhaust)
  show "enum_class.enum_ex P = Bex UNIV P" for P :: "memory_status \<Rightarrow> bool"
    using all by (auto simp: enum_ex_memory_status_def) (metis memory_status.exhaust)
qed

end

definition status_value :: "memory_status \<Rightarrow> string" where
  "status_value s =
     (case s of RAW \<Rightarrow> ''raw'' | PROCESSING \<Rightarrow> ''processing'' | PROCESSED \<Rightarrow> ''processed''
      | PUBLISHED \<Rightarrow> ''published'' | ARCHIVED \<Rightarrow> ''archived'')"

definition pipeline_state_value :: "pipeline_state \<Rightarrow> string" where
  "pipeline_state_value s =
     (case s of PS_PENDING \<Rightarrow> ''pending'' | PS_PROCESSING \<Rightarrow> ''processing''
      | PS_REFINED \<Rightarrow> ''refined'' | PS_FAILED \<Rightarrow> ''failed'' | PS_QUARANTINED \<Rightarrow> ''quarantined'')"

section \<open>The memory record\<close>

record memory =
  m_id :: string
  m_content :: string
  m_title :: "string option"
  m_tags :: "string list"
  m_source :: memory_source
  m_source_url :: "string option"
  m_memory_type :: memory_type
  m_file_path :: "string option"
  m_category :: "string option"
  m_project :: string
  m_agent :: string
  m_status :: memory_status
  m_quality_score :: "real option"
  m_confidence :: "real option"
  m_source_coverage :: "int option"
  m_cluster_id :: "string option"
  m_derived_from :: "string list"
  m_embedding_id :: "string option"
  m_raw_content :: "string option"
  m_clean_content :: "string option"
  m_filter_profile :: "string option"
  m_filter_stats :: "json option"
  m_filter_version :: "string option"
  m_pipeline_state :: "pipeline_state option"
  m_processed_at :: "moment option"
  m_swap_key :: "string option"
  m_quarantine_reason :: "string option"
  m_marker_version :: int
  m_workflow_status :: "string option"
  m_locked_by :: "string option"
  m_locked_at :: "iso_text option"
  m_created_at :: moment
  m_updated_at :: moment
  m_metadata :: metadata

text \<open>The field defaults of the class; identity and creation time come from the caller.\<close>

definition new_memory :: "string \<Rightarrow> string \<Rightarrow> moment \<Rightarrow> memory" where
  "new_memory ident text now =
     \<lparr>m_id = ident, m_content = text, m_title = None, m_tags = [], m_source = MANUAL,
      m_source_url = None, m_memory_type = NOTE, m_file_path = None, m_category = None,
      m_project = [], m_agent = [], m_status = RAW, m_quality_score = None,
      m_confidence = None, m_source_coverage = None, m_cluster_id = None,
      m_derived_from = [], m_embedding_id = None, m_raw_content = None,
      m_clean_content = None, m_filter_profile = None, m_filter_stats = None,
      m_filter_version = None, m_pipeline_state = None, m_processed_at = None,
      m_swap_key = None, m_quarantine_reason = None, m_marker_version = 1,
      m_workflow_status = None, m_locked_by = None, m_locked_at = None,
      m_created_at = now, m_updated_at = now, m_metadata = Map.empty\<rparr>"

definition auto_title :: "memory \<Rightarrow> string" where
  "auto_title m =
     (if truthy (m_title m) then the (m_title m)
      else (let first_line = take 100 (hd (split_on (CHR 0x0A) (strip (m_content m))));
                t = strip (lstrip_chars ''# '' first_line)
            in if t = [] then ''Untitled'' else t))"

definition effective_content :: "memory \<Rightarrow> string" where
  "effective_content m = or_str (m_clean_content m) (m_content m)"

lemma effective_content_no_clean [simp]:
  "m_clean_content m = None \<Longrightarrow> effective_content m = m_content m"
  by (simp add: effective_content_def or_str_def)

lemma auto_title_nonempty: "auto_title m \<noteq> []"
  by (auto simp: auto_title_def truthy_def Let_def split: option.splits)

lemma auto_title_stable: "auto_title (m\<lparr>m_title := Some (auto_title m)\<rparr>) = auto_title m"
  using auto_title_nonempty [of m] by (simp add: auto_title_def [of "m\<lparr>m_title := _\<rparr>"] truthy_def)

section \<open>Admissibility\<close>

definition CONTEXT_ADMISSIBLE_STATUSES :: "memory_status set" where
  "CONTEXT_ADMISSIBLE_STATUSES = {PUBLISHED, PROCESSED}"

definition is_quarantined :: "memory \<Rightarrow> bool" where
  "is_quarantined m \<longleftrightarrow> m_pipeline_state m = Some PS_QUARANTINED"

text \<open>The status set is the keyword argument \<open>statuses\<close> of the source.\<close>

definition is_context_admissible_in :: "memory_status set \<Rightarrow> memory \<Rightarrow> bool" where
  "is_context_admissible_in statuses m \<longleftrightarrow> m_status m \<in> statuses \<and> \<not> is_quarantined m"

abbreviation is_context_admissible :: "memory \<Rightarrow> bool" where
  "is_context_admissible \<equiv> is_context_admissible_in CONTEXT_ADMISSIBLE_STATUSES"

text \<open>A stored row always has its \<open>updated_at\<close>, so the \<open>unknown\<close> arm never renders.\<close>

definition render_retraction :: "memory \<Rightarrow> string" where
  "render_retraction m = ''[retracted: '' @ isoformat (m_updated_at m) @ '']''"

lemma quarantined_not_admissible [simp]:
  "is_quarantined m \<Longrightarrow> \<not> is_context_admissible_in statuses m"
  by (simp add: is_context_admissible_in_def)

lemma admissible_mono:
  "S \<subseteq> T \<Longrightarrow> is_context_admissible_in S m \<Longrightarrow> is_context_admissible_in T m"
  by (auto simp: is_context_admissible_in_def)

section \<open>Doc-grouping metadata\<close>

definition DOC_GROUPING_METADATA_FIELDS :: "string list" where
  "DOC_GROUPING_METADATA_FIELDS = [''doc_id'', ''chunk_idx'', ''heading_path'']"

datatype doc_grouping_error =
    DocIdNotString
  | DocIdLength
  | ChunkIdxNotNat
  | HeadingPathNotSequence
  | HeadingNotString json
  | PartialGrouping "string list" "string list"

fun first_non_string :: "json list \<Rightarrow> json option" where
  "first_non_string [] = None"
| "first_non_string (h # hs) = (case json_str h of None \<Rightarrow> Some h | Some _ \<Rightarrow> first_non_string hs)"

definition build_doc_grouping_metadata :: "json \<Rightarrow> json \<Rightarrow> json \<Rightarrow> doc_grouping_error + metadata" where
  "build_doc_grouping_metadata doc_id chunk_idx heading_path =
     (case json_str doc_id of
        None \<Rightarrow> Inl DocIdNotString
      | Some s \<Rightarrow>
          let stripped = strip s in
          if stripped = [] \<or> 256 < length stripped then Inl DocIdLength
          else (case chunk_idx of
             JInt i \<Rightarrow>
               if i < 0 then Inl ChunkIdxNotNat
               else (case heading_path of
                  JArr hs \<Rightarrow>
                    (case first_non_string hs of
                       Some h \<Rightarrow> Inl (HeadingNotString h)
                     | None \<Rightarrow>
                         Inr [''doc_id'' \<mapsto> JStr stripped, ''chunk_idx'' \<mapsto> JInt i,
                              ''heading_path'' \<mapsto> JArr hs])
                | _ \<Rightarrow> Inl HeadingPathNotSequence)
           | _ \<Rightarrow> Inl ChunkIdxNotNat))"

definition doc_grouping_from_metadata :: "metadata \<Rightarrow> doc_grouping_error + metadata option" where
  "doc_grouping_from_metadata md =
     (let present = filter (\<lambda>k. md k \<noteq> None) DOC_GROUPING_METADATA_FIELDS;
          missing = filter (\<lambda>k. md k = None) DOC_GROUPING_METADATA_FIELDS
      in if present = [] then Inr None
         else if missing \<noteq> [] then Inl (PartialGrouping present missing)
         else (case build_doc_grouping_metadata (the (md ''doc_id'')) (the (md ''chunk_idx''))
                      (the (md ''heading_path'')) of
                 Inl e \<Rightarrow> Inl e
               | Inr g \<Rightarrow> Inr (Some g)))"

lemma build_doc_grouping_metadata_InrD:
  assumes "build_doc_grouping_metadata d c h = Inr g"
  obtains s i hs where "json_str d = Some s" and "strip s \<noteq> []" and "length (strip s) \<le> 256"
    and "c = JInt i" and "0 \<le> i" and "h = JArr hs" and "first_non_string hs = None"
    and "g = [''doc_id'' \<mapsto> JStr (strip s), ''chunk_idx'' \<mapsto> JInt i, ''heading_path'' \<mapsto> JArr hs]"
  using assms
  by (auto simp: build_doc_grouping_metadata_def Let_def not_less
      split: option.splits json.splits if_splits)

end
