(* ===== verification/Tag_Contract.thy ===== *)
theory Tag_Contract
  imports Memory_Model
begin

text \<open>
  The tag contract of \<open>src/src/vesmaro/models.py\<close>: slug normalisation, the validation
  \<open>validate_tag_contract\<close> in its strict and its lax mode, and the denormalisation of the
  validated set (\<open>TagContract\<close>).  The anchored regular expressions of the source
  (\<open>^project:[a-z0-9_-]{1,64}\Z\<close> and so on) are the predicates \<open>scope_re\<close> and
  \<open>vesmaro_re\<close>; the messages of a raised error are the values of \<open>violation\<close>.
\<close>

definition VESMARO_TAG_SUBTYPES :: "string list" where
  "VESMARO_TAG_SUBTYPES =
     [''session'', ''bug-pattern'', ''learning'', ''decision'', ''rule'', ''open-question'',
      ''checkpoint'', ''legacy'', ''synthesized'', ''no-federate'']"

definition NO_FEDERATE_TAG :: string where
  "NO_FEDERATE_TAG = ''mnemos:no-federate''"

definition POLICY_TAG_PREFIXES :: "string list" where
  "POLICY_TAG_PREFIXES = [''applyTo:'', ''severity:'']"

definition slug_char :: "char \<Rightarrow> bool" where
  "slug_char c \<longleftrightarrow>
     (let n = of_char c :: nat
      in (97 \<le> n \<and> n \<le> 122) \<or> (48 \<le> n \<and> n \<le> 57) \<or> n = 95 \<or> n = 45)"

text \<open>\<open>[a-z0-9_-]{1,64}\Z\<close>: \<open>TASK_SLUG_RE\<close>, and the slug of every scope tag.\<close>

definition slug_re :: "string \<Rightarrow> bool" where
  "slug_re s \<longleftrightarrow> 1 \<le> length s \<and> length s \<le> 64 \<and> list_all slug_char s"

definition scope_re :: "string \<Rightarrow> string \<Rightarrow> bool" where
  "scope_re prefix t \<longleftrightarrow> starts_with t prefix \<and> slug_re (drop (length prefix) t)"

text \<open>\<open>^mnemos:[a-z][a-z0-9-]*\Z\<close>\<close>

definition vesmaro_re :: "string \<Rightarrow> bool" where
  "vesmaro_re t \<longleftrightarrow>
     starts_with t ''mnemos:'' \<and>
     (case drop 7 t of
        [] \<Rightarrow> False
      | c # cs \<Rightarrow> (let n = of_char c :: nat in 97 \<le> n \<and> n \<le> 122) \<and>
                  list_all (\<lambda>d. slug_char d \<and> d \<noteq> CHR ''_'') cs)"

definition normalize_project_slug :: "string \<Rightarrow> string" where
  "normalize_project_slug v = replace_char (CHR '' '') (CHR ''-'') (lower (strip v))"

definition normalize_task_slug :: "string \<Rightarrow> string" where
  "normalize_task_slug v = replace_char (CHR '' '') (CHR ''-'') (lower (strip v))"

definition with_prefix :: "string \<Rightarrow> string list \<Rightarrow> string list" where
  "with_prefix p tags = filter (\<lambda>t. starts_with t p) tags"

text \<open>The \<open>gcw:\<close> alias: a known subtype is rewritten, any other tag is kept.\<close>

definition migrate_gcw :: "string list \<Rightarrow> string list" where
  "migrate_gcw tags =
     map (\<lambda>t. if starts_with t ''gcw:'' \<and> drop 4 t \<in> set VESMARO_TAG_SUBTYPES
              then ''mnemos:'' @ drop 4 t else t) tags"

datatype violation =
    MissingTag string
  | DuplicateTag string "string list"
  | InvalidScopeTag string
  | InvalidMnemosFormat string
  | InvalidMnemosSubtype string

datatype tag_contract_error = AlwaysFatal "violation list" | StrictViolation "violation list"

definition fatal_errors :: "string list \<Rightarrow> violation list" where
  "fatal_errors tags =
     (let ps = with_prefix ''project:'' tags; as = with_prefix ''agent:'' tags;
          ts = with_prefix ''task:'' tags
      in (if 1 < length ps then [DuplicateTag ''project:'' ps] else []) @
         (if 1 < length as then [DuplicateTag ''agent:'' as] else []) @
         (if 1 < length ts then [DuplicateTag ''task:'' ts] else []))"

definition required_scope_errors :: "string \<Rightarrow> string list \<Rightarrow> violation list" where
  "required_scope_errors prefix tags =
     (case with_prefix prefix tags of
        [] \<Rightarrow> [MissingTag prefix]
      | [t] \<Rightarrow> if scope_re prefix t then [] else [InvalidScopeTag t]
      | _ \<Rightarrow> [])"

definition mnemos_tag_errors :: "string \<Rightarrow> violation list" where
  "mnemos_tag_errors t =
     (if \<not> vesmaro_re t then [InvalidMnemosFormat t]
      else if drop 7 t \<notin> set VESMARO_TAG_SUBTYPES then [InvalidMnemosSubtype (drop 7 t)]
      else [])"

definition patchable_errors :: "string list \<Rightarrow> violation list" where
  "patchable_errors tags =
     required_scope_errors ''project:'' tags @
     required_scope_errors ''agent:'' tags @
     (case with_prefix ''task:'' tags of
        [t] \<Rightarrow> if scope_re ''task:'' t then [] else [InvalidScopeTag t]
      | _ \<Rightarrow> []) @
     (case with_prefix ''mnemos:'' tags of
        [] \<Rightarrow> [MissingTag ''mnemos:'']
      | ms \<Rightarrow> concat (map mnemos_tag_errors ms))"

definition normalize_slug :: "string \<Rightarrow> string \<Rightarrow> string option" where
  "normalize_slug prefix tag =
     (let n = prefix @ normalize_project_slug (drop (length prefix) tag)
      in if scope_re prefix n then Some n else None)"

text \<open>
  One step of the lax patch for a required family (\<open>project:\<close>, \<open>agent:\<close>): \<open>fam\<close> are the
  family's tags before patching.
\<close>

definition patch_required :: "string \<Rightarrow> string list \<Rightarrow> string list \<Rightarrow> string list" where
  "patch_required prefix fam patched =
     (case fam of
        [] \<Rightarrow> patched @ [prefix @ ''unknown'']
      | t0 # _ \<Rightarrow>
          if scope_re prefix t0 then patched
          else (case normalize_slug prefix t0 of
                  Some n \<Rightarrow> map (\<lambda>t. if t = t0 then n else t) patched
                | None \<Rightarrow> filter (\<lambda>t. t \<noteq> t0) patched @ [prefix @ ''unknown'']))"

definition patch_task :: "string list \<Rightarrow> string list \<Rightarrow> string list" where
  "patch_task fam patched =
     (case fam of
        [] \<Rightarrow> patched
      | t0 # _ \<Rightarrow>
          if scope_re ''task:'' t0 then patched
          else (case normalize_slug ''task:'' t0 of
                  Some n \<Rightarrow> map (\<lambda>t. if t = t0 then n else t) patched
                | None \<Rightarrow> filter (\<lambda>t. t \<noteq> t0) patched))"

definition patch_tags :: "string list \<Rightarrow> string list" where
  "patch_tags tags =
     (let p1 = patch_required ''project:'' (with_prefix ''project:'' tags) tags;
          p2 = patch_required ''agent:'' (with_prefix ''agent:'' tags) p1;
          p3 = patch_task (with_prefix ''task:'' tags) p2
      in if with_prefix ''mnemos:'' tags = [] then p3 @ [''mnemos:legacy''] else p3)"

definition validate_tag_contract :: "string list \<Rightarrow> bool \<Rightarrow> tag_contract_error + string list" where
  "validate_tag_contract tags0 strict =
     (let tags = migrate_gcw tags0
      in if fatal_errors tags \<noteq> [] then Inl (AlwaysFatal (fatal_errors tags))
         else if patchable_errors tags = [] then Inr tags
         else if strict then Inl (StrictViolation (patchable_errors tags))
         else Inr (patch_tags tags))"

record tag_contract =
  tc_tags :: "string list"
  tc_project :: string
  tc_agent :: string
  tc_task :: string
  tc_mnemos_subtypes :: "string set"

definition extract_tag :: "tag_contract \<Rightarrow> string \<Rightarrow> tag_contract" where
  "extract_tag c t =
     (if starts_with t ''project:'' \<and> tc_project c = [] then c\<lparr>tc_project := drop 8 t\<rparr>
      else if starts_with t ''agent:'' \<and> tc_agent c = [] then c\<lparr>tc_agent := drop 6 t\<rparr>
      else if starts_with t ''task:'' \<and> tc_task c = [] then c\<lparr>tc_task := drop 5 t\<rparr>
      else if starts_with t ''mnemos:'' then c\<lparr>tc_mnemos_subtypes := insert (drop 7 t) (tc_mnemos_subtypes c)\<rparr>
      else c)"

text \<open>\<open>TagContract(tags=..., strict=...)\<close> with the slug fields at their defaults.\<close>

definition TagContract :: "string list \<Rightarrow> bool \<Rightarrow> tag_contract_error + tag_contract" where
  "TagContract tags strict =
     (case validate_tag_contract tags strict of
        Inl e \<Rightarrow> Inl e
      | Inr validated \<Rightarrow>
          Inr (foldl extract_tag
                 \<lparr>tc_tags = validated, tc_project = [], tc_agent = [], tc_task = [],
                  tc_mnemos_subtypes = {}\<rparr> validated))"

section \<open>What the contract guarantees\<close>

text \<open>The contract as a predicate on the final tag list.\<close>

definition scope_ok :: "string \<Rightarrow> string list \<Rightarrow> bool" where
  "scope_ok prefix tags \<longleftrightarrow> (\<exists>t. with_prefix prefix tags = [t] \<and> scope_re prefix t)"

definition task_ok :: "string list \<Rightarrow> bool" where
  "task_ok tags \<longleftrightarrow> with_prefix ''task:'' tags = [] \<or> scope_ok ''task:'' tags"

definition mnemos_ok :: "string list \<Rightarrow> bool" where
  "mnemos_ok tags \<longleftrightarrow>
     with_prefix ''mnemos:'' tags \<noteq> [] \<and>
     (\<forall>t \<in> set (with_prefix ''mnemos:'' tags). mnemos_tag_errors t = [])"

definition contract_ok :: "string list \<Rightarrow> bool" where
  "contract_ok tags \<longleftrightarrow>
     scope_ok ''project:'' tags \<and> scope_ok ''agent:'' tags \<and> task_ok tags \<and> mnemos_ok tags"

lemma with_prefix_Nil [simp]: "with_prefix p [] = []"
  by (simp add: with_prefix_def)

lemma with_prefix_append [simp]: "with_prefix p (xs @ ys) = with_prefix p xs @ with_prefix p ys"
  by (simp add: with_prefix_def)

lemma required_scope_errors_Nil:
  "length (with_prefix p tags) \<le> 1 \<Longrightarrow> required_scope_errors p tags = [] \<longleftrightarrow> scope_ok p tags"
  by (auto simp: required_scope_errors_def scope_ok_def split: list.splits)

lemma fatal_errors_Nil:
  "fatal_errors tags = [] \<longleftrightarrow>
     (\<forall>p \<in> {''project:'', ''agent:'', ''task:''}. length (with_prefix p tags) \<le> 1)"
  by (auto simp: fatal_errors_def Let_def)

lemma patchable_errors_Nil:
  assumes "fatal_errors tags = []"
  shows "patchable_errors tags = [] \<longleftrightarrow> contract_ok tags"
proof -
  have len: "length (with_prefix p tags) \<le> 1" if "p \<in> {''project:'', ''agent:'', ''task:''}" for p
    using assms that fatal_errors_Nil by blast
  have task: "(case with_prefix ''task:'' tags of
        [t] \<Rightarrow> if scope_re ''task:'' t then [] else [InvalidScopeTag t] | _ \<Rightarrow> []) = [] \<longleftrightarrow> task_ok tags"
    using len [of "''task:''"] by (auto simp: task_ok_def scope_ok_def split: list.splits)
  have mnemos: "(case with_prefix ''mnemos:'' tags of [] \<Rightarrow> [MissingTag ''mnemos:'']
      | ms \<Rightarrow> concat (map mnemos_tag_errors ms)) = [] \<longleftrightarrow> mnemos_ok tags"
    by (auto simp: mnemos_ok_def split: list.splits)
  show ?thesis
    unfolding patchable_errors_def append_is_Nil_conv contract_ok_def task mnemos
    using len required_scope_errors_Nil by auto
qed

lemma contract_ok_no_fatal: "contract_ok tags \<Longrightarrow> fatal_errors tags = []"
  by (auto simp: fatal_errors_Nil contract_ok_def scope_ok_def task_ok_def)

text \<open>No tag belongs to two families: their prefixes differ in the first two characters.\<close>

lemma prefix_families:
  assumes "p \<noteq> q" "p \<in> {''project:'', ''agent:'', ''task:'', ''mnemos:''}"
    "q \<in> {''project:'', ''agent:'', ''task:'', ''mnemos:''}"
  shows "\<not> (starts_with t p \<and> starts_with t q)"
  using assms by (auto simp: starts_with_iff)

text \<open>
  Each patch step settles its own family and leaves the other families as they were.
\<close>

definition families :: "string set" where
  "families = {''project:'', ''agent:'', ''task:'', ''mnemos:''}"

lemma families_disjoint:
  "p \<in> families \<Longrightarrow> q \<in> families \<Longrightarrow> p \<noteq> q \<Longrightarrow> starts_with t p \<Longrightarrow> \<not> starts_with t q"
  using prefix_families [of p q t] by (auto simp: families_def)

lemma families_mem [simp]:
  "''project:'' \<in> families" "''agent:'' \<in> families" "''task:'' \<in> families" "''mnemos:'' \<in> families"
  by (simp_all add: families_def)

lemma slug_re_unknown [simp]: "slug_re ''unknown''"
  by code_simp

lemma scope_re_unknown [simp]: "scope_re p (p @ ''unknown'')"
  by (simp add: scope_re_def)

lemma scope_re_prefix: "scope_re p t \<Longrightarrow> starts_with t p"
  by (simp add: scope_re_def)

lemma normalize_slug_SomeD: "normalize_slug p t = Some n \<Longrightarrow> scope_re p n"
  by (auto simp: normalize_slug_def Let_def split: if_splits)

lemma with_prefix_subst:
  "starts_with t0 p \<Longrightarrow> starts_with n p \<Longrightarrow>
   with_prefix p (map (\<lambda>t. if t = t0 then n else t) xs) =
     map (\<lambda>t. if t = t0 then n else t) (with_prefix p xs)"
  by (induction xs) (auto simp: with_prefix_def)

lemma with_prefix_subst_other:
  "\<not> starts_with t0 q \<Longrightarrow> \<not> starts_with n q \<Longrightarrow>
   with_prefix q (map (\<lambda>t. if t = t0 then n else t) xs) = with_prefix q xs"
  by (induction xs) (auto simp: with_prefix_def)

lemma with_prefix_drop_tag:
  "with_prefix p (filter (\<lambda>t. t \<noteq> t0) xs) = filter (\<lambda>t. t \<noteq> t0) (with_prefix p xs)"
  by (induction xs) (auto simp: with_prefix_def)

lemma with_prefix_drop_other:
  "\<not> starts_with t0 q \<Longrightarrow> with_prefix q (filter (\<lambda>t. t \<noteq> t0) xs) = with_prefix q xs"
  by (induction xs) (auto simp: with_prefix_def)

lemma with_prefix_starts: "t \<in> set (with_prefix p xs) \<Longrightarrow> starts_with t p"
  by (simp add: with_prefix_def)

lemma patch_required_settles:
  assumes "with_prefix p xs = fam" "length fam \<le> 1"
  shows "scope_ok p (patch_required p fam xs)"
proof (cases fam)
  case Nil
  with assms show ?thesis by (simp add: patch_required_def scope_ok_def with_prefix_def)
next
  case (Cons t0 rest)
  with assms have fam: "fam = [t0]" and t0: "starts_with t0 p"
    using with_prefix_starts [of t0 p xs] by auto
  show ?thesis
  proof (cases "normalize_slug p t0")
    case None
    with assms(1) fam t0 show ?thesis
      by (auto simp: patch_required_def scope_ok_def with_prefix_drop_tag with_prefix_def [of p "[_]"])
  next
    case (Some n)
    then have n: "scope_re p n" by (rule normalize_slug_SomeD)
    with assms(1) fam t0 Some show ?thesis
      by (auto simp: patch_required_def scope_ok_def
          with_prefix_subst [OF t0 scope_re_prefix [OF n]])
  qed
qed

lemma patch_required_other:
  assumes "p \<in> families" "q \<in> families" "p \<noteq> q" "\<forall>t \<in> set fam. starts_with t p"
  shows "with_prefix q (patch_required p fam xs) = with_prefix q xs"
proof -
  have no: "starts_with t p \<Longrightarrow> \<not> starts_with t q" for t
    using families_disjoint assms by blast
  have unknown: "with_prefix q [p @ ''unknown''] = []"
    using no [of "p @ ''unknown''"] by (simp add: with_prefix_def)
  show ?thesis
    using assms(4) no unknown
    by (auto simp: patch_required_def with_prefix_subst_other with_prefix_drop_other
        dest!: normalize_slug_SomeD scope_re_prefix split: list.splits option.splits)
qed

lemma patch_task_settles:
  assumes "with_prefix ''task:'' xs = fam" "length fam \<le> 1"
  shows "task_ok (patch_task fam xs)"
proof (cases fam)
  case Nil
  with assms show ?thesis by (simp add: patch_task_def task_ok_def)
next
  case (Cons t0 rest)
  with assms have fam: "fam = [t0]" and t0: "starts_with t0 ''task:''"
    using with_prefix_starts [of t0 "''task:''" xs] by auto
  show ?thesis
  proof (cases "normalize_slug ''task:'' t0")
    case None
    with assms(1) fam t0 show ?thesis
      by (auto simp: patch_task_def task_ok_def scope_ok_def with_prefix_drop_tag)
  next
    case (Some n)
    then have n: "scope_re ''task:'' n" by (rule normalize_slug_SomeD)
    with assms(1) fam t0 Some show ?thesis
      by (auto simp: patch_task_def task_ok_def scope_ok_def
          with_prefix_subst [OF t0 scope_re_prefix [OF n]])
  qed
qed

lemma patch_task_other:
  assumes "q \<in> families" "q \<noteq> ''task:''" "\<forall>t \<in> set fam. starts_with t ''task:''"
  shows "with_prefix q (patch_task fam xs) = with_prefix q xs"
proof -
  have no: "starts_with t ''task:'' \<Longrightarrow> \<not> starts_with t q" for t
    using families_disjoint [of "''task:''" q t] assms by auto
  show ?thesis
    using assms(3) no
    by (auto simp: patch_task_def with_prefix_subst_other with_prefix_drop_other
        dest!: normalize_slug_SomeD scope_re_prefix split: list.splits option.splits)
qed

lemma with_prefix_all: "\<forall>t \<in> set (with_prefix p xs). starts_with t p"
  by (simp add: with_prefix_def)

text \<open>What the whole lax patch does to each family.\<close>

definition legacy_default :: "string list \<Rightarrow> string list" where
  "legacy_default ms = (if ms = [] then [''mnemos:legacy''] else ms)"

lemma with_prefix_single: "with_prefix p [t] = (if starts_with t p then [t] else [])"
  by (simp add: with_prefix_def)

lemma scope_ok_append_other: "\<not> starts_with t p \<Longrightarrow> scope_ok p (xs @ [t]) = scope_ok p xs"
  by (simp add: scope_ok_def with_prefix_single)

lemma task_ok_append_other: "\<not> starts_with t ''task:'' \<Longrightarrow> task_ok (xs @ [t]) = task_ok xs"
  by (simp add: task_ok_def scope_ok_append_other with_prefix_single)

lemma scope_ok_cong: "with_prefix p xs = with_prefix p ys \<Longrightarrow> scope_ok p xs = scope_ok p ys"
  by (simp add: scope_ok_def)

lemma patch_tags_families:
  assumes "fatal_errors tags = []"
  shows "scope_ok ''project:'' (patch_tags tags)" "scope_ok ''agent:'' (patch_tags tags)"
    "task_ok (patch_tags tags)"
    "with_prefix ''mnemos:'' (patch_tags tags) = legacy_default (with_prefix ''mnemos:'' tags)"
proof -
  define p1 where "p1 = patch_required ''project:'' (with_prefix ''project:'' tags) tags"
  define p2 where "p2 = patch_required ''agent:'' (with_prefix ''agent:'' tags) p1"
  define p3 where "p3 = patch_task (with_prefix ''task:'' tags) p2"
  have eq: "patch_tags tags =
      (if with_prefix ''mnemos:'' tags = [] then p3 @ [''mnemos:legacy''] else p3)"
    by (simp add: patch_tags_def Let_def p1_def p2_def p3_def)
  have len: "length (with_prefix p tags) \<le> 1" if "p \<in> {''project:'', ''agent:'', ''task:''}" for p
    using assms that fatal_errors_Nil by blast
  have q1: "with_prefix q p1 = with_prefix q tags" if "q \<in> families" "q \<noteq> ''project:''" for q
    using that with_prefix_all patch_required_other [of "''project:''" q] by (simp add: p1_def)
  have q2: "with_prefix q p2 = with_prefix q p1" if "q \<in> families" "q \<noteq> ''agent:''" for q
    using that with_prefix_all patch_required_other [of "''agent:''" q] by (simp add: p2_def)
  have q3: "with_prefix q p3 = with_prefix q p2" if "q \<in> families" "q \<noteq> ''task:''" for q
    using that with_prefix_all patch_task_other [of q] by (simp add: p3_def)
  have project: "scope_ok ''project:'' p1"
    unfolding p1_def by (rule patch_required_settles) (use len [of "''project:''"] in simp_all)
  have agent: "scope_ok ''agent:'' p2"
    unfolding p2_def by (rule patch_required_settles) (use len [of "''agent:''"] in \<open>simp_all add: q1\<close>)
  have task: "task_ok p3"
    unfolding p3_def by (rule patch_task_settles) (use len [of "''task:''"] in \<open>simp_all add: q1 q2\<close>)
  have mnemos: "with_prefix ''mnemos:'' p3 = with_prefix ''mnemos:'' tags"
    by (simp add: q1 q2 q3)
  show "scope_ok ''project:'' (patch_tags tags)"
    using project scope_ok_cong [of "''project:''" p3 p1]
    by (simp add: eq scope_ok_append_other q2 q3)
  show "scope_ok ''agent:'' (patch_tags tags)"
    using agent scope_ok_cong [of "''agent:''" p3 p2]
    by (simp add: eq scope_ok_append_other q3)
  show "task_ok (patch_tags tags)"
    using task by (simp add: eq task_ok_append_other)
  show "with_prefix ''mnemos:'' (patch_tags tags) = legacy_default (with_prefix ''mnemos:'' tags)"
    by (simp add: eq mnemos legacy_default_def with_prefix_single)
qed

lemma mnemos_tag_errors_legacy [simp]: "mnemos_tag_errors ''mnemos:legacy'' = []"
  by code_simp


lemma migrate_gcw_fixpoint:
  "migrate_gcw ts = ts \<longleftrightarrow>
     (\<forall>t \<in> set ts. starts_with t ''gcw:'' \<longrightarrow> drop 4 t \<notin> set VESMARO_TAG_SUBTYPES)"
proof (induction ts)
  case (Cons t ts)
  have "''mnemos:'' @ drop 4 t \<noteq> t" if "starts_with t ''gcw:''"
    using that by (auto simp: starts_with_iff)
  then show ?case using Cons by (simp add: migrate_gcw_def)
qed (simp add: migrate_gcw_def)

lemma migrate_gcw_idem: "migrate_gcw (migrate_gcw ts) = migrate_gcw ts"
  by (auto simp: migrate_gcw_def)

lemma patch_required_subset:
  "set (patch_required p fam xs) \<subseteq> set xs \<union> {t. starts_with t p}"
  by (auto simp: patch_required_def scope_re_prefix dest!: normalize_slug_SomeD
      split: list.splits option.splits if_splits)

lemma patch_task_subset: "set (patch_task fam xs) \<subseteq> set xs \<union> {t. starts_with t ''task:''}"
  by (auto simp: patch_task_def scope_re_prefix dest!: normalize_slug_SomeD
      split: list.splits option.splits if_splits)

lemma patch_tags_subset:
  "set (patch_tags tags) \<subseteq> set tags \<union> {t. \<exists>p \<in> families. starts_with t p}"
proof -
  have "\<exists>p \<in> families. starts_with ''mnemos:legacy'' p"
    by (rule bexI [of _ "''mnemos:''"]) simp_all
  moreover have "set (patch_tags tags) \<subseteq>
      insert ''mnemos:legacy'' (set (patch_task (with_prefix ''task:'' tags)
        (patch_required ''agent:'' (with_prefix ''agent:'' tags)
          (patch_required ''project:'' (with_prefix ''project:'' tags) tags))))"
    by (auto simp: patch_tags_def Let_def)
  ultimately show ?thesis
    using patch_required_subset patch_task_subset families_mem by (blast dest: subsetD)
qed

lemma patch_tags_migrated:
  assumes "migrate_gcw tags = tags"
  shows "migrate_gcw (patch_tags tags) = patch_tags tags"
  unfolding migrate_gcw_fixpoint
proof (intro ballI impI)
  fix t assume t: "t \<in> set (patch_tags tags)" and gcw: "starts_with t ''gcw:''"
  have "\<not> starts_with t p" if "p \<in> families" for p
    using gcw that by (auto simp: families_def starts_with_iff)
  with t have "t \<in> set tags" using patch_tags_subset by blast
  with assms gcw show "drop 4 t \<notin> set VESMARO_TAG_SUBTYPES"
    by (simp add: migrate_gcw_fixpoint)
qed

text \<open>
  The validated tags, whichever mode accepted them: one valid \<open>project:\<close> and \<open>agent:\<close> tag,
  at most one \<open>task:\<close> tag and it is valid, no known \<open>gcw:\<close> alias left.
\<close>

lemma validate_scopes:
  assumes "validate_tag_contract tags0 strict = Inr ts"
  shows "scope_ok ''project:'' ts \<and> scope_ok ''agent:'' ts \<and> task_ok ts \<and> migrate_gcw ts = ts"
proof -
  define tags where "tags = migrate_gcw tags0"
  have nofatal: "fatal_errors tags = []"
    using assms by (auto simp: validate_tag_contract_def tags_def Let_def split: if_splits)
  have mig: "migrate_gcw tags = tags" by (simp add: tags_def migrate_gcw_idem)
  have "ts = tags \<and> contract_ok tags \<or> ts = patch_tags tags"
    using assms nofatal patchable_errors_Nil [OF nofatal]
    by (auto simp: validate_tag_contract_def tags_def Let_def split: if_splits)
  then show ?thesis
    using patch_tags_families [OF nofatal] patch_tags_migrated [OF mig] mig
    by (auto simp: contract_ok_def)
qed

section \<open>Denormalisation\<close>

definition first_slug :: "nat \<Rightarrow> string \<Rightarrow> string \<Rightarrow> string list \<Rightarrow> string" where
  "first_slug n p a ts = foldl (\<lambda>a t. if starts_with t p \<and> a = [] then drop n t else a) a ts"

lemma first_slug_family: "first_slug n p a ts = first_slug n p a (with_prefix p ts)"
  unfolding first_slug_def by (induction ts arbitrary: a) (auto simp: with_prefix_def)

lemma tc_project_extract:
  "tc_project (foldl extract_tag c ts) = first_slug 8 ''project:'' (tc_project c) ts"
  unfolding first_slug_def by (induction ts arbitrary: c) (auto simp: extract_tag_def)

lemma tc_agent_extract:
  "tc_agent (foldl extract_tag c ts) = first_slug 6 ''agent:'' (tc_agent c) ts"
  unfolding first_slug_def
proof (induction ts arbitrary: c)
  case (Cons t ts)
  show ?case
    using Cons families_disjoint [of "''agent:''" "''project:''" t] by (simp add: extract_tag_def)
qed simp

lemma tc_task_extract:
  "tc_task (foldl extract_tag c ts) = first_slug 5 ''task:'' (tc_task c) ts"
  unfolding first_slug_def
proof (induction ts arbitrary: c)
  case (Cons t ts)
  show ?case
    using Cons families_disjoint [of "''task:''" "''project:''" t]
      families_disjoint [of "''task:''" "''agent:''" t] by (simp add: extract_tag_def)
qed simp

lemma tc_mnemos_extract:
  "tc_mnemos_subtypes (foldl extract_tag c ts) =
     tc_mnemos_subtypes c \<union> drop 7 ` set (with_prefix ''mnemos:'' ts)"
proof (induction ts arbitrary: c)
  case (Cons t ts)
  have "tc_mnemos_subtypes (extract_tag c t) =
      (if starts_with t ''mnemos:'' then insert (drop 7 t) (tc_mnemos_subtypes c)
       else tc_mnemos_subtypes c)"
    using families_disjoint [of "''mnemos:''" "''project:''" t]
      families_disjoint [of "''mnemos:''" "''agent:''" t]
      families_disjoint [of "''mnemos:''" "''task:''" t] by (simp add: extract_tag_def)
  with Cons show ?case by (auto simp: with_prefix_def)
qed simp

lemma tc_tags_extract: "tc_tags (foldl extract_tag c ts) = tc_tags c"
  by (induction ts arbitrary: c) (auto simp: extract_tag_def)

lemmas extract_simps = tc_project_extract tc_agent_extract tc_task_extract tc_mnemos_extract
  tc_tags_extract

lemma first_slug_scope_ok:
  assumes "scope_ok p ts" "n = length p"
  shows "first_slug n p [] ts \<noteq> [] \<and> with_prefix p ts = [p @ first_slug n p [] ts]"
proof -
  from assms obtain t where t: "with_prefix p ts = [t]" "scope_re p t" by (auto simp: scope_ok_def)
  then have "t = p @ drop (length p) t" "drop (length p) t \<noteq> []" "starts_with t p"
    by (auto simp: scope_re_def slug_re_def starts_with_iff)
  then show ?thesis
    unfolding first_slug_family [of n p "[]" ts] t(1) using assms(2) by (simp add: first_slug_def)
qed

section \<open>Properties\<close>

text \<open>
  Strict validation accepts exactly the tag sets that satisfy the contract once the
  \<open>gcw:\<close> alias is rewritten, and returns the rewritten tags unchanged otherwise.
\<close>

theorem validate_strict_iff:
  "validate_tag_contract tags True = Inr ts \<longleftrightarrow>
     ts = migrate_gcw tags \<and> contract_ok (migrate_gcw tags)"
  using patchable_errors_Nil [of "migrate_gcw tags"] contract_ok_no_fatal [of "migrate_gcw tags"]
  by (auto simp: validate_tag_contract_def Let_def split: if_splits)

text \<open>
  C1. Lax validation fails only on duplicated scope tags; what it returns has one valid
  \<open>project:\<close> and one valid \<open>agent:\<close> tag, a valid \<open>task:\<close> tag if any, a non-empty
  \<open>mnemos:\<close> family, and the \<open>mnemos:\<close> tags of the caller untouched.  It therefore
  revalidates strictly exactly when the caller's \<open>mnemos:\<close> tags were valid: the lax mode
  does not repair them.
\<close>

theorem validate_lax_repairs:
  assumes "fatal_errors (migrate_gcw tags) = []"
  shows "\<exists>ts. validate_tag_contract tags False = Inr ts \<and>
    scope_ok ''project:'' ts \<and> scope_ok ''agent:'' ts \<and> task_ok ts \<and>
    with_prefix ''mnemos:'' ts = legacy_default (with_prefix ''mnemos:'' (migrate_gcw tags)) \<and>
    (validate_tag_contract ts True = Inr ts \<longleftrightarrow>
       list_all (\<lambda>t. mnemos_tag_errors t = []) (with_prefix ''mnemos:'' (migrate_gcw tags)))"
proof -
  define ms where "ms = with_prefix ''mnemos:'' (migrate_gcw tags)"
  obtain ts where ts: "validate_tag_contract tags False = Inr ts"
      "with_prefix ''mnemos:'' ts = legacy_default ms"
  proof (cases "patchable_errors (migrate_gcw tags) = []")
    case True
    then have "ms \<noteq> []"
      using patchable_errors_Nil [OF assms] by (auto simp: contract_ok_def mnemos_ok_def ms_def)
    with True assms show ?thesis
      by (intro that [of "migrate_gcw tags"])
         (auto simp: validate_tag_contract_def Let_def legacy_default_def ms_def)
  next
    case False
    with assms patch_tags_families(4) [OF assms] show ?thesis
      by (intro that [of "patch_tags (migrate_gcw tags)"])
         (auto simp: validate_tag_contract_def Let_def ms_def)
  qed
  note sc = validate_scopes [OF ts(1)]
  have mg: "mnemos_ok ts \<longleftrightarrow> (\<forall>t \<in> set ms. mnemos_tag_errors t = [])"
    using ts(2) by (auto simp: mnemos_ok_def legacy_default_def)
  have "contract_ok ts \<longleftrightarrow> mnemos_ok ts" using sc by (simp add: contract_ok_def)
  moreover have "validate_tag_contract ts True = Inr ts \<longleftrightarrow> contract_ok ts"
    using sc patchable_errors_Nil [of ts] contract_ok_no_fatal [of ts]
    by (auto simp: validate_tag_contract_def Let_def split: if_splits)
  ultimately show ?thesis
    using ts sc mg unfolding ms_def [symmetric] list_all_iff by (intro exI [of _ ts]) simp
qed

lemma validate_lax_repairs_witness:
  "\<exists>ts. validate_tag_contract [''project:My App'', ''gcw:rule'', ''mnemos:Bad''] False = Inr ts \<and>
     scope_ok ''project:'' ts \<and> scope_ok ''agent:'' ts \<and> validate_tag_contract ts True \<noteq> Inr ts"
proof -
  have "fatal_errors (migrate_gcw [''project:My App'', ''gcw:rule'', ''mnemos:Bad'']) = []"
    by code_simp
  moreover have "\<not> list_all (\<lambda>t. mnemos_tag_errors t = [])
      (with_prefix ''mnemos:'' (migrate_gcw [''project:My App'', ''gcw:rule'', ''mnemos:Bad'']))"
    by code_simp
  ultimately show ?thesis
    using validate_lax_repairs [of "[''project:My App'', ''gcw:rule'', ''mnemos:Bad'']"] by blast
qed

text \<open>
  The denormalised fields of a validated contract name the tags of the set: the project
  and the agent slug are those of the only tag of their family, the task slug is empty
  exactly when there is no task tag, and the subtypes are those of the \<open>mnemos:\<close> tags.
\<close>

theorem TagContract_fields:
  assumes "TagContract tags strict = Inr c"
  shows "validate_tag_contract tags strict = Inr (tc_tags c) \<and>
    with_prefix ''project:'' (tc_tags c) = [''project:'' @ tc_project c] \<and>
    with_prefix ''agent:'' (tc_tags c) = [''agent:'' @ tc_agent c] \<and>
    with_prefix ''task:'' (tc_tags c) =
      (if tc_task c = [] then [] else [''task:'' @ tc_task c]) \<and>
    tc_mnemos_subtypes c = drop 7 ` set (with_prefix ''mnemos:'' (tc_tags c))"
proof (intro conjI)
  from assms obtain ts where v: "validate_tag_contract tags strict = Inr ts"
    and c: "c = foldl extract_tag \<lparr>tc_tags = ts, tc_project = [], tc_agent = [], tc_task = [],
                  tc_mnemos_subtypes = {}\<rparr> ts"
    by (auto simp: TagContract_def split: sum.splits)
  note sc = validate_scopes [OF v]
  show "validate_tag_contract tags strict = Inr (tc_tags c)"
    using v by (simp add: c extract_simps)
  show "with_prefix ''project:'' (tc_tags c) = [''project:'' @ tc_project c]"
    using sc first_slug_scope_ok [of "''project:''" ts 8] by (simp add: c extract_simps)
  show "with_prefix ''agent:'' (tc_tags c) = [''agent:'' @ tc_agent c]"
    using sc first_slug_scope_ok [of "''agent:''" ts 6] by (simp add: c extract_simps)
  show "with_prefix ''task:'' (tc_tags c) = (if tc_task c = [] then [] else [''task:'' @ tc_task c])"
  proof (cases "with_prefix ''task:'' ts = []")
    case True
    then have "first_slug 5 ''task:'' [] ts = []"
      unfolding first_slug_family [of 5 "''task:''" "[]" ts] by (simp add: first_slug_def)
    with True show ?thesis by (simp add: c extract_simps)
  next
    case False
    then show ?thesis
      using sc first_slug_scope_ok [of "''task:''" ts 5] by (simp add: c extract_simps task_ok_def)
  qed
  show "tc_mnemos_subtypes c = drop 7 ` set (with_prefix ''mnemos:'' (tc_tags c))"
    by (simp add: c extract_simps)
qed

lemma TagContract_fields_witness:
  "\<exists>c. TagContract [''agent:coder'', ''project:Web App'', ''gcw:learning''] False = Inr c \<and>
     with_prefix ''project:'' (tc_tags c) = [''project:'' @ tc_project c]"
proof -
  have "\<not> isl (TagContract [''agent:coder'', ''project:Web App'', ''gcw:learning''] False)"
    by code_simp
  then have "\<exists>c. TagContract [''agent:coder'', ''project:Web App'', ''gcw:learning''] False = Inr c"
    by (cases "TagContract [''agent:coder'', ''project:Web App'', ''gcw:learning''] False") auto
  then show ?thesis using TagContract_fields by blast
qed

end
