(* ===== verification/Memory_Store.thy ===== *)
theory Memory_Store
  imports Memory_Model
begin

text \<open>
  The memories table of \<open>src/src/vesmaro/storage/sqlite_store.py\<close>: CRUD, the listing
  queries, the compare-and-set operations of the refine queue, the key-value \<open>meta\<close> table
  and the operations that span both (session binding, document re-chunking).

  A row carries the public projection of the record and the columns that are not part of
  it.  The list of rows is in rowid order; an INSERT takes the next rowid after the largest
  one.  Every operation takes the clock reading \<open>now\<close> it makes.  Optional string filters
  are \<open>None\<close> or the empty string when absent (\<open>if project:\<close>).  Rows with equal sort keys
  come in rowid order, where SQLite leaves the order open.
\<close>

section \<open>Rows\<close>

record row =
  rowid :: nat
  mem :: memory
  rewrite_source :: "string option"
  rewrite_session :: "string option"
  rewrite_event_key :: "string option"

abbreviation row_id :: "row \<Rightarrow> string" where
  "row_id r \<equiv> m_id (mem r)"

text \<open>\<open>int(_get("marker_version", 1) or 1)\<close> is the only column read through a default.\<close>

definition row_to_memory :: "row \<Rightarrow> memory" where
  "row_to_memory r =
     (mem r)\<lparr>m_marker_version := (if m_marker_version (mem r) = 0 then 1 else m_marker_version (mem r))\<rparr>"

definition promoted :: "bool \<Rightarrow> metadata \<Rightarrow> string \<Rightarrow> string option" where
  "promoted trusted md k =
     (if trusted
      then (case md k of
              Some v \<Rightarrow> (case json_str v of Some s \<Rightarrow> if s = [] then None else Some s | None \<Rightarrow> None)
            | None \<Rightarrow> None)
      else None)"

text \<open>What both statements of \<open>save\<close> bind; the workflow columns are in neither.\<close>

definition saved_columns :: "memory \<Rightarrow> memory \<Rightarrow> memory" where
  "saved_columns old m =
     m\<lparr>m_title := Some (auto_title m),
       m_filter_stats := (case m_filter_stats m of
                            Some j \<Rightarrow> if json_truthy j then Some j else None | None \<Rightarrow> None),
       m_workflow_status := m_workflow_status old,
       m_locked_by := m_locked_by old,
       m_locked_at := m_locked_at old\<rparr>"

definition no_workflow :: "memory \<Rightarrow> memory" where
  "no_workflow m = m\<lparr>m_workflow_status := None, m_locked_by := None, m_locked_at := None\<rparr>"

definition next_rowid :: "row list \<Rightarrow> nat" where
  "next_rowid rs = Suc (foldr (\<lambda>r n. max (rowid r) n) rs 0)"

definition inserted_row :: "bool \<Rightarrow> memory \<Rightarrow> row list \<Rightarrow> row" where
  "inserted_row trusted m rs =
     \<lparr>rowid = next_rowid rs, mem = saved_columns (no_workflow m) m,
      rewrite_source = promoted trusted (m_metadata m) ''source'',
      rewrite_session = promoted trusted (m_metadata m) ''rewrite_session'',
      rewrite_event_key = promoted trusted (m_metadata m) ''rewrite_event_key''\<rparr>"

definition updated_row :: "bool \<Rightarrow> memory \<Rightarrow> row \<Rightarrow> row" where
  "updated_row trusted m r =
     (if trusted
      then r\<lparr>mem := saved_columns (mem r) m,
             rewrite_source := promoted trusted (m_metadata m) ''source'',
             rewrite_session := promoted trusted (m_metadata m) ''rewrite_session'',
             rewrite_event_key := promoted trusted (m_metadata m) ''rewrite_event_key''\<rparr>
      else r\<lparr>mem := saved_columns (mem r) m\<rparr>)"

definition save :: "bool \<Rightarrow> memory \<Rightarrow> row list \<Rightarrow> row list" where
  "save trusted m rs =
     (if row_find row_id (m_id m) rs \<noteq> None
      then rows_update (\<lambda>r. row_id r = m_id m) (updated_row trusted m) rs
      else rs @ [inserted_row trusted m rs])"

definition get :: "string \<Rightarrow> row list \<Rightarrow> memory option" where
  "get memory_id rs = map_option row_to_memory (row_find row_id memory_id rs)"

definition delete :: "string \<Rightarrow> row list \<Rightarrow> bool \<times> row list" where
  "delete memory_id rs =
     (0 < rowcount (\<lambda>r. row_id r = memory_id) rs, rows_delete (\<lambda>r. row_id r = memory_id) rs)"

text \<open>An UPDATE of the public columns of the rows that satisfy the WHERE clause.\<close>

definition update_where :: "(memory \<Rightarrow> bool) \<Rightarrow> (memory \<Rightarrow> memory) \<Rightarrow> row list \<Rightarrow> bool \<times> row list" where
  "update_where P f rs =
     (0 < rowcount (\<lambda>r. P (mem r)) rs,
      rows_update (\<lambda>r. P (mem r)) (\<lambda>r. r\<lparr>mem := f (mem r)\<rparr>) rs)"

definition update_status :: "string \<Rightarrow> memory_status \<Rightarrow> moment \<Rightarrow> row list \<Rightarrow> bool \<times> row list" where
  "update_status memory_id st now rs =
     update_where (\<lambda>m. m_id m = memory_id) (\<lambda>m. m\<lparr>m_status := st, m_updated_at := now\<rparr>) rs"

text \<open>The whitelist \<open>_FIELD_UPDATERS\<close>; \<open>F_unknown\<close> is any other keyword.\<close>

datatype field_update =
    F_status memory_status
  | F_quality_score "real option"
  | F_confidence "real option"
  | F_source_coverage "int option"
  | F_cluster_id "string option"
  | F_derived_from "string list"
  | F_embedding_id "string option"
  | F_clean_content "string option"
  | F_filter_profile "string option"
  | F_filter_stats "json option"
  | F_filter_version "string option"
  | F_title "string option"
  | F_content string
  | F_tags "string list"
  | F_category "string option"
  | F_file_path "string option"
  | F_project string
  | F_agent string
  | F_pipeline_state "pipeline_state option"
  | F_processed_at "moment option"
  | F_swap_key "string option"
  | F_quarantine_reason "string option"
  | F_marker_version int
  | F_raw_content "string option"
  | F_metadata metadata
  | F_unknown string

fun whitelisted :: "field_update \<Rightarrow> bool" where
  "whitelisted (F_unknown _) = False"
| "whitelisted _ = True"

fun apply_field :: "field_update \<Rightarrow> memory \<Rightarrow> memory" where
  "apply_field (F_status v) m = m\<lparr>m_status := v\<rparr>"
| "apply_field (F_quality_score v) m = m\<lparr>m_quality_score := v\<rparr>"
| "apply_field (F_confidence v) m = m\<lparr>m_confidence := v\<rparr>"
| "apply_field (F_source_coverage v) m = m\<lparr>m_source_coverage := v\<rparr>"
| "apply_field (F_cluster_id v) m = m\<lparr>m_cluster_id := v\<rparr>"
| "apply_field (F_derived_from v) m = m\<lparr>m_derived_from := v\<rparr>"
| "apply_field (F_embedding_id v) m = m\<lparr>m_embedding_id := v\<rparr>"
| "apply_field (F_clean_content v) m = m\<lparr>m_clean_content := v\<rparr>"
| "apply_field (F_filter_profile v) m = m\<lparr>m_filter_profile := v\<rparr>"
| "apply_field (F_filter_stats v) m = m\<lparr>m_filter_stats := (if v = Some JNull then None else v)\<rparr>"
| "apply_field (F_filter_version v) m = m\<lparr>m_filter_version := v\<rparr>"
| "apply_field (F_title v) m = m\<lparr>m_title := v\<rparr>"
| "apply_field (F_content v) m = m\<lparr>m_content := v\<rparr>"
| "apply_field (F_tags v) m = m\<lparr>m_tags := v\<rparr>"
| "apply_field (F_category v) m = m\<lparr>m_category := v\<rparr>"
| "apply_field (F_file_path v) m = m\<lparr>m_file_path := v\<rparr>"
| "apply_field (F_project v) m = m\<lparr>m_project := v\<rparr>"
| "apply_field (F_agent v) m = m\<lparr>m_agent := v\<rparr>"
| "apply_field (F_pipeline_state v) m = m\<lparr>m_pipeline_state := v\<rparr>"
| "apply_field (F_processed_at v) m = m\<lparr>m_processed_at := v\<rparr>"
| "apply_field (F_swap_key v) m = m\<lparr>m_swap_key := v\<rparr>"
| "apply_field (F_quarantine_reason v) m = m\<lparr>m_quarantine_reason := v\<rparr>"
| "apply_field (F_marker_version v) m = m\<lparr>m_marker_version := v\<rparr>"
| "apply_field (F_raw_content v) m = m\<lparr>m_raw_content := v\<rparr>"
| "apply_field (F_metadata v) m = m\<lparr>m_metadata := v\<rparr>"
| "apply_field (F_unknown _) m = m"

definition update_fields :: "string \<Rightarrow> field_update list \<Rightarrow> moment \<Rightarrow> row list \<Rightarrow> bool \<times> row list" where
  "update_fields memory_id kwargs now rs =
     (let updates = filter whitelisted kwargs
      in if updates = [] then (False, rs)
         else update_where (\<lambda>m. m_id m = memory_id)
                (\<lambda>m. (fold apply_field updates m)\<lparr>m_updated_at := now\<rparr>) rs)"

section \<open>The refine queue\<close>

text \<open>\<open>_refine_intake_where\<close>\<close>

definition refine_intake :: "int \<Rightarrow> moment \<Rightarrow> memory \<Rightarrow> bool" where
  "refine_intake max_attempts now m \<longleftrightarrow>
     m_pipeline_state m = Some PS_PENDING \<or>
     (m_pipeline_state m = Some PS_FAILED \<and>
      sql_cast_int (m_metadata m ''pipeline_retry_count'') < max_attempts \<and>
      sql_le_stamp (m_metadata m ''pipeline_retry_at'') now)"

definition opt_filter :: "string option \<Rightarrow> string \<Rightarrow> bool" where
  "opt_filter f v \<longleftrightarrow> (truthy f \<longrightarrow> f = Some v)"

definition list_refine_intake ::
  "int \<Rightarrow> string option \<Rightarrow> string option \<Rightarrow> int \<Rightarrow> moment \<Rightarrow> row list \<Rightarrow> memory list" where
  "list_refine_intake limit project agent max_attempts now rs =
     map row_to_memory (sql_limit limit (order_desc (\<lambda>r. m_created_at (mem r))
       (filter (\<lambda>r. refine_intake max_attempts now (mem r) \<and>
                    opt_filter project (m_project (mem r)) \<and> opt_filter agent (m_agent (mem r))) rs)))"

definition count_refine_intake :: "int \<Rightarrow> moment \<Rightarrow> row list \<Rightarrow> nat" where
  "count_refine_intake max_attempts now rs = rowcount (\<lambda>r. refine_intake max_attempts now (mem r)) rs"

text \<open>\<open>now_iso\<close> is the caller's reading for the predicate, \<open>now\<close> the stamp of the claim.\<close>

definition claim_for_refinement ::
  "string \<Rightarrow> int \<Rightarrow> moment \<Rightarrow> moment \<Rightarrow> row list \<Rightarrow> bool \<times> row list" where
  "claim_for_refinement memory_id max_attempts now_iso now rs =
     update_where (\<lambda>m. m_id m = memory_id \<and> refine_intake max_attempts now_iso m)
       (\<lambda>m. m\<lparr>m_pipeline_state := Some PS_PROCESSING, m_updated_at := now\<rparr>) rs"

definition lease_expired :: "moment \<Rightarrow> memory \<Rightarrow> bool" where
  "lease_expired cutoff m \<longleftrightarrow> m_pipeline_state m = Some PS_PROCESSING \<and> m_updated_at m < cutoff"

definition reclaim_one :: "moment \<Rightarrow> moment \<Rightarrow> string \<Rightarrow> row list \<Rightarrow> bool \<times> row list" where
  "reclaim_one now cutoff row_id' rs =
     update_where (\<lambda>m. m_id m = row_id' \<and> lease_expired cutoff m)
       (\<lambda>m. m\<lparr>m_pipeline_state := Some PS_PENDING, m_updated_at := now\<rparr>) rs"

fun reclaim_loop ::
  "moment \<Rightarrow> moment \<Rightarrow> (string \<times> moment) list \<Rightarrow> row list \<Rightarrow> (string \<times> moment) list \<times> row list" where
  "reclaim_loop now cutoff [] rs = ([], rs)"
| "reclaim_loop now cutoff ((i, t) # stale) rs =
     (case reclaim_one now cutoff i rs of
        (won, rs1) \<Rightarrow>
          (case reclaim_loop now cutoff stale rs1 of
             (reclaimed, rs2) \<Rightarrow> (if won then (i, t) # reclaimed else reclaimed, rs2)))"

definition stale_processing :: "moment \<Rightarrow> int \<Rightarrow> row list \<Rightarrow> (string \<times> moment) list" where
  "stale_processing cutoff limit rs =
     map (\<lambda>r. (row_id r, m_updated_at (mem r)))
       (sql_limit limit (order_asc (\<lambda>r. m_updated_at (mem r))
         (filter (\<lambda>r. lease_expired cutoff (mem r)) rs)))"

definition reclaim_stale_processing ::
  "int \<Rightarrow> int \<Rightarrow> moment \<Rightarrow> row list \<Rightarrow> (string \<times> moment) list \<times> row list" where
  "reclaim_stale_processing lease_timeout_sec limit now rs =
     (let cutoff = now - sec lease_timeout_sec
      in reclaim_loop now cutoff (stale_processing cutoff limit rs) rs)"

definition record_refine_failure ::
  "string \<Rightarrow> int \<Rightarrow> moment option \<Rightarrow> moment \<Rightarrow> row list \<Rightarrow> bool \<times> row list" where
  "record_refine_failure memory_id attempt next_retry_at now rs =
     update_where (\<lambda>m. m_id m = memory_id)
       (\<lambda>m. m\<lparr>m_pipeline_state := Some PS_FAILED,
              m_metadata := (m_metadata m)
                (''pipeline_retry_count'' \<mapsto> JInt attempt,
                 ''pipeline_retry_at'' \<mapsto> (case next_retry_at of None \<Rightarrow> JStr [] | Some t \<Rightarrow> JStamp t)),
              m_updated_at := now\<rparr>) rs"

definition clear_refine_retry :: "string \<Rightarrow> moment \<Rightarrow> row list \<Rightarrow> bool \<times> row list" where
  "clear_refine_retry memory_id now rs =
     update_where (\<lambda>m. m_id m = memory_id)
       (\<lambda>m. m\<lparr>m_metadata := (m_metadata m)
                (''pipeline_retry_count'' \<mapsto> JInt 0, ''pipeline_retry_at'' \<mapsto> JStr []),
              m_updated_at := now\<rparr>) rs"

definition list_by_pipeline_state ::
  "pipeline_state \<Rightarrow> int \<Rightarrow> int \<Rightarrow> string option \<Rightarrow> string option \<Rightarrow> row list \<Rightarrow> memory list" where
  "list_by_pipeline_state ps limit offset project agent rs =
     map row_to_memory (sql_limit limit (sql_offset (max 0 offset) (order_desc (\<lambda>r. m_created_at (mem r))
       (filter (\<lambda>r. m_pipeline_state (mem r) = Some ps \<and>
                    opt_filter project (m_project (mem r)) \<and> opt_filter agent (m_agent (mem r))) rs))))"

definition pipeline_key :: "memory \<Rightarrow> string" where
  "pipeline_key m = (case m_pipeline_state m of None \<Rightarrow> ''legacy'' | Some ps \<Rightarrow> pipeline_state_value ps)"

definition count_by_pipeline_state :: "row list \<Rightarrow> string \<rightharpoonup> nat" where
  "count_by_pipeline_state rs =
     (\<lambda>s. let n = rowcount (\<lambda>r. pipeline_key (mem r) = s) rs in if n = 0 then None else Some n)"

section \<open>Listing\<close>

text \<open>SQLite's \<open>LIKE\<close>: \<open>%\<close> and \<open>_\<close> are wildcards, ASCII letters match in either case.\<close>

definition ascii_lower :: "char \<Rightarrow> char" where
  "ascii_lower c = (let n = of_char c :: nat in if 65 \<le> n \<and> n \<le> 90 then char_of (n + 32) else c)"

function sql_like :: "string \<Rightarrow> string \<Rightarrow> bool" where
  "sql_like [] s = (s = [])"
| "sql_like (p # ps) s =
     (if p = CHR ''%'' then sql_like ps s \<or> (case s of [] \<Rightarrow> False | c # cs \<Rightarrow> sql_like (p # ps) cs)
      else (case s of [] \<Rightarrow> False
            | c # cs \<Rightarrow> (p = CHR ''_'' \<or> ascii_lower p = ascii_lower c) \<and> sql_like ps cs))"
  by pat_completeness auto
termination
  by (relation "measure (\<lambda>(p, s). length p + length s)") auto

definition category_matches :: "string option \<Rightarrow> string option \<Rightarrow> bool" where
  "category_matches f v =
     (case f of
        None \<Rightarrow> True
      | Some c \<Rightarrow>
          if c = ''__uncategorized'' then v = None
          else (case v of None \<Rightarrow> False | Some w \<Rightarrow> w = c \<or> sql_like (c @ ''/%'') w))"

record list_filter =
  lf_source :: "memory_source option"
  lf_memory_type :: "memory_type option"
  lf_status :: "memory_status option"
  lf_project :: "string option"
  lf_agent :: "string option"
  lf_tags :: "string list"
  lf_category :: "string option"
  lf_since :: "moment option"
  lf_until :: "moment option"

definition opt_eq :: "'a option \<Rightarrow> 'a \<Rightarrow> bool" where
  "opt_eq f v \<longleftrightarrow> (case f of None \<Rightarrow> True | Some x \<Rightarrow> x = v)"

definition list_filter_matches :: "list_filter \<Rightarrow> memory \<Rightarrow> bool" where
  "list_filter_matches f m \<longleftrightarrow>
     opt_eq (lf_source f) (m_source m) \<and> opt_eq (lf_memory_type f) (m_memory_type m) \<and>
     opt_eq (lf_status f) (m_status m) \<and> opt_filter (lf_project f) (m_project m) \<and>
     opt_filter (lf_agent f) (m_agent m) \<and> list_all (\<lambda>t. t \<in> set (m_tags m)) (lf_tags f) \<and>
     category_matches (lf_category f) (m_category m) \<and>
     (case lf_since f of None \<Rightarrow> True | Some t \<Rightarrow> t \<le> m_created_at m) \<and>
     (case lf_until f of None \<Rightarrow> True | Some t \<Rightarrow> m_created_at m \<le> t)"

definition list_all_rows :: "int \<Rightarrow> int \<Rightarrow> list_filter \<Rightarrow> row list \<Rightarrow> memory list" where
  "list_all_rows limit offset f rs =
     map row_to_memory (sql_limit limit (sql_offset offset (order_desc (\<lambda>r. m_created_at (mem r))
       (filter (\<lambda>r. list_filter_matches f (mem r)) rs))))"

definition mesh_scope :: "string list \<Rightarrow> string list \<Rightarrow> moment option \<Rightarrow> memory \<Rightarrow> bool" where
  "mesh_scope projects tags since m \<longleftrightarrow>
     (projects = [] \<or> m_project m \<in> set projects) \<and> list_all (\<lambda>t. t \<in> set (m_tags m)) tags \<and>
     (case since of None \<Rightarrow> True | Some t \<Rightarrow> t \<le> m_created_at m)"

definition list_all_for_mesh ::
  "int \<Rightarrow> string list \<Rightarrow> string list \<Rightarrow> moment option \<Rightarrow> int \<Rightarrow> row list \<Rightarrow> (memory \<times> nat) list" where
  "list_all_for_mesh limit projects tags since after_rowid rs =
     map (\<lambda>r. (row_to_memory r, rowid r))
       (sql_limit limit (order_asc rowid
         (filter (\<lambda>r. mesh_scope projects tags since (mem r) \<and>
                      (after_rowid > 0 \<longrightarrow> after_rowid < int (rowid r))) rs)))"

definition list_recent_for_agent :: "string \<Rightarrow> string option \<Rightarrow> int \<Rightarrow> row list \<Rightarrow> memory list" where
  "list_recent_for_agent agent project limit rs =
     map row_to_memory (sql_limit limit (order_desc (\<lambda>r. m_created_at (mem r))
       (filter (\<lambda>r. m_agent (mem r) = agent \<and> opt_filter project (m_project (mem r))) rs)))"

definition list_by_cluster :: "string \<Rightarrow> row list \<Rightarrow> memory list" where
  "list_by_cluster cluster_id rs =
     map row_to_memory (order_asc (\<lambda>r. m_created_at (mem r))
       (filter (\<lambda>r. m_cluster_id (mem r) = Some cluster_id) rs))"

definition exists_since :: "string \<Rightarrow> moment \<Rightarrow> row list \<Rightarrow> bool" where
  "exists_since project since rs \<longleftrightarrow>
     list_ex (\<lambda>r. m_project (mem r) = project \<and> since < m_created_at (mem r) \<and>
                  m_status (mem r) \<noteq> ARCHIVED) rs"

definition first_row :: "row list \<Rightarrow> memory option" where
  "first_row rs = (case rs of [] \<Rightarrow> None | r # _ \<Rightarrow> Some (row_to_memory r))"

definition find_checkpoint_by_dedup_key :: "string \<Rightarrow> string \<Rightarrow> string \<Rightarrow> row list \<Rightarrow> memory option" where
  "find_checkpoint_by_dedup_key project agent dedup_key rs =
     first_row (order_desc (\<lambda>r. m_created_at (mem r))
       (filter (\<lambda>r. m_project (mem r) = project \<and> m_agent (mem r) = agent \<and>
                    sql_eq_text (m_metadata (mem r) ''checkpoint_dedup_key'') dedup_key \<and>
                    sql_eq_text (m_metadata (mem r) ''checkpoint_agent'') agent \<and>
                    ''mnemos:checkpoint'' \<in> set (m_tags (mem r))) rs))"

definition oldest_first :: "row list \<Rightarrow> row list" where
  "oldest_first rs = order_asc (\<lambda>r. m_created_at (mem r)) (order_asc row_id rs)"

definition find_federated_duplicate :: "string \<Rightarrow> string \<Rightarrow> string \<Rightarrow> row list \<Rightarrow> memory option" where
  "find_federated_duplicate fed_id title source_agent rs =
     (if fed_id \<noteq> [] then
        first_row (oldest_first (filter (\<lambda>r. sql_eq_text (m_metadata (mem r) ''fed_id'') fed_id) rs))
      else if title \<noteq> [] \<and> source_agent \<noteq> [] then
        first_row (oldest_first (filter (\<lambda>r. m_title (mem r) = Some title \<and>
          sql_eq_text (m_metadata (mem r) ''fed_source_agent'') source_agent) rs))
      else None)"

definition touch_last_fed_at :: "string \<Rightarrow> moment \<Rightarrow> row list \<Rightarrow> bool \<times> row list" where
  "touch_last_fed_at memory_id now rs =
     update_where (\<lambda>m. m_id m = memory_id \<and>
                       m_metadata m ''last_fed_at'' \<noteq> None \<and> m_metadata m ''last_fed_at'' \<noteq> Some JNull)
       (\<lambda>m. m\<lparr>m_metadata := (m_metadata m)(''last_fed_at'' \<mapsto> JStamp now), m_updated_at := now\<rparr>) rs"

section \<open>The meta table\<close>

record meta_row =
  mr_key :: string
  mr_value :: string
  mr_updated_at :: moment

definition set_meta :: "string \<Rightarrow> string \<Rightarrow> moment \<Rightarrow> meta_row list \<Rightarrow> meta_row list" where
  "set_meta key v now ms =
     (if row_find mr_key key ms \<noteq> None
      then rows_update (\<lambda>r. mr_key r = key) (\<lambda>r. r\<lparr>mr_value := v, mr_updated_at := now\<rparr>) ms
      else ms @ [\<lparr>mr_key = key, mr_value = v, mr_updated_at = now\<rparr>])"

definition get_meta :: "meta_row list \<Rightarrow> string \<Rightarrow> string option" where
  "get_meta ms key = map_option mr_value (row_find mr_key key ms)"

definition SESSION_AGENT_META_PREFIX :: string where
  "SESSION_AGENT_META_PREFIX = ''session_agent_binding:''"

definition bind_session_agent :: "string \<Rightarrow> string \<Rightarrow> moment \<Rightarrow> meta_row list \<Rightarrow> string \<times> meta_row list" where
  "bind_session_agent session_id agent now ms =
     (let key = SESSION_AGENT_META_PREFIX @ session_id;
          ms1 = (if row_find mr_key key ms = None
                 then ms @ [\<lparr>mr_key = key, mr_value = agent, mr_updated_at = now\<rparr>] else ms)
      in (case get_meta ms1 key of Some v \<Rightarrow> v | None \<Rightarrow> agent, ms1))"

section \<open>Documents\<close>

record store =
  memories :: "row list"
  meta :: "meta_row list"

definition of_doc :: "string \<Rightarrow> memory \<Rightarrow> bool" where
  "of_doc doc_id m \<longleftrightarrow> sql_eq_text (m_metadata m ''doc_id'') doc_id"

definition doc_chunk_rows :: "string \<Rightarrow> row list \<Rightarrow> row list" where
  "doc_chunk_rows doc_id rs =
     order_asc (\<lambda>r. sql_cast_int (m_metadata (mem r) ''chunk_idx''))
       (filter (\<lambda>r. of_doc doc_id (mem r)) rs)"

definition list_doc_chunks :: "string \<Rightarrow> row list \<Rightarrow> memory list" where
  "list_doc_chunks doc_id rs = map row_to_memory (doc_chunk_rows doc_id rs)"

definition list_doc_chunk_ids :: "string \<Rightarrow> row list \<Rightarrow> string list" where
  "list_doc_chunk_ids doc_id rs = map row_id (doc_chunk_rows doc_id rs)"

definition delete_doc_chunks :: "string \<Rightarrow> row list \<Rightarrow> nat \<times> row list" where
  "delete_doc_chunks doc_id rs =
     (rowcount (\<lambda>r. of_doc doc_id (mem r)) rs, rows_delete (\<lambda>r. of_doc doc_id (mem r)) rs)"

datatype doc_error = EmptyRows | IntegrityError string | BadVersion string

text \<open>The INSERTs of the new chunks: a duplicate primary key raises.\<close>

fun insert_chunks :: "memory list \<Rightarrow> row list \<Rightarrow> doc_error + row list" where
  "insert_chunks [] rs = Inr rs"
| "insert_chunks (m # ms) rs =
     (if row_find row_id (m_id m) rs \<noteq> None then Inl (IntegrityError (m_id m))
      else insert_chunks ms (rs @ [inserted_row False m rs]))"

record doc_replacement =
  dr_deleted :: nat
  dr_inserted :: nat
  dr_cache_version :: int
  dr_deleted_rows :: "memory list"

definition replace_doc_chunks ::
  "string \<Rightarrow> memory list \<Rightarrow> string \<Rightarrow> moment \<Rightarrow> store \<Rightarrow> (doc_error + doc_replacement) \<times> store" where
  "replace_doc_chunks doc_id new_rows cache_version_key now st =
     (if new_rows = [] then (Inl EmptyRows, st)
      else
        let deleted_rows = list_doc_chunks doc_id (memories st);
            (deleted, rs1) = delete_doc_chunks doc_id (memories st)
        in (case insert_chunks new_rows rs1 of
              Inl e \<Rightarrow> (Inl e, st)
            | Inr rs2 \<Rightarrow>
                (case (case get_meta (meta st) cache_version_key of
                         None \<Rightarrow> Some 0 | Some v \<Rightarrow> py_int_of_str v) of
                   None \<Rightarrow> (Inl (BadVersion cache_version_key), st)
                 | Some prev \<Rightarrow>
                     (Inr \<lparr>dr_deleted = deleted, dr_inserted = length new_rows,
                           dr_cache_version = prev + 1, dr_deleted_rows = deleted_rows\<rparr>,
                      st\<lparr>memories := rs2,
                         meta := set_meta cache_version_key (int_str (prev + 1)) now (meta st)\<rparr>))))"

text \<open>\<open>int(value)\<close> raises (\<open>None\<close>) on a value that is no numeral.\<close>

definition doc_chunk_cache_version :: "string \<Rightarrow> meta_row list \<Rightarrow> int option" where
  "doc_chunk_cache_version key ms =
     (case get_meta ms key of None \<Rightarrow> Some 0 | Some v \<Rightarrow> py_int_of_str v)"


section \<open>Guarded updates\<close>

text \<open>
  The contract of every UPDATE on the memories table: the change keeps the primary key.
  Most of the operations are instances with the WHERE clause as guard.
\<close>

locale guarded_update =
  fixes guard :: "memory \<Rightarrow> bool"
    and change :: "memory \<Rightarrow> memory"
  assumes id_kept: "m_id (change m) = m_id m"
begin

lemma ids [table_simps]: "map row_id (snd (update_where guard change rs)) = map row_id rs"
  by (simp add: update_where_def map_key_update id_kept)

lemma rowids [table_simps]: "map rowid (snd (update_where guard change rs)) = map rowid rs"
  by (simp add: update_where_def map_key_update)

lemma find [table_simps]:
  "row_find row_id k (snd (update_where guard change rs)) =
     map_option (\<lambda>r. if guard (mem r) then r\<lparr>mem := change (mem r)\<rparr> else r) (row_find row_id k rs)"
  by (simp add: update_where_def row_find_update id_kept)

lemma succeeds_iff: "fst (update_where guard change rs) \<longleftrightarrow> (\<exists>r \<in> set rs. guard (mem r))"
  by (simp add: update_where_def)

lemma failed_unchanged: "\<not> fst (update_where guard change rs) \<Longrightarrow> snd (update_where guard change rs) = rs"
  by (simp add: update_where_def rows_update_none)

end

text \<open>
  A compare-and-set additionally disarms its own guard: whoever runs it second loses and
  changes nothing.
\<close>

locale compare_and_set = guarded_update +
  assumes disarms: "\<not> guard (change m)"
begin

lemma second_fails: "\<not> fst (update_where guard change (snd (update_where guard change rs)))"
  by (auto simp: update_where_def set_rows_update disarms)

lemma second_unchanged:
  "snd (update_where guard change (snd (update_where guard change rs))) =
     snd (update_where guard change rs)"
  by (rule failed_unchanged) (rule second_fails)

end

lemma fold_apply_field_id [simp]: "m_id (fold apply_field us m) = m_id m"
proof (induction us arbitrary: m)
  case (Cons u us)
  then show ?case by (cases u) auto
qed simp

interpretation status_update: guarded_update "\<lambda>m. m_id m = i" "\<lambda>m. m\<lparr>m_status := st, m_updated_at := now\<rparr>"
  for i st now by unfold_locales simp

interpretation fields_update: guarded_update "\<lambda>m. m_id m = i"
    "\<lambda>m. (fold apply_field us m)\<lparr>m_updated_at := now\<rparr>"
  for i us now by unfold_locales simp

interpretation claim_update: compare_and_set "\<lambda>m. m_id m = i \<and> refine_intake mx t m"
    "\<lambda>m. m\<lparr>m_pipeline_state := Some PS_PROCESSING, m_updated_at := now\<rparr>"
  for i mx t now by unfold_locales (auto simp: refine_intake_def)

interpretation reclaim_update: compare_and_set "\<lambda>m. m_id m = i \<and> lease_expired cutoff m"
    "\<lambda>m. m\<lparr>m_pipeline_state := Some PS_PENDING, m_updated_at := now\<rparr>"
  for i cutoff now by unfold_locales (auto simp: lease_expired_def)

interpretation failure_update: guarded_update "\<lambda>m. m_id m = i"
    "\<lambda>m. m\<lparr>m_pipeline_state := Some PS_FAILED,
           m_metadata := (m_metadata m)
             (''pipeline_retry_count'' \<mapsto> JInt attempt,
              ''pipeline_retry_at'' \<mapsto> (case next_at of None \<Rightarrow> JStr [] | Some t \<Rightarrow> JStamp t)),
           m_updated_at := now\<rparr>"
  for i attempt next_at now by unfold_locales simp

interpretation clear_update: guarded_update "\<lambda>m. m_id m = i"
    "\<lambda>m. m\<lparr>m_metadata := (m_metadata m)
             (''pipeline_retry_count'' \<mapsto> JInt 0, ''pipeline_retry_at'' \<mapsto> JStr []),
           m_updated_at := now\<rparr>"
  for i now by unfold_locales simp

interpretation fed_touch: guarded_update
    "\<lambda>m. m_id m = i \<and> m_metadata m ''last_fed_at'' \<noteq> None \<and> m_metadata m ''last_fed_at'' \<noteq> Some JNull"
    "\<lambda>m. m\<lparr>m_metadata := (m_metadata m)(''last_fed_at'' \<mapsto> JStamp now), m_updated_at := now\<rparr>"
  for i now by unfold_locales simp

section \<open>The table invariant\<close>

text \<open>The primary key is unique, the rowids are positive and grow with the insertions.\<close>

definition table_ok :: "row list \<Rightarrow> bool" where
  "table_ok rs \<longleftrightarrow> distinct (map row_id rs) \<and> sorted_wrt (<) (0 # map rowid rs)"

lemma table_ok_cong:
  "map row_id rs' = map row_id rs \<Longrightarrow> map rowid rs' = map rowid rs \<Longrightarrow> table_ok rs' = table_ok rs"
  by (simp only: table_ok_def)

lemma next_rowid_bound: "r \<in> set rs \<Longrightarrow> rowid r < next_rowid rs"
proof -
  have "r \<in> set rs \<Longrightarrow> rowid r \<le> foldr (\<lambda>r n. max (rowid r) n) rs 0"
    by (induction rs) auto
  then show "r \<in> set rs \<Longrightarrow> rowid r < next_rowid rs" by (simp add: next_rowid_def)
qed

lemma row_id_inserted [simp]: "row_id (inserted_row trusted m rs) = m_id m"
  by (simp add: inserted_row_def saved_columns_def)

lemma rowid_inserted [simp]: "rowid (inserted_row trusted m rs) = next_rowid rs"
  by (simp add: inserted_row_def)

lemma row_id_updated: "row_id (updated_row trusted m r) = m_id m"
  by (simp add: updated_row_def saved_columns_def)

lemma rowid_updated [simp]: "rowid (updated_row trusted m r) = rowid r"
  by (simp add: updated_row_def)

lemma table_ok_append:
  "table_ok rs \<Longrightarrow> m_id m \<notin> row_id ` set rs \<Longrightarrow> table_ok (rs @ [inserted_row trusted m rs])"
  by (auto simp: table_ok_def sorted_wrt_append next_rowid_bound) (simp add: next_rowid_def)

lemma table_ok_delete: "table_ok rs \<Longrightarrow> table_ok (rows_delete P rs)"
  unfolding table_ok_def rows_delete_def
  by (auto simp: distinct_map_filter sorted_wrt_map sorted_wrt_filter)

lemma ids_updated_row:
  "map row_id (rows_update (\<lambda>r. row_id r = m_id m) (updated_row trusted m) rs) = map row_id rs"
  by (induction rs) (auto simp: rows_update_def row_id_updated)

lemma table_ok_save: "table_ok rs \<Longrightarrow> table_ok (save trusted m rs)"
proof (cases "row_find row_id (m_id m) rs = None")
  case True
  moreover assume "table_ok rs"
  ultimately show ?thesis
    using table_ok_append [of rs m trusted] by (simp add: save_def row_find_None_iff)
next
  case False
  moreover assume "table_ok rs"
  ultimately show ?thesis
    by (simp add: save_def table_ok_def ids_updated_row map_key_update)
qed

lemma table_ok_update_where:
  assumes "guarded_update change" "table_ok rs"
  shows "table_ok (snd (update_where guard change rs))"
  using assms by (simp add: table_ok_cong [OF guarded_update.ids guarded_update.rowids])

lemma table_ok_delete_row: "table_ok rs \<Longrightarrow> table_ok (snd (delete i rs))"
  by (simp add: delete_def table_ok_delete)

lemma table_ok_claim: "table_ok rs \<Longrightarrow> table_ok (snd (claim_for_refinement i mx t now rs))"
  by (simp add: claim_for_refinement_def table_ok_cong [OF claim_update.ids claim_update.rowids])

lemma table_ok_update_fields: "table_ok rs \<Longrightarrow> table_ok (snd (update_fields i us now rs))"
  by (simp add: update_fields_def table_ok_cong [OF fields_update.ids fields_update.rowids] Let_def)

lemma table_ok_reclaim_loop: "table_ok rs \<Longrightarrow> table_ok (snd (reclaim_loop now cutoff stale rs))"
proof (induction stale arbitrary: rs)
  case (Cons p stale)
  obtain i t where p: "p = (i, t)" by (cases p)
  have "table_ok (snd (reclaim_one now cutoff i rs))"
    using Cons.prems by (simp add: reclaim_one_def table_ok_cong [OF reclaim_update.ids reclaim_update.rowids])
  with Cons.IH show ?case by (simp add: p split: prod.split) (metis snd_conv)
qed simp


section \<open>What a save stores\<close>

lemma find_updated_row:
  "row_find row_id k (rows_update (\<lambda>r. row_id r = m_id m) (updated_row trusted m) rs) =
     map_option (\<lambda>r. if k = m_id m then updated_row trusted m r else r) (row_find row_id k rs)"
  by (induction rs) (auto simp: rows_update_def row_id_updated)

lemma find_save:
  "row_find row_id k (save trusted m rs) =
     (if k = m_id m
      then Some (case row_find row_id k rs of
                   None \<Rightarrow> inserted_row trusted m rs
                 | Some r \<Rightarrow> updated_row trusted m r)
      else row_find row_id k rs)"
proof (cases "row_find row_id (m_id m) rs")
  case None
  then show ?thesis by (simp add: save_def row_find_append split: option.split)
next
  case (Some r)
  then show ?thesis
    by (auto simp: save_def find_updated_row option.map_ident)
qed

text \<open>The record a later \<open>get\<close> returns: the workflow columns are those of the row, or empty.\<close>

definition stored_record :: "memory \<Rightarrow> row option \<Rightarrow> memory" where
  "stored_record m old =
     (let w = (case old of None \<Rightarrow> no_workflow m | Some r \<Rightarrow> mem r); s = saved_columns w m
      in s\<lparr>m_marker_version := (if m_marker_version s = 0 then 1 else m_marker_version s)\<rparr>)"

definition provenance :: "string \<Rightarrow> row list \<Rightarrow> (string option \<times> string option \<times> string option) option" where
  "provenance k rs =
     map_option (\<lambda>r. (rewrite_source r, rewrite_session r, rewrite_event_key r)) (row_find row_id k rs)"

lemma row_to_memory_written:
  "row_to_memory (case old of None \<Rightarrow> inserted_row trusted m rs | Some r \<Rightarrow> updated_row trusted m r) =
     stored_record m old"
  by (simp add: stored_record_def row_to_memory_def inserted_row_def updated_row_def Let_def
      split: option.split)

text \<open>A save followed by a get returns the saved record with its title filled in, an empty
  statistics dictionary read back as absent and, in place of the workflow columns of the
  argument, those of the row before (empty for a new row); every other row reads as before.
\<close>

theorem get_save:
  "get k (save trusted m rs) =
     (if k = m_id m then Some (stored_record m (row_find row_id k rs)) else get k rs)"
  by (simp add: get_def find_save row_to_memory_written)

text \<open>
  C2. A save from an untrusted caller never mints or changes rewrite provenance: the three
  columns of an existing row are kept, those of a new row are NULL whatever its metadata
  claims, and no other row is touched.
\<close>

theorem untrusted_save_provenance:
  "provenance k (save False m rs) =
     (if k = m_id m \<and> provenance k rs = None then Some (None, None, None) else provenance k rs)"
  by (auto simp: provenance_def find_save inserted_row_def updated_row_def promoted_def
      split: option.split)

section \<open>The refine queue\<close>

lemma claim_wins:
  assumes "table_ok rs" "fst (claim_for_refinement i mx t now rs)"
  obtains r where "r \<in> set rs" "row_id r = i" "refine_intake mx t (mem r)"
    "row_find row_id i (snd (claim_for_refinement i mx t now rs)) =
       Some (r\<lparr>mem := (mem r)\<lparr>m_pipeline_state := Some PS_PROCESSING, m_updated_at := now\<rparr>\<rparr>)"
proof -
  from assms(2) obtain r where r: "r \<in> set rs" "row_id r = i" "refine_intake mx t (mem r)"
    by (auto simp: claim_for_refinement_def claim_update.succeeds_iff)
  moreover have "row_find row_id i rs = Some r"
    using r assms(1) row_find_distinct [of row_id rs r] by (simp add: table_ok_def)
  ultimately show thesis
    by (intro that [of r]) (simp_all add: claim_for_refinement_def claim_update.find)
qed

lemma find_iff:
  assumes "table_ok rs"
  shows "(\<exists>r \<in> set rs. row_id r = i \<and> P r) \<longleftrightarrow>
    (case row_find row_id i rs of None \<Rightarrow> False | Some r \<Rightarrow> P r)"
proof (cases "row_find row_id i rs")
  case None
  then have "\<not> (\<exists>r \<in> set rs. row_id r = i)" using row_find_None_iff [of row_id i rs] by auto
  with None show ?thesis by auto
next
  case (Some r)
  have "r' = r" if "r' \<in> set rs" "row_id r' = i" for r'
    using that assms Some row_find_distinct [of row_id rs r'] by (simp add: table_ok_def)
  with Some show ?thesis by (auto dest: row_find_SomeD)
qed

lemma claim_iff:
  assumes "table_ok rs"
  shows "fst (claim_for_refinement i mx t now rs) \<longleftrightarrow>
    (case row_find row_id i rs of None \<Rightarrow> False | Some r \<Rightarrow> refine_intake mx t (mem r))"
  unfolding claim_for_refinement_def claim_update.succeeds_iff
  using find_iff [OF assms, of i "\<lambda>r. refine_intake mx t (mem r)"] by simp

text \<open>
  C3. The claim is exclusive: after one worker claimed a row, no other claim of it succeeds,
  whatever its attempt budget and its clock, and the losing claims change nothing; the
  winning claim changed no other row.
\<close>

theorem claim_exclusive:
  assumes "table_ok rs" and "claim_for_refinement i mx t now rs = (True, rs')"
  shows "claim_for_refinement i mx' t' now' rs' = (False, rs') \<and>
    map_option m_pipeline_state (get i rs') = Some (Some PS_PROCESSING) \<and>
    (\<forall>k. k = i \<or> get k rs' = get k rs)"
proof -
  have won: "fst (claim_for_refinement i mx t now rs)" and rs': "rs' = snd (claim_for_refinement i mx t now rs)"
    using assms(2) by simp_all
  obtain r where r: "row_find row_id i rs' =
      Some (r\<lparr>mem := (mem r)\<lparr>m_pipeline_state := Some PS_PROCESSING, m_updated_at := now\<rparr>\<rparr>)"
    using claim_wins [OF assms(1) won] rs' by metis
  have "\<not> fst (claim_for_refinement i mx' t' now' rs')"
    using claim_iff [OF table_ok_claim [OF assms(1)], of i mx' t' now' i mx t now] r
    by (simp add: rs' refine_intake_def)
  moreover from this have "snd (claim_for_refinement i mx' t' now' rs') = rs'"
    unfolding claim_for_refinement_def by (rule claim_update.failed_unchanged)
  moreover have "get k rs' = get k rs" if "k \<noteq> i" for k
  proof -
    have "row_find row_id k rs' = row_find row_id k rs"
      using that row_find_SomeD [of row_id k rs]
      by (cases "row_find row_id k rs") (auto simp: rs' claim_for_refinement_def claim_update.find)
    then show ?thesis by (simp add: get_def)
  qed
  ultimately show ?thesis
    using r by (auto simp: prod_eq_iff get_def row_to_memory_def)
qed

definition sample_pending :: "row list" where
  "sample_pending = save False ((new_memory ''a'' ''text'' 0)\<lparr>m_pipeline_state := Some PS_PENDING\<rparr>) []"

lemma table_ok_sample: "table_ok sample_pending"
  unfolding sample_pending_def by (rule table_ok_save) (simp add: table_ok_def)

lemma claim_exclusive_witness:
  "\<exists>rs'. claim_for_refinement ''a'' 3 7 7 sample_pending = (True, rs') \<and>
     claim_for_refinement ''a'' 9 50 50 rs' = (False, rs')"
proof -
  have "fst (claim_for_refinement ''a'' 3 7 7 sample_pending)"
    by (simp add: claim_iff [OF table_ok_sample])
       (simp add: sample_pending_def save_def inserted_row_def saved_columns_def no_workflow_def
         new_memory_def refine_intake_def)
  then obtain rs' where "claim_for_refinement ''a'' 3 7 7 sample_pending = (True, rs')"
    by (cases "claim_for_refinement ''a'' 3 7 7 sample_pending") auto
  with claim_exclusive [OF table_ok_sample this] show ?thesis by blast
qed

definition pended :: "moment \<Rightarrow> row \<Rightarrow> row" where
  "pended now r = r\<lparr>mem := (mem r)\<lparr>m_pipeline_state := Some PS_PENDING, m_updated_at := now\<rparr>\<rparr>"

lemma row_id_pended [simp]: "row_id (pended now r) = row_id r"
  by (simp add: pended_def)

lemma reclaim_one_expired:
  assumes "table_ok rs" "r \<in> set rs" "row_id r = i" "lease_expired cutoff (mem r)"
  shows "reclaim_one now cutoff i rs = (True, rows_update (\<lambda>r. row_id r = i) (pended now) rs)"
proof -
  have uniq: "r' = r" if "r' \<in> set rs" "row_id r' = i" for r'
    using that assms(1-3) by (metis option.inject row_find_distinct table_ok_def)
  then have "rows_update (\<lambda>r. row_id r = i \<and> lease_expired cutoff (mem r)) f rs =
      rows_update (\<lambda>r. row_id r = i) f rs" for f
    using assms(4) by (auto simp: rows_update_def)
  then show ?thesis
    using assms by (auto simp: reclaim_one_def update_where_def pended_def [abs_def])
qed

lemma reclaim_loop_all:
  assumes "table_ok rs" "distinct (map fst stale)"
    "\<forall>(i, t) \<in> set stale. \<exists>r \<in> set rs. row_id r = i \<and> lease_expired cutoff (mem r)"
  shows "reclaim_loop now cutoff stale rs =
    (stale, rows_update (\<lambda>r. row_id r \<in> fst ` set stale) (pended now) rs)"
  using assms
proof (induction stale arbitrary: rs)
  case Nil
  then show ?case by (simp add: rows_update_def)
next
  case (Cons p stale)
  obtain i t where p: "p = (i, t)" by (cases p)
  define rs1 where "rs1 = rows_update (\<lambda>r. row_id r = i) (pended now) rs"
  from Cons.prems p obtain r where "r \<in> set rs" "row_id r = i" "lease_expired cutoff (mem r)" by auto
  then have one: "reclaim_one now cutoff i rs = (True, rs1)"
    unfolding rs1_def using Cons.prems(1) by (intro reclaim_one_expired)
  have ok: "table_ok rs1"
    using Cons.prems(1) unfolding rs1_def
    by (subst table_ok_cong [of _ rs]) (simp_all add: map_key_update pended_def)
  have "\<forall>(j, t) \<in> set stale. \<exists>r \<in> set rs1. row_id r = j \<and> lease_expired cutoff (mem r)"
  proof clarify
    fix j t assume j: "(j, t) \<in> set stale"
    with Cons.prems(2) p have "j \<noteq> i" by force
    moreover from j Cons.prems(3) obtain r where "r \<in> set rs" "row_id r = j" "lease_expired cutoff (mem r)"
      by auto
    ultimately show "\<exists>r \<in> set rs1. row_id r = j \<and> lease_expired cutoff (mem r)"
      by (auto simp: rs1_def set_rows_update)
  qed
  with Cons.IH [OF ok] Cons.prems(2)
  have "reclaim_loop now cutoff stale rs1 =
      (stale, rows_update (\<lambda>r. row_id r \<in> fst ` set stale) (pended now) rs1)" by (simp add: p)
  moreover have "rows_update (\<lambda>r. row_id r \<in> fst ` set stale) (pended now) rs1 =
      rows_update (\<lambda>r. row_id r \<in> fst ` set (p # stale)) (pended now) rs"
    using Cons.prems(2) by (auto simp: rs1_def rows_update_def p)
  ultimately show ?case by (simp add: p one)
qed

lemma stale_processing_rows:
  assumes "table_ok rs"
  shows "distinct (map fst (stale_processing cutoff limit rs)) \<and>
    (\<forall>(i, t) \<in> set (stale_processing cutoff limit rs).
       \<exists>r \<in> set rs. row_id r = i \<and> m_updated_at (mem r) = t \<and> lease_expired cutoff (mem r))"
proof -
  define L where "L = order_asc (\<lambda>r. m_updated_at (mem r)) (filter (\<lambda>r. lease_expired cutoff (mem r)) rs)"
  have "distinct (map row_id (filter (\<lambda>r. lease_expired cutoff (mem r)) rs))"
    using assms by (simp add: table_ok_def distinct_map_filter)
  then have "distinct (map row_id L)"
    unfolding L_def order_asc_def by (simp add: distinct_map)
  then have "distinct (map row_id (sql_limit limit L))"
    by (simp add: sql_limit_def distinct_map distinct_take inj_on_def) (meson in_set_takeD)
  then show ?thesis
    using set_sql_limit [of limit L] by (fastforce simp: stale_processing_def L_def comp_def)
qed

text \<open>The lease reclaim wins every row it selected (no compare-and-set is lost when nothing
  ran between the selection and the updates): it returns the oldest expired leases, at most
  \<open>limit\<close> of them, with their stamps before the reclaim, puts exactly these rows back to
  pending with a fresh stamp, and changes nothing else -- no retry bookkeeping, no live
  lease.
\<close>

theorem reclaim_exact:
  assumes "table_ok rs"
  shows "reclaim_stale_processing lease limit now rs =
      (stale_processing (now - sec lease) limit rs,
       rows_update (\<lambda>r. row_id r \<in> fst ` set (stale_processing (now - sec lease) limit rs))
         (pended now) rs) \<and>
    (\<forall>p \<in> set (stale_processing (now - sec lease) limit rs). snd p < now - sec lease) \<and>
    (limit < 0 \<or> length (stale_processing (now - sec lease) limit rs) \<le> nat limit)"
proof (intro conjI)
  note sp = stale_processing_rows [OF assms, of "now - sec lease" limit]
  show "reclaim_stale_processing lease limit now rs =
      (stale_processing (now - sec lease) limit rs,
       rows_update (\<lambda>r. row_id r \<in> fst ` set (stale_processing (now - sec lease) limit rs))
         (pended now) rs)"
    unfolding reclaim_stale_processing_def Let_def
    using sp by (intro reclaim_loop_all [OF assms]) auto
  show "\<forall>p \<in> set (stale_processing (now - sec lease) limit rs). snd p < now - sec lease"
    using sp by (fastforce simp: lease_expired_def)
  show "limit < 0 \<or> length (stale_processing (now - sec lease) limit rs) \<le> nat limit"
    by (auto simp: stale_processing_def sql_limit_def)
qed

lemma reclaim_exact_witness:
  "fst (reclaim_stale_processing 60 100 (sec 1000) (snd (claim_for_refinement ''a'' 3 7 7 sample_pending))) =
     [(''a'', 7)]"
proof -
  have "stale_processing (sec 1000 - sec 60) 100 (snd (claim_for_refinement ''a'' 3 7 7 sample_pending)) =
      [(''a'', 7)]"
    by (simp add: sample_pending_def save_def inserted_row_def saved_columns_def no_workflow_def
        new_memory_def refine_intake_def claim_for_refinement_def update_where_def rows_update_def
        stale_processing_def lease_expired_def sec_def order_asc_def sql_limit_def)
  then show ?thesis
    using reclaim_exact [OF table_ok_claim [OF table_ok_sample], of 60 100 "sec 1000" "''a''" 3 7 7]
    by simp
qed


section \<open>The meta table as a key-value store\<close>

lemma get_meta_set: "get_meta (set_meta k v now ms) k' = (if k = k' then Some v else get_meta ms k')"
proof (cases "row_find mr_key k ms")
  case None
  then show ?thesis
    by (cases "k = k'") (auto simp: set_meta_def get_meta_def row_find_append split: option.split)
next
  case (Some r)
  show ?thesis
  proof (cases "row_find mr_key k' ms")
    case None
    with Some show ?thesis by (auto simp: set_meta_def get_meta_def row_find_update)
  next
    case (Some r')
    with \<open>row_find mr_key k ms = Some r\<close> row_find_SomeD [OF Some] show ?thesis
      by (simp add: set_meta_def get_meta_def row_find_update)
  qed
qed

interpretation meta_kv: kv_store get_meta "\<lambda>k v. set_meta k v now" for now
  by unfold_locales (simp_all add: get_meta_set)

definition binding_of :: "meta_row list \<Rightarrow> string \<Rightarrow> string option" where
  "binding_of ms session_id = get_meta ms (SESSION_AGENT_META_PREFIX @ session_id)"

lemma bind_session_agent_result:
  "fst (bind_session_agent s a now ms) = (case binding_of ms s of Some v \<Rightarrow> v | None \<Rightarrow> a)"
  by (auto simp: bind_session_agent_def binding_of_def get_meta_def Let_def row_find_append split: option.split)

lemma bind_session_agent_binding:
  "binding_of (snd (bind_session_agent s a now ms)) s' =
     (case binding_of ms s' of Some v \<Rightarrow> Some v | None \<Rightarrow> if s' = s then Some a else None)"
  by (auto simp: bind_session_agent_def binding_of_def get_meta_def Let_def row_find_append split: option.split)

definition bind_all :: "(string \<times> string \<times> moment) list \<Rightarrow> meta_row list \<Rightarrow> meta_row list" where
  "bind_all calls ms = foldl (\<lambda>ms (s, a, now). snd (bind_session_agent s a now ms)) ms calls"

lemma bind_all_keeps: "binding_of ms s = Some v \<Longrightarrow> binding_of (bind_all calls ms) s = Some v"
  unfolding bind_all_def
  by (induction calls arbitrary: ms) (auto simp: bind_session_agent_binding split: prod.splits)

text \<open>
  A session is bound to the agent of its first call for good: whatever calls follow, for
  this session or another, every later call for the session returns that agent.
\<close>

theorem first_binding_wins:
  "fst (bind_session_agent s a' now' (bind_all calls (snd (bind_session_agent s a now ms)))) =
     fst (bind_session_agent s a now ms)"
proof -
  obtain v where "binding_of (snd (bind_session_agent s a now ms)) s = Some v"
      "fst (bind_session_agent s a now ms) = v"
    by (cases "binding_of ms s") (auto simp: bind_session_agent_result bind_session_agent_binding)
  then show ?thesis by (simp add: bind_session_agent_result [of s a' now'] bind_all_keeps)
qed

section \<open>Re-chunking a document\<close>

lemma insert_chunks_appends:
  "insert_chunks ms rs = Inr rs' \<Longrightarrow>
     \<exists>ns. rs' = rs @ ns \<and> map row_id ns = map m_id ms \<and>
          map (\<lambda>r. m_metadata (mem r)) ns = map m_metadata ms"
proof (induction ms arbitrary: rs)
  case (Cons m ms)
  then have "insert_chunks ms (rs @ [inserted_row False m rs]) = Inr rs'"
    by (simp split: if_splits)
  from Cons.IH [OF this] obtain ns where ns: "rs' = (rs @ [inserted_row False m rs]) @ ns"
      "map row_id ns = map m_id ms" "map (\<lambda>r. m_metadata (mem r)) ns = map m_metadata ms"
    by blast
  then show ?case
    by (intro exI [of _ "inserted_row False m rs # ns"]) (simp add: inserted_row_def saved_columns_def)
qed simp

lemma table_ok_insert_chunks:
  "table_ok rs \<Longrightarrow> insert_chunks ms rs = Inr rs' \<Longrightarrow> table_ok rs'"
proof (induction ms arbitrary: rs)
  case (Cons m ms)
  then have new: "row_find row_id (m_id m) rs = None"
    and rest: "insert_chunks ms (rs @ [inserted_row False m rs]) = Inr rs'"
    by (simp_all split: if_splits)
  have "table_ok (rs @ [inserted_row False m rs])"
    using Cons.prems(1) new by (intro table_ok_append) (simp_all add: row_find_None_iff)
  with Cons.IH rest show ?case by blast
qed simp

lemma set_chunk_ids: "set (list_doc_chunk_ids d rs) = row_id ` {r \<in> set rs. of_doc d (mem r)}"
  by (auto simp: list_doc_chunk_ids_def doc_chunk_rows_def)

text \<open>Replacing the chunks of a document is atomic: it either fails and changes neither
  table, or it leaves exactly the new chunks under the document, every row of the other
  documents in place, the cache version one higher than before, and reports the rows it
  replaced.
\<close>

theorem replace_doc_chunks_atomic:
  assumes "list_all (of_doc d) new_rows"
  shows "case replace_doc_chunks d new_rows key now st of
      (Inl e, st') \<Rightarrow> st' = st
    | (Inr r, st') \<Rightarrow>
        set (list_doc_chunk_ids d (memories st')) = m_id ` set new_rows \<and>
        rows_delete (\<lambda>r. of_doc d (mem r)) (memories st') =
          rows_delete (\<lambda>r. of_doc d (mem r)) (memories st) \<and>
        doc_chunk_cache_version key (meta st) = Some (dr_cache_version r - 1) \<and>
        doc_chunk_cache_version key (meta st') = Some (dr_cache_version r) \<and>
        dr_deleted_rows r = list_doc_chunks d (memories st) \<and>
        dr_deleted r = length (dr_deleted_rows r)"
proof (cases "fst (replace_doc_chunks d new_rows key now st)")
  case (Inl e)
  then show ?thesis
    by (auto simp: replace_doc_chunks_def Let_def split: prod.splits sum.splits option.splits if_splits)
next
  case (Inr r)
  define rest where "rest = rows_delete (\<lambda>r. of_doc d (mem r)) (memories st)"
  obtain rs2 prev where
    ins: "insert_chunks new_rows rest = Inr rs2" and
    prev: "doc_chunk_cache_version key (meta st) = Some prev" and
    res: "replace_doc_chunks d new_rows key now st =
      (Inr \<lparr>dr_deleted = rowcount (\<lambda>r. of_doc d (mem r)) (memories st), dr_inserted = length new_rows,
            dr_cache_version = prev + 1, dr_deleted_rows = list_doc_chunks d (memories st)\<rparr>,
       st\<lparr>memories := rs2, meta := set_meta key (int_str (prev + 1)) now (meta st)\<rparr>)"
    using Inr by (auto simp: replace_doc_chunks_def delete_doc_chunks_def rest_def Let_def
        doc_chunk_cache_version_def split: sum.splits option.splits if_splits)
  from insert_chunks_appends [OF ins] obtain ns where ns: "rs2 = rest @ ns"
      "map row_id ns = map m_id new_rows" "map (\<lambda>r. m_metadata (mem r)) ns = map m_metadata new_rows"
    by blast
  have "\<forall>md \<in> set (map m_metadata new_rows). sql_eq_text (md ''doc_id'') d"
    using assms by (simp add: list_all_iff of_doc_def)
  then have doc: "\<forall>r \<in> set ns. of_doc d (mem r)"
    unfolding ns(3) [symmetric] by (simp add: of_doc_def)
  then have "rows_delete (\<lambda>r. of_doc d (mem r)) rs2 = rest"
    by (simp add: ns(1) rest_def rows_delete_def)
  moreover have "{r \<in> set rs2. of_doc d (mem r)} = set ns"
    using doc by (auto simp: ns(1) rest_def)
  then have "set (list_doc_chunk_ids d rs2) = m_id ` set new_rows"
    using ns(2) by (simp add: set_chunk_ids) (metis list.set_map)
  ultimately show ?thesis
    using prev by (simp add: res rest_def doc_chunk_cache_version_def get_meta_set py_int_of_int_str
        list_doc_chunks_def doc_chunk_rows_def order_asc_def rowcount_def)
qed

definition sample_chunk :: memory where
  "sample_chunk = (new_memory ''c1'' ''text'' 0)\<lparr>m_metadata := [''doc_id'' \<mapsto> JStr ''d'']\<rparr>"

lemma replace_doc_chunks_atomic_witness:
  "\<exists>r st'. replace_doc_chunks ''d'' [sample_chunk] ''v'' 5 \<lparr>memories = sample_pending, meta = []\<rparr> = (Inr r, st') \<and>
     set (list_doc_chunk_ids ''d'' (memories st')) = {''c1''} \<and> dr_cache_version r = 1"
proof -
  have doc: "list_all (of_doc ''d'') [sample_chunk]"
    by (simp add: of_doc_def sample_chunk_def sql_eq_text_def json_str_def)
  have "\<not> isl (fst (replace_doc_chunks ''d'' [sample_chunk] ''v'' 5 \<lparr>memories = sample_pending, meta = []\<rparr>))"
    by (simp add: replace_doc_chunks_def sample_pending_def sample_chunk_def save_def inserted_row_def
        saved_columns_def no_workflow_def new_memory_def delete_doc_chunks_def of_doc_def
        sql_eq_text_def rows_delete_def get_meta_def)
  then obtain r st' where "replace_doc_chunks ''d'' [sample_chunk] ''v'' 5
      \<lparr>memories = sample_pending, meta = []\<rparr> = (Inr r, st')"
    by (metis prod.collapse sum.collapse(2))
  with replace_doc_chunks_atomic [OF doc, where key = "''v''" and now = 5 and st = "\<lparr>memories = sample_pending, meta = []\<rparr>"]
  show ?thesis
    by (auto simp: sample_chunk_def new_memory_def doc_chunk_cache_version_def get_meta_def)
qed


section \<open>The mesh cursor\<close>

definition mesh_rows :: "string list \<Rightarrow> string list \<Rightarrow> moment option \<Rightarrow> int \<Rightarrow> row list \<Rightarrow> row list" where
  "mesh_rows projects tags since after_rowid rs =
     filter (\<lambda>r. mesh_scope projects tags since (mem r) \<and>
                 (after_rowid > 0 \<longrightarrow> after_rowid < int (rowid r))) rs"

lemma mesh_rows_sorted: "table_ok rs \<Longrightarrow> sorted_wrt (<) (map rowid (mesh_rows P T S c rs))"
  unfolding mesh_rows_def table_ok_def by (auto simp: sorted_wrt_map sorted_wrt_filter)

lemma list_all_for_mesh_rows:
  assumes "table_ok rs"
  shows "list_all_for_mesh n P T S c rs =
    map (\<lambda>r. (row_to_memory r, rowid r)) (sql_limit n (mesh_rows P T S c rs))"
proof -
  have "order_asc rowid (mesh_rows P T S c rs) = mesh_rows P T S c rs"
    unfolding order_asc_def using mesh_rows_sorted [OF assms]
    by (intro sort_key_id_if_sorted) (simp add: strict_sorted_iff)
  then show ?thesis by (simp add: list_all_for_mesh_def mesh_rows_def)
qed

text \<open>
  Paging through the mesh export loses and repeats nothing: a non-empty page, followed
  by everything the walk returns after the page's last rowid, is the whole walk -- also when
  rows were inserted between the two calls.
\<close>

theorem mesh_resume:
  assumes "table_ok (rs @ extra)" and "0 \<le> n"
    and "list_all_for_mesh n P T S c rs = page" and "page \<noteq> []"
  shows "page @ list_all_for_mesh (- 1) P T S (int (snd (last page))) (rs @ extra) =
    list_all_for_mesh (- 1) P T S c (rs @ extra)"
proof -
  define A where "A = mesh_rows P T S c rs"
  define X where "X = take (nat n) A"
  define Y where "Y = drop (nat n) A @ mesh_rows P T S c extra"
  have ok: "table_ok rs" using assms(1) by (auto simp: table_ok_def sorted_wrt_append)
  have all: "mesh_rows P T S c (rs @ extra) = X @ Y"
    by (simp add: X_def Y_def A_def mesh_rows_def)
  have page: "page = map (\<lambda>r. (row_to_memory r, rowid r)) X"
    using assms(2,3) by (simp add: list_all_for_mesh_rows [OF ok] sql_limit_def X_def A_def)
  with assms(4) have X: "X \<noteq> []" by simp
  then have last: "snd (last page) = rowid (last X)" by (simp add: page last_map)
  have "last X \<in> set A" using X by (metis X_def in_set_takeD last_in_set)
  then have c: "c < int (rowid (last X))" and pos: "0 < rowid (last X)"
    using ok by (auto simp: A_def mesh_rows_def table_ok_def)
  have "mesh_rows P T S (int (rowid (last X))) (rs @ extra) =
      filter (\<lambda>r. rowid (last X) < rowid r) (mesh_rows P T S c (rs @ extra))"
    using c pos unfolding mesh_rows_def filter_filter by (intro filter_cong) auto
  also have "\<dots> = Y"
    unfolding all using mesh_rows_sorted [OF assms(1), of P T S c] X
    by (intro filter_after_last) (simp_all add: all)
  finally show ?thesis
    unfolding last list_all_for_mesh_rows [OF assms(1)] by (simp add: page all sql_limit_def)
qed

lemma mesh_resume_witness:
  "list_all_for_mesh (- 1) [] [] None 0 sample_pending =
     list_all_for_mesh 1 [] [] None 0 sample_pending @ list_all_for_mesh (- 1) [] [] None 1 sample_pending"
proof -
  have page: "list_all_for_mesh 1 [] [] None 0 sample_pending =
      [(row_to_memory (hd sample_pending), 1)]"
    by (simp add: list_all_for_mesh_def sample_pending_def save_def order_asc_def mesh_scope_def
        sql_limit_def next_rowid_def)
  have "table_ok (sample_pending @ [])" by (simp add: table_ok_sample)
  from mesh_resume [OF this _ page] show ?thesis by (simp add: page)
qed

end
