(* ===== verification/Workflow.thy ===== *)
theory Workflow
  imports Memory_Store
begin

text \<open>
  The workflow life cycle of a memory: the state machine of \<open>src/src/vesmaro/workflow.py\<close>,
  the workflow columns and the audit log of \<open>storage/sqlite_store.py\<close>, and the guarded
  transition \<open>workflow_set\<close> of \<open>manager.py\<close> (rate limit, idempotence, locks, stale locks,
  force).  The columns live in the rows of the memories table; the audit log is a list in
  insertion order.
\<close>

section \<open>The state machine\<close>

datatype workflow_status = OPEN | IN_PROGRESS | BLOCKED | RESOLVED | DONE | WITHDRAWN

definition all_workflow_statuses :: "workflow_status list" where
  "all_workflow_statuses = [OPEN, IN_PROGRESS, BLOCKED, RESOLVED, DONE, WITHDRAWN]"

definition workflow_value :: "workflow_status \<Rightarrow> string" where
  "workflow_value s =
     (case s of OPEN \<Rightarrow> ''open'' | IN_PROGRESS \<Rightarrow> ''in-progress'' | BLOCKED \<Rightarrow> ''blocked''
      | RESOLVED \<Rightarrow> ''resolved'' | DONE \<Rightarrow> ''done'' | WITHDRAWN \<Rightarrow> ''withdrawn'')"

text \<open>\<open>WorkflowStatus(value)\<close>; \<open>None\<close> is its \<open>ValueError\<close>.\<close>

definition parse_workflow :: "string \<Rightarrow> workflow_status option" where
  "parse_workflow v = find (\<lambda>s. workflow_value s = v) all_workflow_statuses"

definition TERMINAL_STATUSES :: "workflow_status set" where
  "TERMINAL_STATUSES = {DONE, WITHDRAWN}"

fun ALLOWED_TRANSITIONS :: "workflow_status \<Rightarrow> workflow_status set" where
  "ALLOWED_TRANSITIONS OPEN = {IN_PROGRESS, WITHDRAWN}"
| "ALLOWED_TRANSITIONS IN_PROGRESS = {BLOCKED, DONE, WITHDRAWN}"
| "ALLOWED_TRANSITIONS BLOCKED = {RESOLVED, WITHDRAWN}"
| "ALLOWED_TRANSITIONS RESOLVED = {IN_PROGRESS, DONE, WITHDRAWN}"
| "ALLOWED_TRANSITIONS DONE = {}"
| "ALLOWED_TRANSITIONS WITHDRAWN = {}"

definition is_terminal :: "workflow_status \<Rightarrow> bool" where
  "is_terminal s \<longleftrightarrow> s \<in> TERMINAL_STATUSES"

definition transition_allowed :: "workflow_status option \<Rightarrow> workflow_status \<Rightarrow> bool" where
  "transition_allowed from_status to_status \<longleftrightarrow>
     to_status \<in> ALLOWED_TRANSITIONS (case from_status of None \<Rightarrow> OPEN | Some s \<Rightarrow> s)"

datatype transition_error =
    BlockedToDone
  | FromTerminal workflow_status workflow_status
  | NotAllowed "workflow_status option" workflow_status

text \<open>\<open>Some e\<close> is the \<open>WorkflowTransitionError\<close> raised.\<close>

definition validate_transition :: "workflow_status option \<Rightarrow> workflow_status \<Rightarrow> transition_error option" where
  "validate_transition from_status to_status =
     (if transition_allowed from_status to_status then None
      else if from_status = Some BLOCKED \<and> to_status = DONE then Some BlockedToDone
      else (case from_status of
              Some s \<Rightarrow> if is_terminal s then Some (FromTerminal s to_status)
                        else Some (NotAllowed from_status to_status)
            | None \<Rightarrow> Some (NotAllowed from_status to_status)))"

section \<open>Columns and audit log\<close>

record history_entry =
  he_id :: string
  he_memory_id :: string
  he_from :: "workflow_status option"
  he_to :: workflow_status
  he_actor :: string
  he_reason :: string
  he_force_used :: bool
  he_created_at :: moment

record wf_state =
  wf_rows :: "row list"
  wf_history :: "history_entry list"

definition get_workflow_status ::
  "string \<Rightarrow> wf_state \<Rightarrow> (string option \<times> string option \<times> iso_text option) option" where
  "get_workflow_status i st =
     map_option (\<lambda>r. (m_workflow_status (mem r), m_locked_by (mem r), m_locked_at (mem r)))
       (row_find row_id i (wf_rows st))"

definition with_workflow ::
  "string option \<Rightarrow> string option \<Rightarrow> iso_text option \<Rightarrow> moment \<Rightarrow> memory \<Rightarrow> memory" where
  "with_workflow s l t now m =
     m\<lparr>m_workflow_status := s, m_locked_by := l, m_locked_at := t, m_updated_at := now\<rparr>"

definition set_workflow_status ::
  "string \<Rightarrow> string option \<Rightarrow> string option \<Rightarrow> iso_text option \<Rightarrow> moment \<Rightarrow> wf_state \<Rightarrow> bool \<times> wf_state" where
  "set_workflow_status i s l t now st =
     (case update_where (\<lambda>m. m_id m = i) (with_workflow s l t now) (wf_rows st) of
        (ok, rs) \<Rightarrow> (ok, st\<lparr>wf_rows := rs\<rparr>))"

definition add_workflow_history :: "history_entry \<Rightarrow> wf_state \<Rightarrow> wf_state" where
  "add_workflow_history e st = st\<lparr>wf_history := wf_history st @ [e]\<rparr>"

definition get_workflow_history :: "string \<Rightarrow> int \<Rightarrow> wf_state \<Rightarrow> history_entry list" where
  "get_workflow_history i limit st =
     sql_limit limit (order_desc he_created_at (filter (\<lambda>e. he_memory_id e = i) (wf_history st)))"

definition count_workflow_transitions_since :: "string \<Rightarrow> moment \<Rightarrow> wf_state \<Rightarrow> nat" where
  "count_workflow_transitions_since i since st =
     rowcount (\<lambda>e. he_memory_id e = i \<and> since \<le> he_created_at e) (wf_history st)"

section \<open>The guarded transition\<close>

record wf_settings =
  workflow_rate_limit_per_minute :: int
  workflow_stale_lock_threshold_hours :: int

datatype workflow_error =
    ActorRequired
  | InvalidStatus string
  | ReasonRequired
  | NotFound string
  | RateLimited nat
  | CorruptStatus string
  | Forbidden transition_error
  | LockedBy string

definition lock_is_stale :: "iso_text \<Rightarrow> int \<Rightarrow> moment \<Rightarrow> bool" where
  "lock_is_stale locked_at threshold_hours now =
     (case locked_at of NotIso _ \<Rightarrow> False | Iso t \<Rightarrow> hours threshold_hours < now - t)"

definition compute_lock_projection ::
  "workflow_status \<Rightarrow> string \<Rightarrow> string option \<Rightarrow> iso_text option \<Rightarrow> bool \<Rightarrow> bool \<Rightarrow> moment \<Rightarrow>
   string option \<times> iso_text option" where
  "compute_lock_projection to_status actor locked_by locked_at force_used stale_lock_released now =
     (if to_status = IN_PROGRESS then (Some actor, Some (Iso now))
      else if to_status \<in> {BLOCKED, RESOLVED} then
        (if force_used \<or> stale_lock_released then (Some actor, Some (Iso now))
         else (locked_by, locked_at))
      else (None, None))"

record workflow_result =
  wr_memory_id :: string
  wr_from_status :: "workflow_status option"
  wr_to_status :: workflow_status
  wr_actor :: string
  wr_previous_locked_by :: "string option"
  wr_locked_by :: "string option"
  wr_locked_at :: "iso_text option"
  wr_stale_lock_released :: bool
  wr_force_used :: bool
  wr_idempotent :: bool
  wr_recorded :: bool
  wr_reason :: string
  wr_terminal :: bool

text \<open>The lock guardrails: whether the lock was stale and whether force was used.\<close>

definition lock_guard ::
  "wf_settings \<Rightarrow> moment \<Rightarrow> string \<Rightarrow> string option \<Rightarrow> iso_text option \<Rightarrow> bool \<Rightarrow>
   workflow_error + bool \<times> bool" where
  "lock_guard cfg now actor locked_by locked_at force =
     (case locked_by of
        None \<Rightarrow> Inr (False, False)
      | Some other \<Rightarrow>
          if other = actor then Inr (False, False)
          else if (case locked_at of None \<Rightarrow> False
                   | Some t \<Rightarrow> lock_is_stale t (workflow_stale_lock_threshold_hours cfg) now)
          then Inr (True, False)
          else if force then Inr (False, True)
          else Inl (LockedBy other))"

text \<open>The persisted part: columns, audit row, result.\<close>

definition record_transition ::
  "moment \<Rightarrow> string \<Rightarrow> string \<Rightarrow> workflow_status option \<Rightarrow> workflow_status \<Rightarrow> string \<Rightarrow> string \<Rightarrow>
   string option \<Rightarrow> iso_text option \<Rightarrow> bool \<times> bool \<Rightarrow> wf_state \<Rightarrow> workflow_result \<times> wf_state" where
  "record_transition now uid i from_status to_status actor reason locked_by locked_at guard st =
     (case guard of (stale, force_used) \<Rightarrow>
        case compute_lock_projection to_status actor locked_by locked_at force_used stale now of
          (new_by, new_at) \<Rightarrow>
            (\<lparr>wr_memory_id = i, wr_from_status = from_status, wr_to_status = to_status,
              wr_actor = actor, wr_previous_locked_by = locked_by, wr_locked_by = new_by,
              wr_locked_at = new_at, wr_stale_lock_released = stale, wr_force_used = force_used,
              wr_idempotent = False, wr_recorded = True, wr_reason = strip reason,
              wr_terminal = is_terminal to_status\<rparr>,
             add_workflow_history
               \<lparr>he_id = uid, he_memory_id = i, he_from = from_status, he_to = to_status,
                he_actor = actor, he_reason = strip reason, he_force_used = force_used,
                he_created_at = now\<rparr>
               (snd (set_workflow_status i (Some (workflow_value to_status)) new_by new_at now st))))"

text \<open>\<open>WorkflowStatus(from_str) if from_str else None\<close>\<close>

definition stored_status :: "string option \<Rightarrow> workflow_error + workflow_status option" where
  "stored_status s =
     (case s of
        None \<Rightarrow> Inr None
      | Some v \<Rightarrow>
          if v = [] then Inr None
          else (case parse_workflow v of None \<Rightarrow> Inl (CorruptStatus v) | Some w \<Rightarrow> Inr (Some w)))"

text \<open>\<open>workflow_set\<close> from the reading of the current state on.\<close>

definition workflow_move ::
  "wf_settings \<Rightarrow> moment \<Rightarrow> string \<Rightarrow> string \<Rightarrow> workflow_status \<Rightarrow> string \<Rightarrow> string \<Rightarrow> bool \<Rightarrow>
   wf_state \<Rightarrow> (workflow_error + workflow_result) \<times> wf_state" where
  "workflow_move cfg now uid i to_status actor reason force st =
     (case get_workflow_status i st of
        None \<Rightarrow> (Inl (NotFound i), st)
      | Some (from_str, locked_by, locked_at) \<Rightarrow>
          (case stored_status from_str of
             Inl e \<Rightarrow> (Inl e, st)
           | Inr from_status \<Rightarrow>
               if from_status = Some to_status then
                 (Inr \<lparr>wr_memory_id = i, wr_from_status = from_status, wr_to_status = to_status,
                       wr_actor = actor, wr_previous_locked_by = None, wr_locked_by = locked_by,
                       wr_locked_at = locked_at, wr_stale_lock_released = False,
                       wr_force_used = False, wr_idempotent = True, wr_recorded = False,
                       wr_reason = strip reason, wr_terminal = is_terminal to_status\<rparr>, st)
               else (case validate_transition from_status to_status of
                       Some e \<Rightarrow> (Inl (Forbidden e), st)
                     | None \<Rightarrow>
                         (case lock_guard cfg now actor locked_by locked_at force of
                            Inl e \<Rightarrow> (Inl e, st)
                          | Inr g \<Rightarrow>
                              (case record_transition now uid i from_status to_status actor
                                      reason locked_by locked_at g st of
                                 (res, st') \<Rightarrow> (Inr res, st'))))))"

definition workflow_set ::
  "wf_settings \<Rightarrow> moment \<Rightarrow> string \<Rightarrow> string \<Rightarrow> string \<Rightarrow> string \<Rightarrow> string \<Rightarrow> bool \<Rightarrow> wf_state \<Rightarrow>
   (workflow_error + workflow_result) \<times> wf_state" where
  "workflow_set cfg now uid i to actor reason force st =
     (if strip actor = [] then (Inl ActorRequired, st)
      else
      (case parse_workflow to of
         None \<Rightarrow> (Inl (InvalidStatus to), st)
       | Some to_status \<Rightarrow>
           if force \<and> strip reason = [] then (Inl ReasonRequired, st)
           else if get i (wf_rows st) = None then (Inl (NotFound i), st)
           else let recent = count_workflow_transitions_since i (now - minutes 1) st in
           if workflow_rate_limit_per_minute cfg \<le> int recent then (Inl (RateLimited recent), st)
           else workflow_move cfg now uid i to_status (strip actor) reason force st))"

definition workflow_get :: "string \<Rightarrow> wf_state \<Rightarrow> (string \<times> string option \<times> iso_text option) option" where
  "workflow_get i st =
     map_option (\<lambda>(s, l, t). (case s of None \<Rightarrow> ''open'' | Some v \<Rightarrow> v, l, t)) (get_workflow_status i st)"

section \<open>Facts about the machine\<close>

lemma parse_workflow_value [simp]: "parse_workflow (workflow_value s) = Some s"
  by (cases s) (simp_all add: parse_workflow_def all_workflow_statuses_def workflow_value_def)

lemma workflow_value_truthy [simp]: "truthy (Some (workflow_value s))"
  by (cases s) (simp_all add: truthy_def workflow_value_def)

lemma workflow_value_inj [simp]: "workflow_value a = workflow_value b \<longleftrightarrow> a = b"
  by (metis option.inject parse_workflow_value)

lemma parse_workflow_SomeD: "parse_workflow v = Some s \<Longrightarrow> v = workflow_value s"
  by (auto simp: parse_workflow_def find_Some_iff)

interpretation wf_machine: lifecycle "\<lambda>s t. transition_allowed (Some s) t" is_terminal
  by unfold_locales (auto simp: transition_allowed_def is_terminal_def TERMINAL_STATUSES_def)

interpretation workflow_update: guarded_update "\<lambda>m. m_id m = i" "with_workflow s l t now"
  for i s l t now by unfold_locales (simp add: with_workflow_def)

lemma validate_transition_None: "validate_transition f t = None \<longleftrightarrow> transition_allowed f t"
  by (auto simp: validate_transition_def split: option.splits if_splits)

lemma lock_guard_Inr:
  "lock_guard cfg now actor lb la force = Inr (stale, fu) \<Longrightarrow>
     (lb = None \<or> lb = Some actor \<or> stale \<or> fu) \<and> (fu \<longrightarrow> force \<and> \<not> stale) \<and>
     (stale \<longrightarrow> (\<exists>t. la = Some (Iso t) \<and> hours (workflow_stale_lock_threshold_hours cfg) < now - t))"
  by (auto simp: lock_guard_def lock_is_stale_def split: option.splits if_splits iso_text.splits)


lemma workflow_move_cases:
  obtains (rejected) e where "workflow_move cfg now uid i to_status actor reason force st = (Inl e, st)"
  | (idempotent) res where "workflow_move cfg now uid i to_status actor reason force st = (Inr res, st)"
      "wr_idempotent res" "\<not> wr_recorded res"
  | (recorded) r from_status g where
      "row_find row_id i (wf_rows st) = Some r"
      "stored_status (m_workflow_status (mem r)) = Inr from_status"
      "from_status \<noteq> Some to_status" "transition_allowed from_status to_status"
      "lock_guard cfg now actor (m_locked_by (mem r)) (m_locked_at (mem r)) force = Inr g"
      "workflow_move cfg now uid i to_status actor reason force st =
         apfst Inr (record_transition now uid i from_status to_status actor reason
                      (m_locked_by (mem r)) (m_locked_at (mem r)) g st)"
proof (cases "row_find row_id i (wf_rows st)")
  case None
  then show ?thesis using that(1) by (simp add: workflow_move_def get_workflow_status_def)
next
  case (Some r)
  note def = workflow_move_def [of cfg now uid i to_status actor reason force st]
  have st: "get_workflow_status i st =
      Some (m_workflow_status (mem r), m_locked_by (mem r), m_locked_at (mem r))"
    by (simp add: get_workflow_status_def Some)
  show ?thesis
  proof (cases "stored_status (m_workflow_status (mem r))")
    case (Inl e)
    then show ?thesis using that(1) by (simp add: def st)
  next
    case (Inr f)
    show ?thesis
    proof (cases "f = Some to_status")
      case True
      then show ?thesis using that(2) Inr by (simp add: def st)
    next
      case f: False
      show ?thesis
      proof (cases "validate_transition f to_status")
        case v: None
        show ?thesis
        proof (cases "lock_guard cfg now actor (m_locked_by (mem r)) (m_locked_at (mem r)) force")
          case (Inl e)
          then show ?thesis using that(1) f v Inr by (simp add: def st \<open>stored_status _ = Inr f\<close>)
        next
          case (Inr g)
          show ?thesis
            using that(3) [OF Some \<open>stored_status _ = Inr f\<close> f v [unfolded validate_transition_None] Inr]
            by (simp add: def st \<open>stored_status _ = Inr f\<close> f v Inr apfst_def map_prod_def)
        qed
      next
        case (Some e)
        then show ?thesis using that(1) f Inr by (simp add: def st)
      qed
    qed
  qed
qed

lemma workflow_set_cases:
  obtains (rejected) e where "workflow_set cfg now uid i to actor reason force st = (Inl e, st)"
  | (moved) to_status where "parse_workflow to = Some to_status" "force \<longrightarrow> strip reason \<noteq> []"
      "int (count_workflow_transitions_since i (now - minutes 1) st) < workflow_rate_limit_per_minute cfg"
      "workflow_set cfg now uid i to actor reason force st =
         workflow_move cfg now uid i to_status (strip actor) reason force st"
  by (cases "parse_workflow to"; cases "strip actor = []"; cases "force \<and> strip reason = []";
      cases "get i (wf_rows st) = None";
      cases "workflow_rate_limit_per_minute cfg \<le> int (count_workflow_transitions_since i (now - minutes 1) st)")
     (auto simp: workflow_set_def Let_def)

lemma record_transition_rows:
  "wf_rows (snd (record_transition now uid i f t actor reason lb la g st)) =
     snd (update_where (\<lambda>m. m_id m = i)
       (with_workflow (Some (workflow_value t)) (fst (compute_lock_projection t actor lb la (snd g) (fst g) now))
          (snd (compute_lock_projection t actor lb la (snd g) (fst g) now)) now) (wf_rows st))"
  by (simp add: record_transition_def set_workflow_status_def add_workflow_history_def split: prod.split)

lemma record_transition_history:
  "\<exists>e. wf_history (snd (record_transition now uid i f t actor reason lb la g st)) = wf_history st @ [e] \<and>
     he_memory_id e = i \<and> he_from e = f \<and> he_to e = t \<and> he_actor e = actor \<and>
     he_reason e = strip reason \<and> he_force_used e = snd g \<and> he_created_at e = now"
  by (simp add: record_transition_def set_workflow_status_def add_workflow_history_def split: prod.split)


section \<open>Runs of the store\<close>

text \<open>
  The operations that share the rows with the workflow: transitions, saves (a save of an id that was deleted inserts it
  anew), deletions, and every other UPDATE, none of which writes the workflow columns.  A deletion leaves the log.
\<close>

definition workflow_kept :: "(memory \<Rightarrow> memory) \<Rightarrow> bool" where
  "workflow_kept change \<longleftrightarrow> guarded_update change \<and> (\<forall>m. m_workflow_status (change m) = m_workflow_status m)"

inductive wf_step :: "wf_settings \<Rightarrow> wf_state \<Rightarrow> wf_state \<Rightarrow> bool" for cfg where
  transition: "wf_step cfg st (snd (workflow_set cfg now uid i to actor reason force st))"
| saved: "wf_step cfg st (st\<lparr>wf_rows := save trusted m (wf_rows st)\<rparr>)"
| written: "workflow_kept change \<Longrightarrow> wf_step cfg st (st\<lparr>wf_rows := snd (update_where guard change (wf_rows st))\<rparr>)"
| deleted: "wf_step cfg st (st\<lparr>wf_rows := snd (delete i (wf_rows st))\<rparr>)"
| chunks_deleted: "wf_step cfg st (st\<lparr>wf_rows := snd (delete_doc_chunks d (wf_rows st))\<rparr>)"

definition wf_init :: "wf_state \<Rightarrow> bool" where
  "wf_init st \<longleftrightarrow> table_ok (wf_rows st) \<and> wf_history st = [] \<and>
     list_all (\<lambda>r. m_workflow_status (mem r) = None) (wf_rows st)"


definition history_of :: "string \<Rightarrow> wf_state \<Rightarrow> history_entry list" where
  "history_of i st = filter (\<lambda>e. he_memory_id e = i) (wf_history st)"


lemma stored_status_value [simp]: "stored_status (map_option workflow_value s) = Inr s"
proof -
  have "workflow_value w \<noteq> []" for w
    using workflow_value_truthy [of w] by (simp add: truthy_def)
  then show ?thesis by (simp add: stored_status_def split: option.split)
qed

lemma workflow_kept_by_fields:
  "m_workflow_status (fold apply_field us m) = m_workflow_status m \<and>
   m_locked_by (fold apply_field us m) = m_locked_by m \<and>
   m_locked_at (fold apply_field us m) = m_locked_at m"
proof (induction us arbitrary: m)
  case (Cons u us)
  then show ?case by (cases u) auto
qed simp

text \<open>The operations of the store as steps.\<close>

lemma step_update_fields: "(wf_step cfg)\<^sup>*\<^sup>* st (st\<lparr>wf_rows := snd (update_fields i us now (wf_rows st))\<rparr>)"
proof -
  have "workflow_kept (\<lambda>m. (fold apply_field vs m)\<lparr>m_updated_at := now\<rparr>)" for vs
    by (simp add: workflow_kept_def fields_update.guarded_update_axioms workflow_kept_by_fields)
  then have "wf_step cfg st (st\<lparr>wf_rows := snd (update_where (\<lambda>m. m_id m = i)
      (\<lambda>m. (fold apply_field vs m)\<lparr>m_updated_at := now\<rparr>) (wf_rows st))\<rparr>)" for vs by (rule wf_step.written)
  then show ?thesis by (auto simp: update_fields_def Let_def)
qed

lemma step_claim: "wf_step cfg st (st\<lparr>wf_rows := snd (claim_for_refinement i mx t now (wf_rows st))\<rparr>)"
  unfolding claim_for_refinement_def
  by (intro wf_step.written) (simp add: workflow_kept_def claim_update.guarded_update_axioms)

lemma step_update_status: "wf_step cfg st (st\<lparr>wf_rows := snd (update_status i s now (wf_rows st))\<rparr>)"
  unfolding update_status_def
  by (intro wf_step.written) (simp add: workflow_kept_def status_update.guarded_update_axioms)

lemma step_insert_chunks:
  "insert_chunks ms (wf_rows st) = Inr rs \<Longrightarrow> (wf_step cfg)\<^sup>*\<^sup>* st (st\<lparr>wf_rows := rs\<rparr>)"
proof (induction ms arbitrary: st)
  case (Cons m ms)
  then have new: "row_find row_id (m_id m) (wf_rows st) = None"
    and ins: "insert_chunks ms (save False m (wf_rows st)) = Inr rs"
    by (auto simp: save_def split: if_splits)
  let ?st = "st\<lparr>wf_rows := save False m (wf_rows st)\<rparr>"
  have "(wf_step cfg)\<^sup>*\<^sup>* ?st (?st\<lparr>wf_rows := rs\<rparr>)" using Cons.IH [of ?st] ins by simp
  then show ?case using wf_step.saved [of cfg st False m] by (simp add: converse_rtranclp_into_rtranclp)
next
  case Nil
  then have "st\<lparr>wf_rows := rs\<rparr> = st" by auto
  then show ?case by simp
qed

text \<open>The replacement of a document is a deletion and inserts in one transaction.\<close>

lemma step_replace_doc_chunks:
  "replace_doc_chunks d new key now \<lparr>memories = wf_rows st, meta = ms\<rparr> = (res, st') \<Longrightarrow>
     (wf_step cfg)\<^sup>*\<^sup>* st (st\<lparr>wf_rows := memories st'\<rparr>)"
proof -
  assume r: "replace_doc_chunks d new key now \<lparr>memories = wf_rows st, meta = ms\<rparr> = (res, st')"
  let ?mid = "st\<lparr>wf_rows := snd (delete_doc_chunks d (wf_rows st))\<rparr>"
  have mid: "wf_step cfg st ?mid" by (rule wf_step.chunks_deleted)
  from r have "memories st' = wf_rows st \<or> insert_chunks new (wf_rows ?mid) = Inr (memories st')"
    by (auto simp: replace_doc_chunks_def Let_def split: if_splits prod.splits sum.splits option.splits)
  then show ?thesis
  proof
    assume "insert_chunks new (wf_rows ?mid) = Inr (memories st')"
    from step_insert_chunks [OF this, of cfg] mid show ?thesis by (simp add: converse_rtranclp_into_rtranclp)
  qed simp
qed

section \<open>The row of one memory\<close>

lemma wf_step_table_ok: "wf_step cfg st st' \<Longrightarrow> table_ok (wf_rows st) \<Longrightarrow> table_ok (wf_rows st')"
proof (induction rule: wf_step.induct)
  case (transition st now uid i to actor reason force)
  show ?case
  proof (cases rule: workflow_set_cases [of cfg now uid i to actor reason force st])
    case (moved to_status)
    show ?thesis
    proof (cases rule: workflow_move_cases [of cfg now uid i to_status "strip actor" reason force st])
      case (recorded r f g)
      with moved transition show ?thesis
        by (simp add: record_transition_rows table_ok_update_where [OF workflow_update.guarded_update_axioms])
    qed (use transition moved in simp_all)
  qed (use transition in simp)
next
  case (saved st trusted m)
  then show ?case by (simp add: table_ok_save)
next
  case (written change st guard)
  then show ?case by (simp add: workflow_kept_def table_ok_update_where)
next
  case (deleted st i)
  then show ?case by (simp add: table_ok_delete_row)
next
  case (chunks_deleted st d)
  then show ?case by (simp add: delete_doc_chunks_def table_ok_delete)
qed

lemma wf_run_table_ok: "(wf_step cfg)\<^sup>*\<^sup>* st st' \<Longrightarrow> table_ok (wf_rows st) \<Longrightarrow> table_ok (wf_rows st')"
  by (induction rule: rtranclp_induct) (auto intro: wf_step_table_ok)

lemma history_of_recorded:
  assumes "wf_history st' = wf_history st @ [e]"
  shows "history_of i st' = (if he_memory_id e = i then history_of i st @ [e] else history_of i st)"
  using assms by (simp add: history_of_def)

lemma history_of_rows [simp]: "history_of i (st\<lparr>wf_rows := rs\<rparr>) = history_of i st"
  by (simp add: history_of_def)

lemma row_find_deleted:
  "distinct (map row_id rs) \<Longrightarrow> row_find row_id i (rows_delete P rs) = Some r \<Longrightarrow> row_find row_id i rs = Some r"
  using row_find_distinct [of row_id rs r] by (auto simp: rows_delete_def dest: row_find_SomeD)

text \<open>How a step arrives at the row of a memory: it is new, its status is kept, or one allowed transition is logged.\<close>

lemma wf_step_row:
  assumes "table_ok (wf_rows st)" "wf_step cfg st st'" "row_find row_id i (wf_rows st') = Some r'"
  obtains (new) "row_find row_id i (wf_rows st) = None" "m_workflow_status (mem r') = None" "history_of i st' = history_of i st"
  | (kept) r where "row_find row_id i (wf_rows st) = Some r" "m_workflow_status (mem r') = m_workflow_status (mem r)"
      "history_of i st' = history_of i st"
  | (moved) r f t e where "row_find row_id i (wf_rows st) = Some r" "stored_status (m_workflow_status (mem r)) = Inr f"
      "transition_allowed f t" "m_workflow_status (mem r') = Some (workflow_value t)"
      "history_of i st' = history_of i st @ [e]" "he_from e = f" "he_to e = t"
  using assms(2)
proof (cases rule: wf_step.cases)
  case (transition now uid j to actor reason force)
  have same: "st' = st \<Longrightarrow> thesis" using assms(3) kept by blast
  show ?thesis
  proof (cases rule: workflow_set_cases [of cfg now uid j to actor reason force st])
    case (moved t)
    note set = moved
    show ?thesis
    proof (cases rule: workflow_move_cases [of cfg now uid j t "strip actor" reason force st])
      case (recorded q f g)
      let ?rec = "record_transition now uid j f t (strip actor) reason (m_locked_by (mem q)) (m_locked_at (mem q)) g st"
      have eq: "st' = snd ?rec" using transition set recorded by simp
      obtain e where e: "wf_history st' = wf_history st @ [e]" "he_memory_id e = j" "he_from e = f" "he_to e = t"
        using record_transition_history [of now uid j f t "strip actor" reason "m_locked_by (mem q)" "m_locked_at (mem q)" g st]
        unfolding eq by blast
      note rows = record_transition_rows [of now uid j f t "strip actor" reason "m_locked_by (mem q)" "m_locked_at (mem q)" g st]
      show ?thesis
      proof (cases "j = i")
        case True
        have q: "row_find row_id i (wf_rows st) = Some q" using recorded(1) True by simp
        have id: "row_id q = i" using row_find_SomeD [OF q] by simp
        have "row_find row_id j (wf_rows (snd ?rec)) = Some r'" using assms(3) eq True by simp
        then have "r' = (if row_id q = j then q\<lparr>mem := with_workflow (Some (workflow_value t))
            (fst (compute_lock_projection t (strip actor) (m_locked_by (mem q)) (m_locked_at (mem q)) (snd g) (fst g) now))
            (snd (compute_lock_projection t (strip actor) (m_locked_by (mem q)) (m_locked_at (mem q)) (snd g) (fst g) now)) now (mem q)\<rparr> else q)"
          unfolding rows workflow_update.find recorded(1) by simp
        then have st: "m_workflow_status (mem r') = Some (workflow_value t)" using id True by (simp add: with_workflow_def)
        show ?thesis
          by (rule that(3) [OF q recorded(2,4) st _ e(3,4)]) (simp add: history_of_recorded [OF e(1)] e(2) True)
      next
        case False
        obtain r where r: "row_find row_id i (wf_rows st) = Some r" "r' = r"
          using assms(3) False by (auto simp: eq rows workflow_update.find dest: row_find_SomeD split: if_splits)
        show ?thesis
          by (rule that(2) [OF r(1)]) (simp_all add: r(2) history_of_recorded [OF e(1)] e(2) False)
      qed
    qed (use same transition set in simp_all)
  qed (use same transition in simp)
next
  case (saved trusted m)
  show ?thesis
  proof (cases "row_find row_id i (wf_rows st)")
    case None
    then have "m_workflow_status (mem r') = None"
      using assms(3) saved by (auto simp: find_save inserted_row_def saved_columns_def no_workflow_def split: if_splits)
    then show ?thesis using None saved by (intro that(1)) simp_all
  next
    case (Some r)
    then have "m_workflow_status (mem r') = m_workflow_status (mem r)"
      using assms(3) saved by (auto simp: find_save updated_row_def saved_columns_def split: if_splits)
    then show ?thesis using Some saved by (intro that(2)) simp_all
  qed
next
  case (written change guard)
  then obtain r where r: "row_find row_id i (wf_rows st) = Some r"
    "r' = (if guard (mem r) then r\<lparr>mem := change (mem r)\<rparr> else r)"
    using assms(3) by (auto simp: workflow_kept_def guarded_update.find)
  show ?thesis by (rule that(2) [OF r(1)]) (use r(2) written in \<open>simp_all add: workflow_kept_def\<close>)
next
  case (deleted j)
  have "row_find row_id i (wf_rows st) = Some r'"
    using assms deleted by (auto simp: delete_def table_ok_def intro: row_find_deleted)
  then show ?thesis using deleted by (intro that(2)) simp_all
next
  case (chunks_deleted d)
  have "row_find row_id i (wf_rows st) = Some r'"
    using assms chunks_deleted by (auto simp: delete_doc_chunks_def table_ok_def intro: row_find_deleted)
  then show ?thesis using chunks_deleted by (intro that(2)) simp_all
qed

section \<open>Properties\<close>


definition sample_wf :: wf_state where
  "sample_wf = \<lparr>wf_rows = sample_pending, wf_history = []\<rparr>"

definition sample_cfg :: wf_settings where
  "sample_cfg = \<lparr>workflow_rate_limit_per_minute = 10, workflow_stale_lock_threshold_hours = 24\<rparr>"

definition sample_started :: wf_state where
  "sample_started = snd (workflow_set sample_cfg 100 ''u1'' ''a'' ''in-progress'' ''bob'' [] False sample_wf)"

lemma wf_init_sample: "wf_init sample_wf"
  using table_ok_sample
  by (simp add: wf_init_def sample_wf_def sample_pending_def save_def inserted_row_def saved_columns_def
      no_workflow_def)

lemmas sample_simps = sample_wf_def sample_cfg_def sample_started_def sample_pending_def save_def
  inserted_row_def saved_columns_def no_workflow_def new_memory_def get_def get_workflow_status_def
  set_workflow_status_def add_workflow_history_def update_where_def rows_update_def with_workflow_def
  count_workflow_transitions_since_def rowcount_def

lemma sample_started_row:
  "\<exists>r. row_find row_id ''a'' (wf_rows sample_started) = Some r \<and>
     m_workflow_status (mem r) = Some ''in-progress'' \<and> m_locked_by (mem r) = Some ''bob'' \<and>
     m_locked_at (mem r) = Some (Iso 100)"
proof -
  have "strip ''bob'' = ''bob''" "parse_workflow ''in-progress'' = Some IN_PROGRESS"
    by (code_simp, simp add: parse_workflow_def all_workflow_statuses_def workflow_value_def)
  then show ?thesis
    by (simp add: sample_simps workflow_set_def workflow_move_def stored_status_def
        validate_transition_def transition_allowed_def lock_guard_def record_transition_def
        compute_lock_projection_def workflow_value_def)
qed



text \<open>Along a run whose states all hold the row, its status moves along the edges of the machine.\<close>

definition keeping :: "wf_settings \<Rightarrow> string \<Rightarrow> wf_state \<Rightarrow> wf_state \<Rightarrow> bool" where
  "keeping cfg i st st' \<longleftrightarrow> wf_step cfg st st' \<and> row_find row_id i (wf_rows st') \<noteq> None"

lemma row_status_run:
  assumes "(keeping cfg i)\<^sup>*\<^sup>* st st'" "table_ok (wf_rows st)" "row_find row_id i (wf_rows st) = Some r"
    "m_workflow_status (mem r) = Some (workflow_value s)"
  shows "table_ok (wf_rows st') \<and> (\<exists>r' s'. row_find row_id i (wf_rows st') = Some r' \<and>
      m_workflow_status (mem r') = Some (workflow_value s') \<and> (\<lambda>s t. transition_allowed (Some s) t)\<^sup>*\<^sup>* s s')"
  using assms(1)
proof (induction rule: rtranclp_induct)
  case base
  with assms show ?case by blast
next
  case (step y z)
  then obtain r1 s1 where 1: "table_ok (wf_rows y)" "row_find row_id i (wf_rows y) = Some r1"
      "m_workflow_status (mem r1) = Some (workflow_value s1)" "(\<lambda>s t. transition_allowed (Some s) t)\<^sup>*\<^sup>* s s1" by blast
  from step.hyps(2) obtain r2 where 2: "wf_step cfg y z" "row_find row_id i (wf_rows z) = Some r2" by (auto simp: keeping_def)
  note ok = wf_step_table_ok [OF 2(1) 1(1)]
  from 1(1) 2 show ?case
  proof (cases rule: wf_step_row)
    case (moved q f t e)
    then have "f = Some s1" using 1 stored_status_value [of "Some s1"] by simp
    then have "(\<lambda>s t. transition_allowed (Some s) t)\<^sup>*\<^sup>* s t" using moved(3) 1(4) by (meson rtranclp.rtrancl_into_rtrancl)
    then show ?thesis using ok 2(2) moved(4) by blast
  qed (use 1 2(2) ok in auto)
qed

text \<open>
  C5. A terminal status is final: once a reachable state shows a memory done or withdrawn, it shows the same status for as
  long as its row is not deleted, whatever transitions, saves, updates and deletions of other rows run.
\<close>

theorem terminal_is_final:
  assumes "wf_init st0" and "(wf_step cfg)\<^sup>*\<^sup>* st0 st" and "(keeping cfg i)\<^sup>*\<^sup>* st st'"
    and "row_find row_id i (wf_rows st) = Some r"
    and "m_workflow_status (mem r) = Some (workflow_value s)" and "is_terminal s"
  shows "\<exists>r'. row_find row_id i (wf_rows st') = Some r' \<and>
    m_workflow_status (mem r') = Some (workflow_value s)"
proof -
  have "table_ok (wf_rows st)" using assms(1,2) by (auto simp: wf_init_def intro: wf_run_table_ok)
  from row_status_run [OF assms(3) this assms(4,5)] assms(6) show ?thesis
    using wf_machine.stuck by blast
qed

lemma workflow_set_present:
  "row_find row_id i (wf_rows st) \<noteq> None \<Longrightarrow> row_find row_id i (wf_rows (snd (workflow_set cfg now uid j to actor reason force st))) \<noteq> None"
proof (cases rule: workflow_set_cases [of cfg now uid j to actor reason force st])
  case (moved t)
  assume "row_find row_id i (wf_rows st) \<noteq> None"
  then show ?thesis
    by (cases rule: workflow_move_cases [of cfg now uid j t "strip actor" reason force st])
      (use moved in \<open>auto simp: record_transition_rows workflow_update.find\<close>)
qed simp

definition sample_withdrawn :: wf_state where
  "sample_withdrawn =
     snd (workflow_set sample_cfg 200 ''u2'' ''a'' ''withdrawn'' ''bob'' [] False sample_started)"

lemma terminal_is_final_witness:
  "\<exists>r'. row_find row_id ''a'' (wf_rows (snd (workflow_set sample_cfg 300 ''u3'' ''a'' ''in-progress''
       ''eve'' ''why'' True sample_withdrawn))) = Some r' \<and>
     m_workflow_status (mem r') = Some (workflow_value WITHDRAWN)"
proof -
  have bob: "strip ''bob'' = ''bob''" "parse_workflow ''in-progress'' = Some IN_PROGRESS"
      "parse_workflow ''withdrawn'' = Some WITHDRAWN"
    by (code_simp, simp_all add: parse_workflow_def all_workflow_statuses_def workflow_value_def)
  have run1: "(wf_step sample_cfg)\<^sup>*\<^sup>* sample_wf sample_withdrawn"
    unfolding sample_started_def sample_withdrawn_def
    by (meson converse_rtranclp_into_rtranclp rtranclp.rtrancl_refl wf_step.transition)
  obtain r where r: "row_find row_id ''a'' (wf_rows sample_withdrawn) = Some r"
      "m_workflow_status (mem r) = Some (workflow_value WITHDRAWN)"
    using bob
    by (simp add: sample_withdrawn_def sample_simps workflow_set_def workflow_move_def stored_status_def
        validate_transition_def transition_allowed_def lock_guard_def record_transition_def
        compute_lock_projection_def workflow_value_def minutes_def sec_def)
  have "(keeping sample_cfg ''a'')\<^sup>*\<^sup>* sample_withdrawn (snd (workflow_set sample_cfg 300 ''u3'' ''a''
      ''in-progress'' ''eve'' ''why'' True sample_withdrawn))"
    by (rule r_into_rtranclp) (use r(1) workflow_set_present in \<open>simp add: keeping_def wf_step.transition\<close>)
  note run2 = this
  have "is_terminal WITHDRAWN" by (simp add: is_terminal_def TERMINAL_STATUSES_def)
  from terminal_is_final [OF wf_init_sample run1 run2 r this] show ?thesis .
qed

text \<open>What one call may change.  A rejected or idempotent call changes nothing.  A recorded
  one appends exactly one audit entry, with the actor and the force flag; it happened on a
  free lock, the actor's own lock, a lock older than the threshold, or -- with force and a
  non-blank reason, never on a stale lock -- on another actor's live lock; and the memory has
  at most the configured number of entries in the last minute.
\<close>

theorem workflow_set_effect:
  "case workflow_set cfg now uid i to actor reason force st of
     (Inl e, st') \<Rightarrow> st' = st
   | (Inr res, st') \<Rightarrow>
       if \<not> wr_recorded res then st' = st \<and> wr_idempotent res
       else \<exists>r e. row_find row_id i (wf_rows st) = Some r \<and>
         wf_history st' = wf_history st @ [e] \<and> he_memory_id e = i \<and>
         he_actor e = strip actor \<and> he_force_used e = wr_force_used res \<and>
         (m_locked_by (mem r) = None \<or> m_locked_by (mem r) = Some (strip actor) \<or>
          wr_stale_lock_released res \<or> wr_force_used res) \<and>
         (wr_stale_lock_released res \<longrightarrow>
            (\<exists>t. m_locked_at (mem r) = Some (Iso t) \<and>
                 hours (workflow_stale_lock_threshold_hours cfg) < now - t)) \<and>
         (wr_force_used res \<longrightarrow> force \<and> strip reason \<noteq> [] \<and> \<not> wr_stale_lock_released res) \<and>
         int (count_workflow_transitions_since i (now - minutes 1) st') \<le>
           workflow_rate_limit_per_minute cfg"
proof (cases rule: workflow_set_cases [of cfg now uid i to actor reason force st])
  case (rejected e)
  then show ?thesis by simp
next
  case (moved t)
  show ?thesis
  proof (cases rule: workflow_move_cases [of cfg now uid i t "strip actor" reason force st])
    case (recorded r f g)
    obtain stale fu where g: "g = (stale, fu)" by (cases g)
    define out where "out = record_transition now uid i f t (strip actor) reason
        (m_locked_by (mem r)) (m_locked_at (mem r)) g st"
    have res: "wr_recorded (fst out)" "wr_force_used (fst out) = fu" "wr_stale_lock_released (fst out) = stale"
      by (simp_all add: out_def record_transition_def g split: prod.split)
    obtain e where e: "wf_history (snd out) = wf_history st @ [e]" "he_memory_id e = i"
        "he_actor e = strip actor" "he_force_used e = fu" "he_created_at e = now"
      using record_transition_history [of now uid i f t "strip actor" reason _ _ g st] by (auto simp: out_def g)
    have "int (count_workflow_transitions_since i (now - minutes 1) (snd out)) =
        int (count_workflow_transitions_since i (now - minutes 1) st) + 1"
      using e by (simp add: count_workflow_transitions_since_def rowcount_def minutes_def sec_def)
    with moved(3) have rate: "int (count_workflow_transitions_since i (now - minutes 1) (snd out)) \<le>
        workflow_rate_limit_per_minute cfg" by simp
    note lock = lock_guard_Inr [OF recorded(5) [unfolded g]]
    have call: "workflow_set cfg now uid i to actor reason force st = (Inr (fst out), snd out)"
      using moved(4) recorded(6) by (simp add: out_def apfst_def map_prod_def split: prod.split)
    show ?thesis
      unfolding call using recorded(1) e res lock rate moved(2) by auto
  qed (use moved in simp_all)
qed

lemma workflow_set_effect_witness:
  "\<exists>e. wf_history sample_started = [e] \<and> he_actor e = ''bob'' \<and> \<not> he_force_used e"
proof -
  have bob: "strip ''bob'' = ''bob''" "parse_workflow ''in-progress'' = Some IN_PROGRESS"
    by (code_simp, simp add: parse_workflow_def all_workflow_statuses_def workflow_value_def)
  then have "\<exists>res st'. workflow_set sample_cfg 100 ''u1'' ''a'' ''in-progress'' ''bob'' [] False sample_wf =
      (Inr res, st') \<and> wr_recorded res \<and> \<not> wr_force_used res"
    by (simp add: sample_simps workflow_set_def workflow_move_def stored_status_def
        validate_transition_def transition_allowed_def lock_guard_def record_transition_def
        compute_lock_projection_def)
  then obtain res st' where run: "workflow_set sample_cfg 100 ''u1'' ''a'' ''in-progress'' ''bob'' []
      False sample_wf = (Inr res, st')" "wr_recorded res" "\<not> wr_force_used res" by blast
  have "sample_started = st'" by (simp add: sample_started_def run(1))
  with workflow_set_effect [where cfg = sample_cfg and now = 100 and uid = "''u1''" and i = "''a''"
      and to = "''in-progress''" and actor = "''bob''" and reason = "[]" and force = False and st = sample_wf]
    run bob(1) show ?thesis by (auto simp: sample_wf_def)
qed

end
