(* ===== verification/Refinement.thy ===== *)
theory Refinement
  imports Memory_Store Text_Ops
begin

text \<open>
  The publication and refinement pipeline: the danger detectors
  (\<open>danger_detectors.py\<close>), the quality gate (\<open>pipeline/quality_gate.py\<close>), publication
  (\<open>pipeline/publish.py\<close>), the refine worker (\<open>pipeline/refine.py\<close>) and the quarantine,
  lease and embedding-heal operations of \<open>manager.py\<close>.

  The state is the memories table and the metadata of the vector store.  What is not the
  program's own code is a field of \<open>pl_env\<close>: the secret scanner's pattern matches, SHA-256,
  the embedder and vector store (which fail or succeed), and the failures of the producer and
  of the swap write that the worker catches.  Every operation makes one clock reading.
\<close>

section \<open>Danger detectors\<close>

definition DETECTOR_CLASS_PROMPT_INJECTION :: string where
  "DETECTOR_CLASS_PROMPT_INJECTION = ''prompt-injection''"

definition DETECTOR_CLASS_SECRET :: string where
  "DETECTOR_CLASS_SECRET = ''secret''"

definition PROMPT_INJECTION_PATTERNS :: "(string \<times> string) list" where
  "PROMPT_INJECTION_PATTERNS =
     [(''chatml-im-start'', ''<|im_start|>''), (''chatml-im-end'', ''<|im_end|>''),
      (''llama-inst'', ''[inst]''), (''llama-inst-close'', ''[/inst]''),
      (''ignore-previous'', ''ignore previous instructions''), (''system-prefix'', ''system:''),
      (''eos-token'', ''</s>'')]"

definition HIGH_CONFIDENCE_SECRET_PATTERNS :: "string list" where
  "HIGH_CONFIDENCE_SECRET_PATTERNS =
     [''aws-key'', ''github-token'', ''slack-token'', ''openai-key'', ''jwt'', ''pem-private-key'',
      ''connection-string'']"

record danger_finding =
  df_class :: string
  df_pattern :: string
  df_count :: nat

record detection =
  dt_findings :: "danger_finding list"
  dt_error :: "string option"

definition dt_positive :: "detection \<Rightarrow> bool" where
  "dt_positive d \<longleftrightarrow> dt_findings d \<noteq> []"

definition dt_clean :: "detection \<Rightarrow> bool" where
  "dt_clean d \<longleftrightarrow> dt_findings d = [] \<and> dt_error d = None"

definition injection_findings :: "string \<Rightarrow> danger_finding list" where
  "injection_findings t =
     (let l = lower t
      in map (\<lambda>(n, p). \<lparr>df_class = DETECTOR_CLASS_PROMPT_INJECTION, df_pattern = n,
                        df_count = count_sub (lower p) l\<rparr>)
           (filter (\<lambda>(n, p). count_sub (lower p) l \<noteq> 0) PROMPT_INJECTION_PATTERNS))"

definition secret_findings :: "string list \<Rightarrow> danger_finding list" where
  "secret_findings names =
     (let hs = filter (\<lambda>n. n \<in> set HIGH_CONFIDENCE_SECRET_PATTERNS) names
      in map (\<lambda>n. \<lparr>df_class = DETECTOR_CLASS_SECRET, df_pattern = n,
                   df_count = length (filter (\<lambda>x. x = n) hs)\<rparr>)
           (rev (remdups (rev hs))))"

text \<open>
  \<open>scan\<close> is \<open>detect_secrets\<close>: the pattern names of its matches, or the message of the
  exception it raises.
\<close>

fun detect_texts ::
  "(string \<Rightarrow> string + string list) \<Rightarrow> string list \<Rightarrow> danger_finding list \<Rightarrow> detection" where
  "detect_texts scan [] fs = \<lparr>dt_findings = fs, dt_error = None\<rparr>"
| "detect_texts scan (t # ts) fs =
     (if t = [] then detect_texts scan ts fs
      else (case scan t of
              Inl e \<Rightarrow> \<lparr>dt_findings = fs @ injection_findings t, dt_error = Some e\<rparr>
            | Inr names \<Rightarrow>
                detect_texts scan ts (fs @ injection_findings t @ secret_findings names)))"

definition detect ::
  "(string \<Rightarrow> string + string list) \<Rightarrow> string \<Rightarrow> string option \<Rightarrow> detection" where
  "detect scan content title = detect_texts scan [content, or_str title []] []"

text \<open>\<open>",".join(sorted({f.detector_class ...}))\<close>\<close>

definition class_codes :: "detection \<Rightarrow> string" where
  "class_codes d = join '','' (sort (remdups (map df_class (dt_findings d))))"

section \<open>State and environment\<close>

record vector_meta =
  vm_project :: string
  vm_agent :: string
  vm_content_hash :: "string option"
  vm_model_fingerprint :: "string option"

record pl_state =
  pl_rows :: "row list"
  pl_vectors :: "string \<rightharpoonup> vector_meta"

record pl_env =
  pe_scan :: "string \<Rightarrow> string + string list"
  pe_sha256 :: "string \<Rightarrow> string"
  pe_fingerprint :: string
  pe_embed_ok :: "string \<Rightarrow> bool"
  pe_vector_delete_ok :: bool
  pe_producer_fails :: "memory \<Rightarrow> bool"
  pe_swap_fails :: "memory \<Rightarrow> bool"
  pe_curated :: bool

abbreviation env_detect :: "pl_env \<Rightarrow> string \<Rightarrow> string option \<Rightarrow> detection" where
  "env_detect env \<equiv> detect (pe_scan env)"

definition pl_get :: "string \<Rightarrow> pl_state \<Rightarrow> memory option" where
  "pl_get i st = get i (pl_rows st)"

text \<open>\<open>sqlite.update_fields\<close> on the table of the state.\<close>

definition pl_update :: "string \<Rightarrow> field_update list \<Rightarrow> moment \<Rightarrow> pl_state \<Rightarrow> bool \<times> pl_state" where
  "pl_update i fs now st =
     (case update_fields i fs now (pl_rows st) of (ok, rs) \<Rightarrow> (ok, st\<lparr>pl_rows := rs\<rparr>))"

definition embedding_text :: "memory \<Rightarrow> string" where
  "embedding_text m =
     take 4096 (join [CHR 0x0A]
       ((if truthy (m_title m) then [the (m_title m)] else []) @ [effective_content m] @
        (if m_tags m = [] then [] else [join '' '' (m_tags m)])))"

definition embed_content_hash :: "pl_env \<Rightarrow> string \<Rightarrow> string" where
  "embed_content_hash env t = take 16 (pe_sha256 env t)"

definition vector_metadata :: "pl_env \<Rightarrow> memory \<Rightarrow> vector_meta" where
  "vector_metadata env m =
     \<lparr>vm_project = m_project m, vm_agent = m_agent m,
      vm_content_hash = Some (embed_content_hash env (embedding_text m)),
      vm_model_fingerprint = Some (pe_fingerprint env)\<rparr>"

text \<open>False: the embedder or the vector store raised.\<close>

definition upsert_embedding :: "pl_env \<Rightarrow> moment \<Rightarrow> memory \<Rightarrow> pl_state \<Rightarrow> bool \<times> pl_state" where
  "upsert_embedding env now m st =
     (if pe_embed_ok env (embedding_text m)
      then (True, snd (pl_update (m_id m) [F_embedding_id (Some (m_id m))] now
                         (st\<lparr>pl_vectors := (pl_vectors st)(m_id m \<mapsto> vector_metadata env m)\<rparr>)))
      else (False, st))"

section \<open>Quality gate\<close>

datatype quality_failure =
    QF_not_found
  | QF_status memory_status
  | QF_quality real real
  | QF_confidence real real
  | QF_coverage int int

record quality_result =
  qr_passed :: bool
  qr_memory_id :: string
  qr_quality_score :: real
  qr_confidence :: real
  qr_source_coverage :: int
  qr_failures :: "quality_failure list"

definition or_default :: "'a option \<Rightarrow> 'a \<Rightarrow> 'a" where
  "or_default v d = (case v of None \<Rightarrow> d | Some x \<Rightarrow> x)"

definition evaluate_quality ::
  "string \<Rightarrow> real option \<Rightarrow> real option \<Rightarrow> int option \<Rightarrow> pl_state \<Rightarrow> quality_result" where
  "evaluate_quality i min_quality min_confidence min_source_coverage st =
     (case pl_get i st of
        None \<Rightarrow> \<lparr>qr_passed = False, qr_memory_id = i, qr_quality_score = 0, qr_confidence = 0,
                 qr_source_coverage = 0, qr_failures = [QF_not_found]\<rparr>
      | Some m \<Rightarrow>
          if m_status m \<noteq> PROCESSED then
            \<lparr>qr_passed = False, qr_memory_id = i, qr_quality_score = 0, qr_confidence = 0,
             qr_source_coverage = 0, qr_failures = [QF_status (m_status m)]\<rparr>
          else
            (let mq = or_default min_quality (4 / 10); mc = or_default min_confidence (4 / 10);
                 msc = or_default min_source_coverage 1;
                 qs = or_default (m_quality_score m) 0; cf = or_default (m_confidence m) 0;
                 sc = or_default (m_source_coverage m) 0;
                 failures = (if qs < mq then [QF_quality qs mq] else []) @
                            (if cf < mc then [QF_confidence cf mc] else []) @
                            (if sc < msc then [QF_coverage sc msc] else [])
             in \<lparr>qr_passed = (failures = []), qr_memory_id = i, qr_quality_score = qs,
                 qr_confidence = cf, qr_source_coverage = sc, qr_failures = failures\<rparr>))"

section \<open>Publication\<close>

record publish_result =
  pr_memory_id :: string
  pr_published :: bool
  pr_vector_indexed :: bool
  pr_previous_status :: string

definition refused :: "string \<Rightarrow> string \<Rightarrow> publish_result" where
  "refused i previous =
     \<lparr>pr_memory_id = i, pr_published = False, pr_vector_indexed = False, pr_previous_status = previous\<rparr>"

text \<open>The status flip, the entry into the refine queue and the vector upsert.\<close>

definition publish_flip :: "moment \<Rightarrow> memory \<Rightarrow> pl_state \<Rightarrow> pl_state" where
  "publish_flip now m st =
     st\<lparr>pl_rows := save False (m\<lparr>m_status := PUBLISHED, m_updated_at := now\<rparr>) (pl_rows st)\<rparr>"

definition publish_enqueue :: "moment \<Rightarrow> memory \<Rightarrow> pl_state \<Rightarrow> pl_state" where
  "publish_enqueue now m st =
     (if m_pipeline_state m = None \<or> m_pipeline_state m = Some PS_FAILED
      then (let st1 = (if m_pipeline_state m = Some PS_FAILED
                       then st\<lparr>pl_rows := snd (clear_refine_retry (m_id m) now (pl_rows st))\<rparr> else st)
            in snd (pl_update (m_id m) [F_pipeline_state (Some PS_PENDING)] now st1))
      else st)"

definition publish_memory ::
  "pl_env \<Rightarrow> moment \<Rightarrow> string \<Rightarrow> bool \<Rightarrow> pl_state \<Rightarrow> publish_result \<times> pl_state" where
  "publish_memory env now i skip_quality_check st =
     (case pl_get i st of
        None \<Rightarrow> (refused i [], st)
      | Some m \<Rightarrow>
          let previous = status_value (m_status m) in
          if m_status m \<noteq> PROCESSED \<and> \<not> skip_quality_check then (refused i previous, st)
          else
            let d = env_detect env (effective_content m) (m_title m) in
            if dt_error d \<noteq> None then (refused i previous, st)
            else if dt_positive d then (refused i previous, st)
            else
              (let st1 = publish_enqueue now m (publish_flip now m st);
                   (ok, st2) = upsert_embedding env now (m\<lparr>m_status := PUBLISHED, m_updated_at := now\<rparr>) st1
               in (\<lparr>pr_memory_id = i, pr_published = True, pr_vector_indexed = ok,
                    pr_previous_status = previous\<rparr>, st2)))"

definition promote_single_memory ::
  "pl_env \<Rightarrow> moment \<Rightarrow> string \<Rightarrow> memory_status \<Rightarrow> pl_state \<Rightarrow> publish_result option \<times> pl_state" where
  "promote_single_memory env now i from_status st =
     (case pl_get i st of
        None \<Rightarrow> (None, st)
      | Some m \<Rightarrow>
          if m_status m \<noteq> from_status \<and> m_status m \<noteq> PROCESSED then (None, st)
          else
            let st1 = (if m_status m \<noteq> PROCESSED
                       then st\<lparr>pl_rows := save False
                               (m\<lparr>m_status := PROCESSED, m_quality_score := Some (1 / 2),
                                  m_confidence := Some (1 / 2), m_source_coverage := Some 1,
                                  m_updated_at := now\<rparr>) (pl_rows st)\<rparr>
                       else st);
                (r, st2) = publish_memory env now (m_id m) True st1
            in (Some r, st2))"

section \<open>Quarantine\<close>

definition quarantine_entry :: "pl_env \<Rightarrow> moment \<Rightarrow> string \<Rightarrow> string \<Rightarrow> pl_state \<Rightarrow> bool \<times> pl_state" where
  "quarantine_entry env now i reason st =
     (if pl_get i st = None then (False, st)
      else (case pl_update i [F_pipeline_state (Some PS_QUARANTINED), F_quarantine_reason (Some reason)]
                   now st of
              (ok, st1) \<Rightarrow>
                if \<not> ok then (False, st1)
                else (True, if pe_vector_delete_ok env
                            then st1\<lparr>pl_vectors := (pl_vectors st1)(i := None)\<rparr> else st1)))"

definition release_quarantine :: "moment \<Rightarrow> string \<Rightarrow> pl_state \<Rightarrow> bool \<times> pl_state" where
  "release_quarantine now i st =
     (case pl_get i st of
        None \<Rightarrow> (False, st)
      | Some m \<Rightarrow>
          if m_pipeline_state m \<noteq> Some PS_QUARANTINED then (False, st)
          else (case pl_update i [F_pipeline_state (Some PS_FAILED), F_quarantine_reason None] now st of
                  (ok, st1) \<Rightarrow>
                    if \<not> ok then (False, st1)
                    else (True, st1\<lparr>pl_rows := snd (clear_refine_retry i now (pl_rows st1))\<rparr>)))"

definition QUARANTINE_REASON_DETECTOR_ERROR :: string where
  "QUARANTINE_REASON_DETECTOR_ERROR = ''detector-error''"

definition quarantine_reason_of :: "detection \<Rightarrow> string" where
  "quarantine_reason_of d =
     (if dt_error d \<noteq> None then QUARANTINE_REASON_DETECTOR_ERROR else class_codes d)"

datatype curated_outcome = CO_published | CO_quarantined | CO_skipped

definition curated_publish :: "pl_env \<Rightarrow> moment \<Rightarrow> string \<Rightarrow> pl_state \<Rightarrow> curated_outcome \<times> pl_state" where
  "curated_publish env now i st =
     (if \<not> pe_curated env then (CO_skipped, st)
      else (case pl_get i st of
              None \<Rightarrow> (CO_skipped, st)
            | Some m \<Rightarrow>
                if m_status m \<noteq> RAW then (CO_skipped, st)
                else
                  let d = env_detect env (effective_content m) (m_title m) in
                  if dt_error d \<noteq> None \<or> dt_positive d
                  then (CO_quarantined, snd (quarantine_entry env now i (quarantine_reason_of d) st))
                  else
                    let st1 = snd (pl_update i [F_status PUBLISHED] now st) in
                    (CO_published,
                     case pl_get i st1 of
                       None \<Rightarrow> st1
                     | Some p \<Rightarrow> snd (upsert_embedding env now p st1))))"

section \<open>The refine worker\<close>

definition REFINE_MAX_ATTEMPTS :: int where
  "REFINE_MAX_ATTEMPTS = 3"

definition REFINE_BACKOFF_BASE_SEC :: int where
  "REFINE_BACKOFF_BASE_SEC = 60"

definition REFINE_BACKOFF_CAP_SEC :: int where
  "REFINE_BACKOFF_CAP_SEC = 3600"

definition REFINE_PROCESSING_VERSION :: string where
  "REFINE_PROCESSING_VERSION = ''stub-v1''"

definition REFINE_LEASE_TIMEOUT_SEC :: int where
  "REFINE_LEASE_TIMEOUT_SEC = 600"

definition swap_key :: "pl_env \<Rightarrow> string \<Rightarrow> string \<Rightarrow> string" where
  "swap_key env cluster_context processed_content =
     take 24 (pe_sha256 env (cluster_context @ '':'' @ REFINE_PROCESSING_VERSION @ '':'' @
                             take 24 (pe_sha256 env processed_content)))"

text \<open>
  \<open>int(min(base * 2 ** (attempt - 1), cap))\<close>.  The exponent is negative for an attempt below
  1 (a negative counter in the metadata): Python's power is then a fraction, and \<open>int\<close>
  truncates.
\<close>

definition retry_backoff_sec :: "int \<Rightarrow> int" where
  "retry_backoff_sec attempt =
     (if 1 \<le> attempt
      then min (REFINE_BACKOFF_BASE_SEC * 2 ^ nat (attempt - 1)) REFINE_BACKOFF_CAP_SEC
      else min (REFINE_BACKOFF_BASE_SEC div 2 ^ nat (1 - attempt)) REFINE_BACKOFF_CAP_SEC)"

definition produce_refined_projection :: "memory \<Rightarrow> pl_state \<Rightarrow> string option" where
  "produce_refined_projection m st =
     (case m_cluster_id m of
        None \<Rightarrow> None
      | Some c \<Rightarrow>
          if c = [] then None
          else
            let mates = filter is_context_admissible (list_by_cluster c (pl_rows st)) in
            if length mates < 2 then None
            else Some (join [CHR 0x0A]
                   ((''# Refined digest of cluster '' @ take 8 c) # [] #
                    map (\<lambda>x. ''- '' @ take 200 (or_str (m_raw_content x) (effective_content x))) mates)))"

definition record_failure :: "moment \<Rightarrow> memory \<Rightarrow> int \<Rightarrow> pl_state \<Rightarrow> pl_state" where
  "record_failure now m attempt st =
     (let next_retry_at = (if attempt < REFINE_MAX_ATTEMPTS
                           then Some (now + sec (retry_backoff_sec attempt)) else None)
      in st\<lparr>pl_rows := snd (record_refine_failure (m_id m) attempt next_retry_at now (pl_rows st))\<rparr>)"

datatype refine_outcome =
    RO_missing
  | RO_lost_race
  | RO_refined
  | RO_refined_noop
  | RO_failed
  | RO_quarantined
  | RO_raised

definition swap_fields :: "moment \<Rightarrow> memory \<Rightarrow> string \<Rightarrow> string \<Rightarrow> field_update list" where
  "swap_fields now m artifact key =
     [F_content artifact, F_clean_content None, F_pipeline_state (Some PS_REFINED),
      F_processed_at (Some now), F_swap_key (Some key)] @
     (if m_raw_content m = None then [F_raw_content (Some (effective_content m))] else []) @
     (if artifact \<noteq> effective_content m then [F_marker_version (m_marker_version m + 1)] else [])"

text \<open>After the swap is committed: curated visibility, then the re-embedding.\<close>

definition refine_complete :: "pl_env \<Rightarrow> moment \<Rightarrow> string \<Rightarrow> pl_state \<Rightarrow> pl_state" where
  "refine_complete env now i st =
     (case curated_publish env now i st of
        (outcome, st1) \<Rightarrow>
          (case pl_get i st1 of
             None \<Rightarrow> st1
           | Some s \<Rightarrow>
               if m_status s = PUBLISHED \<and> outcome \<noteq> CO_published
               then snd (upsert_embedding env now s st1) else st1))"

text \<open>The cycle after the claim, on the snapshot \<open>m\<close> taken before it.\<close>

definition refine_claimed ::
  "pl_env \<Rightarrow> moment \<Rightarrow> memory \<Rightarrow> int \<Rightarrow> pl_state \<Rightarrow> refine_outcome \<times> pl_state" where
  "refine_claimed env now m attempt st =
     (let i = m_id m; cluster_context = or_str (m_cluster_id m) (''solo:'' @ i) in
      if pe_producer_fails env m then (RO_failed, record_failure now m attempt st)
      else (case produce_refined_projection m st of
         None \<Rightarrow>
           (RO_refined_noop,
            snd (curated_publish env now i
              (snd (pl_update i [F_pipeline_state (Some PS_REFINED), F_processed_at (Some now)] now st))))
       | Some artifact \<Rightarrow>
           let d = env_detect env artifact (m_title m) in
           if dt_error d \<noteq> None \<or> dt_positive d
           then (RO_quarantined, snd (quarantine_entry env now i (quarantine_reason_of d) st))
           else
             let key = swap_key env cluster_context artifact in
             if m_swap_key m = Some key
             then (RO_refined, refine_complete env now i
                    (snd (pl_update i [F_pipeline_state (Some PS_REFINED), F_processed_at (Some now),
                                       F_swap_key (Some key)] now st)))
             else if pe_swap_fails env m then (RO_failed, record_failure now m attempt st)
             else (RO_refined, refine_complete env now i
                    (snd (pl_update i (swap_fields now m artifact key) now st)))))"

text \<open>\<open>RO_raised\<close>: the retry counter of the metadata is no number and \<open>int()\<close> raises.\<close>

definition refine_single :: "pl_env \<Rightarrow> moment \<Rightarrow> string \<Rightarrow> pl_state \<Rightarrow> refine_outcome \<times> pl_state" where
  "refine_single env now i st =
     (case pl_get i st of
        None \<Rightarrow> (RO_missing, st)
      | Some m \<Rightarrow>
          (case claim_for_refinement i REFINE_MAX_ATTEMPTS now now (pl_rows st) of
             (won, rs) \<Rightarrow>
               if \<not> won then (RO_lost_race, st\<lparr>pl_rows := rs\<rparr>)
               else (case py_int_or_zero (m_metadata m ''pipeline_retry_count'') of
                       None \<Rightarrow> (RO_raised, st\<lparr>pl_rows := rs\<rparr>)
                     | Some n \<Rightarrow> refine_claimed env now m (n + 1) (st\<lparr>pl_rows := rs\<rparr>))))"

text \<open>The drain: an exception of one row ends it.  The result lists the outcome of each row.\<close>

fun refine_loop ::
  "pl_env \<Rightarrow> moment \<Rightarrow> string list \<Rightarrow> pl_state \<Rightarrow> (string \<times> refine_outcome) list \<times> pl_state" where
  "refine_loop env now [] st = ([], st)"
| "refine_loop env now (i # is) st =
     (case refine_single env now i st of
        (o1, st1) \<Rightarrow>
          if o1 = RO_raised then ([(i, o1)], st1)
          else (case refine_loop env now is st1 of (os, st2) \<Rightarrow> ((i, o1) # os, st2)))"

record refine_summary =
  rs_considered :: nat
  rs_refined :: nat
  rs_refined_noop :: nat
  rs_failed :: nat
  rs_quarantined :: nat
  rs_lost_race :: nat
  rs_refined_ids :: "string list"

definition outcome_count :: "refine_outcome \<Rightarrow> (string \<times> refine_outcome) list \<Rightarrow> nat" where
  "outcome_count o1 os = length (filter (\<lambda>p. snd p = o1) os)"

definition refine_pending ::
  "pl_env \<Rightarrow> moment \<Rightarrow> string option \<Rightarrow> string option \<Rightarrow> int \<Rightarrow> pl_state \<Rightarrow>
   refine_summary option \<times> pl_state" where
  "refine_pending env now project agent limit st =
     (let candidates = map m_id (list_refine_intake limit project agent REFINE_MAX_ATTEMPTS now (pl_rows st));
          (os, st1) = refine_loop env now candidates st
      in (if RO_raised \<in> snd ` set os then None
          else Some \<lparr>rs_considered = length candidates, rs_refined = outcome_count RO_refined os,
                     rs_refined_noop = outcome_count RO_refined_noop os,
                     rs_failed = outcome_count RO_failed os,
                     rs_quarantined = outcome_count RO_quarantined os,
                     rs_lost_race = outcome_count RO_lost_race os,
                     rs_refined_ids = map fst (filter (\<lambda>p. snd p = RO_refined) os)\<rparr>, st1))"

definition reclaim_stale_refinements :: "int \<Rightarrow> moment \<Rightarrow> pl_state \<Rightarrow> string list \<times> pl_state" where
  "reclaim_stale_refinements limit now st =
     (case reclaim_stale_processing REFINE_LEASE_TIMEOUT_SEC limit now (pl_rows st) of
        (reclaimed, rs) \<Rightarrow> (map fst reclaimed, st\<lparr>pl_rows := rs\<rparr>))"

section \<open>Healing embeddings\<close>

definition HEAL_CONSECUTIVE_FAILURE_CUTOFF :: nat where
  "HEAL_CONSECUTIVE_FAILURE_CUTOFF = 10"

record heal_state =
  hs_checked :: nat
  hs_healed :: nat
  hs_failed :: nat
  hs_stale_by_fingerprint :: nat
  hs_skipped_quarantined :: nat
  hs_budget :: int
  hs_consecutive :: nat

definition fresh_vector :: "pl_env \<Rightarrow> memory \<Rightarrow> vector_meta option \<Rightarrow> bool" where
  "fresh_vector env m vmeta =
     (case vmeta of
        None \<Rightarrow> False
      | Some v \<Rightarrow> vm_content_hash v = Some (embed_content_hash env (embedding_text m)) \<and>
                  vm_model_fingerprint v = Some (pe_fingerprint env))"

definition stale_fingerprint :: "pl_env \<Rightarrow> vector_meta option \<Rightarrow> bool" where
  "stale_fingerprint env vmeta =
     (case vmeta of None \<Rightarrow> False | Some v \<Rightarrow> vm_model_fingerprint v \<noteq> Some (pe_fingerprint env))"

text \<open>One page; \<open>metas\<close> is the snapshot of the vector metadata taken for the page.\<close>

fun heal_page ::
  "pl_env \<Rightarrow> moment \<Rightarrow> (string \<rightharpoonup> vector_meta) \<Rightarrow> memory list \<Rightarrow> heal_state \<Rightarrow> pl_state \<Rightarrow>
   heal_state \<times> pl_state" where
  "heal_page env now metas [] h st = (h, st)"
| "heal_page env now metas (m # ms) h st =
     (let h1 = h\<lparr>hs_checked := hs_checked h + 1,
                 hs_stale_by_fingerprint := hs_stale_by_fingerprint h +
                   (if stale_fingerprint env (metas (m_id m)) then 1 else 0)\<rparr>
      in if fresh_vector env m (metas (m_id m)) then heal_page env now metas ms h1 st
         else if hs_budget h1 \<le> 0 then (h1, st)
         else (case upsert_embedding env now m st of
                 (True, st1) \<Rightarrow>
                   heal_page env now metas ms
                     (h1\<lparr>hs_healed := hs_healed h1 + 1, hs_consecutive := 0,
                         hs_budget := hs_budget h1 - 1\<rparr>) st1
               | (False, st1) \<Rightarrow>
                   (let h2 = h1\<lparr>hs_failed := hs_failed h1 + 1, hs_consecutive := hs_consecutive h1 + 1\<rparr>
                    in if HEAL_CONSECUTIVE_FAILURE_CUTOFF \<le> hs_consecutive h2
                       then (h2\<lparr>hs_budget := 0\<rparr>, st1)
                       else heal_page env now metas ms (h2\<lparr>hs_budget := hs_budget h2 - 1\<rparr>) st1)))"

text \<open>
  The page loop.  The fuel bounds the number of pages; each page advances the offset by at
  least one row of a set no larger than the table, so the table's length plus one suffices.
\<close>

fun heal_loop :: "nat \<Rightarrow> pl_env \<Rightarrow> moment \<Rightarrow> int \<Rightarrow> int \<Rightarrow> heal_state \<Rightarrow> pl_state \<Rightarrow>
    (heal_state \<times> pl_state) option" where
  "heal_loop 0 env now page offset h st = None"
| "heal_loop (Suc n) env now page offset h st =
     (if hs_budget h \<le> 0 then Some (h, st)
      else let rows = list_by_pipeline_state PS_REFINED page offset None None (pl_rows st) in
           if rows = [] then Some (h, st)
           else let admissible = filter (\<lambda>m. \<not> is_quarantined m) rows;
                    h1 = h\<lparr>hs_skipped_quarantined :=
                             hs_skipped_quarantined h + (length rows - length admissible)\<rparr>;
                    (h2, st2) = heal_page env now (pl_vectors st) admissible h1 st
                in heal_loop n env now page (offset + int (length rows)) h2 st2)"

definition heal_stale_embeddings :: "pl_env \<Rightarrow> moment \<Rightarrow> int \<Rightarrow> pl_state \<Rightarrow> (heal_state \<times> pl_state) option" where
  "heal_stale_embeddings env now limit st =
     heal_loop (Suc (Suc (length (pl_rows st)))) env now (max 1 limit) 0
       \<lparr>hs_checked = 0, hs_healed = 0, hs_failed = 0, hs_stale_by_fingerprint = 0,
        hs_skipped_quarantined = 0, hs_budget = limit, hs_consecutive = 0\<rparr> st"


section \<open>The life cycle of a row\<close>

text \<open>
  The abstract specification of the pipeline: what it may do to one row.  \<open>rel\<close> says whether
  the manual release of a quarantined row is among the operations.
\<close>

definition served_ok :: "pl_env \<Rightarrow> memory \<Rightarrow> bool" where
  "served_ok env m \<longleftrightarrow> dt_clean (env_detect env (effective_content m) (m_title m))"

definition resaved :: "memory \<Rightarrow> memory" where
  "resaved m = saved_columns m
     (m\<lparr>m_marker_version := (if m_marker_version m = 0 then 1 else m_marker_version m)\<rparr>)"

definition swapped_record :: "moment \<Rightarrow> string \<Rightarrow> string \<Rightarrow> memory \<Rightarrow> memory" where
  "swapped_record now a k m =
     m\<lparr>m_content := a, m_clean_content := None, m_pipeline_state := Some PS_REFINED,
       m_processed_at := Some now, m_swap_key := Some k,
       m_raw_content := (if m_raw_content m = None then Some (effective_content m) else m_raw_content m),
       m_marker_version := (if a \<noteq> effective_content m
                            then (if m_marker_version m = 0 then 1 else m_marker_version m) + 1
                            else m_marker_version m),
       m_updated_at := now\<rparr>"

inductive row_move :: "pl_env \<Rightarrow> bool \<Rightarrow> memory \<Rightarrow> memory \<Rightarrow> bool" for env rel where
  embedded: "row_move env rel m (m\<lparr>m_embedding_id := Some (m_id m), m_updated_at := t\<rparr>)"
| resave: "row_move env rel m (resaved m)"
| published: "served_ok env m \<Longrightarrow> row_move env rel m (m\<lparr>m_status := PUBLISHED, m_updated_at := t\<rparr>)"
| enqueued: "m_pipeline_state m = None \<or> m_pipeline_state m = Some PS_FAILED \<Longrightarrow>
    row_move env rel m (m\<lparr>m_pipeline_state := Some PS_PENDING, m_updated_at := t\<rparr>)"
| retry_cleared: "m_pipeline_state m = Some PS_FAILED \<Longrightarrow>
    row_move env rel m (m\<lparr>m_metadata := (m_metadata m)
      (''pipeline_retry_count'' \<mapsto> JInt 0, ''pipeline_retry_at'' \<mapsto> JStr []), m_updated_at := t\<rparr>)"
| processed: "row_move env rel m
    (m\<lparr>m_status := PROCESSED, m_quality_score := Some (1 / 2), m_confidence := Some (1 / 2),
       m_source_coverage := Some 1, m_updated_at := t\<rparr>)"
| quarantined: "row_move env rel m
    (m\<lparr>m_pipeline_state := Some PS_QUARANTINED, m_quarantine_reason := Some reason, m_updated_at := t\<rparr>)"
| released: "rel \<Longrightarrow> m_pipeline_state m = Some PS_QUARANTINED \<Longrightarrow>
    row_move env rel m (m\<lparr>m_pipeline_state := Some PS_FAILED, m_quarantine_reason := None, m_updated_at := t\<rparr>)"
| claimed: "refine_intake REFINE_MAX_ATTEMPTS t m \<Longrightarrow>
    row_move env rel m (m\<lparr>m_pipeline_state := Some PS_PROCESSING, m_updated_at := t\<rparr>)"
| failed: "m_pipeline_state m = Some PS_PROCESSING \<Longrightarrow>
    row_move env rel m (m\<lparr>m_pipeline_state := Some PS_FAILED,
      m_metadata := (m_metadata m)(''pipeline_retry_count'' \<mapsto> JInt n, ''pipeline_retry_at'' \<mapsto> nxt),
      m_updated_at := t\<rparr>)"
| refined: "m_pipeline_state m = Some PS_PROCESSING \<Longrightarrow>
    row_move env rel m (m\<lparr>m_pipeline_state := Some PS_REFINED, m_processed_at := Some t, m_updated_at := t\<rparr>)"
| swapped: "m_pipeline_state m = Some PS_PROCESSING \<Longrightarrow> dt_clean (env_detect env a (m_title m)) \<Longrightarrow>
    m_swap_key m \<noteq> Some k \<Longrightarrow> row_move env rel m (swapped_record t a k m)"
| reclaimed: "m_pipeline_state m = Some PS_PROCESSING \<Longrightarrow>
    row_move env rel m (m\<lparr>m_pipeline_state := Some PS_PENDING, m_updated_at := t\<rparr>)"

abbreviation row_moves :: "pl_env \<Rightarrow> bool \<Rightarrow> memory \<Rightarrow> memory \<Rightarrow> bool" where
  "row_moves env rel \<equiv> (row_move env rel)\<^sup>*\<^sup>*"

lemma row_move_id: "row_move env rel m m' \<Longrightarrow> m_id m' = m_id m"
  by (induction rule: row_move.induct) (simp_all add: resaved_def saved_columns_def swapped_record_def)

lemma row_moves_id: "row_moves env rel m m' \<Longrightarrow> m_id m' = m_id m"
  by (induction rule: rtranclp_induct) (auto dest: row_move_id)

text \<open>The refinement relation on tables: the same rows, each moved along its life cycle.\<close>

definition row_rel :: "pl_env \<Rightarrow> bool \<Rightarrow> row \<Rightarrow> row \<Rightarrow> bool" where
  "row_rel env rel r r' \<longleftrightarrow> rowid r' = rowid r \<and> row_moves env rel (mem r) (mem r')"

definition rows_move :: "pl_env \<Rightarrow> bool \<Rightarrow> row list \<Rightarrow> row list \<Rightarrow> bool" where
  "rows_move env rel = list_all2 (row_rel env rel)"

lemma rows_move_refl [simp]: "rows_move env rel rs rs"
  by (simp add: rows_move_def row_rel_def list_all2_refl)

lemma rows_move_trans: "rows_move env rel a b \<Longrightarrow> rows_move env rel b c \<Longrightarrow> rows_move env rel a c"
  unfolding rows_move_def
  by (rule list_all2_trans [of "row_rel env rel" "row_rel env rel" "row_rel env rel" a b c])
     (auto simp: row_rel_def intro: rtranclp_trans)

lemma rows_move_table_ok: "rows_move env rel rs rs' \<Longrightarrow> table_ok rs' = table_ok rs"
proof (rule table_ok_cong)
  assume "rows_move env rel rs rs'"
  then have "list_all2 (row_rel env rel) rs rs'" by (simp add: rows_move_def)
  then show "map row_id rs' = map row_id rs" "map rowid rs' = map rowid rs"
    by (induction rule: list_all2_induct) (auto simp: row_rel_def dest: row_moves_id)
qed

lemma rows_move_find:
  "rows_move env rel rs rs' \<Longrightarrow> row_find row_id i rs = Some r \<Longrightarrow>
     \<exists>r'. row_find row_id i rs' = Some r' \<and> row_moves env rel (mem r) (mem r')"
  unfolding rows_move_def
  by (induction rule: list_all2_induct) (auto simp: row_rel_def dest: row_moves_id split: if_splits)

lemma rows_move_find_back:
  "rows_move env rel rs rs' \<Longrightarrow> row_find row_id i rs' = Some r' \<Longrightarrow>
     \<exists>r. row_find row_id i rs = Some r \<and> row_moves env rel (mem r) (mem r')"
  unfolding rows_move_def
  by (induction rule: list_all2_induct) (auto simp: row_rel_def dest: row_moves_id split: if_splits)

lemma rows_move_update:
  assumes "\<And>r. r \<in> set rs \<Longrightarrow> P r \<Longrightarrow> row_rel env rel r (f r)"
  shows "rows_move env rel rs (rows_update P f rs)"
  using assms unfolding rows_move_def rows_update_def list_all2_map2
  by (auto simp: list_all2_same row_rel_def)

lemma row_unique:
  "table_ok rs \<Longrightarrow> row_find row_id i rs = Some r \<Longrightarrow> q \<in> set rs \<Longrightarrow> row_id q = i \<Longrightarrow> q = r"
  using row_find_distinct [of row_id rs q] by (simp add: table_ok_def)

lemma rows_move_update_where:
  assumes "table_ok rs" "row_find row_id i rs = Some r" "\<And>m. guard m \<Longrightarrow> m_id m = i"
    "guard (mem r) \<Longrightarrow> row_moves env rel (mem r) (change (mem r))"
  shows "rows_move env rel rs (snd (update_where guard change rs))"
  unfolding update_where_def snd_conv
proof (rule rows_move_update)
  fix q assume "q \<in> set rs" "guard (mem q)"
  with assms row_unique [of rs i r q] have "q = r" by blast
  with \<open>guard (mem q)\<close> assms(4) show "row_rel env rel q (q\<lparr>mem := change (mem q)\<rparr>)"
    by (simp add: row_rel_def)
qed

lemma rows_move_missing:
  assumes "row_find row_id i rs = None" "\<And>m. guard m \<Longrightarrow> m_id m = i"
  shows "snd (update_where guard change rs) = rs"
proof -
  have "\<forall>r \<in> set rs. \<not> guard (mem r)"
    using assms row_find_None_iff [of row_id i rs] by (metis image_eqI)
  then show ?thesis by (simp add: update_where_def rows_update_none)
qed

lemma update_fields_where:
  "filter whitelisted fs = fs \<Longrightarrow> fs \<noteq> [] \<Longrightarrow>
     update_fields i fs now rs =
       update_where (\<lambda>m. m_id m = i) (\<lambda>m. (fold apply_field fs m)\<lparr>m_updated_at := now\<rparr>) rs"
  by (simp add: update_fields_def)

lemma pl_update_where:
  assumes "filter whitelisted fs = fs" "fs \<noteq> []"
  shows "pl_update i fs now st =
    (fst (update_where (\<lambda>m. m_id m = i) (\<lambda>m. (fold apply_field fs m)\<lparr>m_updated_at := now\<rparr>) (pl_rows st)),
     st\<lparr>pl_rows := snd (update_where (\<lambda>m. m_id m = i)
                      (\<lambda>m. (fold apply_field fs m)\<lparr>m_updated_at := now\<rparr>) (pl_rows st))\<rparr>)"
  using assms by (simp add: pl_update_def update_fields_where split: prod.split)

lemma pl_update_find:
  assumes "filter whitelisted fs = fs" "fs \<noteq> []" "row_find row_id i (pl_rows st) = Some r"
  shows "row_find row_id i (pl_rows (snd (pl_update i fs now st))) =
    Some (r\<lparr>mem := (fold apply_field fs (mem r))\<lparr>m_updated_at := now\<rparr>\<rparr>)"
  using assms row_find_SomeD [OF assms(3)] fields_update.find [where k = i and i = i and us = fs and now = now and rs = "pl_rows st"]
  by (simp add: pl_update_where)

lemma pl_update_moves:
  assumes "table_ok (pl_rows st)" "filter whitelisted fs = fs" "fs \<noteq> []"
    "\<And>r. row_find row_id i (pl_rows st) = Some r \<Longrightarrow>
       row_moves env rel (mem r) ((fold apply_field fs (mem r))\<lparr>m_updated_at := now\<rparr>)"
  shows "rows_move env rel (pl_rows st) (pl_rows (snd (pl_update i fs now st)))"
proof (cases "row_find row_id i (pl_rows st)")
  case None
  then show ?thesis by (simp add: pl_update_where assms(2,3) rows_move_missing [OF None])
next
  case (Some r)
  then show ?thesis
    using assms by (simp add: pl_update_where rows_move_update_where [OF assms(1) Some])
qed

lemma pl_update_vectors [simp]: "pl_vectors (snd (pl_update i fs now st)) = pl_vectors st"
  by (simp add: pl_update_def split: prod.split)

lemma upsert_embedding_moves:
  assumes "table_ok (pl_rows st)"
  shows "rows_move env rel (pl_rows st) (pl_rows (snd (upsert_embedding env now m st)))"
proof (cases "pe_embed_ok env (embedding_text m)")
  case True
  have "rows_move env rel (pl_rows (st\<lparr>pl_vectors := (pl_vectors st)(m_id m \<mapsto> vector_metadata env m)\<rparr>))
      (pl_rows (snd (pl_update (m_id m) [F_embedding_id (Some (m_id m))] now
         (st\<lparr>pl_vectors := (pl_vectors st)(m_id m \<mapsto> vector_metadata env m)\<rparr>))))"
  proof (rule pl_update_moves)
    fix r assume "row_find row_id (m_id m) (pl_rows (st\<lparr>pl_vectors := (pl_vectors st)(m_id m \<mapsto> vector_metadata env m)\<rparr>)) = Some r"
    from row_find_SomeD [OF this] have "row_id r = m_id m" by simp
    then show "row_moves env rel (mem r)
        ((fold apply_field [F_embedding_id (Some (m_id m))] (mem r))\<lparr>m_updated_at := now\<rparr>)"
      using row_move.embedded [of env rel "mem r" now] by simp
  qed (use assms in simp_all)
  with True show ?thesis by (simp add: upsert_embedding_def)
qed (simp add: upsert_embedding_def)


section \<open>The operations refine the life cycle\<close>

lemma pl_get_Some: "pl_get i st = Some m \<longleftrightarrow> (\<exists>r. row_find row_id i (pl_rows st) = Some r \<and> m = row_to_memory r)"
  by (auto simp: pl_get_def get_def)

lemma pl_get_None: "pl_get i st = None \<longleftrightarrow> row_find row_id i (pl_rows st) = None"
  by (simp add: pl_get_def get_def)

lemma snapshot_fields [simp]:
  "m_id (row_to_memory r) = row_id r" "m_title (row_to_memory r) = m_title (mem r)"
  "m_status (row_to_memory r) = m_status (mem r)"
  "m_pipeline_state (row_to_memory r) = m_pipeline_state (mem r)"
  "effective_content (row_to_memory r) = effective_content (mem r)"
  "m_metadata (row_to_memory r) = m_metadata (mem r)" "m_swap_key (row_to_memory r) = m_swap_key (mem r)"
  "m_raw_content (row_to_memory r) = m_raw_content (mem r)"
  "m_cluster_id (row_to_memory r) = m_cluster_id (mem r)"
  by (simp_all add: row_to_memory_def effective_content_def)

lemma auto_title_status [simp]:
  "auto_title (m\<lparr>m_status := s\<rparr>) = auto_title m" "auto_title (m\<lparr>m_updated_at := t\<rparr>) = auto_title m"
  "auto_title (m\<lparr>m_quality_score := q\<rparr>) = auto_title m" "auto_title (m\<lparr>m_confidence := c\<rparr>) = auto_title m"
  "auto_title (m\<lparr>m_source_coverage := sc\<rparr>) = auto_title m"
  "auto_title (m\<lparr>m_marker_version := v\<rparr>) = auto_title m"
  by (simp_all add: auto_title_def)

text \<open>Saving a modified snapshot of a row is moving the row and saving it again.\<close>

lemma save_snapshot_find:
  assumes "row_find row_id i rs = Some r" "m_id m = i"
  shows "row_find row_id i (save False m rs) = Some (r\<lparr>mem := saved_columns (mem r) m\<rparr>)"
  using assms by (simp add: find_save updated_row_def)

lemma rows_move_save:
  assumes "table_ok rs" "row_find row_id i rs = Some r" "m_id m = i"
    "row_moves env rel (mem r) (saved_columns (mem r) m)"
  shows "rows_move env rel rs (save False m rs)"
proof -
  have "save False m rs = rows_update (\<lambda>r. row_id r = m_id m) (updated_row False m) rs"
    using assms by (simp add: save_def)
  then show ?thesis
    using assms row_unique [OF assms(1,2)]
    by (auto intro!: rows_move_update simp: row_rel_def updated_row_def)
qed

lemma published_saved:
  "saved_columns (mem r) ((row_to_memory r)\<lparr>m_status := PUBLISHED, m_updated_at := t\<rparr>) =
     resaved ((mem r)\<lparr>m_status := PUBLISHED, m_updated_at := t\<rparr>)"
  by (simp add: resaved_def saved_columns_def row_to_memory_def)

lemma processed_saved:
  "saved_columns (mem r) ((row_to_memory r)\<lparr>m_status := PROCESSED, m_quality_score := Some (1 / 2),
      m_confidence := Some (1 / 2), m_source_coverage := Some 1, m_updated_at := t\<rparr>) =
   resaved ((mem r)\<lparr>m_status := PROCESSED, m_quality_score := Some (1 / 2),
      m_confidence := Some (1 / 2), m_source_coverage := Some 1, m_updated_at := t\<rparr>)"
  by (simp add: resaved_def saved_columns_def row_to_memory_def)

lemma two_moves: "row_move env rel a b \<Longrightarrow> row_move env rel b c \<Longrightarrow> row_moves env rel a c"
  by (meson r_into_rtranclp rtranclp_trans)

lemma publish_flip_moves:
  assumes "table_ok (pl_rows st)" "row_find row_id i (pl_rows st) = Some r" "served_ok env (mem r)"
  shows "rows_move env rel (pl_rows st) (pl_rows (publish_flip now (row_to_memory r) st))"
  unfolding publish_flip_def
  using assms row_find_SomeD [OF assms(2)] two_moves [OF row_move.published row_move.resave, of env "mem r"]
  by (simp, intro rows_move_save [OF assms(1,2)]) (simp_all add: published_saved)

lemma publish_flip_find:
  assumes "row_find row_id i (pl_rows st) = Some r"
  shows "row_find row_id i (pl_rows (publish_flip now (row_to_memory r) st)) =
    Some (r\<lparr>mem := resaved ((mem r)\<lparr>m_status := PUBLISHED, m_updated_at := now\<rparr>)\<rparr>)"
  using assms row_find_SomeD [OF assms]
  by (simp add: publish_flip_def save_snapshot_find published_saved)

lemma resaved_fields [simp]:
  "m_id (resaved m) = m_id m" "m_pipeline_state (resaved m) = m_pipeline_state m"
  "m_status (resaved m) = m_status m" "effective_content (resaved m) = effective_content m"
  "m_metadata (resaved m) = m_metadata m" "m_raw_content (resaved m) = m_raw_content m"
  by (simp_all add: resaved_def saved_columns_def effective_content_def)

lemma clear_retry_moves:
  assumes "table_ok rs" "row_find row_id i rs = Some r" "m_pipeline_state (mem r) = Some PS_FAILED"
  shows "rows_move env rel rs (snd (clear_refine_retry i now rs))"
  unfolding clear_refine_retry_def
  using assms by (intro rows_move_update_where [OF assms(1,2)]) (auto intro: row_move.retry_cleared)

lemma clear_retry_find:
  "row_find row_id i rs = Some r \<Longrightarrow>
     \<exists>r'. row_find row_id i (snd (clear_refine_retry i now rs)) = Some r' \<and>
          m_pipeline_state (mem r') = m_pipeline_state (mem r) \<and> m_status (mem r') = m_status (mem r)"
  unfolding clear_refine_retry_def by (auto simp: clear_update.find dest: row_find_SomeD)

lemma publish_enqueue_moves:
  assumes ok: "table_ok (pl_rows st)" and r: "row_find row_id i (pl_rows st) = Some r"
    and m: "m_id m = i" "m_pipeline_state m = m_pipeline_state (mem r)"
  shows "rows_move env rel (pl_rows st) (pl_rows (publish_enqueue now m st))"
proof (cases "m_pipeline_state m = None \<or> m_pipeline_state m = Some PS_FAILED")
  case False
  then have "publish_enqueue now m st = st" by (auto simp: publish_enqueue_def)
  then show ?thesis by simp
next
  case True
  define st1 where "st1 = (if m_pipeline_state m = Some PS_FAILED
      then st\<lparr>pl_rows := snd (clear_refine_retry (m_id m) now (pl_rows st))\<rparr> else st)"
  have 1: "rows_move env rel (pl_rows st) (pl_rows st1)"
    using clear_retry_moves [OF ok r] m by (simp add: st1_def)
  obtain r1 where r1: "row_find row_id i (pl_rows st1) = Some r1"
      "m_pipeline_state (mem r1) = m_pipeline_state (mem r)"
    using r clear_retry_find [OF r, of now] m by (cases "m_pipeline_state m = Some PS_FAILED") (auto simp: st1_def)
  have "rows_move env rel (pl_rows st1) (pl_rows (snd (pl_update i [F_pipeline_state (Some PS_PENDING)] now st1)))"
    using ok 1 True r1 m row_move.enqueued [of "mem r1" env rel now]
    by (intro pl_update_moves) (auto simp: rows_move_table_ok)
  moreover have "publish_enqueue now m st = snd (pl_update i [F_pipeline_state (Some PS_PENDING)] now st1)"
    unfolding publish_enqueue_def st1_def Let_def using True m by simp
  ultimately show ?thesis using rows_move_trans [OF 1] by simp
qed

lemma clean_iff: "dt_error d \<noteq> None \<or> dt_positive d \<longleftrightarrow> \<not> dt_clean d"
  by (auto simp: dt_clean_def dt_positive_def)

lemma publish_memory_moves:
  assumes ok: "table_ok (pl_rows st)"
  shows "rows_move env rel (pl_rows st) (pl_rows (snd (publish_memory env now i skip st)))"
proof (cases "pl_get i st")
  case None
  then show ?thesis by (simp add: publish_memory_def)
next
  case (Some m)
  then obtain r where r: "row_find row_id i (pl_rows st) = Some r" "m = row_to_memory r"
    by (auto simp: pl_get_Some)
  define st1 where "st1 = publish_flip now m st"
  define st2 where "st2 = publish_enqueue now m st1"
  show ?thesis
  proof (cases "served_ok env (mem r) \<and> \<not> (m_status m \<noteq> PROCESSED \<and> \<not> skip)")
    case False
    then have "snd (publish_memory env now i skip st) = st"
      using Some r by (auto simp: publish_memory_def Let_def served_ok_def clean_iff [symmetric])
    then show ?thesis by simp
  next
    case True
    then have eq: "snd (publish_memory env now i skip st) =
        snd (upsert_embedding env now (m\<lparr>m_status := PUBLISHED, m_updated_at := now\<rparr>) st2)"
      using Some r by (auto simp: publish_memory_def Let_def served_ok_def dt_clean_def dt_positive_def
          st1_def st2_def split: prod.split)
    have 1: "rows_move env rel (pl_rows st) (pl_rows st1)"
      unfolding st1_def r(2) using publish_flip_moves [OF ok r(1)] True by blast
    then have ok1: "table_ok (pl_rows st1)" using ok by (simp add: rows_move_table_ok)
    have f: "row_find row_id i (pl_rows st1) =
        Some (r\<lparr>mem := resaved ((mem r)\<lparr>m_status := PUBLISHED, m_updated_at := now\<rparr>)\<rparr>)"
      using publish_flip_find [OF r(1), of now] by (simp add: st1_def r(2))
    have 2: "rows_move env rel (pl_rows st1) (pl_rows st2)"
      unfolding st2_def
      by (rule publish_enqueue_moves [OF ok1 f]) (use r row_find_SomeD [OF r(1)] in simp_all)
    then have "table_ok (pl_rows st2)" using ok1 by (simp add: rows_move_table_ok)
    from upsert_embedding_moves [OF this] 1 2 show ?thesis
      unfolding eq by (meson rows_move_trans)
  qed
qed

lemma promote_moves:
  assumes ok: "table_ok (pl_rows st)"
  shows "rows_move env rel (pl_rows st) (pl_rows (snd (promote_single_memory env now i from st)))"
proof (cases "pl_get i st")
  case None
  then show ?thesis by (simp add: promote_single_memory_def)
next
  case (Some m)
  then obtain r where r: "row_find row_id i (pl_rows st) = Some r" "m = row_to_memory r"
    by (auto simp: pl_get_Some)
  define st1 where "st1 = (if m_status m \<noteq> PROCESSED
      then st\<lparr>pl_rows := save False (m\<lparr>m_status := PROCESSED, m_quality_score := Some (1 / 2),
                m_confidence := Some (1 / 2), m_source_coverage := Some 1, m_updated_at := now\<rparr>) (pl_rows st)\<rparr>
      else st)"
  have 1: "rows_move env rel (pl_rows st) (pl_rows st1)"
    using r row_find_SomeD [OF r(1)] two_moves [OF row_move.processed row_move.resave, of env rel "mem r" now]
    by (auto simp: st1_def intro!: rows_move_save [OF ok r(1)] simp: processed_saved)
  then have "table_ok (pl_rows st1)" using ok by (simp add: rows_move_table_ok)
  from publish_memory_moves [OF this] 1
  have "rows_move env rel (pl_rows st) (pl_rows (snd (publish_memory env now (m_id m) True st1)))"
    by (meson rows_move_trans)
  then show ?thesis
    using Some by (auto simp: promote_single_memory_def Let_def st1_def [symmetric] split: prod.split)
qed

lemma quarantine_moves:
  assumes "table_ok (pl_rows st)"
  shows "rows_move env rel (pl_rows st) (pl_rows (snd (quarantine_entry env now i reason st)))"
proof -
  have "rows_move env rel (pl_rows st) (pl_rows (snd (pl_update i
      [F_pipeline_state (Some PS_QUARANTINED), F_quarantine_reason (Some reason)] now st)))"
    by (rule pl_update_moves [OF assms]) (auto intro: row_move.quarantined)
  then show ?thesis by (auto simp: quarantine_entry_def split: prod.split)
qed

lemma release_moves:
  assumes ok: "table_ok (pl_rows st)"
  shows "rows_move env True (pl_rows st) (pl_rows (snd (release_quarantine now i st)))"
proof (cases "\<exists>r. row_find row_id i (pl_rows st) = Some r \<and> m_pipeline_state (mem r) = Some PS_QUARANTINED")
  case False
  then have "snd (release_quarantine now i st) = st"
    by (auto simp: release_quarantine_def pl_get_Some split: option.split)
  then show ?thesis by simp
next
  case True
  then obtain r where r: "row_find row_id i (pl_rows st) = Some r"
      "m_pipeline_state (mem r) = Some PS_QUARANTINED" by blast
  define fs where "fs = [F_pipeline_state (Some PS_FAILED), F_quarantine_reason None]"
  have fs: "filter whitelisted fs = fs" "fs \<noteq> []" by (simp_all add: fs_def)
  define st1 where "st1 = snd (pl_update i fs now st)"
  have 1: "rows_move env True (pl_rows st) (pl_rows st1)"
    unfolding st1_def using r row_move.released [of True "mem r" env now]
    by (intro pl_update_moves [OF ok fs]) (auto simp: fs_def)
  have "row_find row_id i (pl_rows st1) =
      Some (r\<lparr>mem := (fold apply_field fs (mem r))\<lparr>m_updated_at := now\<rparr>\<rparr>)"
    unfolding st1_def by (rule pl_update_find [OF fs r(1)])
  with 1 ok have 2: "rows_move env True (pl_rows st1) (snd (clear_refine_retry i now (pl_rows st1)))"
    by (intro clear_retry_moves [of _ i]) (auto simp: rows_move_table_ok fs_def)
  have "pl_rows (snd (release_quarantine now i st)) \<in>
      {pl_rows st1, snd (clear_refine_retry i now (pl_rows st1))}"
    using r by (auto simp: release_quarantine_def pl_get_def get_def st1_def fs_def split: prod.split)
  with 1 2 show ?thesis using rows_move_trans by auto
qed

lemma curated_moves:
  assumes ok: "table_ok (pl_rows st)"
  shows "rows_move env rel (pl_rows st) (pl_rows (snd (curated_publish env now i st)))"
proof (cases "pe_curated env \<and> (\<exists>m. pl_get i st = Some m \<and> m_status m = RAW)")
  case False
  then have "snd (curated_publish env now i st) = st"
    by (auto simp: curated_publish_def split: option.split)
  then show ?thesis by simp
next
  case True
  then obtain r where r: "row_find row_id i (pl_rows st) = Some r" "m_status (mem r) = RAW"
    and g: "pl_get i st = Some (row_to_memory r)"
    by (auto simp: pl_get_Some)
  show ?thesis
  proof (cases "served_ok env (mem r)")
    case False
    then have "pl_rows (snd (curated_publish env now i st)) = pl_rows (snd (quarantine_entry env now i
        (quarantine_reason_of (env_detect env (effective_content (mem r)) (m_title (mem r)))) st))"
      using True r g by (auto simp: curated_publish_def Let_def served_ok_def dt_clean_def dt_positive_def)
    with quarantine_moves [OF ok] show ?thesis by simp
  next
    case clean: True
    define st1 where "st1 = snd (pl_update i [F_status PUBLISHED] now st)"
    have 1: "rows_move env rel (pl_rows st) (pl_rows st1)"
      unfolding st1_def using r clean row_move.published [of env "mem r" rel now]
      by (intro pl_update_moves [OF ok]) auto
    then have "table_ok (pl_rows st1)" using ok by (simp add: rows_move_table_ok)
    note 2 = upsert_embedding_moves [OF this]
    have "snd (curated_publish env now i st) =
        (case pl_get i st1 of None \<Rightarrow> st1 | Some p \<Rightarrow> snd (upsert_embedding env now p st1))"
      unfolding st1_def using True r g clean
      by (simp add: curated_publish_def Let_def dt_clean_def dt_positive_def served_ok_def)
    then show ?thesis using 1 rows_move_trans [OF 1 2] by (auto split: option.split)
  qed
qed


lemma record_failure_moves:
  assumes "table_ok (pl_rows st)" "row_find row_id (m_id m) (pl_rows st) = Some r"
    "m_pipeline_state (mem r) = Some PS_PROCESSING"
  shows "rows_move env rel (pl_rows st) (pl_rows (record_failure now m attempt st))"
proof -
  have "rows_move env rel (pl_rows st) (snd (record_refine_failure (m_id m) attempt n now (pl_rows st)))" for n
    unfolding record_refine_failure_def
    by (rule rows_move_update_where [OF assms(1,2)]) (use assms(3) in \<open>auto intro: row_move.failed\<close>)
  then show ?thesis by (simp add: record_failure_def)
qed

lemma refine_complete_moves:
  assumes ok: "table_ok (pl_rows st)"
  shows "rows_move env rel (pl_rows st) (pl_rows (refine_complete env now i st))"
proof -
  obtain o1 st1 where c: "curated_publish env now i st = (o1, st1)"
    by (cases "curated_publish env now i st")
  have 1: "rows_move env rel (pl_rows st) (pl_rows st1)"
    using curated_moves [OF ok, of env rel now i] by (simp add: c)
  then have "table_ok (pl_rows st1)" using ok by (simp add: rows_move_table_ok)
  from rows_move_trans [OF 1 upsert_embedding_moves [OF this]] 1 show ?thesis
    by (auto simp: refine_complete_def c split: option.split)
qed

lemma swap_fields_apply:
  assumes "m = row_to_memory r"
  shows "(fold apply_field (swap_fields now m a k)
            ((mem r)\<lparr>m_pipeline_state := Some PS_PROCESSING, m_updated_at := t\<rparr>))\<lparr>m_updated_at := now\<rparr> =
    swapped_record now a k ((mem r)\<lparr>m_pipeline_state := Some PS_PROCESSING, m_updated_at := t\<rparr>)"
  using assms by (simp add: swap_fields_def swapped_record_def effective_content_def row_to_memory_def)

lemma swap_fields_white: "filter whitelisted (swap_fields now m a k) = swap_fields now m a k"
    "swap_fields now m a k \<noteq> []"
  by (simp_all add: swap_fields_def)

definition claimed_row :: "moment \<Rightarrow> row \<Rightarrow> row" where
  "claimed_row now r = r\<lparr>mem := (mem r)\<lparr>m_pipeline_state := Some PS_PROCESSING, m_updated_at := now\<rparr>\<rparr>"

lemma claim_moves:
  assumes "table_ok rs"
  shows "rows_move env rel rs (snd (claim_for_refinement i REFINE_MAX_ATTEMPTS t t rs))"
proof (cases "row_find row_id i rs")
  case None
  then show ?thesis
    unfolding claim_for_refinement_def by (subst rows_move_missing [OF None]) auto
next
  case (Some r)
  show ?thesis
    unfolding claim_for_refinement_def
    by (rule rows_move_update_where [OF assms Some]) (auto intro: row_move.claimed)
qed

lemma refine_claimed_moves:
  assumes ok: "table_ok (pl_rows st)" and m: "m = row_to_memory r" "row_id r = i"
    and r: "row_find row_id i (pl_rows st) = Some (claimed_row t r)"
  shows "rows_move env rel (pl_rows st) (pl_rows (snd (refine_claimed env now m attempt st)))"
proof -
  have id: "m_id m = i" using m by simp
  have ps: "m_pipeline_state (mem (claimed_row t r)) = Some PS_PROCESSING" by (simp add: claimed_row_def)
  have fail: "rows_move env rel (pl_rows st) (pl_rows (record_failure now m attempt st))"
    using record_failure_moves [OF ok, of m] r ps by (simp add: id)
  have refine: "rows_move env rel (pl_rows st) (pl_rows (snd (pl_update i fs now st)))"
    if "fs = [F_pipeline_state (Some PS_REFINED), F_processed_at (Some now)] \<or>
        fs = [F_pipeline_state (Some PS_REFINED), F_processed_at (Some now), F_swap_key (m_swap_key m)]" for fs
    using that r ps m row_move.refined [OF ps, of env rel now]
    by (intro pl_update_moves [OF ok]) (auto simp: claimed_row_def)
  show ?thesis
  proof (cases "pe_producer_fails env m")
    case True
    with fail show ?thesis by (simp add: refine_claimed_def)
  next
    case live: False
    show ?thesis
    proof (cases "produce_refined_projection m st")
      case None
      have 1: "rows_move env rel (pl_rows st) (pl_rows (snd (pl_update i
          [F_pipeline_state (Some PS_REFINED), F_processed_at (Some now)] now st)))"
        by (rule refine) simp
      then have "table_ok (pl_rows (snd (pl_update i
          [F_pipeline_state (Some PS_REFINED), F_processed_at (Some now)] now st)))"
        using ok by (simp add: rows_move_table_ok)
      from rows_move_trans [OF 1 curated_moves [OF this]] live None id show ?thesis
        by (simp add: refine_claimed_def Let_def)
    next
      case (Some a)
      define d where "d = env_detect env a (m_title m)"
      define key where "key = swap_key env (or_str (m_cluster_id m) (''solo:'' @ i)) a"
      have finish: "rows_move env rel (pl_rows st) (pl_rows (refine_complete env now i st1))"
        if "rows_move env rel (pl_rows st) (pl_rows st1)" for st1
      proof -
        have "table_ok (pl_rows st1)" using that ok by (simp add: rows_move_table_ok)
        from rows_move_trans [OF that refine_complete_moves [OF this]] show ?thesis .
      qed
      note eq = refine_claimed_def [of env now m attempt st, unfolded Let_def id]
      consider (danger) "\<not> dt_clean d" | (same) "dt_clean d" "m_swap_key m = Some key"
        | (fails) "dt_clean d" "m_swap_key m \<noteq> Some key" "pe_swap_fails env m"
        | (swap) "dt_clean d" "m_swap_key m \<noteq> Some key" "\<not> pe_swap_fails env m"
        by blast
      then show ?thesis
      proof cases
        case danger
        then have "snd (refine_claimed env now m attempt st) =
            snd (quarantine_entry env now i (quarantine_reason_of d) st)"
          using live Some by (auto simp: eq d_def dt_clean_def dt_positive_def)
        with quarantine_moves [OF ok] show ?thesis by simp
      next
        case same
        then have "snd (refine_claimed env now m attempt st) = refine_complete env now i
            (snd (pl_update i [F_pipeline_state (Some PS_REFINED), F_processed_at (Some now),
                               F_swap_key (m_swap_key m)] now st))"
          using live Some by (simp add: eq d_def key_def dt_clean_def dt_positive_def)
        with finish refine show ?thesis by simp
      next
        case fails
        then have "snd (refine_claimed env now m attempt st) = record_failure now m attempt st"
          using live Some by (simp add: eq d_def key_def dt_clean_def dt_positive_def)
        with fail show ?thesis by simp
      next
        case swap
        then have e: "snd (refine_claimed env now m attempt st) = refine_complete env now i
            (snd (pl_update i (swap_fields now m a key) now st))"
          using live Some by (simp add: eq d_def key_def dt_clean_def dt_positive_def)
        have "row_move env rel (mem (claimed_row t r)) (swapped_record now a key (mem (claimed_row t r)))"
          using swap m by (intro row_move.swapped) (simp_all add: claimed_row_def d_def)
        then have "rows_move env rel (pl_rows st) (pl_rows (snd (pl_update i (swap_fields now m a key) now st)))"
          using r swap_fields_apply [OF m(1)]
          by (intro pl_update_moves [OF ok] swap_fields_white) (auto simp: claimed_row_def)
        with finish e show ?thesis by simp
      qed
    qed
  qed
qed

lemma refine_single_moves:
  assumes ok: "table_ok (pl_rows st)"
  shows "rows_move env rel (pl_rows st) (pl_rows (snd (refine_single env now i st)))"
proof (cases "pl_get i st")
  case None
  then show ?thesis by (simp add: refine_single_def)
next
  case (Some m)
  then obtain r where r: "row_find row_id i (pl_rows st) = Some r" "m = row_to_memory r" "row_id r = i"
    by (auto simp: pl_get_Some dest: row_find_SomeD)
  define rs where "rs = snd (claim_for_refinement i REFINE_MAX_ATTEMPTS now now (pl_rows st))"
  have 1: "rows_move env rel (pl_rows st) rs" unfolding rs_def by (rule claim_moves [OF ok])
  show ?thesis
  proof (cases "fst (claim_for_refinement i REFINE_MAX_ATTEMPTS now now (pl_rows st))")
    case False
    then have "claim_for_refinement i REFINE_MAX_ATTEMPTS now now (pl_rows st) = (False, rs)"
      by (simp add: rs_def prod_eq_iff)
    with 1 Some show ?thesis by (simp add: refine_single_def)
  next
    case True
    have c: "row_find row_id i rs = Some (claimed_row now r)"
      using claim_wins [OF ok True] r row_unique [OF ok r(1)] by (metis claimed_row_def rs_def)
    have 2: "rows_move env rel rs (pl_rows (snd (refine_claimed env now m n (st\<lparr>pl_rows := rs\<rparr>))))" for n
      using ok 1 c refine_claimed_moves [OF _ r(2,3), of "st\<lparr>pl_rows := rs\<rparr>"] by (simp add: rows_move_table_ok)
    have "snd (refine_single env now i st) \<in>
        insert (st\<lparr>pl_rows := rs\<rparr>) {snd (refine_claimed env now m n (st\<lparr>pl_rows := rs\<rparr>)) |n. True}"
      using True Some by (auto simp: refine_single_def rs_def split: prod.split option.split)
    with 1 2 show ?thesis using rows_move_trans by auto
  qed
qed

lemma refine_loop_moves:
  "table_ok (pl_rows st) \<Longrightarrow> rows_move env rel (pl_rows st) (pl_rows (snd (refine_loop env now is st)))"
proof (induction "is" arbitrary: st)
  case (Cons i "is")
  obtain o1 st1 where s: "refine_single env now i st = (o1, st1)" by (cases "refine_single env now i st")
  have 1: "rows_move env rel (pl_rows st) (pl_rows st1)"
    using refine_single_moves [OF Cons.prems, of env rel now i] by (simp add: s)
  then have "table_ok (pl_rows st1)" using Cons.prems by (simp add: rows_move_table_ok)
  from rows_move_trans [OF 1 Cons.IH [OF this]] 1 show ?case
    by (auto simp: s split: prod.split)
qed simp

lemma refine_pending_moves:
  "table_ok (pl_rows st) \<Longrightarrow> rows_move env rel (pl_rows st) (pl_rows (snd (refine_pending env now p a limit st)))"
  using refine_loop_moves by (auto simp: refine_pending_def Let_def split: prod.split) (metis snd_conv)

lemma reclaim_moves:
  assumes ok: "table_ok (pl_rows st)"
  shows "rows_move env rel (pl_rows st) (pl_rows (snd (reclaim_stale_refinements limit now st)))"
proof -
  define stale where "stale = stale_processing (now - sec REFINE_LEASE_TIMEOUT_SEC) limit (pl_rows st)"
  have sp: "\<forall>(i, t) \<in> set stale. \<exists>r \<in> set (pl_rows st). row_id r = i \<and> m_pipeline_state (mem r) = Some PS_PROCESSING"
    using stale_processing_rows [OF ok] unfolding stale_def lease_expired_def by fast
  have "reclaim_stale_processing REFINE_LEASE_TIMEOUT_SEC limit now (pl_rows st) =
      (stale, rows_update (\<lambda>r. row_id r \<in> fst ` set stale) (pended now) (pl_rows st))"
    unfolding reclaim_stale_processing_def Let_def stale_def
    using stale_processing_rows [OF ok, of "now - sec REFINE_LEASE_TIMEOUT_SEC" limit]
    by (intro reclaim_loop_all [OF ok]) auto
  moreover have "rows_move env rel (pl_rows st)
      (rows_update (\<lambda>r. row_id r \<in> fst ` set stale) (pended now) (pl_rows st))"
  proof (rule rows_move_update)
    fix r assume r: "r \<in> set (pl_rows st)" "row_id r \<in> fst ` set stale"
    then obtain q where "q \<in> set (pl_rows st)" "row_id q = row_id r" "m_pipeline_state (mem q) = Some PS_PROCESSING"
      using sp by force
    moreover from this r ok have "q = r"
      using row_find_distinct [of row_id "pl_rows st"] by (metis option.inject table_ok_def)
    ultimately show "row_rel env rel r (pended now r)"
      using row_move.reclaimed [of "mem r" env rel now] by (simp add: row_rel_def pended_def)
  qed
  ultimately show ?thesis by (simp add: reclaim_stale_refinements_def)
qed

lemma heal_page_moves:
  "table_ok (pl_rows st) \<Longrightarrow> rows_move env rel (pl_rows st) (pl_rows (snd (heal_page env now metas ms h st)))"
proof (induction ms arbitrary: h st)
  case (Cons m ms)
  obtain b st1 where u: "upsert_embedding env now m st = (b, st1)" by (cases "upsert_embedding env now m st")
  have 1: "rows_move env rel (pl_rows st) (pl_rows st1)"
    using upsert_embedding_moves [OF Cons.prems, of env rel now m] by (simp add: u)
  then have ok1: "table_ok (pl_rows st1)" using Cons.prems by (simp add: rows_move_table_ok)
  have "rows_move env rel (pl_rows st) (pl_rows (snd (heal_page env now metas ms h' st1)))" for h'
    using rows_move_trans [OF 1 Cons.IH [OF ok1]] .
  with 1 Cons show ?case by (auto simp: Let_def u split: bool.split)
qed simp

lemma heal_loop_moves:
  "table_ok (pl_rows st) \<Longrightarrow> heal_loop n env now page offset h st = Some (h', st') \<Longrightarrow>
     rows_move env rel (pl_rows st) (pl_rows st')"
proof (induction n arbitrary: offset h st)
  case (Suc n)
  define rows where "rows = list_by_pipeline_state PS_REFINED page offset None None (pl_rows st)"
  define h1 where "h1 = h\<lparr>hs_skipped_quarantined := hs_skipped_quarantined h +
      (length rows - length (filter (\<lambda>m. \<not> is_quarantined m) rows))\<rparr>"
  obtain h2 st2 where p: "heal_page env now (pl_vectors st) (filter (\<lambda>m. \<not> is_quarantined m) rows) h1 st = (h2, st2)"
    by (cases "heal_page env now (pl_vectors st) (filter (\<lambda>m. \<not> is_quarantined m) rows) h1 st")
  have 1: "rows_move env rel (pl_rows st) (pl_rows st2)"
    using heal_page_moves [OF Suc.prems(1), of env rel now "pl_vectors st" "filter (\<lambda>m. \<not> is_quarantined m) rows" h1]
    by (simp add: p)
  then have ok2: "table_ok (pl_rows st2)" using Suc.prems(1) by (simp add: rows_move_table_ok)
  show ?case
  proof (cases "hs_budget h \<le> 0 \<or> rows = []")
    case True
    with Suc.prems(2) show ?thesis by (auto simp: Let_def rows_def split: if_splits)
  next
    case False
    with Suc.prems(2) have "heal_loop n env now page (offset + int (length rows)) h2 st2 = Some (h', st')"
      by (simp add: Let_def rows_def [symmetric] p [unfolded h1_def, simplified])
    from rows_move_trans [OF 1 Suc.IH [OF ok2 this]] show ?thesis .
  qed
qed simp


section \<open>Runs of the pipeline\<close>

inductive pl_step :: "pl_env \<Rightarrow> bool \<Rightarrow> pl_state \<Rightarrow> pl_state \<Rightarrow> bool" for env rel where
  publish: "pl_step env rel st (snd (publish_memory env now i skip st))"
| promote: "pl_step env rel st (snd (promote_single_memory env now i from_status st))"
| quarantine: "pl_step env rel st (snd (quarantine_entry env now i reason st))"
| release: "rel \<Longrightarrow> pl_step env rel st (snd (release_quarantine now i st))"
| refine_one: "pl_step env rel st (snd (refine_single env now i st))"
| refine_all: "pl_step env rel st (snd (refine_pending env now p a limit st))"
| reclaim: "pl_step env rel st (snd (reclaim_stale_refinements limit now st))"
| heal: "heal_stale_embeddings env now limit st = Some (h, st') \<Longrightarrow> pl_step env rel st st'"

text \<open>The simulation: every operation moves every row along the abstract life cycle.\<close>

lemma pl_step_moves:
  "pl_step env rel st st' \<Longrightarrow> table_ok (pl_rows st) \<Longrightarrow> rows_move env rel (pl_rows st) (pl_rows st')"
proof (induction rule: pl_step.induct)
  case (release st now i)
  then show ?case using release_moves [of st env now i] by simp
next
  case (heal now limit st h st')
  then show ?case unfolding heal_stale_embeddings_def using heal_loop_moves by blast
qed (simp_all add: publish_memory_moves promote_moves quarantine_moves refine_single_moves
    refine_pending_moves reclaim_moves)

lemma pl_run_moves:
  "(pl_step env rel)\<^sup>*\<^sup>* st st' \<Longrightarrow> table_ok (pl_rows st) \<Longrightarrow>
     table_ok (pl_rows st') \<and> rows_move env rel (pl_rows st) (pl_rows st')"
proof (induction rule: rtranclp_induct)
  case (step y z)
  then have y: "table_ok (pl_rows y)" "rows_move env rel (pl_rows st) (pl_rows y)" by simp_all
  from rows_move_trans [OF y(2) pl_step_moves [OF step.hyps(2) y(1)]] y step.prems show ?case
    by (simp add: rows_move_table_ok)
qed simp

text \<open>
  The interface of an invariant of single rows: a predicate that every move of the life
  cycle keeps is kept by every run of the pipeline.
\<close>

locale row_invariant =
  fixes env :: pl_env and rel :: bool and Q :: "memory \<Rightarrow> bool"
  assumes move: "row_move env rel m m' \<Longrightarrow> Q m \<Longrightarrow> Q m'"
begin

lemma moves: "row_moves env rel m m' \<Longrightarrow> Q m \<Longrightarrow> Q m'"
  by (induction rule: rtranclp_induct) (auto dest: move)

lemma run:
  assumes "(pl_step env rel)\<^sup>*\<^sup>* st st'" "table_ok (pl_rows st)"
    and "row_find row_id i (pl_rows st) = Some r" "Q (mem r)"
  shows "\<exists>r'. row_find row_id i (pl_rows st') = Some r' \<and> Q (mem r')"
  using rows_move_find [OF conjunct2 [OF pl_run_moves [OF assms(1,2)]] assms(3)] assms(4) moves by blast

lemma run_back:
  assumes "(pl_step env rel)\<^sup>*\<^sup>* st st'" "table_ok (pl_rows st)" "r' \<in> set (pl_rows st')"
  shows "\<exists>r \<in> set (pl_rows st). row_id r = row_id r' \<and> (Q (mem r) \<longrightarrow> Q (mem r'))"
proof -
  note run = pl_run_moves [OF assms(1,2)]
  have "row_find row_id (row_id r') (pl_rows st') = Some r'"
    using run assms(3) row_find_distinct [of row_id "pl_rows st'" r'] by (simp add: table_ok_def)
  from rows_move_find_back [OF conjunct2 [OF run] this] obtain r
    where r: "row_find row_id (row_id r') (pl_rows st) = Some r" and m: "row_moves env rel (mem r) (mem r')" by blast
  have "Q (mem r) \<longrightarrow> Q (mem r')" using moves [OF m] by (rule impI)
  with row_find_SomeD [OF r] show ?thesis by (intro bexI [of _ r] conjI) simp_all
qed

end

text \<open>A published projection is clean, and every title is set.\<close>

definition published_clean :: "pl_env \<Rightarrow> memory \<Rightarrow> bool" where
  "published_clean env m \<longleftrightarrow> truthy (m_title m) \<and> (m_status m = PUBLISHED \<longrightarrow> served_ok env m)"

lemma resaved_title: "truthy (m_title m) \<Longrightarrow> m_title (resaved m) = m_title m"
  by (auto simp: resaved_def saved_columns_def auto_title_def truthy_def split: option.splits)

lemma served_ok_cong:
  "effective_content m' = effective_content m \<Longrightarrow> m_title m' = m_title m \<Longrightarrow> served_ok env m' = served_ok env m"
  by (simp add: served_ok_def)

lemma swapped_fields:
  "effective_content (swapped_record t a k m) = a" "m_title (swapped_record t a k m) = m_title m"
  by (simp_all add: swapped_record_def effective_content_def or_str_def)

interpretation published_inv: row_invariant env rel "published_clean env" for env rel
proof unfold_locales
  fix m m' assume "row_move env rel m m'" "published_clean env m"
  then show "published_clean env m'"
  proof (induction rule: row_move.induct)
    case (resave m)
    then show ?case
      using resaved_title [of m] served_ok_cong [of "resaved m" m env] by (simp add: published_clean_def)
  next
    case (swapped m a k t)
    then show ?case
      unfolding published_clean_def served_ok_def swapped_fields by simp
  qed (simp_all add: published_clean_def served_ok_def effective_content_def)
qed

interpretation quarantine_inv: row_invariant env False "\<lambda>m. m_pipeline_state m = Some PS_QUARANTINED" for env
proof unfold_locales
  fix m m' assume "row_move env False m m'" "m_pipeline_state m = Some PS_QUARANTINED"
  then show "m_pipeline_state m' = Some PS_QUARANTINED"
    by (induction rule: row_move.induct) (auto simp: refine_intake_def)
qed

text \<open>The projection a row served first: materialised at the first swap and never replaced.\<close>

definition original_kept :: "string \<Rightarrow> memory \<Rightarrow> bool" where
  "original_kept x m \<longleftrightarrow>
     m_raw_content m = Some x \<or> (m_raw_content m = None \<and> effective_content m = x)"

interpretation original_inv: row_invariant env rel "original_kept x" for env rel x
proof unfold_locales
  fix m m' assume "row_move env rel m m'" "original_kept x m"
  then show "original_kept x m'"
    by (induction rule: row_move.induct)
       (auto simp: original_kept_def effective_content_def swapped_record_def resaved_def saved_columns_def)
qed

interpretation raw_inv: row_invariant env rel "\<lambda>m. m_raw_content m = Some y" for env rel y
proof unfold_locales
  fix m m' assume "row_move env rel m m'" "m_raw_content m = Some y"
  then show "m_raw_content m' = Some y"
    by (induction rule: row_move.induct) (auto simp: swapped_record_def)
qed

section \<open>Properties\<close>

text \<open>
  C6. Fail-closed publication: whatever the pipeline runs -- optimistic or curated, with refine swaps, failures,
  quarantines and releases in any order -- a row that is published at the end passes the danger detectors with its served
  projection and its title, unless that same row entered the run published without passing them, or untitled.  So the
  pipeline never publishes, and never makes of a clean published row, what the detectors refuse.
\<close>

theorem published_rows_are_clean:
  assumes "table_ok (pl_rows st)" and "(pl_step env rel)\<^sup>*\<^sup>* st st'"
    and "r' \<in> set (pl_rows st')" and "m_status (mem r') = PUBLISHED"
  shows "\<exists>r \<in> set (pl_rows st). row_id r = row_id r' \<and>
    (dt_clean (detect (pe_scan env) (effective_content (mem r')) (m_title (mem r'))) \<or>
     \<not> truthy (m_title (mem r)) \<or>
     m_status (mem r) = PUBLISHED \<and> \<not> dt_clean (detect (pe_scan env) (effective_content (mem r)) (m_title (mem r))))"
proof -
  obtain r where r: "r \<in> set (pl_rows st)" "row_id r = row_id r'"
    "published_clean env (mem r) \<longrightarrow> published_clean env (mem r')"
    using published_inv.run_back [OF assms(2,1,3)] by blast
  then show ?thesis using assms(4) by (intro bexI [of _ r]) (auto simp: published_clean_def served_ok_def)
qed

definition sample_env :: pl_env where
  "sample_env = \<lparr>pe_scan = (\<lambda>_. Inr []), pe_sha256 = (\<lambda>s. s), pe_fingerprint = ''fp'',
     pe_embed_ok = (\<lambda>_. True), pe_vector_delete_ok = True, pe_producer_fails = (\<lambda>_. False),
     pe_swap_fails = (\<lambda>_. False), pe_curated = False\<rparr>"

definition sample_pl :: pl_state where
  "sample_pl = \<lparr>pl_rows = save False ((new_memory ''a'' ''text'' 0)\<lparr>m_status := PROCESSED\<rparr>) [],
     pl_vectors = Map.empty\<rparr>"

lemma detect_sample: "dt_clean (detect (\<lambda>_. Inr []) ''text'' (Some ''text''))"
  unfolding dt_clean_def by code_simp

lemma auto_title_sample: "m_title m = None \<Longrightarrow> m_content m = ''text'' \<Longrightarrow> auto_title m = ''text''"
proof -
  assume "m_title m = None" "m_content m = ''text''"
  moreover have "strip ''text'' = ''text''" "split_on (CHR 0x0A) ''text'' = [''text'']"
      "lstrip_chars ''# '' ''text'' = ''text''"
    by code_simp+
  ultimately show ?thesis by (simp add: auto_title_def truthy_def)
qed

lemma sample_pl_row:
  "\<exists>r. pl_rows sample_pl = [r] \<and> row_id r = ''a'' \<and> m_status (mem r) = PROCESSED \<and>
     m_title (mem r) = Some ''text'' \<and> effective_content (mem r) = ''text'' \<and>
     m_pipeline_state (mem r) = None \<and> m_cluster_id (mem r) = None \<and> m_raw_content (mem r) = None"
  by (simp add: sample_pl_def save_def inserted_row_def saved_columns_def no_workflow_def
      new_memory_def auto_title_sample)

lemma table_ok_sample_pl: "table_ok (pl_rows sample_pl)"
  unfolding sample_pl_def pl_state.simps by (rule table_ok_save) (simp add: table_ok_def)

lemma sample_pl_clean: "list_all (\<lambda>r. published_clean sample_env (mem r)) (pl_rows sample_pl)"
  using sample_pl_row by (auto simp: published_clean_def truthy_def)

lemma sample_publishes:
  "\<exists>r. row_find row_id ''a'' (pl_rows (snd (publish_memory sample_env 5 ''a'' False sample_pl))) = Some r \<and>
     m_status (mem r) = PUBLISHED"
proof -
  obtain r where r: "row_find row_id ''a'' (pl_rows sample_pl) = Some r" "m_status (mem r) = PROCESSED"
      "m_title (mem r) = Some ''text''" "effective_content (mem r) = ''text''" "m_pipeline_state (mem r) = None"
    using sample_pl_row by fastforce
  define st1 where "st1 = publish_enqueue 5 (row_to_memory r) (publish_flip 5 (row_to_memory r) sample_pl)"
  have id: "row_id r = ''a''" using row_find_SomeD [OF r(1)] by simp
  have "row_find row_id ''a'' (pl_rows (publish_flip 5 (row_to_memory r) sample_pl)) =
      Some (r\<lparr>mem := resaved ((mem r)\<lparr>m_status := PUBLISHED, m_updated_at := 5\<rparr>)\<rparr>)"
    by (rule publish_flip_find [OF r(1)])
  from pl_update_find [OF _ _ this, of "[F_pipeline_state (Some PS_PENDING)]" 5]
  obtain r1 where r1: "row_find row_id ''a'' (pl_rows st1) = Some r1" "m_status (mem r1) = PUBLISHED"
    by (auto simp: st1_def publish_enqueue_def r id)
  have clean: "dt_error (detect (\<lambda>_. Inr []) ''text'' (Some ''text'')) = None"
      "\<not> dt_positive (detect (\<lambda>_. Inr []) ''text'' (Some ''text''))"
    using detect_sample by (simp_all add: dt_clean_def dt_positive_def)
  have "pl_rows (snd (publish_memory sample_env 5 ''a'' False sample_pl)) =
      pl_rows (snd (pl_update ''a'' [F_embedding_id (Some ''a'')] 5 (st1\<lparr>pl_vectors := (pl_vectors st1)
        (''a'' \<mapsto> vector_metadata sample_env ((row_to_memory r)\<lparr>m_status := PUBLISHED, m_updated_at := 5\<rparr>))\<rparr>)))"
    using r clean by (simp add: publish_memory_def pl_get_def get_def id sample_env_def upsert_embedding_def
        st1_def Let_def split: prod.split)
  with pl_update_find [of "[F_embedding_id (Some ''a'')]" "''a''" "st1\<lparr>pl_vectors := (pl_vectors st1)
        (''a'' \<mapsto> vector_metadata sample_env ((row_to_memory r)\<lparr>m_status := PUBLISHED, m_updated_at := 5\<rparr>))\<rparr>" r1 5]
    r1 show ?thesis by simp
qed

lemma published_rows_are_clean_witness:
  "\<exists>r. row_find row_id ''a'' (pl_rows (snd (publish_memory sample_env 5 ''a'' False sample_pl))) = Some r \<and>
     dt_clean (detect (\<lambda>_. Inr []) (effective_content (mem r)) (m_title (mem r)))"
proof -
  obtain r where r: "row_find row_id ''a'' (pl_rows (snd (publish_memory sample_env 5 ''a'' False sample_pl))) = Some r"
      "m_status (mem r) = PUBLISHED" using sample_publishes by blast
  have "(pl_step sample_env True)\<^sup>*\<^sup>* sample_pl (snd (publish_memory sample_env 5 ''a'' False sample_pl))"
    by (rule r_into_rtranclp) (rule pl_step.publish)
  from published_rows_are_clean [OF table_ok_sample_pl this _ r(2)] r(1) row_find_SomeD [OF r(1)] sample_pl_clean
  show ?thesis by (auto simp: sample_env_def list_all_iff published_clean_def served_ok_def)
qed

text \<open>
  C7. Quarantine is terminal: without the manual release no run of the pipeline takes a row
  out of quarantine -- neither a refine worker, nor the lease sweeper, nor a re-publication.
\<close>

theorem quarantine_is_terminal:
  assumes "table_ok (pl_rows st)" and "(pl_step env False)\<^sup>*\<^sup>* st st'"
    and "row_find row_id i (pl_rows st) = Some r" and "is_quarantined (mem r)"
  shows "\<exists>r'. row_find row_id i (pl_rows st') = Some r' \<and> is_quarantined (mem r')"
  using quarantine_inv.run [OF assms(2,1,3)] assms(4) by (simp add: is_quarantined_def)

text \<open>
  C8. Zero loss: no run of the pipeline deletes a row, and the projection a row served
  first stays recoverable -- it is still what the row serves, or it is in \<open>raw_content\<close>,
  which is written once.
\<close>

theorem original_projection_kept:
  assumes "table_ok (pl_rows st)" and "(pl_step env rel)\<^sup>*\<^sup>* st st'"
    and "row_find row_id i (pl_rows st) = Some r"
  shows "\<exists>r'. row_find row_id i (pl_rows st') = Some r' \<and>
    (m_raw_content (mem r') = Some (or_default (m_raw_content (mem r)) (effective_content (mem r))) \<or>
     m_raw_content (mem r') = None \<and> effective_content (mem r') = effective_content (mem r))"
proof -
  define x where "x = or_default (m_raw_content (mem r)) (effective_content (mem r))"
  have "original_kept x (mem r)"
    by (auto simp: original_kept_def x_def or_default_def split: option.split)
  from original_inv.run [OF assms(2,1,3) this] obtain r' where
    r': "row_find row_id i (pl_rows st') = Some r'" "original_kept x (mem r')" by blast
  show ?thesis
  proof (cases "m_raw_content (mem r)")
    case None
    with r' show ?thesis by (auto simp: original_kept_def x_def or_default_def)
  next
    case (Some y)
    then have "original_kept x (mem r') \<and> m_raw_content (mem r) = Some x"
      using r' by (simp add: x_def or_default_def)
    moreover have "\<exists>r''. row_find row_id i (pl_rows st') = Some r'' \<and> m_raw_content (mem r'') = Some y"
      using raw_inv.run [OF assms(2,1,3), of y] Some by blast
    ultimately show ?thesis using r' Some by (auto simp: x_def or_default_def)
  qed
qed


definition sample_quarantined :: pl_state where
  "sample_quarantined = snd (quarantine_entry sample_env 3 ''a'' ''secret'' sample_pl)"

lemma sample_quarantined_row:
  "\<exists>r. row_find row_id ''a'' (pl_rows sample_quarantined) = Some r \<and> is_quarantined (mem r) \<and>
     table_ok (pl_rows sample_quarantined)"
proof -
  obtain r where r: "row_find row_id ''a'' (pl_rows sample_pl) = Some r" using sample_pl_row by fastforce
  have "row_find row_id ''a'' (pl_rows (snd (pl_update ''a''
      [F_pipeline_state (Some PS_QUARANTINED), F_quarantine_reason (Some ''secret'')] 3 sample_pl))) =
    Some (r\<lparr>mem := (fold apply_field [F_pipeline_state (Some PS_QUARANTINED),
       F_quarantine_reason (Some ''secret'')] (mem r))\<lparr>m_updated_at := 3\<rparr>\<rparr>)"
    by (rule pl_update_find [OF _ _ r]) simp_all
  moreover have "pl_rows sample_quarantined = pl_rows (snd (pl_update ''a''
      [F_pipeline_state (Some PS_QUARANTINED), F_quarantine_reason (Some ''secret'')] 3 sample_pl))"
    using r by (simp add: sample_quarantined_def quarantine_entry_def pl_get_def get_def split: prod.split)
  moreover have "table_ok (pl_rows sample_quarantined)"
    using quarantine_moves [OF table_ok_sample_pl] table_ok_sample_pl
    unfolding sample_quarantined_def by (metis rows_move_table_ok)
  ultimately show ?thesis by (simp add: is_quarantined_def)
qed

lemma quarantine_is_terminal_witness:
  "\<exists>r'. row_find row_id ''a'' (pl_rows (snd (refine_pending sample_env 9 None None 100
      (snd (publish_memory sample_env 5 ''a'' True sample_quarantined))))) = Some r' \<and> is_quarantined (mem r')"
proof -
  obtain r where r: "row_find row_id ''a'' (pl_rows sample_quarantined) = Some r" "is_quarantined (mem r)"
      "table_ok (pl_rows sample_quarantined)" using sample_quarantined_row by blast
  have "(pl_step sample_env False)\<^sup>*\<^sup>* sample_quarantined (snd (refine_pending sample_env 9 None None 100
      (snd (publish_memory sample_env 5 ''a'' True sample_quarantined))))"
    by (meson converse_rtranclp_into_rtranclp r_into_rtranclp pl_step.publish pl_step.refine_all)
  from quarantine_is_terminal [OF r(3) this r(1,2)] show ?thesis .
qed

lemma original_projection_kept_witness:
  "\<exists>r'. row_find row_id ''a'' (pl_rows (snd (refine_pending sample_env 9 None None 100
      (snd (publish_memory sample_env 5 ''a'' False sample_pl))))) = Some r' \<and>
    (m_raw_content (mem r') = Some ''text'' \<or> effective_content (mem r') = ''text'')"
proof -
  obtain r where r: "row_find row_id ''a'' (pl_rows sample_pl) = Some r" "m_raw_content (mem r) = None"
      "effective_content (mem r) = ''text''" using sample_pl_row by fastforce
  have "(pl_step sample_env False)\<^sup>*\<^sup>* sample_pl (snd (refine_pending sample_env 9 None None 100
      (snd (publish_memory sample_env 5 ''a'' False sample_pl))))"
    by (meson converse_rtranclp_into_rtranclp r_into_rtranclp pl_step.publish pl_step.refine_all)
  from original_projection_kept [OF table_ok_sample_pl this r(1)] r(2,3) show ?thesis
    by (auto simp: or_default_def)
qed

lemma publish_enqueue_find:
  assumes r: "row_find row_id i (pl_rows st) = Some r" and id: "m_id m = i"
  shows "\<exists>q. row_find row_id i (pl_rows (publish_enqueue now m st)) = Some q \<and>
    m_status (mem q) = m_status (mem r) \<and>
    m_pipeline_state (mem q) = (if m_pipeline_state m \<in> {None, Some PS_FAILED}
      then Some PS_PENDING else m_pipeline_state (mem r))"
proof (cases "m_pipeline_state m \<in> {None, Some PS_FAILED}")
  case False
  then have "publish_enqueue now m st = st" by (auto simp: publish_enqueue_def)
  with False r show ?thesis by auto
next
  case True
  define st1 where "st1 = (if m_pipeline_state m = Some PS_FAILED
      then st\<lparr>pl_rows := snd (clear_refine_retry (m_id m) now (pl_rows st))\<rparr> else st)"
  obtain q where q: "row_find row_id i (pl_rows st1) = Some q" "m_status (mem q) = m_status (mem r)"
    using clear_retry_find [OF r, of now] r
    by (cases "m_pipeline_state m = Some PS_FAILED") (auto simp: st1_def id)
  have "publish_enqueue now m st = snd (pl_update i [F_pipeline_state (Some PS_PENDING)] now st1)"
    unfolding publish_enqueue_def Let_def st1_def using True id by auto
  with pl_update_find [OF _ _ q(1), of "[F_pipeline_state (Some PS_PENDING)]" now] q(2) True show ?thesis
    by simp
qed

lemma upsert_embedding_find:
  assumes "row_find row_id i (pl_rows st) = Some r" "m_id m = i"
  shows "\<exists>q. row_find row_id i (pl_rows (snd (upsert_embedding env now m st))) = Some q \<and>
    m_status (mem q) = m_status (mem r) \<and> m_pipeline_state (mem q) = m_pipeline_state (mem r)"
proof (cases "pe_embed_ok env (embedding_text m)")
  case True
  have "row_find row_id i (pl_rows (st\<lparr>pl_vectors := (pl_vectors st)(i \<mapsto> vector_metadata env m)\<rparr>)) = Some r"
    using assms by simp
  from pl_update_find [OF _ _ this, of "[F_embedding_id (Some i)]" now] True assms(2) show ?thesis
    by (simp add: upsert_embedding_def)
qed (simp add: upsert_embedding_def assms)

lemma publish_memory_runs:
  assumes "row_find row_id i (pl_rows st) = Some r" "served_ok env (mem r)" "m_status (mem r) = PROCESSED \<or> skip"
  shows "\<exists>ok m. m_id m = i \<and> publish_memory env now i skip st =
    (\<lparr>pr_memory_id = i, pr_published = True, pr_vector_indexed = ok,
      pr_previous_status = status_value (m_status (mem r))\<rparr>,
     snd (upsert_embedding env now m
       (publish_enqueue now (row_to_memory r) (publish_flip now (row_to_memory r) st))))"
  using assms row_find_SomeD [OF assms(1)]
  by (auto simp: publish_memory_def pl_get_def get_def Let_def served_ok_def dt_clean_def dt_positive_def
      intro!: exI [of _ "(row_to_memory r)\<lparr>m_status := PUBLISHED, m_updated_at := now\<rparr>"] split: prod.split)

text \<open>A publication is refused without any effect -- missing row, wrong status without the
  bypass flag, a detector error or a positive signal -- or it succeeds: then the projection
  was clean, the row is published, and a row that was new to the pipeline, or had failed in
  it, is pending.
\<close>

theorem publish_memory_effect:
  "case publish_memory env now i skip st of (res, st') \<Rightarrow>
     if \<not> pr_published res then st' = st
     else (\<exists>r r'. row_find row_id i (pl_rows st) = Some r \<and>
       row_find row_id i (pl_rows st') = Some r' \<and>
       (m_status (mem r) = PROCESSED \<or> skip) \<and>
       dt_clean (detect (pe_scan env) (effective_content (mem r)) (m_title (mem r))) \<and>
       m_status (mem r') = PUBLISHED \<and>
       m_pipeline_state (mem r') =
         (if m_pipeline_state (mem r) \<in> {None, Some PS_FAILED} then Some PS_PENDING
          else m_pipeline_state (mem r)))"
proof (cases "\<exists>r. row_find row_id i (pl_rows st) = Some r \<and> served_ok env (mem r) \<and>
      (m_status (mem r) = PROCESSED \<or> skip)")
  case False
  then have "\<not> pr_published (fst (publish_memory env now i skip st)) \<and>
      snd (publish_memory env now i skip st) = st"
    by (cases "row_find row_id i (pl_rows st)")
       (auto simp: publish_memory_def pl_get_def get_def refused_def Let_def served_ok_def
         dt_clean_def dt_positive_def)
  then show ?thesis by (cases "publish_memory env now i skip st") simp
next
  case True
  then obtain r where r: "row_find row_id i (pl_rows st) = Some r" "served_ok env (mem r)"
      "m_status (mem r) = PROCESSED \<or> skip" by blast
  define m where "m = row_to_memory r"
  obtain ok p where p: "m_id p = i" "publish_memory env now i skip st =
    (\<lparr>pr_memory_id = i, pr_published = True, pr_vector_indexed = ok,
      pr_previous_status = status_value (m_status (mem r))\<rparr>,
     snd (upsert_embedding env now p (publish_enqueue now m (publish_flip now m st))))"
    using publish_memory_runs [OF r] unfolding m_def by blast
  have id: "m_id m = i" using row_find_SomeD [OF r(1)] by (simp add: m_def)
  note enq = publish_enqueue_find [OF publish_flip_find [OF r(1), of now] id, of now, folded m_def]
  obtain q where
    q: "row_find row_id i (pl_rows (publish_enqueue now m (publish_flip now m st))) = Some q"
      "m_status (mem q) = PUBLISHED"
      "m_pipeline_state (mem q) = (if m_pipeline_state (mem r) \<in> {None, Some PS_FAILED}
        then Some PS_PENDING else m_pipeline_state (mem r))"
    using enq by (cases "m_pipeline_state (mem r) \<in> {None, Some PS_FAILED}") (auto simp: m_def)
  from upsert_embedding_find [OF q(1) p(1), of env now] obtain q' where
    "row_find row_id i (pl_rows (snd (upsert_embedding env now p
        (publish_enqueue now m (publish_flip now m st))))) = Some q'"
    "m_status (mem q') = m_status (mem q)" "m_pipeline_state (mem q') = m_pipeline_state (mem q)" by blast
  with r q p(2) show ?thesis by (auto simp: served_ok_def)
qed

section \<open>Retries\<close>

lemma retry_backoff_bounds: "1 \<le> attempt \<Longrightarrow> 60 \<le> retry_backoff_sec attempt \<and> retry_backoff_sec attempt \<le> 3600"
  by (simp add: retry_backoff_sec_def REFINE_BACKOFF_BASE_SEC_def REFINE_BACKOFF_CAP_SEC_def)

text \<open>
  The retry budget: after a failure of attempt \<open>n\<close> a row is intake-eligible exactly
  from the end of the back-off on -- 60 seconds for the first attempt, doubling -- while \<open>n\<close>
  is below the budget, and never again once the budget is spent.
\<close>

theorem failed_row_retry_window:
  assumes "row_find row_id (m_id m) (pl_rows st) = Some r"
  shows "\<exists>r'. row_find row_id (m_id m) (pl_rows (record_failure now m n st)) = Some r' \<and>
    m_pipeline_state (mem r') = Some PS_FAILED \<and>
    py_int_or_zero (m_metadata (mem r') ''pipeline_retry_count'') = Some n \<and>
    (refine_intake REFINE_MAX_ATTEMPTS t (mem r') \<longleftrightarrow>
       n < REFINE_MAX_ATTEMPTS \<and> now + sec (retry_backoff_sec n) \<le> t)"
  using assms row_find_SomeD [OF assms]
  by (auto simp: record_failure_def record_refine_failure_def failure_update.find refine_intake_def Let_def)

lemma failed_row_retry_window_witness:
  "\<exists>r'. row_find row_id ''a'' (pl_rows (record_failure 0 (new_memory ''a'' ''text'' 0) 1 sample_pl)) = Some r' \<and>
     refine_intake REFINE_MAX_ATTEMPTS (sec 60) (mem r')"
proof -
  obtain r where "row_find row_id (m_id (new_memory ''a'' ''text'' 0)) (pl_rows sample_pl) = Some r"
    using sample_pl_row by (fastforce simp: new_memory_def)
  from failed_row_retry_window [OF this, of 0 1 "sec 60"] show ?thesis
    by (simp add: new_memory_def REFINE_MAX_ATTEMPTS_def retry_backoff_sec_def
        REFINE_BACKOFF_BASE_SEC_def REFINE_BACKOFF_CAP_SEC_def) blast
qed

section \<open>The heal sweep\<close>

definition budget_kept :: "int \<Rightarrow> heal_state \<Rightarrow> bool" where
  "budget_kept limit h \<longleftrightarrow>
     0 \<le> hs_budget h \<and> int (hs_healed h) + int (hs_failed h) + hs_budget h \<le> limit"

lemma upsert_states:
  "map (\<lambda>r. m_pipeline_state (mem r)) (pl_rows (snd (upsert_embedding env now m st))) =
     map (\<lambda>r. m_pipeline_state (mem r)) (pl_rows st)"
  by (simp add: upsert_embedding_def pl_update_where update_where_def rows_update_def comp_def)

lemma heal_page_states:
  "map (\<lambda>r. m_pipeline_state (mem r)) (pl_rows (snd (heal_page env now metas ms h st))) =
     map (\<lambda>r. m_pipeline_state (mem r)) (pl_rows st)"
proof (induction ms arbitrary: h st)
  case (Cons m ms)
  obtain b st1 where u: "upsert_embedding env now m st = (b, st1)" by (cases "upsert_embedding env now m st")
  have "map (\<lambda>r. m_pipeline_state (mem r)) (pl_rows st1) = map (\<lambda>r. m_pipeline_state (mem r)) (pl_rows st)"
    using upsert_states [of env now m st] by (simp add: u)
  with Cons show ?case by (simp add: Let_def u split: bool.split)
qed simp

lemma heal_page_budget:
  "budget_kept limit h \<Longrightarrow> budget_kept limit (fst (heal_page env now metas ms h st))"
proof (induction ms arbitrary: h st)
  case (Cons m ms)
  obtain b st1 where u: "upsert_embedding env now m st = (b, st1)" by (cases "upsert_embedding env now m st")
  define h1 where "h1 = h\<lparr>hs_checked := hs_checked h + 1,
      hs_stale_by_fingerprint := hs_stale_by_fingerprint h +
        (if stale_fingerprint env (metas (m_id m)) then 1 else 0)\<rparr>"
  have h1: "budget_kept limit h1" using Cons.prems by (simp add: budget_kept_def h1_def)
  have kept: "0 < hs_budget h1 \<Longrightarrow> budget_kept limit (h1\<lparr>hs_healed := hs_healed h1 + 1, hs_consecutive := 0,
      hs_budget := hs_budget h1 - 1\<rparr>)"
    "0 < hs_budget h1 \<Longrightarrow> budget_kept limit (h1\<lparr>hs_failed := hs_failed h1 + 1,
      hs_consecutive := hs_consecutive h1 + 1, hs_budget := hs_budget h1 - 1\<rparr>)"
    "0 < hs_budget h1 \<Longrightarrow> budget_kept limit (h1\<lparr>hs_failed := hs_failed h1 + 1,
      hs_consecutive := hs_consecutive h1 + 1, hs_budget := 0\<rparr>)"
    using h1 by (auto simp: budget_kept_def)
  show ?case
    unfolding heal_page.simps Let_def h1_def [symmetric] u
    using h1 kept by (auto intro!: Cons.IH split: bool.split)
qed simp

definition refined_count :: "pl_state \<Rightarrow> nat" where
  "refined_count st = length (filter (\<lambda>s. s = Some PS_REFINED) (map (\<lambda>r. m_pipeline_state (mem r)) (pl_rows st)))"

lemma refined_page:
  assumes "0 \<le> offset" "rows = list_by_pipeline_state PS_REFINED page offset None None (pl_rows st)"
    and "offset \<le> int (refined_count st)"
  shows "offset + int (length rows) \<le> int (refined_count st)"
proof -
  have len: "length (filter (\<lambda>r. m_pipeline_state (mem r) = Some PS_REFINED) rs) =
      length (filter (\<lambda>s. s = Some PS_REFINED) (map (\<lambda>r. m_pipeline_state (mem r)) rs))" for rs :: "row list"
    by (induction rs) auto
  have "length rows \<le> length (sql_offset (max 0 offset) (order_desc (\<lambda>r. m_created_at (mem r))
      (filter (\<lambda>r. m_pipeline_state (mem r) = Some PS_REFINED) (pl_rows st))))"
    by (simp add: assms(2) list_by_pipeline_state_def opt_filter_def truthy_def sql_limit_def)
  then have "length rows \<le> refined_count st - nat offset"
    using assms(1) by (simp add: sql_offset_def order_desc_def refined_count_def len)
  with assms(1,3) show ?thesis by linarith
qed

lemma heal_loop_terminates:
  "budget_kept limit h \<Longrightarrow> 0 \<le> offset \<Longrightarrow> offset \<le> int (refined_count st) \<Longrightarrow>
   int (refined_count st) - offset < int n \<Longrightarrow>
     \<exists>h' st'. heal_loop n env now page offset h st = Some (h', st') \<and> budget_kept limit h'"
proof (induction n arbitrary: offset h st)
  case 0
  then show ?case by simp
next
  case (Suc n)
  define rows where "rows = list_by_pipeline_state PS_REFINED page offset None None (pl_rows st)"
  define h1 where "h1 = h\<lparr>hs_skipped_quarantined := hs_skipped_quarantined h +
      (length rows - length (filter (\<lambda>m. \<not> is_quarantined m) rows))\<rparr>"
  obtain h2 st2 where out: "heal_page env now (pl_vectors st) (filter (\<lambda>m. \<not> is_quarantined m) rows) h1 st = (h2, st2)"
    by (cases "heal_page env now (pl_vectors st) (filter (\<lambda>m. \<not> is_quarantined m) rows) h1 st")
  show ?case
  proof (cases "hs_budget h \<le> 0 \<or> rows = []")
    case True
    with Suc.prems show ?thesis by (auto simp: Let_def rows_def)
  next
    case False
    have "budget_kept limit h1" using Suc.prems(1) by (simp add: budget_kept_def h1_def)
    then have b2: "budget_kept limit h2"
      using heal_page_budget [of limit h1 env now "pl_vectors st" "filter (\<lambda>m. \<not> is_quarantined m) rows" st]
      by (simp add: out)
    have c: "refined_count st2 = refined_count st"
      using heal_page_states [of env now "pl_vectors st" "filter (\<lambda>m. \<not> is_quarantined m) rows" h1 st]
      by (simp add: refined_count_def out)
    have off: "offset + int (length rows) \<le> int (refined_count st)"
      by (rule refined_page [OF Suc.prems(2) rows_def Suc.prems(3)])
    have pos: "0 < length rows" using False by simp
    then have "\<exists>h' st'. heal_loop n env now page (offset + int (length rows)) h2 st2 = Some (h', st') \<and>
        budget_kept limit h'"
      by (intro Suc.IH [OF b2]) (use Suc.prems off c in linarith)+
    moreover have "heal_loop (Suc n) env now page offset h st =
        heal_loop n env now page (offset + int (length rows)) h2 st2"
      using False by (simp add: Let_def rows_def [symmetric] out [unfolded h1_def, simplified])
    ultimately show ?thesis by simp
  qed
qed

text \<open>
  C9. The heal sweep ends, and the limit is a budget of attempts: successful and failed
  re-embeddings together never exceed it, however large the refined set and whatever the
  embedder does.
\<close>

theorem heal_terminates_within_budget:
  "\<exists>h st'. heal_stale_embeddings env now limit st = Some (h, st') \<and>
     int (hs_healed h) + int (hs_failed h) \<le> max 0 limit"
proof (cases "limit < 0")
  case True
  then show ?thesis by (simp add: heal_stale_embeddings_def)
next
  case False
  have "refined_count st \<le> length (pl_rows st)"
    unfolding refined_count_def using length_filter_le [of _ "map (\<lambda>r. m_pipeline_state (mem r)) (pl_rows st)"]
    by simp
  moreover have "budget_kept limit \<lparr>hs_checked = 0, hs_healed = 0, hs_failed = 0,
      hs_stale_by_fingerprint = 0, hs_skipped_quarantined = 0, hs_budget = limit, hs_consecutive = 0\<rparr>"
    using False by (simp add: budget_kept_def)
  ultimately obtain h st' where "heal_stale_embeddings env now limit st = Some (h, st')" "budget_kept limit h"
    unfolding heal_stale_embeddings_def
    using heal_loop_terminates [of limit _ 0 st "Suc (Suc (length (pl_rows st)))" env now "max 1 limit"] by fastforce
  then show ?thesis by (auto simp: budget_kept_def)
qed


section \<open>Re-publication of a quarantined row\<close>

text \<open>Quarantine removes the vector of a row, but the publication gate does not look at
  the pipeline state: publishing a quarantined row whose projection is clean (by hand with
  the bypass flag, or through the single-memory passthrough) flips its status and writes its
  vector again, while the row stays quarantined.
\<close>

theorem republication_restores_vector:
  assumes "row_find row_id i (pl_rows st) = Some r" and "is_quarantined (mem r)"
    and "dt_clean (detect (pe_scan env) (effective_content (mem r)) (m_title (mem r)))"
    and "\<And>t. pe_embed_ok env t"
  shows "\<exists>st' r'. snd (publish_memory env now i True st) = st' \<and>
    pl_vectors st' i \<noteq> None \<and> row_find row_id i (pl_rows st') = Some r' \<and>
    m_status (mem r') = PUBLISHED \<and> is_quarantined (mem r')"
proof -
  obtain ok p where p: "m_id p = i" "publish_memory env now i True st =
    (\<lparr>pr_memory_id = i, pr_published = True, pr_vector_indexed = ok,
      pr_previous_status = status_value (m_status (mem r))\<rparr>,
     snd (upsert_embedding env now p (publish_enqueue now (row_to_memory r) (publish_flip now (row_to_memory r) st))))"
    using publish_memory_runs [OF assms(1) assms(3) [folded served_ok_def], of True now] by auto
  have "publish_enqueue now (row_to_memory r) (publish_flip now (row_to_memory r) st) =
      publish_flip now (row_to_memory r) st"
    using assms(2) by (simp add: publish_enqueue_def is_quarantined_def)
  moreover from upsert_embedding_find [OF publish_flip_find [OF assms(1)] p(1), of env now now]
  obtain q where "row_find row_id i (pl_rows (snd (upsert_embedding env now p
        (publish_flip now (row_to_memory r) st)))) = Some q"
      "m_status (mem q) = PUBLISHED" "m_pipeline_state (mem q) = m_pipeline_state (mem r)" by auto
  moreover have "pl_vectors (snd (upsert_embedding env now p st1)) i \<noteq> None" for st1
    using assms(4) p(1) by (simp add: upsert_embedding_def)
  ultimately show ?thesis using p(2) assms(2) by (auto simp: is_quarantined_def)
qed

lemma republication_restores_vector_witness:
  "pl_vectors (snd (publish_memory sample_env 5 ''a'' True sample_quarantined)) ''a'' \<noteq> None \<and>
   pl_vectors sample_quarantined ''a'' = None"
proof -
  obtain r where r: "row_find row_id ''a'' (pl_rows sample_quarantined) = Some r" "is_quarantined (mem r)"
    using sample_quarantined_row by blast
  have "(pl_step sample_env True)\<^sup>*\<^sup>* sample_pl sample_quarantined"
    unfolding sample_quarantined_def by (rule r_into_rtranclp) (rule pl_step.quarantine)
  obtain r0 where r0: "row_find row_id ''a'' (pl_rows sample_pl) = Some r0" "row_id r0 = ''a''"
      "m_title (mem r0) = Some ''text''" "effective_content (mem r0) = ''text''"
    using sample_pl_row by fastforce
  have "pl_rows sample_quarantined = pl_rows (snd (pl_update ''a''
      [F_pipeline_state (Some PS_QUARANTINED), F_quarantine_reason (Some ''secret'')] 3 sample_pl))"
    using r0 by (simp add: sample_quarantined_def quarantine_entry_def pl_get_def get_def split: prod.split)
  with pl_update_find [OF _ _ r0(1), of "[F_pipeline_state (Some PS_QUARANTINED), F_quarantine_reason (Some ''secret'')]" 3]
  have "r = r0\<lparr>mem := (mem r0)\<lparr>m_pipeline_state := Some PS_QUARANTINED,
      m_quarantine_reason := Some ''secret'', m_updated_at := 3\<rparr>\<rparr>" using r by simp
  then have "effective_content (mem r) = ''text''" "m_title (mem r) = Some ''text''"
    using r0 by (simp_all add: effective_content_def)
  then have "dt_clean (detect (pe_scan sample_env) (effective_content (mem r)) (m_title (mem r)))"
    using detect_sample by (simp add: sample_env_def)
  from republication_restores_vector [OF r this, of 5]
  have "pl_vectors (snd (publish_memory sample_env 5 ''a'' True sample_quarantined)) ''a'' \<noteq> None"
    by (simp add: sample_env_def)
  moreover have "pl_vectors sample_quarantined ''a'' = None"
  proof -
    obtain ok st1 where u: "pl_update ''a'' [F_pipeline_state (Some PS_QUARANTINED),
        F_quarantine_reason (Some ''secret'')] 3 sample_pl = (ok, st1)" by force
    have "pl_vectors st1 = pl_vectors sample_pl"
      using pl_update_vectors [of "''a''" "[F_pipeline_state (Some PS_QUARANTINED),
        F_quarantine_reason (Some ''secret'')]" 3 sample_pl] by (simp only: u snd_conv)
    then have "pl_vectors st1 = Map.empty" by (simp add: sample_pl_def)
    then show ?thesis
      by (simp add: sample_quarantined_def quarantine_entry_def pl_get_def get_def r0 u)
  qed
  ultimately show ?thesis by blast
qed

end
