(* ===== verification/Regex.thy ===== *)
theory Regex
  imports Prelude
begin

text \<open>
  The part of Python's \<open>re\<close> that the detectors use: a backtracking matcher that lists the
  ends of a match in the order in which Python would try them, and \<open>finditer\<close> over it.  Only
  bodies that consume a character are repeated in the patterns, so a repetition needs at
  most as many rounds as the text has characters.
\<close>

section \<open>Expressions and their matches\<close>

text \<open>
  \<open>Cls neg rs\<close> is a character class, given by ranges of code points; \<open>Rep m k r\<close> is the
  greedy \<open>r{m,k}\<close> (\<open>None\<close> is no upper bound); \<open>Bound\<close> is the word boundary, \<open>NotAhead\<close>
  the negative lookahead, \<open>Ahead\<close> the positive one, \<open>NotBehind\<close> the negative lookbehind of a
  class, \<open>Bol\<close> and \<open>Eol\<close> the line anchors of \<open>re.MULTILINE\<close>.
\<close>

datatype rx =
    Eps
  | Cls bool "(nat \<times> nat) list"
  | Seq rx rx
  | Alt rx rx
  | Rep nat "nat option" rx
  | Bound
  | NotAhead rx
  | Ahead rx
  | NotBehind "(nat \<times> nat) list"
  | Bol
  | Eol

definition in_ranges :: "(nat \<times> nat) list \<Rightarrow> char \<Rightarrow> bool" where
  "in_ranges rs c = list_ex (\<lambda>(a, b). a \<le> of_char c \<and> of_char c \<le> b) rs"

text \<open>\<open>\w\<close> on the code points below 256.\<close>

definition word_ranges :: "(nat \<times> nat) list" where
  "word_ranges = [(48, 57), (65, 90), (95, 95), (97, 122), (170, 170), (178, 179), (181, 181),
     (185, 186), (188, 190), (192, 214), (216, 246), (248, 255)]"

definition word_at :: "string \<Rightarrow> nat \<Rightarrow> bool" where
  "word_at s i \<longleftrightarrow> i < length s \<and> in_ranges word_ranges (s ! i)"

definition boundary :: "string \<Rightarrow> nat \<Rightarrow> bool" where
  "boundary s i \<longleftrightarrow> (0 < i \<and> word_at s (i - 1)) \<noteq> word_at s i"

fun rep_ends :: "(nat \<Rightarrow> nat list) \<Rightarrow> nat \<Rightarrow> nat \<Rightarrow> nat option \<Rightarrow> nat \<Rightarrow> nat list" where
  "rep_ends step 0 m k i = (if m = 0 then [i] else [])"
| "rep_ends step (Suc n) m k i =
     (if k = Some 0 then []
      else concat (map (rep_ends step n (m - 1) (map_option (\<lambda>k. k - 1) k)) (step i))) @
     (if m = 0 then [i] else [])"

primrec ends :: "rx \<Rightarrow> string \<Rightarrow> nat \<Rightarrow> nat list" where
  "ends Eps s i = [i]"
| "ends (Cls neg rs) s i = (if i < length s \<and> in_ranges rs (s ! i) \<noteq> neg then [Suc i] else [])"
| "ends (Seq a b) s i = concat (map (ends b s) (ends a s i))"
| "ends (Alt a b) s i = ends a s i @ ends b s i"
| "ends (Rep m k a) s i = rep_ends (ends a s) (Suc (length s)) m k i"
| "ends Bound s i = (if boundary s i then [i] else [])"
| "ends (NotAhead a) s i = (if ends a s i = [] then [i] else [])"
| "ends (Ahead a) s i = (if ends a s i = [] then [] else [i])"
| "ends (NotBehind rs) s i = (if 0 < i \<and> i \<le> length s \<and> in_ranges rs (s ! (i - 1)) then [] else [i])"
| "ends Bol s i = (if i = 0 \<or> s ! (i - 1) = CHR 0x0A then [i] else [])"
| "ends Eol s i = (if length s \<le> i \<or> s ! i = CHR 0x0A then [i] else [])"

text \<open>The matches from left to right, each search resuming where the last match ended.\<close>

fun scan :: "rx \<Rightarrow> string \<Rightarrow> nat \<Rightarrow> nat \<Rightarrow> (nat \<times> nat) list" where
  "scan r s 0 i = []"
| "scan r s (Suc n) i =
     (case ends r s i of
        [] \<Rightarrow> scan r s n (Suc i)
      | e # _ \<Rightarrow> (i, e) # scan r s n (max e (Suc i)))"

definition finditer :: "rx \<Rightarrow> string \<Rightarrow> (nat \<times> nat) list" where
  "finditer r s = filter (\<lambda>(i, e). e \<le> length s) (scan r s (Suc (length s)) 0)"

definition slice :: "string \<Rightarrow> nat \<Rightarrow> nat \<Rightarrow> string" where
  "slice s a b = take (b - a) (drop a s)"

text \<open>\<open>search\<close>, \<open>match\<close> and \<open>sub\<close> with a fixed replacement.\<close>

definition rx_search :: "rx \<Rightarrow> string \<Rightarrow> bool" where
  "rx_search r s \<longleftrightarrow> list_ex (\<lambda>i. ends r s i \<noteq> []) [0..<Suc (length s)]"

definition rx_match :: "rx \<Rightarrow> string \<Rightarrow> bool" where
  "rx_match r s \<longleftrightarrow> ends r s 0 \<noteq> []"

section \<open>Building expressions\<close>

definition chars :: "string \<Rightarrow> rx" where
  "chars cs = Cls False (map (\<lambda>c. (of_char c, of_char c)) cs)"

definition ranges :: "(nat \<times> nat) list \<Rightarrow> string \<Rightarrow> rx" where
  "ranges rs cs = Cls False (rs @ map (\<lambda>c. (of_char c, of_char c)) cs)"

definition lit :: "string \<Rightarrow> rx" where
  "lit s = foldr (\<lambda>c r. Seq (chars [c]) r) s Eps"

definition seqs :: "rx list \<Rightarrow> rx" where
  "seqs rs = foldr Seq rs Eps"

fun alts :: "rx list \<Rightarrow> rx" where
  "alts [] = Cls False []"
| "alts [r] = r"
| "alts (r # rs) = Alt r (alts rs)"

abbreviation plus :: "rx \<Rightarrow> rx" where
  "plus r \<equiv> Rep 1 None r"

abbreviation star :: "rx \<Rightarrow> rx" where
  "star r \<equiv> Rep 0 None r"

abbreviation opt :: "rx \<Rightarrow> rx" where
  "opt r \<equiv> Rep 0 (Some 1) r"

text \<open>A literal under \<open>re.IGNORECASE\<close>, for ASCII text.\<close>

definition other_case :: "char \<Rightarrow> char" where
  "other_case c =
     (let n = of_char c :: nat
      in if 65 \<le> n \<and> n \<le> 90 then char_of (n + 32) else if 97 \<le> n \<and> n \<le> 122 then char_of (n - 32) else c)"

definition lit_ci :: "string \<Rightarrow> rx" where
  "lit_ci s = foldr (\<lambda>c r. Seq (chars [c, other_case c]) r) s Eps"

abbreviation alnum :: "(nat \<times> nat) list" where
  "alnum \<equiv> [(65, 90), (97, 122), (48, 57)]"

abbreviation alpha :: "(nat \<times> nat) list" where
  "alpha \<equiv> [(65, 90), (97, 122)]"

abbreviation hexdig :: "(nat \<times> nat) list" where
  "hexdig \<equiv> [(48, 57), (65, 70), (97, 102)]"

abbreviation space_ranges :: "(nat \<times> nat) list" where
  "space_ranges \<equiv> [(9, 13), (28, 32), (133, 133), (160, 160)]"

lemma in_space_ranges: "in_ranges space_ranges c = py_isspace c"
  by (auto simp: in_ranges_def py_isspace_def)

section \<open>Where a match can lie\<close>

text \<open>A lower bound on the characters a match consumes.\<close>

primrec rx_min :: "rx \<Rightarrow> nat" where
  "rx_min Eps = 0"
| "rx_min (Cls neg rs) = 1"
| "rx_min (Seq a b) = rx_min a + rx_min b"
| "rx_min (Alt a b) = min (rx_min a) (rx_min b)"
| "rx_min (Rep m k a) = m * rx_min a"
| "rx_min Bound = 0"
| "rx_min (NotAhead a) = 0"
| "rx_min (Ahead a) = 0"
| "rx_min (NotBehind rs) = 0"
| "rx_min Bol = 0"
| "rx_min Eol = 0"

lemma rep_ends_min:
  assumes "\<And>i j. j \<in> set (step i) \<Longrightarrow> i + d \<le> j"
  shows "j \<in> set (rep_ends step n m k i) \<Longrightarrow> i + m * d \<le> j"
proof (induction n arbitrary: m k i)
  case 0
  then show ?case by (simp split: if_splits)
next
  case (Suc n)
  show ?case
  proof (cases "j \<in> set (if m = 0 then [i] else [])")
    case True
    then show ?thesis by (simp split: if_splits)
  next
    case False
    with Suc.prems obtain i' where i': "i' \<in> set (step i)"
      "j \<in> set (rep_ends step n (m - 1) (map_option (\<lambda>k. k - 1) k) i')"
      by (auto split: if_splits)
    from Suc.IH [OF i'(2)] assms [OF i'(1)] show ?thesis
      by (cases m) auto
  qed
qed

lemma ends_min: "j \<in> set (ends r s i) \<Longrightarrow> i + rx_min r \<le> j"
proof (induction r arbitrary: i j)
  case (Seq a b)
  then show ?case by fastforce
next
  case (Alt a b)
  then show ?case by fastforce
next
  case (Rep m k a)
  have "j \<in> set (rep_ends (ends a s) (Suc (length s)) m k i)" using Rep.prems by simp
  from rep_ends_min [OF Rep.IH this] show ?case by (simp only: rx_min.simps)
qed (auto split: if_splits)

lemma rep_ends_le:
  assumes "\<And>i j. j \<in> set (step i) \<Longrightarrow> i \<le> n' \<Longrightarrow> j \<le> n'"
  shows "j \<in> set (rep_ends step n m k i) \<Longrightarrow> i \<le> n' \<Longrightarrow> j \<le> n'"
  by (induction n arbitrary: m k i) (auto split: if_splits dest: assms)

lemma ends_le: "j \<in> set (ends r s i) \<Longrightarrow> i \<le> length s \<Longrightarrow> j \<le> length s"
proof (induction r arbitrary: i j)
  case (Rep m k a)
  have "j \<in> set (rep_ends (ends a s) (Suc (length s)) m k i)" using Rep.prems(1) by simp
  from rep_ends_le [OF Rep.IH this Rep.prems(2)] show ?case .
qed (auto split: if_splits)

lemma scan_spans:
  assumes "(a, e) \<in> set (scan r s n i)"
  shows "i \<le> a \<and> e \<in> set (ends r s a)"
  using assms by (induction r s n i rule: scan.induct) (fastforce split: list.splits)+

lemma scan_sorted:
  assumes "0 < rx_min r"
  shows "sorted_wrt (\<lambda>(_, e) (a, _). e \<le> a) (scan r s n i)"
proof (induction r s n i rule: scan.induct)
  case (2 r s n i)
  then show ?case by (auto split: list.splits dest!: scan_spans)
qed simp

text \<open>\<open>finditer\<close> on a pattern that consumes: non-empty, ordered, disjoint spans of the text.\<close>

lemma finditer_span:
  assumes "(a, e) \<in> set (finditer r s)" and "0 < rx_min r"
  shows "a < e \<and> e \<le> length s"
  using assms ends_min [of e r s a] by (auto simp: finditer_def simp del: scan.simps dest!: scan_spans)

lemma finditer_matches:
  "(a, e) \<in> set (finditer r s) \<Longrightarrow> e \<in> set (ends r s a)"
  by (auto simp: finditer_def simp del: scan.simps dest!: scan_spans)

lemma finditer_sorted:
  "0 < rx_min r \<Longrightarrow> sorted_wrt (\<lambda>(_, e) (a, _). e \<le> a) (finditer r s)"
  unfolding finditer_def by (intro sorted_wrt_filter scan_sorted)

lemma rx_min_lit [simp]: "rx_min (lit s) = length s"
  by (induction s) (simp_all add: lit_def chars_def)

lemma rx_min_seqs [simp]: "rx_min (seqs rs) = sum_list (map rx_min rs)"
  by (induction rs) (simp_all add: seqs_def)

lemma rx_min_chars [simp]: "rx_min (chars cs) = 1" "rx_min (ranges rs cs) = 1"
  by (simp_all add: chars_def ranges_def)

lemma rx_min_lit_ci [simp]: "rx_min (lit_ci s) = length s"
  by (induction s) (simp_all add: lit_ci_def chars_def)

section \<open>Replacing spans of a text\<close>

text \<open>
  The forward pass both sanitizers use: keep the text between the spans, put a replacement
  for each span.
\<close>

fun replace_spans :: "string \<Rightarrow> nat \<Rightarrow> (nat \<times> nat \<times> string) list \<Rightarrow> string" where
  "replace_spans s cursor [] = drop cursor s"
| "replace_spans s cursor ((a, b, r) # xs) = slice s cursor a @ r @ replace_spans s b xs"

definition rx_sub :: "rx \<Rightarrow> string \<Rightarrow> string \<Rightarrow> string" where
  "rx_sub r new s = replace_spans s 0 (map (\<lambda>(a, b). (a, b, new)) (finditer r s))"

definition covers :: "(nat \<times> nat \<times> string) list \<Rightarrow> nat \<Rightarrow> bool" where
  "covers xs i \<longleftrightarrow> (\<exists>(a, b, r) \<in> set xs. a \<le> i \<and> i < b)"

text \<open>What position \<open>i\<close> of the text becomes: the replacement at the start of a span, nothing
  inside one, and itself elsewhere.\<close>

definition masked :: "string \<Rightarrow> (nat \<times> nat \<times> string) list \<Rightarrow> nat \<Rightarrow> string" where
  "masked s xs i =
     (case find (\<lambda>(a, b, r). a = i) xs of Some (a, b, r) \<Rightarrow> r | None \<Rightarrow> []) @
     (if covers xs i then [] else [s ! i])"

fun spans_ok :: "nat \<Rightarrow> nat \<Rightarrow> (nat \<times> nat \<times> string) list \<Rightarrow> bool" where
  "spans_ok n cursor [] \<longleftrightarrow> True"
| "spans_ok n cursor ((a, b, r) # xs) \<longleftrightarrow> cursor \<le> a \<and> a < b \<and> b \<le> n \<and> spans_ok n b xs"

lemma spans_ok_lower: "spans_ok n c xs \<Longrightarrow> (a, b, r) \<in> set xs \<Longrightarrow> c \<le> a \<and> a < b \<and> b \<le> n"
  by (induction n c xs rule: spans_ok.induct) fastforce+

lemma covers_Cons: "covers ((a, b, r) # xs) i \<longleftrightarrow> (a \<le> i \<and> i < b) \<or> covers xs i"
  by (auto simp: covers_def)

lemma not_covers_before: "spans_ok n c xs \<Longrightarrow> i < c \<Longrightarrow> \<not> covers xs i"
  by (auto simp: covers_def dest!: spans_ok_lower)

lemma no_start_before: "spans_ok n c xs \<Longrightarrow> i < c \<Longrightarrow> find (\<lambda>(a, b, r). a = i) xs = None"
  by (auto simp: find_None_iff dest!: spans_ok_lower)

lemma slice_masked:
  assumes "b \<le> length s" "\<And>i. a \<le> i \<Longrightarrow> i < b \<Longrightarrow> f i = [s ! i]"
  shows "concat (map f [a..<b]) = slice s a b"
proof -
  have "concat (map f [a..<b]) = map ((!) s) [a..<b]"
    using assms(2) by (induction b) auto
  also have "\<dots> = slice s a b"
    using assms(1) by (intro nth_equalityI) (auto simp: slice_def)
  finally show ?thesis .
qed

theorem replace_spans_masked:
  "spans_ok (length s) c xs \<Longrightarrow> c \<le> length s \<Longrightarrow>
   replace_spans s c xs = concat (map (masked s xs) [c..<length s])"
proof (induction s c xs rule: replace_spans.induct)
  case (1 s c)
  have "concat (map (masked s []) [c..<length s]) = slice s c (length s)"
    by (rule slice_masked) (simp_all add: masked_def covers_def)
  then show ?case by (simp add: slice_def)
next
  case (2 s c a b r xs)
  let ?m = "masked s ((a, b, r) # xs)"
  from 2(2) have le: "c \<le> a" "a < b" "b \<le> length s" and ok: "spans_ok (length s) b xs" by auto
  have pre: "concat (map ?m [c..<a]) = slice s c a"
  proof (rule slice_masked)
    fix i assume "c \<le> i" "i < a"
    with le ok show "?m i = [s ! i]"
      by (simp add: masked_def covers_Cons not_covers_before no_start_before)
  qed (use le in simp)
  have "map ?m [Suc a..<b] = map (\<lambda>_. []) [Suc a..<b]"
    using le ok by (intro map_cong) (auto simp: masked_def covers_Cons no_start_before)
  then have "concat (map ?m [Suc a..<b]) = []" by simp
  moreover have "?m a = r" using le by (simp add: masked_def covers_Cons)
  ultimately have mid: "concat (map ?m [a..<b]) = r"
    using le by (subst upt_conv_Cons) simp_all
  have "map ?m [b..<length s] = map (masked s xs) [b..<length s]"
    using le by (intro map_cong) (auto simp: masked_def covers_Cons)
  with 2(1) [OF ok le(3)] have post: "concat (map ?m [b..<length s]) = replace_spans s b xs" by (simp only:)
  have "[c..<length s] = [c..<a] @ [a..<b] @ [b..<length s]"
    using le by (metis less_or_eq_imp_le order_trans upt_add_eq_append le_Suc_ex)
  then show ?case by (simp add: pre mid post)
qed

end
