(* ===== verification/Moderation.thy ===== *)
theory Moderation
  imports Regex Tag_Contract "HOL-Library.Product_Lexorder"
begin

text \<open>
  The sanitizers in front of every export: \<open>secrets_detector.py\<close> (patterns, entropy, the
  merge of overlapping findings, redaction) and \<open>moderation.py\<close> (personal data, neutral
  replacements, the verdict on a record).

  Texts hold code points below 256; entropies and fractions are exact numbers where the
  code computes with floats.
\<close>

section \<open>Secrets\<close>

definition SECRET_PATTERNS :: "(string \<times> rx) list" where
  "SECRET_PATTERNS =
     [(''aws-key'', seqs [lit ''AKIA'', Rep 16 (Some 16) (ranges [(48, 57), (65, 90)] [])]),
      (''github-token'', seqs [lit ''gh'', chars ''opusrs'', lit ''_'', Rep 36 (Some 36) (ranges alnum [])]),
      (''slack-token'', seqs [lit ''xox'', chars ''abprs'', lit ''-'', plus (ranges alnum ''-'')]),
      (''openai-key'', seqs [lit ''sk-'', Rep 20 None (ranges alnum [])]),
      (''jwt'', seqs [lit ''eyJ'', plus (ranges alnum ''_-''), lit ''.eyJ'', plus (ranges alnum ''_-''),
                      lit ''.'', plus (ranges alnum ''_-'')]),
      (''pem-private-key'',
         seqs [lit ''-----BEGIN '', opt (seqs [plus (ranges [(65, 90)] '' ''), lit '' '']),
               lit ''PRIVATE KEY-----'']),
      (''connection-string'',
         seqs [alts [seqs [lit ''postgres'', opt (lit ''ql'')], lit ''mysql'',
                     seqs [lit ''mongodb'', opt (lit ''+srv'')]],
               lit ''://'', plus (Cls True (space_ranges @ [(58, 58), (47, 47), (64, 64)])), lit '':'',
               plus (Cls True (space_ranges @ [(64, 64)])), lit ''@''])]"

definition HIGH_ENTROPY_MIN_LEN :: nat where
  "HIGH_ENTROPY_MIN_LEN = 32"

definition HIGH_ENTROPY_THRESHOLD :: real where
  "HIGH_ENTROPY_THRESHOLD = 48 / 10"

definition BASE64_SPAN_RE :: rx where
  "BASE64_SPAN_RE = Rep 32 None (ranges alnum ''+/=_-'')"

definition shannon_entropy :: "string \<Rightarrow> real" where
  "shannon_entropy t =
     - (\<Sum>c\<leftarrow>remdups t. (let p = real (count_list t c) / real (length t) in p * log 2 p))"

record secret_finding =
  sf_pattern :: string
  sf_value :: string
  sf_start :: nat
  sf_end :: nat

definition finding_at :: "string \<Rightarrow> string \<Rightarrow> nat \<times> nat \<Rightarrow> secret_finding" where
  "finding_at content name m =
     \<lparr>sf_pattern = name, sf_value = slice content (fst m) (snd m), sf_start = fst m, sf_end = snd m\<rparr>"

definition raw_findings :: "string \<Rightarrow> secret_finding list" where
  "raw_findings content =
     concat (map (\<lambda>(name, r). map (finding_at content name) (finditer r content)) SECRET_PATTERNS) @
     map (finding_at content ''high-entropy'')
       (filter (\<lambda>(a, e). \<not> length (slice content a e) < HIGH_ENTROPY_MIN_LEN \<and>
                  \<not> shannon_entropy (slice content a e) < HIGH_ENTROPY_THRESHOLD)
          (finditer BASE64_SPAN_RE content))"

text \<open>Position of a name in a list, and of an unknown one \<open>d\<close>.\<close>

fun index_of :: "nat \<Rightarrow> string \<Rightarrow> string list \<Rightarrow> nat" where
  "index_of d x [] = d"
| "index_of d x (y # ys) = (if x = y then 0 else (let i = index_of d x ys in if i = d then d else Suc i))"

definition pattern_order :: "string \<Rightarrow> nat" where
  "pattern_order name = index_of 999 name (map fst SECRET_PATTERNS @ [''high-entropy''])"

text \<open>One round of the overlap loop; the state is the accepted list and the last end.\<close>

definition absorb :: "string \<Rightarrow> secret_finding list \<times> int \<Rightarrow> secret_finding \<Rightarrow> secret_finding list \<times> int" where
  "absorb content st f =
     (case st of (accepted, last_end) \<Rightarrow>
        if last_end \<le> int (sf_start f) then (accepted @ [f], int (sf_end f))
        else if last_end < int (sf_end f) then
          (let prev = last accepted in
             (butlast accepted @
                [\<lparr>sf_pattern = sf_pattern prev, sf_value = slice content (sf_start prev) (sf_end f),
                  sf_start = sf_start prev, sf_end = sf_end f\<rparr>], int (sf_end f)))
        else (accepted, last_end))"

definition detect_secrets :: "string \<Rightarrow> secret_finding list" where
  "detect_secrets content =
     (if content = [] then []
      else fst (foldl (absorb content) ([], - 1)
             (sort_key (\<lambda>f. (sf_start f, pattern_order (sf_pattern f))) (raw_findings content))))"

definition redaction :: "secret_finding \<Rightarrow> string" where
  "redaction f = ''<REDACTED:'' @ sf_pattern f @ ''>''"

datatype overlap_error = OverlappingFindings

fun check_overlap :: "int \<Rightarrow> secret_finding list \<Rightarrow> bool" where
  "check_overlap last_end [] = True"
| "check_overlap last_end (f # fs) =
     (if int (sf_start f) < last_end then False else check_overlap (int (sf_end f)) fs)"

fun redact_pieces :: "string \<Rightarrow> nat \<Rightarrow> secret_finding list \<Rightarrow> string" where
  "redact_pieces content cursor [] = drop cursor content"
| "redact_pieces content cursor (f # fs) =
     slice content cursor (sf_start f) @ redaction f @ redact_pieces content (sf_end f) fs"

definition redact_content :: "string \<Rightarrow> secret_finding list \<Rightarrow> overlap_error + string" where
  "redact_content content findings =
     (if findings = [] then Inr content
      else if \<not> check_overlap (- 1) findings then Inl OverlappingFindings
      else Inr (redact_pieces content 0 findings))"

definition findings_by_pattern :: "secret_finding list \<Rightarrow> string \<Rightarrow> nat" where
  "findings_by_pattern findings name = length (filter (\<lambda>f. sf_pattern f = name) findings)"

section \<open>Personal data\<close>

abbreviation bslash :: char where
  "bslash \<equiv> CHR 0x5C"

abbreviation path_char :: rx where
  "path_char \<equiv> ranges alnum ''._-''"

abbreviation hex_group :: rx where
  "hex_group \<equiv> Rep 1 (Some 4) (ranges hexdig [])"

definition hostname_rx :: rx where
  "hostname_rx =
     seqs [Bound,
           NotAhead (seqs [lit ''example.'', alts [lit ''invalid'', lit ''com'', lit ''net'', lit ''org'', lit ''edu''], Bound]),
           plus (seqs [ranges alnum [],
                       opt (seqs [Rep 0 (Some 61) (ranges alnum ''-''), ranges alnum []]),
                       lit ''.'']),
           Rep 2 None (ranges alpha []), Bound]"

definition unix_path_rx :: rx where
  "unix_path_rx =
     seqs [Bound, lit ''/'', plus (seqs [plus path_char, lit ''/'']), plus path_char, Bound]"

definition PII_PATTERNS :: "(string \<times> rx) list" where
  "PII_PATTERNS =
     [(''email'', seqs [Bound, plus (ranges alnum ''._%+-''), lit ''@'', plus (ranges alnum ''.-''), lit ''.'',
                        Rep 2 None (ranges alpha []), Bound]),
      (''ipv4'', seqs [Bound, Rep 3 (Some 3) (seqs [Rep 1 (Some 3) (ranges [(48, 57)] []), lit ''.'']),
                       Rep 1 (Some 3) (ranges [(48, 57)] []), Bound]),
      (''ipv6'', alts [seqs [Bound, Rep 2 (Some 7) (seqs [hex_group, lit '':'']), hex_group, Bound],
                       seqs [Bound, plus (seqs [hex_group, lit '':'']), lit '':'', hex_group, Bound],
                       seqs [Bound, hex_group, lit ''::'', star (seqs [hex_group, lit '':'']), hex_group, Bound]]),
      (''hostname'', hostname_rx),
      (''unix-path'', unix_path_rx),
      (''win-path'', seqs [ranges [(65, 90)] [], lit [CHR '':'', bslash],
                           plus (seqs [plus path_char, lit [bslash]]), plus path_char]),
      (''unc-path'', seqs [lit [bslash, bslash], plus path_char, lit [bslash],
                           star (seqs [plus (ranges alnum ''_-''), lit [bslash]]), plus (ranges alnum ''_-'')])]"

definition PII_TYPES :: "string list" where
  "PII_TYPES = map fst PII_PATTERNS"

definition NEUTRAL_VALUES :: "(string \<times> string) list" where
  "NEUTRAL_VALUES =
     [(''email'', ''user@example.com''), (''ipv4'', ''192.0.2.1''), (''ipv6'', ''2001:db8::1''),
      (''hostname'', ''example.invalid''), (''unix-path'', ''/example/path/to/file''),
      (''win-path'', ''C:'' @ [bslash] @ ''example'' @ [bslash] @ ''path'' @ [bslash] @ ''to'' @ [bslash] @ ''file''),
      (''unc-path'', [bslash, bslash] @ ''example.invalid'' @ [bslash] @ ''share'' @ [bslash] @ ''file'')]"

definition neutral_value_for :: "string \<Rightarrow> string option" where
  "neutral_value_for pii_type = map_of NEUTRAL_VALUES pii_type"

record mapping_entry =
  me_replacement :: string
  me_expires_at :: moment

record mapping_table =
  mt_ttl :: int
  mt_now :: moment
  mt_entries :: "string \<times> string \<rightharpoonup> mapping_entry"

definition new_mapping :: "int \<Rightarrow> moment \<Rightarrow> mapping_table" where
  "new_mapping ttl_hours now = \<lparr>mt_ttl = hours ttl_hours, mt_now = now, mt_entries = Map.empty\<rparr>"

text \<open>\<open>MappingTable.get_or_create\<close>; the detector only passes known types, \<open>[]\<close> stands for the
  \<open>KeyError\<close> of another one.\<close>

definition get_or_create :: "string \<Rightarrow> string \<Rightarrow> mapping_table \<Rightarrow> string \<times> mapping_table" where
  "get_or_create pii_type original mt =
     (case mt_entries mt (pii_type, original) of
        Some e \<Rightarrow>
          if mt_now mt < me_expires_at e then (me_replacement e, mt)
          else (let r = or_str (neutral_value_for pii_type) [] in
                  (r, mt\<lparr>mt_entries := (mt_entries mt)((pii_type, original) \<mapsto>
                         \<lparr>me_replacement = r, me_expires_at = mt_now mt + mt_ttl mt\<rparr>)\<rparr>))
      | None \<Rightarrow>
          (let r = or_str (neutral_value_for pii_type) [] in
             (r, mt\<lparr>mt_entries := (mt_entries mt)((pii_type, original) \<mapsto>
                    \<lparr>me_replacement = r, me_expires_at = mt_now mt + mt_ttl mt\<rparr>)\<rparr>)))"

definition evict_expired :: "mapping_table \<Rightarrow> mapping_table" where
  "evict_expired mt =
     mt\<lparr>mt_entries := (\<lambda>k. case mt_entries mt k of
          Some e \<Rightarrow> if mt_now mt < me_expires_at e then Some e else None | None \<Rightarrow> None)\<rparr>"

record pii_match =
  pm_type :: string
  pm_value :: string
  pm_start :: nat
  pm_end :: nat

definition neutral_spans :: "string \<Rightarrow> (nat \<times> nat) list" where
  "neutral_spans content =
     concat (map (\<lambda>nv. map (\<lambda>i. (i, i + length nv))
         (filter (\<lambda>i. starts_with (drop i content) nv) [0..<length content]))
       (map snd NEUTRAL_VALUES))"

definition raw_pii :: "string \<Rightarrow> pii_match list" where
  "raw_pii content =
     concat (map (\<lambda>(t, r).
         map (\<lambda>(a, e). \<lparr>pm_type = t, pm_value = slice content a e, pm_start = a, pm_end = e\<rparr>)
           (filter (\<lambda>(a, e). slice content a e \<notin> set (map snd NEUTRAL_VALUES) \<and>
               \<not> list_ex (\<lambda>(ns, ne). ns \<le> a \<and> e \<le> ne) (neutral_spans content))
              (finditer r content)))
       PII_PATTERNS)"

definition type_order :: "string \<Rightarrow> nat" where
  "type_order t = index_of 999 t (map fst PII_PATTERNS)"

fun drop_overlaps :: "int \<Rightarrow> pii_match list \<Rightarrow> pii_match list" where
  "drop_overlaps last_end [] = []"
| "drop_overlaps last_end (p # ps) =
     (if last_end \<le> int (pm_start p) then p # drop_overlaps (int (pm_end p)) ps
      else drop_overlaps last_end ps)"

definition detect_pii :: "string \<Rightarrow> pii_match list" where
  "detect_pii content =
     (if content = [] then []
      else drop_overlaps (- 1) (sort_key (\<lambda>p. (pm_start p, type_order (pm_type p))) (raw_pii content)))"

fun pii_pieces :: "string \<Rightarrow> nat \<Rightarrow> pii_match list \<Rightarrow> mapping_table \<Rightarrow> string \<times> mapping_table" where
  "pii_pieces content cursor [] mt = (drop cursor content, mt)"
| "pii_pieces content cursor (p # ps) mt =
     (case get_or_create (pm_type p) (pm_value p) mt of
        (replacement, mt1) \<Rightarrow>
          (case pii_pieces content (pm_end p) ps mt1 of
             (rest, mt2) \<Rightarrow> (slice content cursor (pm_start p) @ replacement @ rest, mt2)))"

definition pii_chars :: "pii_match list \<Rightarrow> nat" where
  "pii_chars ps = sum_list (map (\<lambda>p. pm_end p - pm_start p) ps)"

text \<open>The result without the per-type counts, which only the log line uses.\<close>

definition anonymize_pii :: "string \<Rightarrow> mapping_table \<Rightarrow> (string \<times> nat \<times> nat) \<times> mapping_table" where
  "anonymize_pii content mt =
     (let findings = detect_pii content in
      if findings = [] then ((content, 0, 0), mt)
      else (case pii_pieces content 0 findings mt of
              (s, mt1) \<Rightarrow> ((s, length findings, pii_chars findings), mt1)))"

section \<open>The verdict\<close>

datatype moderation_verdict = ALLOW | REDACT | REFUSE

record moderation_result =
  mr_verdict :: moderation_verdict
  mr_content :: string
  mr_secrets :: nat
  mr_pii :: nat
  mr_code :: nat

fun VERDICT_CODE :: "moderation_verdict \<Rightarrow> nat" where
  "VERDICT_CODE ALLOW = 0"
| "VERDICT_CODE REDACT = 1"
| "VERDICT_CODE REFUSE = 2"

definition redacted_fraction :: "nat \<Rightarrow> nat \<Rightarrow> nat \<Rightarrow> rat" where
  "redacted_fraction original_len secret_replaced pii_replaced =
     (if original_len = 0 then 0
      else min (of_nat (secret_replaced + pii_replaced) / of_nat original_len) 1)"

definition secret_chars :: "secret_finding list \<Rightarrow> nat" where
  "secret_chars fs = sum_list (map (\<lambda>f. sf_end f - sf_start f) fs)"

definition mod_result :: "moderation_verdict \<Rightarrow> string \<Rightarrow> nat \<Rightarrow> nat \<Rightarrow> moderation_result" where
  "mod_result v s secrets pii =
     \<lparr>mr_verdict = v, mr_content = s, mr_secrets = secrets, mr_pii = pii, mr_code = VERDICT_CODE v\<rparr>"

definition moderate ::
  "rat \<Rightarrow> int \<Rightarrow> moment \<Rightarrow> string \<Rightarrow> string list \<Rightarrow> overlap_error + moderation_result" where
  "moderate refuse_threshold ttl_hours now content tags =
     (if NO_FEDERATE_TAG \<in> set tags then Inr (mod_result REFUSE [] 0 0)
      else if content = [] then Inr (mod_result ALLOW [] 0 0)
      else
        (let findings = detect_secrets content in
         (case (if findings = [] then Inr content else redact_content content findings) of
            Inl err \<Rightarrow> Inl err
          | Inr redacted \<Rightarrow>
              (case anonymize_pii redacted (new_mapping ttl_hours now) of
                 ((anonymized, pii_count, replaced), mt) \<Rightarrow>
                   if (0 < length findings \<or> 0 < pii_count) \<and>
                      refuse_threshold <
                        redacted_fraction (length content) (secret_chars findings) replaced
                   then Inr (mod_result REFUSE [] (length findings) pii_count)
                   else Inr (mod_result
                     (if 0 < length findings \<or> 0 < pii_count then REDACT else ALLOW)
                     anonymized (length findings) pii_count)))))"

section \<open>The patterns consume\<close>

lemma patterns_consume:
  "\<forall>(t, r) \<in> set SECRET_PATTERNS. 0 < rx_min r" "0 < rx_min BASE64_SPAN_RE"
  "\<forall>(t, r) \<in> set PII_PATTERNS. 0 < rx_min r"
  by (simp_all add: SECRET_PATTERNS_def BASE64_SPAN_RE_def PII_PATTERNS_def hostname_rx_def unix_path_rx_def)

lemma raw_findings_ok:
  assumes "f \<in> set (raw_findings content)"
  shows "sf_start f < sf_end f \<and> sf_end f \<le> length content \<and>
    sf_value f = slice content (sf_start f) (sf_end f)"
proof -
  from assms obtain name r a e where "(name, r) \<in> set SECRET_PATTERNS \<or> r = BASE64_SPAN_RE"
    and "(a, e) \<in> set (finditer r content)" and f: "f = finding_at content name (a, e)"
    by (auto simp: raw_findings_def)
  with finditer_span [of a e r content] patterns_consume(1,2) have "a < e \<and> e \<le> length content" by fastforce
  with f show ?thesis by (simp add: finding_at_def)
qed

lemma raw_pii_ok:
  assumes "p \<in> set (raw_pii content)"
  shows "pm_start p < pm_end p \<and> pm_end p \<le> length content"
proof -
  from assms obtain t r a e where "(t, r) \<in> set PII_PATTERNS" and "(a, e) \<in> set (finditer r content)"
    and p: "pm_start p = a" "pm_end p = e"
    by (auto simp: raw_pii_def)
  with finditer_span [of a e r content] patterns_consume(3) show ?thesis by fastforce
qed

section \<open>The overlap loop\<close>

definition in_finding :: "secret_finding \<Rightarrow> nat \<Rightarrow> bool" where
  "in_finding f i \<longleftrightarrow> sf_start f \<le> i \<and> i < sf_end f"

definition finding_ok :: "string \<Rightarrow> secret_finding \<Rightarrow> bool" where
  "finding_ok content f \<longleftrightarrow> sf_start f < sf_end f \<and> sf_end f \<le> length content \<and>
     sf_value f = slice content (sf_start f) (sf_end f)"

text \<open>The accepted list after the findings \<open>done\<close>: ordered disjoint spans that cover exactly
  what those findings cover, each labelled by a finding that starts it.\<close>

definition absorbed :: "string \<Rightarrow> secret_finding list \<Rightarrow> secret_finding list \<times> int \<Rightarrow> bool" where
  "absorbed content seen st \<longleftrightarrow>
     (case st of (acc, last_end) \<Rightarrow>
        sorted_wrt (\<lambda>f g. sf_end f \<le> sf_start g) acc \<and> (\<forall>f \<in> set acc. finding_ok content f) \<and>
        last_end = (if acc = [] then - 1 else int (sf_end (last acc))) \<and>
        (\<forall>i. (\<exists>f \<in> set acc. in_finding f i) \<longleftrightarrow> (\<exists>f \<in> set seen. in_finding f i)) \<and>
        (\<forall>f \<in> set acc. \<exists>g \<in> set seen. sf_start g = sf_start f \<and> sf_pattern g = sf_pattern f))"

lemma last_end_bound:
  assumes "sorted_wrt (\<lambda>f g. sf_end f \<le> sf_start g) acc" "\<forall>f \<in> set acc. finding_ok content f" "f \<in> set acc"
  shows "sf_end f \<le> sf_end (last acc)"
  using assms
proof (induction acc)
  case (Cons a acc)
  show ?case
  proof (cases "acc = []")
    case False
    then have "last acc \<in> set acc" by simp
    with Cons.prems(1,2) have "sf_end a \<le> sf_start (last acc)" "sf_start (last acc) < sf_end (last acc)"
      by (auto simp: finding_ok_def)
    then have "sf_end a \<le> sf_end (last acc)" by linarith
    with False Cons show ?thesis by (cases "f = a") auto
  qed (use Cons.prems in simp)
qed simp

lemma absorb_step:
  assumes inv: "absorbed content seen st" and f: "finding_ok content f"
    and le: "\<forall>g \<in> set seen. sf_start g \<le> sf_start f"
  shows "absorbed content (seen @ [f]) (absorb content st f)"
proof -
  obtain acc le0 where st: "st = (acc, le0)" by (cases st)
  from inv have srt: "sorted_wrt (\<lambda>f g. sf_end f \<le> sf_start g) acc"
    and ok: "\<forall>f \<in> set acc. finding_ok content f"
    and last: "le0 = (if acc = [] then - 1 else int (sf_end (last acc)))"
    and cov: "\<And>i. (\<exists>f \<in> set acc. in_finding f i) \<longleftrightarrow> (\<exists>f \<in> set seen. in_finding f i)"
    and lab: "\<forall>f \<in> set acc. \<exists>g \<in> set seen. sf_start g = sf_start f \<and> sf_pattern g = sf_pattern f"
    by (auto simp: absorbed_def st)
  have starts: "\<forall>g \<in> set acc. sf_start g \<le> sf_start f" using lab le by fastforce
  consider (append) "le0 \<le> int (sf_start f)" | (extend) "int (sf_start f) < le0" "le0 < int (sf_end f)"
    | (drop) "int (sf_start f) < le0" "int (sf_end f) \<le> le0" by linarith
  then show ?thesis
  proof cases
    case append
    have "\<forall>g \<in> set acc. sf_end g \<le> sf_start f"
    proof
      fix g assume g: "g \<in> set acc"
      then have "sf_end g \<le> sf_end (last acc)" "acc \<noteq> []" using last_end_bound [OF srt ok] by auto
      with append last show "sf_end g \<le> sf_start f" by simp
    qed
    moreover have "(\<exists>g \<in> set (acc @ [f]). in_finding g i) \<longleftrightarrow> (\<exists>g \<in> set (seen @ [f]). in_finding g i)" for i
      using cov [of i] by auto
    ultimately show ?thesis
      using append srt ok f lab by (auto simp: absorbed_def absorb_def st sorted_wrt_append)
  next
    case extend
    with last have "acc \<noteq> []" by (auto split: if_splits)
    then obtain bs p where acc: "acc = bs @ [p]" by (metis rev_exhaust)
    with extend last have p: "sf_start f < sf_end p" "sf_end p < sf_end f" by auto
    from acc starts have sp: "sf_start p \<le> sf_start f" by simp
    define q where "q = \<lparr>sf_pattern = sf_pattern p, sf_value = slice content (sf_start p) (sf_end f),
        sf_start = sf_start p, sf_end = sf_end f\<rparr>"
    have q: "in_finding q i \<longleftrightarrow> in_finding p i \<or> in_finding f i" for i
      using p sp by (auto simp: q_def in_finding_def)
    have c: "(\<exists>g \<in> set (bs @ [q]). in_finding g i) \<longleftrightarrow> (\<exists>g \<in> set (seen @ [f]). in_finding g i)" for i
      using cov [of i] by (auto simp: q acc)
    have step: "absorb content st f = (bs @ [q], int (sf_end f))"
      using extend by (simp add: absorb_def st acc q_def)
    have "finding_ok content q" using f sp by (auto simp: finding_ok_def q_def)
    moreover have "sorted_wrt (\<lambda>f g. sf_end f \<le> sf_start g) (bs @ [q])"
      using srt by (simp add: acc sorted_wrt_append q_def)
    moreover have "\<forall>g \<in> set (bs @ [q]). \<exists>h \<in> set (seen @ [f]). sf_start h = sf_start g \<and> sf_pattern h = sf_pattern g"
      using lab by (auto simp: acc q_def)
    moreover have "sf_end q = sf_end f" by (simp add: q_def)
    ultimately show ?thesis
      unfolding step absorbed_def using c ok by (simp add: acc)
  next
    case drop
    with last have ne: "acc \<noteq> []" by (auto split: if_splits)
    then obtain bs p where acc: "acc = bs @ [p]" by (metis rev_exhaust)
    with starts drop last have "sf_start p \<le> sf_start f" "sf_end f \<le> sf_end p" by auto
    then have "in_finding f i \<Longrightarrow> in_finding p i" for i by (auto simp: in_finding_def)
    then have c: "(\<exists>g \<in> set acc. in_finding g i) \<longleftrightarrow> (\<exists>g \<in> set (seen @ [f]). in_finding g i)" for i
      using cov [of i] acc by auto
    have "absorb content st f = (acc, le0)" using drop by (simp add: absorb_def st)
    with c srt ok last lab show ?thesis by (auto simp: absorbed_def)
  qed
qed

lemma absorb_all:
  assumes "absorbed content seen st" and "\<forall>f \<in> set fs. finding_ok content f"
    and "sorted (map sf_start fs)" and "\<forall>f \<in> set fs. \<forall>g \<in> set seen. sf_start g \<le> sf_start f"
  shows "absorbed content (seen @ fs) (foldl (absorb content) st fs)"
  using assms
proof (induction fs arbitrary: seen st)
  case (Cons f fs)
  have "absorbed content (seen @ [f]) (absorb content st f)"
    using Cons.prems by (intro absorb_step) auto
  from Cons.IH [OF this] Cons.prems show ?case by auto
qed simp

lemma sorted_by_start:
  "sorted (map sf_start (sort_key (\<lambda>f. (sf_start f, pattern_order (sf_pattern f))) fs))"
proof -
  have "sorted_wrt (\<lambda>a b. sf_start a \<le> sf_start b) (sort_key (\<lambda>f. (sf_start f, pattern_order (sf_pattern f))) fs)"
    using sorted_sort_key [of "\<lambda>f. (sf_start f, pattern_order (sf_pattern f))" fs]
    unfolding sorted_map by (rule sorted_wrt_mono_rel [rotated]) (auto simp: less_eq_prod_def)
  then show ?thesis by (simp add: sorted_map)
qed

lemma raw_findings_Nil: "raw_findings [] = []"
proof (rule ccontr)
  assume "raw_findings [] \<noteq> []"
  then obtain f where "f \<in> set (raw_findings [])" by (meson list.set_sel(1))
  from raw_findings_ok [OF this] show False by auto
qed

lemma detect_secrets_absorbed:
  "\<exists>le. absorbed content (raw_findings content) (detect_secrets content, le)"
proof (cases "content = []")
  case True
  then show ?thesis by (simp add: raw_findings_Nil detect_secrets_def absorbed_def)
next
  case False
  define fs where "fs = sort_key (\<lambda>f. (sf_start f, pattern_order (sf_pattern f))) (raw_findings content)"
  have set: "set fs = set (raw_findings content)" by (simp add: fs_def)
  have "absorbed content ([] @ fs) (foldl (absorb content) ([], - 1) fs)"
  proof (rule absorb_all)
    show "absorbed content [] ([], - 1)" by (simp add: absorbed_def)
    show "\<forall>f \<in> set fs. finding_ok content f" using raw_findings_ok by (simp add: set finding_ok_def)
    show "sorted (map sf_start fs)" unfolding fs_def by (rule sorted_by_start)
  qed simp
  moreover have "detect_secrets content = fst (foldl (absorb content) ([], - 1) fs)"
    using False by (simp only: detect_secrets_def fs_def if_False)
  ultimately have "absorbed content fs (detect_secrets content, snd (foldl (absorb content) ([], - 1) fs))"
    by simp
  then show ?thesis unfolding absorbed_def set prod.case by blast
qed

section \<open>Redaction as a masked_text\<close>

definition marks :: "secret_finding list \<Rightarrow> (nat \<times> nat \<times> string) list" where
  "marks fs = map (\<lambda>f. (sf_start f, sf_end f, redaction f)) fs"

definition pii_marks :: "pii_match list \<Rightarrow> (nat \<times> nat \<times> string) list" where
  "pii_marks ps = map (\<lambda>p. (pm_start p, pm_end p, or_str (neutral_value_for (pm_type p)) [])) ps"

definition masked_text :: "string \<Rightarrow> (nat \<times> nat \<times> string) list \<Rightarrow> string" where
  "masked_text s xs = concat (map (masked s xs) [0..<length s])"

lemma mask_Nil [simp]: "masked_text s [] = s"
proof -
  have "concat (map (masked s []) [0..<length s]) = slice s 0 (length s)"
    by (rule slice_masked) (simp_all add: masked_def covers_def)
  then show ?thesis by (simp add: masked_text_def slice_def)
qed

lemma redact_pieces_replace: "redact_pieces s c fs = replace_spans s c (marks fs)"
  by (induction s c fs rule: redact_pieces.induct) (simp_all add: marks_def)

lemma spans_ok_marks:
  assumes "sorted_wrt (\<lambda>f g. sf_end f \<le> sf_start g) fs" "\<forall>f \<in> set fs. finding_ok s f"
    and "\<forall>f \<in> set fs. c \<le> sf_start f"
  shows "spans_ok (length s) c (marks fs)"
  using assms by (induction fs arbitrary: c) (auto simp: marks_def finding_ok_def)

lemma check_overlap_sorted:
  "sorted_wrt (\<lambda>f g. sf_end f \<le> sf_start g) fs \<Longrightarrow> \<forall>f \<in> set fs. le \<le> int (sf_start f) \<Longrightarrow> check_overlap le fs"
  by (induction fs arbitrary: le) auto

lemma redact_detected:
  "redact_content s (detect_secrets s) = Inr (masked_text s (marks (detect_secrets s)))"
proof -
  obtain le where a: "absorbed s (raw_findings s) (detect_secrets s, le)" using detect_secrets_absorbed by blast
  then have srt: "sorted_wrt (\<lambda>f g. sf_end f \<le> sf_start g) (detect_secrets s)"
    and ok: "\<forall>f \<in> set (detect_secrets s). finding_ok s f" by (auto simp: absorbed_def)
  have "spans_ok (length s) 0 (marks (detect_secrets s))" using srt ok by (rule spans_ok_marks) simp
  from replace_spans_masked [OF this] have "replace_spans s 0 (marks (detect_secrets s)) = masked_text s (marks (detect_secrets s))"
    by (simp add: masked_text_def)
  moreover have "check_overlap (- 1) (detect_secrets s)" using srt by (rule check_overlap_sorted) auto
  ultimately show ?thesis
    by (auto simp: redact_content_def redact_pieces_replace marks_def)
qed

lemma detect_secrets_Nil: "detect_secrets s = [] \<longleftrightarrow> raw_findings s = []"
proof -
  obtain le where a: "absorbed s (raw_findings s) (detect_secrets s, le)" using detect_secrets_absorbed by blast
  then have cov: "\<And>i. (\<exists>f \<in> set (detect_secrets s). in_finding f i) \<longleftrightarrow> (\<exists>f \<in> set (raw_findings s). in_finding f i)"
    and lab: "\<forall>f \<in> set (detect_secrets s). \<exists>g \<in> set (raw_findings s). sf_start g = sf_start f"
    unfolding absorbed_def by blast+
  show ?thesis
  proof
    assume "detect_secrets s = []"
    then have no: "\<not> in_finding f i" if "f \<in> set (raw_findings s)" for f i using cov [of i] that by auto
    show "raw_findings s = []"
    proof (rule ccontr)
      assume "raw_findings s \<noteq> []"
      then obtain f where f: "f \<in> set (raw_findings s)" by (meson list.set_sel(1))
      with raw_findings_ok [OF f] no [OF f, of "sf_start f"] show False by (simp add: in_finding_def)
    qed
  next
    assume "raw_findings s = []"
    with lab show "detect_secrets s = []" by (cases "detect_secrets s") auto
  qed
qed

text \<open>The kept matches of personal data.\<close>

lemma drop_overlaps_subset: "set (drop_overlaps le ps) \<subseteq> set ps"
  by (induction le ps rule: drop_overlaps.induct) auto

lemma drop_overlaps_spans:
  assumes "\<forall>p \<in> set ps. pm_start p < pm_end p \<and> pm_end p \<le> n" "le \<le> int c \<or> le = int c"
    and "\<forall>p \<in> set ps. le \<le> int (pm_start p) \<longrightarrow> c \<le> pm_start p"
  shows "spans_ok n c (pii_marks (drop_overlaps le ps))"
  using assms
proof (induction le ps arbitrary: c rule: drop_overlaps.induct)
  case (2 le p ps)
  then show ?case by (auto simp: pii_marks_def)
qed (simp add: pii_marks_def)

lemma drop_overlaps_meets:
  assumes "sorted (map pm_start ps)" "\<forall>p \<in> set ps. pm_start p < pm_end p" "p \<in> set ps"
  shows "int (pm_start p) < le \<or> (\<exists>q \<in> set (drop_overlaps le ps). pm_start q \<le> pm_start p \<and> pm_start p < pm_end q)"
  using assms
proof (induction le ps rule: drop_overlaps.induct)
  case (2 le q ps)
  show ?case
  proof (cases "le \<le> int (pm_start q)")
    case True
    show ?thesis
    proof (cases "p = q")
      case False
      with 2(5) have p: "p \<in> set ps" by simp
      with 2(3) have "pm_start q \<le> pm_start p" by auto
      with 2(1) [OF True _ _ p] 2(3,4) True show ?thesis by auto
    qed (use True 2(4) in auto)
  next
    case False
    with 2(2) [OF False] 2(3,4,5) show ?thesis by auto
  qed
qed simp

lemma detect_pii_spans: "spans_ok (length s) 0 (pii_marks (detect_pii s))"
proof (cases "s = []")
  case False
  have "spans_ok (length s) 0 (pii_marks (drop_overlaps (- 1)
      (sort_key (\<lambda>p. (pm_start p, type_order (pm_type p))) (raw_pii s))))"
    by (rule drop_overlaps_spans) (use raw_pii_ok in auto)
  with False show ?thesis by (simp only: detect_pii_def if_False)
qed (simp add: detect_pii_def pii_marks_def)

definition mapping_ok :: "mapping_table \<Rightarrow> bool" where
  "mapping_ok mt \<longleftrightarrow>
     (\<forall>t v e. mt_entries mt (t, v) = Some e \<longrightarrow> me_replacement e = or_str (neutral_value_for t) [])"

lemma get_or_create_neutral:
  "mapping_ok mt \<Longrightarrow> fst (get_or_create t v mt) = or_str (neutral_value_for t) [] \<and>
     mapping_ok (snd (get_or_create t v mt))"
  by (auto simp: get_or_create_def mapping_ok_def Let_def split: option.splits)

lemma pii_pieces_replace:
  "mapping_ok mt \<Longrightarrow> fst (pii_pieces s c ps mt) = replace_spans s c (pii_marks ps)"
proof (induction s c ps mt rule: pii_pieces.induct)
  case (2 s c p ps mt)
  obtain r mt1 where g: "get_or_create (pm_type p) (pm_value p) mt = (r, mt1)" by fastforce
  with get_or_create_neutral [OF 2(2), of "pm_type p" "pm_value p"]
  have "r = or_str (neutral_value_for (pm_type p)) []" "mapping_ok mt1" by simp_all
  with 2(1) [OF g [symmetric]] show ?case
    by (cases "pii_pieces s (pm_end p) ps mt1") (simp add: g pii_marks_def)
qed (simp add: pii_marks_def)

lemma anonymize_mask:
  "mapping_ok mt \<Longrightarrow> fst (anonymize_pii s mt) =
     (masked_text s (pii_marks (detect_pii s)), length (detect_pii s), pii_chars (detect_pii s))"
proof (cases "detect_pii s = []")
  case True
  then show ?thesis by (simp add: anonymize_pii_def pii_marks_def pii_chars_def)
next
  case False
  assume "mapping_ok mt"
  then have "fst (pii_pieces s 0 (detect_pii s) mt) = masked_text s (pii_marks (detect_pii s))"
    using replace_spans_masked [OF detect_pii_spans] by (simp add: pii_pieces_replace masked_text_def)
  with False show ?thesis
    by (cases "pii_pieces s 0 (detect_pii s) mt") (simp add: anonymize_pii_def Let_def)
qed

lemma mapping_ok_new [simp]: "mapping_ok (new_mapping ttl now)"
  by (simp add: mapping_ok_def new_mapping_def)

section \<open>Properties\<close>

text \<open>
  C12. Redaction leaves nothing a pattern matched: on the findings of the detector the
  redaction does not fail, its output is the text with every position inside a finding
  removed and one marker per finding, and the removed positions are exactly those inside
  some match of a pattern or some high-entropy run.
\<close>

theorem secrets_fully_redacted:
  "redact_content content (detect_secrets content) = Inr (masked_text content (marks (detect_secrets content))) \<and>
   (\<forall>i. covers (marks (detect_secrets content)) i \<longleftrightarrow>
        (\<exists>f \<in> set (raw_findings content). sf_start f \<le> i \<and> i < sf_end f))"
proof (intro conjI allI)
  fix i
  have "covers (marks fs) i \<longleftrightarrow> (\<exists>f \<in> set fs. in_finding f i)" for fs
    by (auto simp: covers_def marks_def in_finding_def)
  moreover obtain le where "absorbed content (raw_findings content) (detect_secrets content, le)"
    using detect_secrets_absorbed by blast
  ultimately show "covers (marks (detect_secrets content)) i \<longleftrightarrow>
      (\<exists>f \<in> set (raw_findings content). sf_start f \<le> i \<and> i < sf_end f)"
    by (simp add: absorbed_def in_finding_def)
qed (rule redact_detected)

text \<open>
  The detector's result is canonical: its findings are ordered, disjoint, non-empty
  spans of the text that carry the text they span, and each is labelled by the pattern of a
  match that starts it.
\<close>

theorem detect_secrets_canonical:
  "sorted_wrt (\<lambda>f g. sf_end f \<le> sf_start g) (detect_secrets content) \<and>
   list_all (\<lambda>f. sf_start f < sf_end f \<and> sf_end f \<le> length content \<and>
       sf_value f = slice content (sf_start f) (sf_end f) \<and>
       list_ex (\<lambda>g. sf_start g = sf_start f \<and> sf_pattern g = sf_pattern f) (raw_findings content))
     (detect_secrets content)"
proof -
  obtain le where "absorbed content (raw_findings content) (detect_secrets content, le)"
    using detect_secrets_absorbed by blast
  then show ?thesis
    by (auto simp: absorbed_def finding_ok_def list_all_iff list_ex_iff)
qed

text \<open>
  Every match of personal data is hit: the anonymized text is the text with the kept
  matches replaced by the neutral values of their types, whatever the mapping table already
  holds, and the first character of each match lies inside a kept one.
\<close>

theorem pii_masked:
  assumes "mapping_ok mt"
  shows "fst (anonymize_pii content mt) =
      (masked_text content (pii_marks (detect_pii content)), length (detect_pii content), pii_chars (detect_pii content)) \<and>
    list_all (\<lambda>p. covers (pii_marks (detect_pii content)) (pm_start p)) (raw_pii content)"
proof (rule conjI)
  show "fst (anonymize_pii content mt) =
      (masked_text content (pii_marks (detect_pii content)), length (detect_pii content), pii_chars (detect_pii content))"
    using assms by (rule anonymize_mask)
  define ps where "ps = sort_key (\<lambda>p. (pm_start p, type_order (pm_type p))) (raw_pii content)"
  have set: "set ps = set (raw_pii content)" by (simp add: ps_def)
  have srt: "sorted (map pm_start ps)"
  proof -
    have "sorted_wrt (\<lambda>a b. pm_start a \<le> pm_start b) ps"
      using sorted_sort_key [of "\<lambda>p. (pm_start p, type_order (pm_type p))" "raw_pii content"]
      unfolding sorted_map ps_def by (rule sorted_wrt_mono_rel [rotated]) (auto simp: less_eq_prod_def)
    then show ?thesis by (simp add: sorted_map)
  qed
  show "list_all (\<lambda>p. covers (pii_marks (detect_pii content)) (pm_start p)) (raw_pii content)"
  proof (cases "content = []")
    case True
    have "raw_pii content = []"
    proof (rule ccontr)
      assume "raw_pii content \<noteq> []"
      then obtain p where "p \<in> set (raw_pii content)" by (meson list.set_sel(1))
      from raw_pii_ok [OF this] True show False by auto
    qed
    then show ?thesis by simp
  next
    case False
    then have d: "detect_pii content = drop_overlaps (- 1) ps" by (simp only: detect_pii_def ps_def if_False)
    have "covers (pii_marks (detect_pii content)) (pm_start p)" if "p \<in> set (raw_pii content)" for p
    proof -
      have "\<forall>q \<in> set ps. pm_start q < pm_end q" using raw_pii_ok set by blast
      from drop_overlaps_meets [OF srt this, of p "- 1"] that set
      obtain q where "q \<in> set (detect_pii content)" "pm_start q \<le> pm_start p" "pm_start p < pm_end q"
        by (auto simp: d)
      then show ?thesis by (auto simp: covers_def pii_marks_def)
    qed
    then show ?thesis by (simp add: list_all_iff)
  qed
qed

lemma pii_masked_witness:
  "list_all (\<lambda>p. covers (pii_marks (detect_pii ''ip 10.0.0.7!'')) (pm_start p)) (raw_pii ''ip 10.0.0.7!'')"
  using pii_masked [OF mapping_ok_new [of 24 0], of "''ip 10.0.0.7!''"] by blast

text \<open>
  C13. The verdict is total and means what it says: a record passes unchanged only when no
  detector matched anything in it, a redacted one is the text masked first by the secrets
  and then by the personal data of the result, and a refused one ships nothing; a record
  with the no-federate tag is always refused.
\<close>

theorem moderate_sound:
  "\<exists>r. moderate threshold ttl now content tags = Inr r \<and>
     (case mr_verdict r of
        ALLOW \<Rightarrow> NO_FEDERATE_TAG \<notin> set tags \<and> mr_content r = content \<and>
          raw_findings content = [] \<and> detect_pii content = []
      | REDACT \<Rightarrow> NO_FEDERATE_TAG \<notin> set tags \<and>
          0 < length (raw_findings content) + mr_pii r \<and>
          mr_content r =
            (let redacted = masked_text content (marks (detect_secrets content))
             in masked_text redacted (pii_marks (detect_pii redacted)))
      | REFUSE \<Rightarrow> mr_content r = [])"
proof (cases "NO_FEDERATE_TAG \<in> set tags \<or> content = []")
  case True
  then show ?thesis
    by (auto simp: moderate_def mod_result_def raw_findings_Nil detect_pii_def)
next
  case False
  define red where "red = masked_text content (marks (detect_secrets content))"
  have r: "(if detect_secrets content = [] then Inr content else redact_content content (detect_secrets content)) = Inr red"
    by (simp add: redact_detected red_def marks_def)
  obtain mt where a: "anonymize_pii red (new_mapping ttl now) =
      ((masked_text red (pii_marks (detect_pii red)), length (detect_pii red), pii_chars (detect_pii red)), mt)"
    using anonymize_mask [OF mapping_ok_new] by (metis prod.collapse)
  show ?thesis
  proof (cases "detect_secrets content = [] \<and> detect_pii red = []")
    case True
    then have "red = content" by (simp add: red_def marks_def)
    with True False a r show ?thesis
      by (auto simp: moderate_def mod_result_def detect_secrets_Nil [symmetric] pii_marks_def marks_def)
  next
    case found: False
    then have "0 < length (detect_secrets content) \<or> 0 < length (detect_pii red)"
      by auto
    then show ?thesis
      using False found a r
      by (auto simp: moderate_def mod_result_def Let_def red_def [symmetric] detect_secrets_Nil)
  qed
qed

section \<open>What the personal-data patterns miss\<close>

text \<open>A path is only found after a word character: the boundary stands in front of the slash.\<close>

lemma unix_path_after_word:
  assumes "(a, e) \<in> set (finditer unix_path_rx s)"
  shows "0 < a \<and> word_at s (a - 1)"
proof -
  have "e \<in> set (ends unix_path_rx s a)" using assms by (rule finditer_matches)
  then have "boundary s a" and "ends (lit ''/'') s a \<noteq> []"
    by (auto simp: unix_path_rx_def seqs_def split: if_splits)
  moreover have "\<not> word_at s a"
    using calculation(2) by (auto simp: word_at_def lit_def chars_def in_ranges_def word_ranges_def split: if_splits)
  ultimately show ?thesis by (auto simp: boundary_def)
qed

end
