(* ===== verification/Compact.thy ===== *)
theory Compact
  imports Moderation Memory_Model
begin

text \<open>
  Compact exchange records, \<open>compact.py\<close>: truncation at a word boundary, key points, record
  types, titles, the record builder behind moderation and the export payload.
\<close>

definition MAX_TITLE_LEN :: nat where
  "MAX_TITLE_LEN = 256"

definition MAX_SUMMARY_LEN :: nat where
  "MAX_SUMMARY_LEN = 500"

definition MAX_KEY_POINTS :: nat where
  "MAX_KEY_POINTS = 5"

definition TYPE_MAP :: "(string \<times> string) list" where
  "TYPE_MAP =
     [(''decision'', ''decision''), (''learning'', ''learning''), (''bug-pattern'', ''bug-pattern''),
      (''rule'', ''rule''), (''open-question'', ''open-question''), (''checkpoint'', ''checkpoint''),
      (''session'', ''session''), (''legacy'', ''session''), (''synthesized'', ''session'')]"

definition DEFAULT_TYPE :: string where
  "DEFAULT_TYPE = ''session''"

text \<open>The two line patterns up to their group, and the group with the end of the line.  The
  bullet sign above code point 255 is outside the model's texts.\<close>

definition BULLET_RE :: "rx \<times> rx" where
  "BULLET_RE = (seqs [Bol, star (Cls False space_ranges), chars ''-*'', plus (Cls False space_ranges)],
                seqs [plus (Cls True [(10, 10)]), Eol])"

definition NUMBERED_RE :: "rx \<times> rx" where
  "NUMBERED_RE = (seqs [Bol, star (Cls False space_ranges), plus (Cls False [(48, 57)]), lit ''.'',
                        plus (Cls False space_ranges)],
                  seqs [plus (Cls True [(10, 10)]), Eol])"

text \<open>The group of every match, as \<open>finditer\<close> and \<open>group(1)\<close> give it.\<close>

fun group_scan :: "rx \<Rightarrow> rx \<Rightarrow> string \<Rightarrow> nat \<Rightarrow> nat \<Rightarrow> string list" where
  "group_scan pre body s 0 i = []"
| "group_scan pre body s (Suc n) i =
     (case concat (map (\<lambda>j. map (Pair j) (ends body s j)) (ends pre s i)) of
        [] \<Rightarrow> group_scan pre body s n (Suc i)
      | (j, e) # _ \<Rightarrow> slice s j e # group_scan pre body s n (max e (Suc i)))"

definition groups :: "rx \<times> rx \<Rightarrow> string \<Rightarrow> string list" where
  "groups r s = group_scan (fst r) (snd r) s (Suc (length s)) 0"

record compact_record =
  cr_id :: string
  cr_type :: string
  cr_title :: string
  cr_summary :: string
  cr_key_points :: "string list"
  cr_tags :: "string list"
  cr_source_agent :: string
  cr_timestamp :: string

text \<open>\<open>text.rfind(" ", 0, cut_at)\<close>; \<open>-1\<close> when there is none.\<close>

definition rfind_space :: "string \<Rightarrow> nat \<Rightarrow> int" where
  "rfind_space s cut_at =
     (let spaces = filter (\<lambda>i. s ! i = CHR '' '') [0..<min cut_at (length s)]
      in if spaces = [] then - 1 else int (last spaces))"

definition truncate_at_word_boundary :: "string \<Rightarrow> nat \<Rightarrow> string" where
  "truncate_at_word_boundary s max_len =
     (if length s \<le> max_len then s
      else if int max_len - 3 \<le> 0 then ''...''
      else
        (let cut_at = max_len - 3; boundary = rfind_space s cut_at
         in if boundary \<le> 0 then take cut_at s @ ''...'' else take (nat boundary) s @ ''...''))"

definition summarize_content :: "string \<Rightarrow> string" where
  "summarize_content content = truncate_at_word_boundary content MAX_SUMMARY_LEN"

definition truncate_title :: "string \<Rightarrow> string" where
  "truncate_title s = truncate_at_word_boundary s MAX_TITLE_LEN"

text \<open>One of the two line loops: collects stripped non-empty texts, and says whether it returned
  from inside the loop because there were enough.\<close>

fun collect_points :: "nat \<Rightarrow> string list \<Rightarrow> string list \<Rightarrow> string list \<times> bool" where
  "collect_points max_points [] points = (points, False)"
| "collect_points max_points (t # ts) points =
     (let text = strip t; points' = (if text \<noteq> [] then points @ [text] else points)
      in if max_points \<le> length points' then (points', True)
         else collect_points max_points ts points')"

text \<open>\<open>content.split(". ")\<close>\<close>

fun split_sentences :: "string \<Rightarrow> string list" where
  "split_sentences [] = [[]]"
| "split_sentences [c] = [[c]]"
| "split_sentences (c # d # s) =
     (if c = CHR ''.'' \<and> d = CHR '' '' then [] # split_sentences s
      else (case split_sentences (d # s) of p # ps \<Rightarrow> (c # p) # ps | [] \<Rightarrow> [[c]]))"

definition ends_with_stop :: "string \<Rightarrow> bool" where
  "ends_with_stop s \<longleftrightarrow> s \<noteq> [] \<and> last s \<in> set ''.!?''"

definition extract_key_points :: "nat \<Rightarrow> string \<Rightarrow> string list" where
  "extract_key_points max_points content =
     (if content = [] then []
      else
        (case collect_points max_points (groups BULLET_RE content) [] of
           (points, True) \<Rightarrow> points
         | (points, False) \<Rightarrow>
             if points \<noteq> [] then points
             else
               (case collect_points max_points (groups NUMBERED_RE content) points of
                  (points, True) \<Rightarrow> points
                | (points, False) \<Rightarrow>
                    if points \<noteq> [] then points
                    else
                      (let sentences = filter (\<lambda>s. s \<noteq> []) (map strip (split_sentences content))
                       in map (\<lambda>s. if ends_with_stop s then s else s @ ''.'') (take 2 sentences)))))"

fun derive_record_type :: "string list \<Rightarrow> string" where
  "derive_record_type [] = DEFAULT_TYPE"
| "derive_record_type (tag # tags) =
     (if \<not> starts_with tag ''mnemos:'' then derive_record_type tags
      else (let suffix = drop (length ''mnemos:'') tag in
            if suffix = ''no-federate'' then derive_record_type tags
            else (case map_of TYPE_MAP suffix of Some t \<Rightarrow> t | None \<Rightarrow> derive_record_type tags)))"

text \<open>An aware UTC stamp always ends in \<open>+00:00\<close>.\<close>

definition memory_timestamp :: "moment \<Rightarrow> string" where
  "memory_timestamp created_at =
     (let iso = isoformat created_at in take (length iso - 6) iso @ ''Z'')"

definition derive_title :: "memory \<Rightarrow> string \<Rightarrow> string" where
  "derive_title m content_source =
     (if truthy (m_title m) then truncate_title (the (m_title m))
      else
        (let first_line =
               strip (lstrip_chars ''# '' (hd (split_on (CHR 0x0A) (strip content_source))))
         in if first_line \<noteq> [] then truncate_title first_line else truncate_title (auto_title m)))"

definition build_compact_record :: "memory \<Rightarrow> string \<Rightarrow> moderation_result \<Rightarrow> compact_record option" where
  "build_compact_record m source_agent result =
     (if mr_verdict result = REFUSE then None
      else
        (let content_source =
               (if mr_verdict result = REDACT then mr_content result else m_content m)
         in Some
           \<lparr>cr_id = ''fed:'' @ source_agent @ '':'' @ m_id m,
            cr_type = derive_record_type (m_tags m),
            cr_title = derive_title m content_source,
            cr_summary = summarize_content content_source,
            cr_key_points = extract_key_points MAX_KEY_POINTS content_source,
            cr_tags = filter (\<lambda>t. t \<noteq> NO_FEDERATE_TAG) (m_tags m),
            cr_source_agent = source_agent,
            cr_timestamp = memory_timestamp (m_created_at m)\<rparr>))"

record payload_stats =
  py_total :: nat
  py_exported :: nat
  py_refused :: nat
  py_secrets :: nat
  py_pii :: nat

fun payload_loop ::
  "rat \<Rightarrow> moment \<Rightarrow> string \<Rightarrow> memory list \<Rightarrow> compact_record list \<times> nat \<times> nat \<times> nat \<Rightarrow>
   overlap_error + compact_record list \<times> nat \<times> nat \<times> nat" where
  "payload_loop threshold now source_agent [] acc = Inr acc"
| "payload_loop threshold now source_agent (m # ms) (records, refused, secrets, pii) =
     (case moderate threshold 24 now (m_content m) (m_tags m) of
        Inl err \<Rightarrow> Inl err
      | Inr result \<Rightarrow>
          (case build_compact_record m source_agent result of
             None \<Rightarrow> payload_loop threshold now source_agent ms (records, refused + 1, secrets, pii)
           | Some r \<Rightarrow>
               payload_loop threshold now source_agent ms
                 (records @ [r], refused, secrets + mr_secrets result, pii + mr_pii result)))"

definition build_compact_payload ::
  "rat \<Rightarrow> moment \<Rightarrow> string \<Rightarrow> memory list \<Rightarrow> overlap_error + compact_record list \<times> payload_stats" where
  "build_compact_payload threshold now source_agent memories =
     (case payload_loop threshold now source_agent memories ([], 0, 0, 0) of
        Inl err \<Rightarrow> Inl err
      | Inr (records, refused, secrets, pii) \<Rightarrow>
          Inr (records, \<lparr>py_total = length memories, py_exported = length records,
                         py_refused = refused, py_secrets = secrets, py_pii = pii\<rparr>))"

section \<open>Truncation\<close>

lemma rfind_space_bound: "rfind_space s cut_at < int cut_at \<or> rfind_space s cut_at = - 1"
proof (cases "filter (\<lambda>i. s ! i = CHR '' '') [0..<min cut_at (length s)] = []")
  case False
  then have "last (filter (\<lambda>i. s ! i = CHR '' '') [0..<min cut_at (length s)]) \<in> {0..<min cut_at (length s)}"
    using last_in_set by fastforce
  then show ?thesis by (simp add: rfind_space_def Let_def)
qed (simp add: rfind_space_def)

lemma rfind_space_at:
  assumes "0 \<le> rfind_space s cut_at"
  shows "nat (rfind_space s cut_at) < length s \<and> s ! nat (rfind_space s cut_at) = CHR '' ''"
proof -
  have ne: "filter (\<lambda>i. s ! i = CHR '' '') [0..<min cut_at (length s)] \<noteq> []"
    using assms by (auto simp: rfind_space_def Let_def)
  with last_in_set [OF ne] show ?thesis by (simp add: rfind_space_def Let_def)
qed

lemma truncate_length: "3 \<le> n \<Longrightarrow> length (truncate_at_word_boundary s n) \<le> n"
  using rfind_space_bound [of s "n - 3"]
  by (auto simp: truncate_at_word_boundary_def Let_def)

lemma collect_points_bound:
  assumes "length points < n"
  shows "length (fst (collect_points n ts points)) \<le> n \<and>
    (\<forall>p \<in> set (fst (collect_points n ts points)). p \<in> set points \<or> (p \<noteq> [] \<and> p \<in> strip ` set ts))"
  using assms
proof (induction n ts points rule: collect_points.induct)
  case (2 n t ts points)
  define q where "q = (if strip t \<noteq> [] then points @ [strip t] else points)"
  show ?case
  proof (cases "n \<le> length q")
    case True
    then show ?thesis using 2(2) by (auto simp: q_def Let_def)
  next
    case False
    then have "collect_points n (t # ts) points = collect_points n ts q" by (simp add: q_def Let_def)
    with 2(1) [OF refl q_def] False show ?thesis by (fastforce simp: q_def split: if_splits)
  qed
qed simp

lemma extract_key_points_bound:
  assumes "2 \<le> n"
  shows "length (extract_key_points n content) \<le> n \<and> [] \<notin> set (extract_key_points n content)"
proof -
  have b: "length (fst (collect_points n (groups r content) [])) \<le> n \<and>
      [] \<notin> set (fst (collect_points n (groups r content) []))" for r
    using collect_points_bound [of "[]" n "groups r content"] assms by auto
  define sent where "sent = map (\<lambda>s. if ends_with_stop s then s else s @ ''.'')
      (take 2 (filter (\<lambda>s. s \<noteq> []) (map strip (split_sentences content))))"
  have s: "length sent \<le> n" "[] \<notin> set sent"
    using assms by (auto simp: sent_def ends_with_stop_def dest: in_set_takeD)
  show ?thesis
    using b [of BULLET_RE] b [of NUMBERED_RE] s
    by (cases "collect_points n (groups BULLET_RE content) []";
        cases "collect_points n (groups NUMBERED_RE content) []")
       (auto simp: extract_key_points_def sent_def [symmetric] Let_def split: bool.split)
qed

section \<open>Properties\<close>

text \<open>
  A truncation is short and honest: it never exceeds the limit, a text that fits is
  unchanged, and otherwise the result is a proper prefix of the text, ended before one of
  its spaces or at the hard limit, followed by three dots.
\<close>

theorem truncate_word_boundary:
  assumes "3 < n"
  shows "length (truncate_at_word_boundary s n) \<le> n \<and>
    (if length s \<le> n then truncate_at_word_boundary s n = s
     else \<exists>k. truncate_at_word_boundary s n = take k s @ ''...'' \<and> 0 < k \<and> k \<le> n - 3 \<and>
              (k = n - 3 \<or> s ! k = CHR '' ''))"
proof (rule conjI)
  show "length (truncate_at_word_boundary s n) \<le> n" using assms by (intro truncate_length) simp
  show "if length s \<le> n then truncate_at_word_boundary s n = s
     else \<exists>k. truncate_at_word_boundary s n = take k s @ ''...'' \<and> 0 < k \<and> k \<le> n - 3 \<and>
              (k = n - 3 \<or> s ! k = CHR '' '')"
  proof (cases "length s \<le> n")
    case False
    show ?thesis
    proof (cases "rfind_space s (n - 3) \<le> 0")
      case True
      with False assms show ?thesis
        by (auto simp: truncate_at_word_boundary_def Let_def intro!: exI [of _ "n - 3"])
    next
      case pos: False
      have "truncate_at_word_boundary s n = take (nat (rfind_space s (n - 3))) s @ ''...''"
        using False pos assms by (simp add: truncate_at_word_boundary_def Let_def)
      moreover have "0 < nat (rfind_space s (n - 3)) \<and> nat (rfind_space s (n - 3)) \<le> n - 3"
        using pos rfind_space_bound [of s "n - 3"] by auto
      moreover have "s ! nat (rfind_space s (n - 3)) = CHR '' ''" using pos by (simp add: rfind_space_at)
      ultimately show ?thesis using False by auto
    qed
  qed (simp add: truncate_at_word_boundary_def)
qed

lemma truncate_word_boundary_witness:
  "length (truncate_at_word_boundary ''one two three'' 10) \<le> (10::nat)"
  using truncate_word_boundary [of 10 "''one two three''"] by simp

text \<open>A compact record keeps its contract: none is built for a refused memory; one that is
  built has a title of at most 256 and a summary of at most 500 characters, at most five
  key points, none of them empty, never the no-federate tag, and an identifier under the
  federation prefix of its agent.
\<close>

theorem compact_record_contract:
  "case build_compact_record m source_agent result of
     None \<Rightarrow> mr_verdict result = REFUSE
   | Some r \<Rightarrow> mr_verdict result \<noteq> REFUSE \<and>
       length (cr_title r) \<le> 256 \<and> length (cr_summary r) \<le> 500 \<and>
       length (cr_key_points r) \<le> 5 \<and> [] \<notin> set (cr_key_points r) \<and>
       NO_FEDERATE_TAG \<notin> set (cr_tags r) \<and> set (cr_tags r) \<subseteq> set (m_tags m) \<and>
       cr_id r = ''fed:'' @ source_agent @ '':'' @ m_id m \<and>
       cr_summary r = summarize_content (if mr_verdict result = REDACT then mr_content result else m_content m)"
proof -
  have t: "length (truncate_title s) \<le> 256" for s
    using truncate_length [of 256 s] by (simp add: truncate_title_def MAX_TITLE_LEN_def)
  have "length (derive_title m s) \<le> 256" for s
    by (simp add: derive_title_def Let_def t)
  moreover have "length (summarize_content s) \<le> 500" for s
    using truncate_length [of 500 s] by (simp add: summarize_content_def MAX_SUMMARY_LEN_def)
  moreover have "length (extract_key_points 5 s) \<le> 5 \<and> [] \<notin> set (extract_key_points 5 s)" for s
    by (rule extract_key_points_bound) simp
  ultimately show ?thesis
    by (auto simp: build_compact_record_def Let_def MAX_KEY_POINTS_def)
qed

definition shipped :: "rat \<Rightarrow> moment \<Rightarrow> string \<Rightarrow> memory \<Rightarrow> compact_record option" where
  "shipped threshold now source_agent m =
     (case moderate threshold 24 now (m_content m) (m_tags m) of
        Inl _ \<Rightarrow> None | Inr result \<Rightarrow> build_compact_record m source_agent result)"

lemma moderate_total: "\<exists>r. moderate threshold ttl now content tags = Inr r"
  by (cases "moderate threshold ttl now content tags")
     (auto simp: moderate_def Let_def redact_detected split: if_splits prod.splits)

lemma moderate_no_federate:
  "NO_FEDERATE_TAG \<in> set tags \<Longrightarrow> moderate threshold ttl now content tags = Inr (mod_result REFUSE [] 0 0)"
  by (simp add: moderate_def)

lemma payload_loop_records:
  "\<exists>sec pii. payload_loop threshold now agent ms (recs, refused, s, p) =
     Inr (recs @ List.map_filter (shipped threshold now agent) ms,
          refused + length (filter (\<lambda>m. shipped threshold now agent m = None) ms), sec, pii)"
proof (induction ms arbitrary: recs refused s p)
  case (Cons m ms)
  obtain r where r: "moderate threshold 24 now (m_content m) (m_tags m) = Inr r" using moderate_total by blast
  show ?case
  proof (cases "build_compact_record m agent r")
    case None
    with r Cons.IH [of recs "refused + 1" s p] show ?thesis
      by (auto simp: shipped_def List.map_filter_simps)
  next
    case (Some c)
    with r Cons.IH [of "recs @ [c]" refused "s + mr_secrets r" "p + mr_pii r"] show ?thesis
      by (auto simp: shipped_def List.map_filter_simps)
  qed
qed (simp add: List.map_filter_simps)

text \<open>
  The export ships exactly what moderation lets through: every memory is counted once as
  exported or refused, the records are those of the memories that were not refused, in
  order, and a memory with the no-federate tag contributes none.
\<close>

theorem payload_exact:
  "\<exists>records stats. build_compact_payload threshold now source_agent memories = Inr (records, stats) \<and>
     records = List.map_filter (shipped threshold now source_agent) memories \<and>
     py_total stats = length memories \<and> py_exported stats = length records \<and>
     py_exported stats + py_refused stats = py_total stats \<and>
     List.map_filter (shipped threshold now source_agent)
       (filter (\<lambda>m. NO_FEDERATE_TAG \<in> set (m_tags m)) memories) = []"
proof -
  have nf: "List.map_filter (shipped threshold now source_agent)
       (filter (\<lambda>m. NO_FEDERATE_TAG \<in> set (m_tags m)) ms) = []" for ms
    by (induction ms)
       (auto simp: List.map_filter_simps shipped_def moderate_no_federate mod_result_def build_compact_record_def)
  have len: "length (List.map_filter f ms) + length (filter (\<lambda>m. f m = None) ms) = length ms"
    for f :: "memory \<Rightarrow> compact_record option" and ms
    by (induction ms) (auto simp: List.map_filter_simps split: option.split)
  obtain sec pii where "payload_loop threshold now source_agent memories ([], 0, 0, 0) =
      Inr (List.map_filter (shipped threshold now source_agent) memories,
           length (filter (\<lambda>m. shipped threshold now source_agent m = None) memories), sec, pii)"
    using payload_loop_records [of threshold now source_agent memories "[]" 0 0 0] by auto
  with nf len [of "shipped threshold now source_agent" memories] show ?thesis
    by (simp add: build_compact_payload_def)
qed

text \<open>A set title is shipped as it is stored: moderation sees the content only.\<close>

lemma title_not_moderated:
  assumes "m_title m = Some t" "t \<noteq> []" "length t \<le> 256" "build_compact_record m agent result = Some r"
  shows "cr_title r = t"
  using assms
  by (auto simp: build_compact_record_def derive_title_def truthy_def truncate_title_def
      truncate_at_word_boundary_def MAX_TITLE_LEN_def Let_def split: if_splits)

end
