(* ===== verification/Federation_Index.thy ===== *)
theory Federation_Index
  imports Memory_Store Compact
begin

text \<open>
  The federation metadata index: the import gate, the last-writer-wins merge, the cursor
  walk and the poll watermarks of \<open>storage/sqlite_store.py\<close>, the entry schema of
  \<open>compact.py\<close>, and the poller \<open>meta_poller.py\<close> that drains a peer into the index.

  Timestamps of entries are texts and compared as texts, as SQL does.  The mesh command line
  (\<open>fetch\<close>), Python's \<open>re.search\<close> (\<open>search\<close>) and the clock's text (\<open>now\<close>) are parameters.
  A failure of the mesh command ends a pass; the database itself does not fail inside one.
\<close>

section \<open>Entries\<close>

record fed_entry =
  fe_id :: string
  fe_type :: string
  fe_title :: string
  fe_tags :: "string list"
  fe_project :: string
  fe_source_agent :: string
  fe_source_peer :: string
  fe_origin_peer :: string
  fe_content_state :: string
  fe_timestamp :: string
  fe_schema_version :: string
  fe_received_at :: string

definition CONTENT_STATES :: "string list" where
  "CONTENT_STATES = [''available'', ''tombstoned'']"

text \<open>What \<open>FederationIndexEntry.model_validate\<close> checks.\<close>

definition valid_entry :: "fed_entry \<Rightarrow> bool" where
  "valid_entry e \<longleftrightarrow> 1 \<le> length (fe_id e) \<and> length (fe_id e) \<le> 512 \<and>
     length (fe_title e) \<le> MAX_TITLE_LEN \<and> fe_content_state e \<in> set CONTENT_STATES"

definition title_matches_blocklist :: "(string \<Rightarrow> string \<Rightarrow> bool) \<Rightarrow> string \<Rightarrow> string list \<Rightarrow> bool" where
  "title_matches_blocklist search title patterns = list_ex (\<lambda>p. search p title) patterns"

section \<open>The index table\<close>

record index_row =
  ix_rowid :: nat
  ix_entry :: fed_entry

abbreviation ix_id :: "index_row \<Rightarrow> string" where
  "ix_id r \<equiv> fe_id (ix_entry r)"

definition next_index_rowid :: "index_row list \<Rightarrow> nat" where
  "next_index_rowid t = Suc (foldr (\<lambda>r n. max (ix_rowid r) n) t 0)"

record upsert_stats =
  us_written :: nat
  us_refused :: nat
  us_stale :: nat

datatype verdict = Written | Refused | Stale

definition refused_tag :: string where
  "refused_tag = ''mnemos:no-federate''"

text \<open>The origin an entry is stored or matched under; the re-stamp of a foreign claim.\<close>

definition incoming_origin :: "string option \<Rightarrow> fed_entry \<Rightarrow> string" where
  "incoming_origin sender e =
     (case sender of
        Some s \<Rightarrow> if fe_origin_peer e = [] \<or> fe_origin_peer e = ''self'' then s else fe_origin_peer e
      | None \<Rightarrow> fe_origin_peer e)"

text \<open>The conflict path: who may mutate a stored row.\<close>

definition may_mutate :: "string option \<Rightarrow> fed_entry \<Rightarrow> fed_entry \<Rightarrow> bool" where
  "may_mutate sender e stored \<longleftrightarrow>
     (case sender of
        Some s \<Rightarrow> fe_origin_peer stored = s
      | None \<Rightarrow> fe_origin_peer stored = incoming_origin sender e)"

definition stamped :: "string \<Rightarrow> string \<Rightarrow> fed_entry \<Rightarrow> fed_entry" where
  "stamped now origin e =
     e\<lparr>fe_origin_peer := origin,
       fe_received_at := (if fe_received_at e = [] then now else fe_received_at e)\<rparr>"

definition upsert_entry ::
  "(string \<Rightarrow> string \<Rightarrow> bool) \<Rightarrow> string \<Rightarrow> string option \<Rightarrow> string list \<Rightarrow> fed_entry \<Rightarrow>
   index_row list \<Rightarrow> verdict \<times> index_row list" where
  "upsert_entry search now sender blocklist e t =
     (if refused_tag \<in> set (fe_tags e) then (Refused, t)
      else if blocklist \<noteq> [] \<and> title_matches_blocklist search (fe_title e) blocklist then (Refused, t)
      else (case row_find ix_id (fe_id e) t of
              None \<Rightarrow>
                (Written, t @ [\<lparr>ix_rowid = next_index_rowid t,
                                ix_entry = stamped now (incoming_origin sender e) e\<rparr>])
            | Some r \<Rightarrow>
                if \<not> may_mutate sender e (ix_entry r) then (Refused, t)
                else if fe_timestamp (ix_entry r) \<le> fe_timestamp e then
                  (Written, rows_update (\<lambda>q. ix_id q = fe_id e)
                     (\<lambda>q. q\<lparr>ix_entry := stamped now (fe_origin_peer (ix_entry q)) e\<rparr>) t)
                else (Stale, t)))"

fun upsert_loop ::
  "(string \<Rightarrow> string \<Rightarrow> bool) \<Rightarrow> string \<Rightarrow> string option \<Rightarrow> string list \<Rightarrow> fed_entry list \<Rightarrow>
   index_row list \<Rightarrow> verdict list \<times> index_row list" where
  "upsert_loop search now sender blocklist [] t = ([], t)"
| "upsert_loop search now sender blocklist (e # es) t =
     (case upsert_entry search now sender blocklist e t of
        (v, t1) \<Rightarrow>
          (case upsert_loop search now sender blocklist es t1 of (vs, t2) \<Rightarrow> (v # vs, t2)))"

definition upsert_index_entries ::
  "(string \<Rightarrow> string \<Rightarrow> bool) \<Rightarrow> string \<Rightarrow> string option \<Rightarrow> string list \<Rightarrow> fed_entry list \<Rightarrow>
   index_row list \<Rightarrow> upsert_stats \<times> index_row list" where
  "upsert_index_entries search now sender blocklist es t =
     (case upsert_loop search now sender blocklist es t of
        (vs, t1) \<Rightarrow>
          (let written = length (filter (\<lambda>v. v = Written) vs);
               refused = length (filter (\<lambda>v. v = Refused) vs)
           in (\<lparr>us_written = written, us_refused = refused,
                us_stale = length es - written - refused\<rparr>, t1)))"

definition in_filter :: "string list \<Rightarrow> string \<Rightarrow> bool" where
  "in_filter xs x \<longleftrightarrow> xs = [] \<or> x \<in> set xs"

definition index_scope :: "string list \<Rightarrow> string list \<Rightarrow> string \<Rightarrow> bool \<Rightarrow> fed_entry \<Rightarrow> bool" where
  "index_scope origin_peers projects since exclude_no_federate e \<longleftrightarrow>
     in_filter origin_peers (fe_origin_peer e) \<and> in_filter projects (fe_project e) \<and>
     (since = [] \<or> since \<le> fe_timestamp e) \<and>
     (exclude_no_federate \<longrightarrow> refused_tag \<notin> set (fe_tags e))"

definition list_index ::
  "int \<Rightarrow> string list \<Rightarrow> string list \<Rightarrow> string \<Rightarrow> int \<Rightarrow> bool \<Rightarrow> index_row list \<Rightarrow>
   (fed_entry \<times> nat) list" where
  "list_index limit origin_peers projects since after_rowid exclude_no_federate t =
     map (\<lambda>r. (ix_entry r, ix_rowid r))
       (sql_limit limit (order_asc ix_rowid
         (filter (\<lambda>r. index_scope origin_peers projects since exclude_no_federate (ix_entry r) \<and>
                      (0 < after_rowid \<longrightarrow> after_rowid < int (ix_rowid r))) t)))"

definition get_index_entries :: "string list \<Rightarrow> index_row list \<Rightarrow> string \<rightharpoonup> fed_entry" where
  "get_index_entries fed_ids t =
     (\<lambda>i. if i \<in> set fed_ids then map_option ix_entry (row_find ix_id i t) else None)"

definition index_head :: "string list \<Rightarrow> index_row list \<Rightarrow> nat" where
  "index_head projects t =
     foldr (\<lambda>r n. max (ix_rowid r) n) (filter (\<lambda>r. in_filter projects (fe_project (ix_entry r))) t) 0"

definition purge_origin :: "string \<Rightarrow> index_row list \<Rightarrow> nat \<times> index_row list" where
  "purge_origin peer t =
     (rowcount (\<lambda>r. fe_origin_peer (ix_entry r) = peer) t,
      rows_delete (\<lambda>r. fe_origin_peer (ix_entry r) = peer) t)"

section \<open>Poll watermarks\<close>

record poll_state_row =
  ps_peer_id :: string
  ps_since_rev :: int
  ps_last_ok_at :: string
  ps_last_error :: string

definition POLL_STATE_ERROR_MAX_LEN :: nat where
  "POLL_STATE_ERROR_MAX_LEN = 512"

definition get_poll_state :: "poll_state_row list \<Rightarrow> string \<Rightarrow> poll_state_row option" where
  "get_poll_state ps peer_id = row_find ps_peer_id peer_id ps"

definition mark_poll_ok :: "string \<Rightarrow> int \<Rightarrow> string \<Rightarrow> poll_state_row list \<Rightarrow> poll_state_row list" where
  "mark_poll_ok peer_id since_rev now ps =
     (if row_find ps_peer_id peer_id ps = None
      then ps @ [\<lparr>ps_peer_id = peer_id, ps_since_rev = since_rev, ps_last_ok_at = now, ps_last_error = []\<rparr>]
      else rows_update (\<lambda>r. ps_peer_id r = peer_id)
             (\<lambda>r. r\<lparr>ps_since_rev := since_rev, ps_last_ok_at := now, ps_last_error := []\<rparr>) ps)"

definition mark_poll_error :: "string \<Rightarrow> string \<Rightarrow> poll_state_row list \<Rightarrow> poll_state_row list" where
  "mark_poll_error peer_id err ps =
     (let e = take POLL_STATE_ERROR_MAX_LEN err
      in if row_find ps_peer_id peer_id ps = None
         then ps @ [\<lparr>ps_peer_id = peer_id, ps_since_rev = 0, ps_last_ok_at = [], ps_last_error = e\<rparr>]
         else rows_update (\<lambda>r. ps_peer_id r = peer_id) (\<lambda>r. r\<lparr>ps_last_error := e\<rparr>) ps)"

section \<open>The poller\<close>

definition META_POLL_BATCH :: nat where
  "META_POLL_BATCH = 200"

definition META_POLL_MAX_PAGES :: nat where
  "META_POLL_MAX_PAGES = 10"

text \<open>A record of a page is an entry, or \<open>None\<close> when it has not even the shape of one.\<close>

record sync_page =
  pg_records :: "fed_entry option list"
  pg_latest_rev :: int
  pg_has_more :: bool

record poll_result =
  po_peer_id :: string
  po_fetched :: nat
  po_accepted :: nat
  po_rejected_by_gate :: nat
  po_stale :: nat
  po_pages :: nat
  po_latest_rev :: int
  po_error :: "string option"

record fed_state =
  fs_index :: "index_row list"
  fs_poll :: "poll_state_row list"

definition parse_entries :: "fed_entry option list \<Rightarrow> fed_entry list \<times> nat" where
  "parse_entries records =
     (let ok = filter valid_entry (List.map_filter id records) in (ok, length records - length ok))"

function chunks :: "nat \<Rightarrow> 'a list \<Rightarrow> 'a list list" where
  "chunks n xs = (if xs = [] \<or> n = 0 then [] else take n xs # chunks n (drop n xs))"
  by pat_completeness auto
termination
  by (relation "measure (\<lambda>(n, xs). length xs)") auto

declare chunks.simps [simp del]

fun import_batches ::
  "(string \<Rightarrow> string \<Rightarrow> bool) \<Rightarrow> string \<Rightarrow> string \<Rightarrow> string list \<Rightarrow> fed_entry list list \<Rightarrow>
   index_row list \<Rightarrow> (nat \<times> nat \<times> nat) \<times> index_row list" where
  "import_batches search now peer blocklist [] t = ((0, 0, 0), t)"
| "import_batches search now peer blocklist (b # bs) t =
     (case upsert_index_entries search now (Some peer) blocklist b t of
        (s, t1) \<Rightarrow>
          (case import_batches search now peer blocklist bs t1 of
             ((w, r, o'), t2) \<Rightarrow> ((us_written s + w, us_refused s + r, us_stale s + o'), t2)))"

text \<open>
  The page loop, at most \<open>n\<close> more pages.  \<open>fetch k since\<close> is the answer of the mesh command
  to the \<open>k\<close>-th request: a page, or the reason of a failure.
\<close>

fun poll_pages ::
  "(nat \<Rightarrow> int \<Rightarrow> string + sync_page) \<Rightarrow> (string \<Rightarrow> string \<Rightarrow> bool) \<Rightarrow> string \<Rightarrow> string list \<Rightarrow>
   string \<Rightarrow> nat \<Rightarrow> int \<Rightarrow> poll_result \<Rightarrow> fed_state \<Rightarrow> poll_result \<times> fed_state" where
  "poll_pages fetch search now blocklist peer 0 since_rev res st = (res, st)"
| "poll_pages fetch search now blocklist peer (Suc n) since_rev res st =
     (case fetch (po_pages res) since_rev of
        Inl reason \<Rightarrow>
          (res\<lparr>po_error := Some reason\<rparr>, st\<lparr>fs_poll := mark_poll_error peer reason (fs_poll st)\<rparr>)
      | Inr page \<Rightarrow>
          (case parse_entries (pg_records page) of
             (entries, invalid) \<Rightarrow>
               (case import_batches search now peer blocklist (chunks META_POLL_BATCH entries)
                       (fs_index st) of
                  ((accepted, refused, stale), t) \<Rightarrow>
                    (let rev = max since_rev (pg_latest_rev page);
                         st1 = st\<lparr>fs_index := t, fs_poll := mark_poll_ok peer rev now (fs_poll st)\<rparr>;
                         res1 = res\<lparr>po_fetched := po_fetched res + length (pg_records page),
                                    po_accepted := po_accepted res + accepted,
                                    po_rejected_by_gate := po_rejected_by_gate res + refused + invalid,
                                    po_stale := po_stale res + stale,
                                    po_pages := po_pages res + 1,
                                    po_latest_rev := rev\<rparr>
                     in if pg_has_more page
                        then poll_pages fetch search now blocklist peer n rev res1 st1
                        else (res1, st1)))))"

definition poll_peer ::
  "(nat \<Rightarrow> int \<Rightarrow> string + sync_page) \<Rightarrow> (string \<Rightarrow> string \<Rightarrow> bool) \<Rightarrow> string \<Rightarrow> string list \<Rightarrow>
   string \<Rightarrow> fed_state \<Rightarrow> poll_result \<times> fed_state" where
  "poll_peer fetch search now blocklist peer st =
     (let since_rev = (case get_poll_state (fs_poll st) peer of None \<Rightarrow> 0 | Some r \<Rightarrow> ps_since_rev r)
      in poll_pages fetch search now blocklist peer META_POLL_MAX_PAGES since_rev
           \<lparr>po_peer_id = peer, po_fetched = 0, po_accepted = 0, po_rejected_by_gate = 0, po_stale = 0,
            po_pages = 0, po_latest_rev = since_rev, po_error = None\<rparr> st)"

section \<open>The merge\<close>

definition index_ok :: "index_row list \<Rightarrow> bool" where
  "index_ok t \<longleftrightarrow> distinct (map ix_id t) \<and> sorted_wrt (<) (0 # map ix_rowid t)"

lemma next_index_rowid_bound: "r \<in> set t \<Longrightarrow> ix_rowid r < next_index_rowid t"
proof -
  have "r \<in> set t \<Longrightarrow> ix_rowid r \<le> foldr (\<lambda>r n. max (ix_rowid r) n) t 0"
    by (induction t) auto
  then show "r \<in> set t \<Longrightarrow> ix_rowid r < next_index_rowid t" by (simp add: next_index_rowid_def)
qed

lemma stamped_id [simp]: "fe_id (stamped now o' e) = fe_id e"
  by (simp add: stamped_def)

lemma ids_replaced:
  "map ix_id (rows_update (\<lambda>q. ix_id q = fe_id e) (\<lambda>q. q\<lparr>ix_entry := stamped now (f q) e\<rparr>) t) = map ix_id t"
  by (induction t) (auto simp: rows_update_def)

lemma index_ok_entry: "index_ok t \<Longrightarrow> index_ok (snd (upsert_entry search now sender bl e t))"
proof (cases "row_find ix_id (fe_id e) t")
  case None
  then have new: "fe_id e \<notin> ix_id ` set t" by (simp add: row_find_None_iff)
  assume "index_ok t"
  with new have "index_ok (t @ [\<lparr>ix_rowid = next_index_rowid t, ix_entry = stamped now (incoming_origin sender e) e\<rparr>])"
    by (auto simp: index_ok_def sorted_wrt_append next_index_rowid_bound) (simp add: next_index_rowid_def)
  with None \<open>index_ok t\<close> show ?thesis by (simp add: upsert_entry_def)
next
  case (Some r)
  assume ok: "index_ok t"
  define t' where "t' = rows_update (\<lambda>q. ix_id q = fe_id e)
      (\<lambda>q. q\<lparr>ix_entry := stamped now (fe_origin_peer (ix_entry q)) e\<rparr>) t"
  have "map ix_rowid t' = map ix_rowid t" unfolding t'_def by (rule map_key_update) simp
  then have "index_ok t'"
    using ok unfolding index_ok_def t'_def ids_replaced by simp
  then show ?thesis
    using ok Some by (simp add: upsert_entry_def t'_def)
qed

lemma find_entry:
  "row_find ix_id k (snd (upsert_entry search now sender bl e t)) =
     (if k = fe_id e \<and> fst (upsert_entry search now sender bl e t) = Written
      then Some (case row_find ix_id k t of
                   None \<Rightarrow> \<lparr>ix_rowid = next_index_rowid t, ix_entry = stamped now (incoming_origin sender e) e\<rparr>
                 | Some r \<Rightarrow> r\<lparr>ix_entry := stamped now (fe_origin_peer (ix_entry r)) e\<rparr>)
      else row_find ix_id k t)"
proof -
  have upd: "row_find ix_id k (rows_update (\<lambda>q. ix_id q = fe_id e) (\<lambda>q. q\<lparr>ix_entry := stamped now (f q) e\<rparr>) t) =
      map_option (\<lambda>q. if k = fe_id e then q\<lparr>ix_entry := stamped now (f q) e\<rparr> else q) (row_find ix_id k t)" for f k
    by (induction t) (auto simp: rows_update_def)
  show ?thesis
    by (cases "row_find ix_id (fe_id e) t")
       (auto simp: upsert_entry_def row_find_append upd option.map_ident split: option.splits)
qed

lemma upsert_loop_Cons:
  "upsert_loop search now sender bl (e # es) t =
     (fst (upsert_entry search now sender bl e t) #
        fst (upsert_loop search now sender bl es (snd (upsert_entry search now sender bl e t))),
      snd (upsert_loop search now sender bl es (snd (upsert_entry search now sender bl e t))))"
  by (simp split: prod.split)

declare upsert_loop.simps(2) [simp del]

lemma index_ok_loop: "index_ok t \<Longrightarrow> index_ok (snd (upsert_loop search now sender bl es t))"
  by (induction es arbitrary: t) (auto simp: upsert_loop_Cons index_ok_entry)

lemma length_upsert_loop: "length (fst (upsert_loop search now sender bl es t)) = length es"
  by (induction es arbitrary: t) (auto simp: upsert_loop_Cons)

lemma upsert_index_snd [simp]:
  "snd (upsert_index_entries search now sender bl es t) = snd (upsert_loop search now sender bl es t)"
  by (simp add: upsert_index_entries_def Let_def split: prod.split)

section \<open>Watermarks as a key-value store\<close>

definition watermark :: "poll_state_row list \<Rightarrow> string \<Rightarrow> int" where
  "watermark ps p = (case get_poll_state ps p of None \<Rightarrow> 0 | Some r \<Rightarrow> ps_since_rev r)"

lemma get_poll_state_ok:
  "get_poll_state (mark_poll_ok p v now ps) k =
     (if k = p then Some \<lparr>ps_peer_id = p, ps_since_rev = v, ps_last_ok_at = now, ps_last_error = []\<rparr>
      else get_poll_state ps k)"
proof (cases "row_find ps_peer_id p ps")
  case None
  then show ?thesis
    by (auto simp: get_poll_state_def mark_poll_ok_def row_find_append split: option.split)
next
  case (Some r)
  have upd: "row_find ps_peer_id k (rows_update (\<lambda>r. ps_peer_id r = p)
      (\<lambda>r. r\<lparr>ps_since_rev := v, ps_last_ok_at := now, ps_last_error := []\<rparr>) qs) =
    map_option (\<lambda>r. if k = p then r\<lparr>ps_since_rev := v, ps_last_ok_at := now, ps_last_error := []\<rparr> else r)
      (row_find ps_peer_id k qs)" for qs
    by (induction qs) (auto simp: rows_update_def)
  show ?thesis
    using Some row_find_SomeD [OF Some]
    by (auto simp: get_poll_state_def mark_poll_ok_def upd option.map_ident intro!: poll_state_row.equality)
qed

lemma since_rev_error:
  "map_option ps_since_rev (row_find ps_peer_id k (mark_poll_error p e ps)) =
     (if k = p \<and> row_find ps_peer_id p ps = None then Some 0
      else map_option ps_since_rev (row_find ps_peer_id k ps))"
proof -
  have upd: "map_option ps_since_rev (row_find ps_peer_id k
      (rows_update (\<lambda>r. ps_peer_id r = p) (\<lambda>r. r\<lparr>ps_last_error := x\<rparr>) qs)) =
    map_option ps_since_rev (row_find ps_peer_id k qs)" for x qs
    by (induction qs) (auto simp: rows_update_def)
  show ?thesis
  proof (cases "row_find ps_peer_id p ps")
    case None
    then show ?thesis
      by (cases "row_find ps_peer_id k ps") (auto simp: mark_poll_error_def row_find_append)
  next
    case (Some r)
    then show ?thesis by (simp add: mark_poll_error_def Let_def upd)
  qed
qed

lemma watermark_map: "watermark ps k = (case map_option ps_since_rev (row_find ps_peer_id k ps) of None \<Rightarrow> 0 | Some v \<Rightarrow> v)"
  by (cases "row_find ps_peer_id k ps") (simp_all add: watermark_def get_poll_state_def)

lemma watermark_error [simp]: "watermark (mark_poll_error p e ps) k = watermark ps k"
  by (simp add: watermark_map since_rev_error)

interpretation poll_kv: kv_store "\<lambda>ps p. map_option ps_since_rev (get_poll_state ps p)"
    "\<lambda>p v. mark_poll_ok p v now" for now
  by unfold_locales (simp_all add: get_poll_state_ok)

lemma watermark_ok [simp]: "watermark (mark_poll_ok p v now ps) k = (if k = p then v else watermark ps k)"
  by (simp add: watermark_def get_poll_state_ok)

lemma poll_pages_watermark:
  assumes "watermark (fs_poll st) peer = since" "po_latest_rev res = since" "po_error res = None"
    "poll_pages fetch search now bl peer n since res st = (res', st')"
  shows "since \<le> watermark (fs_poll st') peer \<and> po_latest_rev res' = watermark (fs_poll st') peer \<and>
    po_pages res' \<le> po_pages res + n \<and> (\<forall>k. k = peer \<or> watermark (fs_poll st') k = watermark (fs_poll st) k)"
  using assms
proof (induction n arbitrary: since res st)
  case 0
  then show ?case by simp
next
  case (Suc n)
  show ?case
  proof (cases "fetch (po_pages res) since")
    case (Inl reason)
    with Suc.prems show ?thesis by auto
  next
    case (Inr page)
    obtain entries invalid where pe: "parse_entries (pg_records page) = (entries, invalid)"
      by (cases "parse_entries (pg_records page)")
    obtain acc ref stale t where im: "import_batches search now peer bl (chunks META_POLL_BATCH entries)
        (fs_index st) = ((acc, ref, stale), t)" by (metis prod.collapse)
    define rev where "rev = max since (pg_latest_rev page)"
    define st1 where "st1 = st\<lparr>fs_index := t, fs_poll := mark_poll_ok peer rev now (fs_poll st)\<rparr>"
    define res1 where "res1 = res\<lparr>po_fetched := po_fetched res + length (pg_records page),
        po_accepted := po_accepted res + acc, po_rejected_by_gate := po_rejected_by_gate res + ref + invalid,
        po_stale := po_stale res + stale, po_pages := po_pages res + 1, po_latest_rev := rev\<rparr>"
    have step: "poll_pages fetch search now bl peer (Suc n) since res st =
        (if pg_has_more page then poll_pages fetch search now bl peer n rev res1 st1 else (res1, st1))"
      by (simp add: Inr pe im Let_def rev_def st1_def res1_def)
    have w: "watermark (fs_poll st1) peer = rev" "po_latest_rev res1 = rev" "po_error res1 = None" "since \<le> rev"
        "po_pages res1 = po_pages res + 1" "\<forall>k. k = peer \<or> watermark (fs_poll st1) k = watermark (fs_poll st) k"
      using Suc.prems(3) by (simp_all add: st1_def res1_def rev_def)
    show ?thesis
    proof (cases "pg_has_more page")
      case True
      with Suc.prems(4) step have "poll_pages fetch search now bl peer n rev res1 st1 = (res', st')" by simp
      from Suc.IH [OF w(1,2,3) this] w show ?thesis by fastforce
    next
      case False
      with Suc.prems(4) step w show ?thesis by auto
    qed
  qed
qed

section \<open>Properties\<close>

definition passes_gates :: "(string \<Rightarrow> string \<Rightarrow> bool) \<Rightarrow> string list \<Rightarrow> fed_entry \<Rightarrow> bool" where
  "passes_gates search bl e \<longleftrightarrow> refused_tag \<notin> set (fe_tags e) \<and>
     \<not> (bl \<noteq> [] \<and> title_matches_blocklist search (fe_title e) bl)"

text \<open>An entry of the batch that may replace a stored one, told without the code's test.\<close>

definition replaces :: "(string \<Rightarrow> string \<Rightarrow> bool) \<Rightarrow> string list \<Rightarrow> string option \<Rightarrow> fed_entry \<Rightarrow> fed_entry \<Rightarrow> bool" where
  "replaces search bl sender old e \<longleftrightarrow>
     fe_id e = fe_id old \<and> passes_gates search bl e \<and> fe_timestamp old \<le> fe_timestamp e \<and>
     fe_origin_peer old = (case sender of Some s \<Rightarrow> s | None \<Rightarrow> fe_origin_peer e)"

lemma upsert_entry_row:
  assumes "row_find ix_id k t = Some r"
  shows "\<exists>r'. row_find ix_id k (snd (upsert_entry search now sender bl e t)) = Some r' \<and> ix_rowid r' = ix_rowid r \<and>
    (r' = r \<or> replaces search bl sender (ix_entry r) e \<and> ix_entry r' = stamped now (fe_origin_peer (ix_entry r)) e)"
proof (cases "k = fe_id e \<and> fst (upsert_entry search now sender bl e t) = Written")
  case True
  note id = row_find_SomeD [OF assms]
  from True assms have "passes_gates search bl e" "may_mutate sender e (ix_entry r)" "fe_timestamp (ix_entry r) \<le> fe_timestamp e"
    by (auto simp: upsert_entry_def passes_gates_def split: if_splits)
  then have "replaces search bl sender (ix_entry r) e"
    using id True by (auto simp: replaces_def may_mutate_def incoming_origin_def split: option.splits)
  then show ?thesis using True assms by (simp add: find_entry)
next
  case False
  then have "row_find ix_id k (snd (upsert_entry search now sender bl e t)) = Some r"
    using assms by (auto simp: find_entry)
  then show ?thesis by simp
qed

text \<open>
  C10. Only its origin replaces a row: whatever batch arrives, a stored row keeps its rowid and its origin, and either it
  is unchanged or it holds an entry of the batch, stamped with the stored origin, that passed both gates and is not older.
  On the import leg the authenticated sender is then the stored origin; on the local leg, which has no sender, the entry
  itself names the stored origin.
\<close>

theorem index_row_evolution:
  assumes "row_find ix_id k t = Some r"
  shows "\<exists>r'. row_find ix_id k (snd (upsert_index_entries search now sender bl es t)) = Some r' \<and>
    ix_rowid r' = ix_rowid r \<and> fe_origin_peer (ix_entry r') = fe_origin_peer (ix_entry r) \<and>
    (r' = r \<or> (\<exists>e \<in> set es. replaces search bl sender (ix_entry r) e \<and>
       ix_entry r' = stamped now (fe_origin_peer (ix_entry r)) e))"
proof -
  have "\<exists>r'. row_find ix_id k (snd (upsert_loop search now sender bl es t)) = Some r' \<and> ix_rowid r' = ix_rowid r \<and>
      (r' = r \<or> (\<exists>e \<in> set es. replaces search bl sender (ix_entry r) e \<and> ix_entry r' = stamped now (fe_origin_peer (ix_entry r)) e))"
    using assms
  proof (induction es arbitrary: t r)
    case (Cons e es)
    from upsert_entry_row [OF Cons.prems, of search now sender bl e] obtain r1 where
      1: "row_find ix_id k (snd (upsert_entry search now sender bl e t)) = Some r1" "ix_rowid r1 = ix_rowid r"
        "r1 = r \<or> replaces search bl sender (ix_entry r) e \<and> ix_entry r1 = stamped now (fe_origin_peer (ix_entry r)) e" by blast
    from Cons.IH [OF 1(1)] obtain r' where
      2: "row_find ix_id k (snd (upsert_loop search now sender bl es (snd (upsert_entry search now sender bl e t)))) = Some r'"
        "ix_rowid r' = ix_rowid r1"
        "r' = r1 \<or> (\<exists>e \<in> set es. replaces search bl sender (ix_entry r1) e \<and> ix_entry r' = stamped now (fe_origin_peer (ix_entry r1)) e)"
      by blast
    have trans: "replaces search bl sender (ix_entry r) f"
      if "replaces search bl sender (ix_entry r1) f" "r1 \<noteq> r" for f
      using that 1(3) by (auto simp: replaces_def stamped_def intro: order_trans)
    have origin: "fe_origin_peer (ix_entry r1) = fe_origin_peer (ix_entry r)" using 1(3) by (auto simp: stamped_def)
    have "r' = r \<or> (\<exists>e' \<in> set (e # es). replaces search bl sender (ix_entry r) e' \<and>
        ix_entry r' = stamped now (fe_origin_peer (ix_entry r)) e')"
      using 1(3) 2(3) trans unfolding origin by auto
    then show ?case using 1(2) 2(1,2) by (simp add: upsert_loop_Cons)
  qed simp
  then show ?thesis by (auto simp: upsert_index_entries_def Let_def stamped_def split: prod.split)
qed

definition sample_entry :: "string \<Rightarrow> string \<Rightarrow> string \<Rightarrow> fed_entry" where
  "sample_entry ident origin ts =
     \<lparr>fe_id = ident, fe_type = [], fe_title = ''t'', fe_tags = [], fe_project = ''p'',
      fe_source_agent = [], fe_source_peer = [], fe_origin_peer = origin,
      fe_content_state = ''available'', fe_timestamp = ts, fe_schema_version = [], fe_received_at = []\<rparr>"

definition sample_index :: "index_row list" where
  "sample_index = [\<lparr>ix_rowid = 1, ix_entry = sample_entry ''x'' ''alice'' ''2026''\<rparr>]"

lemma index_row_evolution_witness:
  "row_find ix_id ''x'' (snd (upsert_index_entries (\<lambda>_ _. False) ''now'' (Some ''bob'') []
      [sample_entry ''x'' ''alice'' ''2027'', sample_entry ''x'' [] ''2028''] sample_index)) =
    Some \<lparr>ix_rowid = 1, ix_entry = sample_entry ''x'' ''alice'' ''2026''\<rparr>"
proof -
  have "row_find ix_id ''x'' sample_index = Some \<lparr>ix_rowid = 1, ix_entry = sample_entry ''x'' ''alice'' ''2026''\<rparr>"
    by (simp add: sample_index_def sample_entry_def)
  from index_row_evolution [OF this, of "\<lambda>_ _. False" "''now''" "Some ''bob''" "[]"
      "[sample_entry ''x'' ''alice'' ''2027'', sample_entry ''x'' [] ''2028'']"]
  show ?thesis by (auto simp: sample_entry_def replaces_def)
qed




lemma gate_entry:
  assumes "list_all (\<lambda>r. passes_gates search bl (ix_entry r)) t"
  shows "list_all (\<lambda>r. passes_gates search bl (ix_entry r)) (snd (upsert_entry search now sender bl e t))"
proof -
  have st: "passes_gates search bl (stamped now o' e) = passes_gates search bl e" for o'
    by (simp add: passes_gates_def stamped_def)
  show ?thesis
    using assms st
    by (auto simp: upsert_entry_def list_all_iff set_rows_update passes_gates_def [of _ _ e] split: option.split)
qed

lemma verdict_count:
  "length (filter (\<lambda>v. v = Written) vs) + length (filter (\<lambda>v. v = Refused) vs) +
     length (filter (\<lambda>v. v = Stale) vs) = length vs"
proof (induction vs)
  case (Cons v vs)
  then show ?case by (cases v) auto
qed simp

text \<open>The gates hold for the whole index: a table without a no-federate row and without a
  blocklisted title stays so under every batch from every sender, and each entry of a batch
  is counted exactly once as written, refused or stale.
\<close>

theorem index_gates:
  assumes "list_all (\<lambda>r. passes_gates search bl (ix_entry r)) t"
  shows "list_all (\<lambda>r. passes_gates search bl (ix_entry r))
      (snd (upsert_index_entries search now sender bl es t)) \<and>
    us_written (fst (upsert_index_entries search now sender bl es t)) +
      us_refused (fst (upsert_index_entries search now sender bl es t)) +
      us_stale (fst (upsert_index_entries search now sender bl es t)) = length es"
proof (rule conjI)
  show "list_all (\<lambda>r. passes_gates search bl (ix_entry r))
      (snd (upsert_index_entries search now sender bl es t))"
    unfolding upsert_index_snd using assms
    by (induction es arbitrary: t) (auto simp: upsert_loop_Cons gate_entry)
  show "us_written (fst (upsert_index_entries search now sender bl es t)) +
      us_refused (fst (upsert_index_entries search now sender bl es t)) +
      us_stale (fst (upsert_index_entries search now sender bl es t)) = length es"
    using verdict_count [of "fst (upsert_loop search now sender bl es t)"]
      length_upsert_loop [of search now sender bl es t]
    by (cases "upsert_loop search now sender bl es t") (simp add: upsert_index_entries_def Let_def)
qed

lemma index_gates_witness:
  "list_all (\<lambda>r. passes_gates (\<lambda>p t. p = t) [''secret''] (ix_entry r))
     (snd (upsert_index_entries (\<lambda>p t. p = t) ''now'' (Some ''bob'') [''secret'']
        [(sample_entry ''y'' [] ''2027'')\<lparr>fe_title := ''secret''\<rparr>, sample_entry ''z'' [] ''2027''] sample_index))"
proof -
  have "list_all (\<lambda>r. passes_gates (\<lambda>p t. p = t) [''secret''] (ix_entry r)) sample_index"
    by (simp add: sample_index_def sample_entry_def passes_gates_def title_matches_blocklist_def)
  from index_gates [OF this] show ?thesis by blast
qed

definition index_rows :: "string list \<Rightarrow> string list \<Rightarrow> string \<Rightarrow> int \<Rightarrow> bool \<Rightarrow> index_row list \<Rightarrow> index_row list" where
  "index_rows os ps since after b t =
     filter (\<lambda>r. index_scope os ps since b (ix_entry r) \<and> (0 < after \<longrightarrow> after < int (ix_rowid r))) t"

lemma list_index_rows:
  assumes "index_ok t"
  shows "list_index n os ps since after b t =
      map (\<lambda>r. (ix_entry r, ix_rowid r)) (sql_limit n (index_rows os ps since after b t)) \<and>
    sorted_wrt (<) (map ix_rowid (index_rows os ps since after b t))"
proof -
  have s: "sorted_wrt (<) (map ix_rowid (index_rows os ps since after b t))"
    using assms unfolding index_rows_def index_ok_def by (auto simp: sorted_wrt_map sorted_wrt_filter)
  then have "order_asc ix_rowid (index_rows os ps since after b t) = index_rows os ps since after b t"
    unfolding order_asc_def by (intro sort_key_id_if_sorted) (simp add: strict_sorted_iff)
  with s show ?thesis by (simp add: list_index_def index_rows_def)
qed

lemma index_head_bound:
  "r \<in> set t \<Longrightarrow> in_filter ps (fe_project (ix_entry r)) \<Longrightarrow> ix_rowid r \<le> index_head ps t"
proof -
  have "r \<in> set xs \<Longrightarrow> ix_rowid r \<le> foldr (\<lambda>r n. max (ix_rowid r) n) xs 0" for xs
    by (induction xs) auto
  then show "r \<in> set t \<Longrightarrow> in_filter ps (fe_project (ix_entry r)) \<Longrightarrow> ix_rowid r \<le> index_head ps t"
    by (simp add: index_head_def)
qed

text \<open>
  The cursor of the index: a non-empty page followed by the walk after its last rowid
  is the whole walk, and after the head of a scope the walk is empty -- parking a watermark
  there skips nothing.
\<close>

theorem index_cursor:
  assumes "index_ok t" and "0 \<le> n"
    and "list_index n os ps since c b t = page" and "page \<noteq> []"
  shows "page @ list_index (- 1) os ps since (int (snd (last page))) b t =
      list_index (- 1) os ps since c b t \<and>
    list_index m os ps since (int (index_head ps t)) b t = []"
proof (rule conjI)
  define A where "A = index_rows os ps since c b t"
  define X where "X = take (nat n) A"
  have page: "page = map (\<lambda>r. (ix_entry r, ix_rowid r)) X"
    using assms(2,3) list_index_rows [OF assms(1)] by (simp add: sql_limit_def X_def A_def)
  with assms(4) have X: "X \<noteq> []" by simp
  have last: "snd (last page) = ix_rowid (last X)" using X by (simp add: page last_map)
  have "last X \<in> set A" using X by (metis X_def in_set_takeD last_in_set)
  then have c: "0 < c \<longrightarrow> c < int (ix_rowid (last X))" and pos: "0 < ix_rowid (last X)"
    using assms(1) by (auto simp: A_def index_rows_def index_ok_def)
  have "index_rows os ps since (int (ix_rowid (last X))) b t = filter (\<lambda>r. ix_rowid (last X) < ix_rowid r) A"
    using c pos unfolding index_rows_def A_def filter_filter by (intro filter_cong) auto
  also have "\<dots> = drop (nat n) A"
    using filter_after_last [of ix_rowid X "drop (nat n) A"] X list_index_rows [OF assms(1), of n os ps since c b]
    by (simp add: X_def A_def)
  finally show "page @ list_index (- 1) os ps since (int (snd (last page))) b t =
      list_index (- 1) os ps since c b t"
    unfolding last using list_index_rows [OF assms(1)]
    by (simp add: sql_limit_def page A_def [symmetric] X_def flip: map_append)
  have "index_rows os ps since (int (index_head ps t)) b t = []"
    unfolding index_rows_def filter_empty_conv
  proof clarify
    fix r assume r: "r \<in> set t" "index_scope os ps since b (ix_entry r)"
      and after: "0 < int (index_head ps t) \<longrightarrow> int (index_head ps t) < int (ix_rowid r)"
    from r have "ix_rowid r \<le> index_head ps t" "0 < ix_rowid r"
      using index_head_bound assms(1) by (auto simp: index_scope_def index_ok_def)
    with after show False by simp
  qed
  then show "list_index m os ps since (int (index_head ps t)) b t = []"
    using list_index_rows [OF assms(1)] by (simp add: sql_limit_def)
qed

lemma index_ok_sample: "index_ok sample_index"
  by (simp add: index_ok_def sample_index_def)

lemma index_cursor_witness:
  "list_index 5 [] [] [] (int (index_head [] sample_index)) True sample_index = []"
proof -
  have "list_index 1 [] [] [] 0 True sample_index = [(sample_entry ''x'' ''alice'' ''2026'', 1)]"
    by (simp add: list_index_def sample_index_def sample_entry_def order_asc_def sql_limit_def
        index_scope_def in_filter_def)
  from index_cursor [OF index_ok_sample _ this] show ?thesis by simp
qed

text \<open>
  The watermark of a peer never goes back and moves only with imported pages: a poll
  pass reads at most ten pages, leaves the watermark at what its result reports -- also when
  it ends in an error -- and touches no other peer's watermark.
\<close>

theorem poll_watermark:
  "case poll_peer fetch search now bl peer st of (res, st') \<Rightarrow>
     watermark (fs_poll st) peer \<le> watermark (fs_poll st') peer \<and>
     po_latest_rev res = watermark (fs_poll st') peer \<and>
     po_pages res \<le> META_POLL_MAX_PAGES \<and>
     (\<forall>k. k = peer \<or> watermark (fs_poll st') k = watermark (fs_poll st) k)"
proof -
  obtain res st' where r: "poll_peer fetch search now bl peer st = (res, st')"
    by (cases "poll_peer fetch search now bl peer st")
  then have p: "poll_pages fetch search now bl peer META_POLL_MAX_PAGES (watermark (fs_poll st) peer)
      \<lparr>po_peer_id = peer, po_fetched = 0, po_accepted = 0, po_rejected_by_gate = 0, po_stale = 0,
       po_pages = 0, po_latest_rev = watermark (fs_poll st) peer, po_error = None\<rparr> st = (res, st')"
    by (simp add: poll_peer_def Let_def watermark_def)
  from poll_pages_watermark [OF refl _ _ p] show ?thesis by (simp add: r)
qed

end
