(* ===== verification/Federation_Pull.thy ===== *)
theory Federation_Pull
  imports Compact
begin

text \<open>
  The mediated pull between two servers: the trigger codes (\<open>trigger_codes.py\<close>), the audit log
  (\<open>federation_access_log.py\<close>), the serving side (\<open>federation_server.py\<close>: authentication, rate
  limit, project and type lists, moderation, trigger selection), the asking side
  (\<open>federation_client.py\<close>) and the message layer (\<open>federation_a2a.py\<close>).

  Parameters: the environment variables (\<open>env\<close>), the digest of a topic (\<open>digest\<close>), the search
  of the memory manager (\<open>search\<close>), whether the audit file can be written (\<open>log_ok\<close>), the two
  clocks, and the answer of the HTTP exchange.
\<close>

section \<open>Trigger codes\<close>

datatype trigger_code = EXHAUSTIVE | ALREADY_EXHAUSTED | PARTIAL | REFUSED | OFFLINE_LITE

definition all_trigger_codes :: "trigger_code list" where
  "all_trigger_codes = [EXHAUSTIVE, ALREADY_EXHAUSTED, PARTIAL, REFUSED, OFFLINE_LITE]"

definition trigger_terminal :: "trigger_code \<Rightarrow> bool" where
  "trigger_terminal code \<longleftrightarrow> code \<in> {EXHAUSTIVE, ALREADY_EXHAUSTED, REFUSED}"

definition should_fallback_to_local :: "trigger_code \<Rightarrow> bool" where
  "should_fallback_to_local code \<longleftrightarrow> code \<in> {REFUSED, OFFLINE_LITE}"

section \<open>The access log\<close>

record access_entry =
  ae_peer_id :: string
  ae_topic_hash :: string
  ae_timestamp :: moment
  ae_project_scope :: string
  ae_trigger_code :: trigger_code
  ae_record_ids :: "string list"

text \<open>Python's \<open>max(xs, key=f)\<close>: the first of the largest elements.\<close>

fun py_max :: "('a \<Rightarrow> int) \<Rightarrow> 'a \<Rightarrow> 'a list \<Rightarrow> 'a" where
  "py_max f best [] = best"
| "py_max f best (x # xs) = py_max f (if f best < f x then x else best) xs"

definition log_append :: "access_entry \<Rightarrow> access_entry list \<Rightarrow> access_entry list" where
  "log_append e alog = alog @ [e]"

definition log_query :: "string \<Rightarrow> string \<Rightarrow> access_entry list \<Rightarrow> access_entry option" where
  "log_query peer_id topic_hash alog =
     (case filter (\<lambda>e. ae_peer_id e = peer_id \<and> ae_topic_hash e = topic_hash) alog of
        [] \<Rightarrow> None
      | e # es \<Rightarrow> Some (py_max ae_timestamp e es))"

definition log_query_recent :: "string \<Rightarrow> moment \<Rightarrow> access_entry list \<Rightarrow> access_entry list" where
  "log_query_recent peer_id since alog = filter (\<lambda>e. ae_peer_id e = peer_id \<and> since \<le> ae_timestamp e) alog"

definition count_by_trigger_code :: "string \<Rightarrow> moment \<Rightarrow> access_entry list \<Rightarrow> trigger_code \<Rightarrow> nat" where
  "count_by_trigger_code peer_id since alog =
     foldl (\<lambda>counts e. counts(ae_trigger_code e := counts (ae_trigger_code e) + 1)) (\<lambda>code. 0)
       (log_query_recent peer_id since alog)"

section \<open>The rate limiter\<close>

text \<open>A bucket is the list of its event times; times are those of the monotonic clock.\<close>

definition WINDOW_SEC :: int where
  "WINDOW_SEC = 60"

definition evict :: "int \<Rightarrow> moment list \<Rightarrow> moment list" where
  "evict cutoff events = dropWhile (\<lambda>t. t \<le> cutoff) events"

definition bucket_check :: "moment \<Rightarrow> int \<Rightarrow> moment list \<Rightarrow> bool \<times> moment list" where
  "bucket_check now limit events =
     (let events = evict (now - sec WINDOW_SEC) events
      in if limit \<le> int (length events) then (False, events) else (True, events @ [now]))"

definition limiter_check ::
  "string \<Rightarrow> int \<Rightarrow> moment \<Rightarrow> (string \<Rightarrow> moment list) \<Rightarrow> bool \<times> (string \<Rightarrow> moment list)" where
  "limiter_check peer_id limit now buckets =
     (case bucket_check now limit (buckets peer_id) of
        (ok, events) \<Rightarrow> (ok, buckets(peer_id := events)))"

definition limiter_reset :: "string option \<Rightarrow> (string \<Rightarrow> moment list) \<Rightarrow> (string \<Rightarrow> moment list)" where
  "limiter_reset peer_id buckets =
     (case peer_id of None \<Rightarrow> (\<lambda>p. []) | Some p \<Rightarrow> buckets(p := []))"

section \<open>The serving side\<close>

record peer_config =
  pc_bearer_token_env :: string
  pc_allowed_projects :: "string list"
  pc_allowed_types :: "string list"
  pc_rate_limit :: int
  pc_mtls_fingerprint :: "string option"

record fed_settings =
  fd_peers :: "(string \<times> peer_config) list"
  fd_refuse_threshold :: rat
  fd_mapping_ttl_hours :: int

record pull_request =
  rq_peer_id :: string
  rq_query :: string
  rq_project_scope :: string
  rq_include_content :: bool

record pull_response =
  rs_trigger_code :: trigger_code
  rs_records :: "compact_record list"
  rs_ttl_class :: string
  rs_peer_id :: string

record pull_state =
  pl_buckets :: "string \<Rightarrow> moment list"
  pl_log :: "access_entry list"

definition verify_mtls_fingerprint :: "string option \<Rightarrow> string option \<Rightarrow> bool" where
  "verify_mtls_fingerprint presented expected =
     (case expected of
        None \<Rightarrow> True
      | Some e \<Rightarrow> (case presented of None \<Rightarrow> False | Some p \<Rightarrow> lower (strip p) = lower (strip e)))"

definition resolve_peer_token :: "(string \<rightharpoonup> string) \<Rightarrow> peer_config \<Rightarrow> string option" where
  "resolve_peer_token env peer =
     (case env (pc_bearer_token_env peer) of
        None \<Rightarrow> None | Some raw \<Rightarrow> if raw = [] then None else Some raw)"

definition acl_allows :: "peer_config \<Rightarrow> string \<Rightarrow> bool" where
  "acl_allows peer project_scope =
     (if pc_allowed_projects peer = [] then False
      else if ''*'' \<in> set (pc_allowed_projects peer) then True
      else project_scope \<in> set (pc_allowed_projects peer))"

fun memory_type_for_filter :: "string list \<Rightarrow> string" where
  "memory_type_for_filter [] = []"
| "memory_type_for_filter (tag # tags) =
     (if \<not> starts_with tag ''mnemos:'' then memory_type_for_filter tags
      else (let suffix = drop (length ''mnemos:'') tag in
            if suffix = ''no-federate'' then memory_type_for_filter tags else suffix))"

definition type_allowed :: "peer_config \<Rightarrow> string \<Rightarrow> bool" where
  "type_allowed peer rec_type =
     (if pc_allowed_types peer = [] then False
      else if ''*'' \<in> set (pc_allowed_types peer) then True
      else rec_type \<in> set (pc_allowed_types peer))"

definition select_trigger_code :: "nat \<Rightarrow> nat \<Rightarrow> nat \<Rightarrow> trigger_code" where
  "select_trigger_code candidate_count refused_count records_count =
     (if candidate_count = 0 then EXHAUSTIVE
      else if refused_count = 0 then EXHAUSTIVE
      else if records_count = 0 then REFUSED
      else PARTIAL)"

definition log_access ::
  "bool \<Rightarrow> (string \<Rightarrow> string) \<Rightarrow> moment \<Rightarrow> pull_request \<Rightarrow> trigger_code \<Rightarrow> string list \<Rightarrow>
   access_entry list \<Rightarrow> access_entry list" where
  "log_access log_ok digest now rq code ids alog =
     (if log_ok
      then log_append \<lparr>ae_peer_id = rq_peer_id rq, ae_topic_hash = digest (rq_query rq), ae_timestamp = now,
             ae_project_scope = rq_project_scope rq, ae_trigger_code = code, ae_record_ids = ids\<rparr> alog
      else alog)"

definition refused_response :: "trigger_code \<Rightarrow> pull_response" where
  "refused_response code =
     \<lparr>rs_trigger_code = code, rs_records = [], rs_ttl_class = ''ephemeral'', rs_peer_id = []\<rparr>"

text \<open>The loop over the search results: records, refused and candidate counts so far.\<close>

fun pull_loop ::
  "fed_settings \<Rightarrow> moment \<Rightarrow> string \<Rightarrow> peer_config \<Rightarrow> memory list \<Rightarrow>
   compact_record list \<times> nat \<times> nat \<Rightarrow> overlap_error + compact_record list \<times> nat \<times> nat" where
  "pull_loop fed now self_id peer [] acc = Inr acc"
| "pull_loop fed now self_id peer (m # ms) (records, refused, candidates) =
     (if NO_FEDERATE_TAG \<in> set (m_tags m) then pull_loop fed now self_id peer ms (records, refused, candidates)
      else if \<not> type_allowed peer (memory_type_for_filter (m_tags m))
      then pull_loop fed now self_id peer ms (records, refused, candidates)
      else
        (case moderate (fd_refuse_threshold fed) (fd_mapping_ttl_hours fed) now (m_content m) (m_tags m) of
           Inl err \<Rightarrow> Inl err
         | Inr mod_res \<Rightarrow>
             (case build_compact_record m self_id mod_res of
                None \<Rightarrow> pull_loop fed now self_id peer ms (records, refused + 1, candidates + 1)
              | Some r \<Rightarrow> pull_loop fed now self_id peer ms (records @ [r], refused, candidates + 1))))"

definition token_ok :: "string option \<Rightarrow> string option \<Rightarrow> bool" where
  "token_ok presented expected \<longleftrightarrow>
     (case expected of None \<Rightarrow> False | Some e \<Rightarrow> (case presented of None \<Rightarrow> False | Some p \<Rightarrow> p = e))"

text \<open>Steps 4 to 9, for an authenticated request within its limits.\<close>

definition serve_pull ::
  "(string \<Rightarrow> string) \<Rightarrow> (string \<Rightarrow> string \<Rightarrow> memory list) \<Rightarrow> bool \<Rightarrow> fed_settings \<Rightarrow> string \<Rightarrow>
   moment \<Rightarrow> peer_config \<Rightarrow> pull_request \<Rightarrow> pull_state \<Rightarrow>
   overlap_error + (pull_response \<times> nat) \<times> pull_state" where
  "serve_pull digest search log_ok fed self_id now peer rq st =
     (if map_option ae_trigger_code (log_query (rq_peer_id rq) (digest (rq_query rq)) (pl_log st)) = Some EXHAUSTIVE
      then Inr ((\<lparr>rs_trigger_code = ALREADY_EXHAUSTED, rs_records = [], rs_ttl_class = ''ephemeral'',
                 rs_peer_id = self_id\<rparr>, 200),
                st\<lparr>pl_log := log_access log_ok digest now rq ALREADY_EXHAUSTED [] (pl_log st)\<rparr>)
      else
        (case pull_loop fed now self_id peer (search (rq_query rq) (rq_project_scope rq)) ([], 0, 0) of
           Inl err \<Rightarrow> Inl err
         | Inr (records, refused, candidates) \<Rightarrow>
             (let code = select_trigger_code candidates refused (length records)
              in Inr ((\<lparr>rs_trigger_code = code, rs_records = records, rs_ttl_class = ''ephemeral'',
                       rs_peer_id = self_id\<rparr>, 200),
                      st\<lparr>pl_log := log_access log_ok digest now rq code (map cr_id records) (pl_log st)\<rparr>))))"

definition handle_pull ::
  "(string \<rightharpoonup> string) \<Rightarrow> (string \<Rightarrow> string) \<Rightarrow> (string \<Rightarrow> string \<Rightarrow> memory list) \<Rightarrow> bool \<Rightarrow> fed_settings \<Rightarrow>
   string \<Rightarrow> string option \<Rightarrow> string option \<Rightarrow> moment \<Rightarrow> moment \<Rightarrow> pull_request \<Rightarrow> pull_state \<Rightarrow>
   overlap_error + (pull_response \<times> nat) \<times> pull_state" where
  "handle_pull env digest search log_ok fed self_id token fingerprint tick now rq st =
     (if fd_peers fed = [] then Inr ((refused_response REFUSED, 403), st)
      else case map_of (fd_peers fed) (rq_peer_id rq) of
        None \<Rightarrow> Inr ((refused_response REFUSED, 403), st)
      | Some peer \<Rightarrow>
          if \<not> token_ok token (resolve_peer_token env peer) then Inr ((refused_response REFUSED, 403), st)
          else if \<not> verify_mtls_fingerprint fingerprint (pc_mtls_fingerprint peer) then
            Inr ((refused_response REFUSED, 403),
              (if pc_mtls_fingerprint peer \<noteq> None
               then st\<lparr>pl_log := log_access log_ok digest now rq REFUSED [] (pl_log st)\<rparr> else st))
          else
            (case limiter_check (rq_peer_id rq) (pc_rate_limit peer) tick (pl_buckets st) of
               (allowed, buckets) \<Rightarrow>
                 (let st = st\<lparr>pl_buckets := buckets\<rparr> in
                  if \<not> allowed then
                    Inr ((refused_response REFUSED, 429),
                      st\<lparr>pl_log := log_access log_ok digest now rq REFUSED [] (pl_log st)\<rparr>)
                  else if \<not> acl_allows peer (rq_project_scope rq) then
                    Inr ((refused_response REFUSED, 403),
                      st\<lparr>pl_log := log_access log_ok digest now rq REFUSED [] (pl_log st)\<rparr>)
                  else serve_pull digest search log_ok fed self_id now peer rq st)))"

section \<open>The asking side\<close>

record pull_result =
  pr_trigger_code :: trigger_code
  pr_records :: "compact_record list"
  pr_fell_back :: bool
  pr_peer_id :: string

text \<open>What the HTTP client gives back: an exception (any \<open>httpx.HTTPError\<close>), or a status and a
  body, which is \<open>None\<close> when it is not a pull response.\<close>

datatype http_outcome =
    TransportError
  | Reply nat "(trigger_code \<times> compact_record list \<times> string option) option"

definition fallback :: "string \<Rightarrow> bool \<Rightarrow> pull_result" where
  "fallback peer_id refused =
     \<lparr>pr_trigger_code = (if refused then REFUSED else OFFLINE_LITE), pr_records = [],
      pr_fell_back = True, pr_peer_id = peer_id\<rparr>"

definition parse_ok :: "(trigger_code \<times> compact_record list \<times> string option) option \<Rightarrow> string \<Rightarrow> pull_result" where
  "parse_ok body peer_id =
     (case body of
        None \<Rightarrow> fallback peer_id True
      | Some (code, records, from) \<Rightarrow>
          \<lparr>pr_trigger_code = code, pr_records = records, pr_fell_back = False,
           pr_peer_id = (case from of None \<Rightarrow> peer_id | Some p \<Rightarrow> p)\<rparr>)"

definition upper :: "string \<Rightarrow> string" where
  "upper s = map (\<lambda>c. if CHR ''a'' \<le> c \<and> c \<le> CHR ''z'' then char_of (of_char c - 32 :: nat) else c) s"

definition resolve_base_url :: "(string \<rightharpoonup> string) \<Rightarrow> string \<Rightarrow> string option" where
  "resolve_base_url env peer_id =
     (let raw = strip (or_str (env (''VESMARO_FED_PEER_'' @
                  replace_char (CHR ''-'') (CHR ''_'') (upper peer_id) @ ''_URL'')) [])
      in if raw = [] then None else Some (rev (dropWhile (\<lambda>c. c = CHR ''/'') (rev raw))))"

text \<open>\<open>post url token\<close> is the exchange with the peer.\<close>

definition pull_from_peer ::
  "(string \<rightharpoonup> string) \<Rightarrow> (string \<Rightarrow> string \<Rightarrow> http_outcome) \<Rightarrow> fed_settings \<Rightarrow> string option \<Rightarrow>
   string \<Rightarrow> pull_result" where
  "pull_from_peer env post fed base_url_override peer_id =
     (case map_of (fd_peers fed) peer_id of
        None \<Rightarrow> fallback peer_id True
      | Some peer \<Rightarrow>
          (case resolve_peer_token env peer of
             None \<Rightarrow> fallback peer_id True
           | Some token \<Rightarrow>
               (case (case base_url_override of Some u \<Rightarrow> Some u | None \<Rightarrow> resolve_base_url env peer_id) of
                  None \<Rightarrow> fallback peer_id True
                | Some url \<Rightarrow>
                    if url = [] then fallback peer_id True
                    else (case post url token of
                            TransportError \<Rightarrow> fallback peer_id False
                          | Reply status body \<Rightarrow>
                              if status = 200 then parse_ok body peer_id
                              else if status = 403 \<or> status = 429 then fallback peer_id True
                              else fallback peer_id False))))"

text \<open>What the asking agent does with an answer.\<close>

datatype 'a share_action =
    Noop trigger_code
  | Use "compact_record list" trigger_code
  | FallbackLocal trigger_code "'a list option"

definition handle_share_finding ::
  "trigger_code \<Rightarrow> compact_record list \<Rightarrow> ('e + 'a list) option \<Rightarrow> 'a share_action" where
  "handle_share_finding code records local_search =
     (if code = ALREADY_EXHAUSTED then Noop code
      else if code = EXHAUSTIVE \<or> code = PARTIAL then Use records code
      else if should_fallback_to_local code then
        FallbackLocal code
          (case local_search of None \<Rightarrow> None | Some (Inl _) \<Rightarrow> Some [] | Some (Inr rs) \<Rightarrow> Some rs)
      else FallbackLocal code None)"

definition handle_request_info ::
  "(string \<rightharpoonup> string) \<Rightarrow> (string \<Rightarrow> string) \<Rightarrow> (string \<Rightarrow> string \<Rightarrow> memory list) \<Rightarrow> bool \<Rightarrow> fed_settings \<Rightarrow>
   string option \<Rightarrow> string option \<Rightarrow> moment \<Rightarrow> moment \<Rightarrow> string \<Rightarrow> string \<Rightarrow> string \<Rightarrow> pull_state \<Rightarrow>
   overlap_error + (string \<times> nat \<times> pull_response) \<times> pull_state" where
  "handle_request_info env digest search log_ok fed token fingerprint tick now peer_id query scope st =
     (case handle_pull env digest search log_ok fed ''mnemos-B'' token fingerprint tick now
             \<lparr>rq_peer_id = peer_id, rq_query = query, rq_project_scope = scope, rq_include_content = True\<rparr> st of
        Inl err \<Rightarrow> Inl err
      | Inr ((response, status), st1) \<Rightarrow> Inr ((''share-finding'', status, response), st1))"

section \<open>The search loop\<close>

definition candidates_for :: "peer_config \<Rightarrow> memory list \<Rightarrow> memory list" where
  "candidates_for peer ms =
     filter (\<lambda>m. NO_FEDERATE_TAG \<notin> set (m_tags m) \<and> type_allowed peer (memory_type_for_filter (m_tags m))) ms"

definition offered :: "fed_settings \<Rightarrow> moment \<Rightarrow> string \<Rightarrow> memory \<Rightarrow> compact_record option" where
  "offered fed now self_id m =
     (case moderate (fd_refuse_threshold fed) (fd_mapping_ttl_hours fed) now (m_content m) (m_tags m) of
        Inl _ \<Rightarrow> None | Inr r \<Rightarrow> build_compact_record m self_id r)"

lemma pull_loop_result:
  "pull_loop fed now self_id peer ms (records, refused, candidates) =
     Inr (records @ List.map_filter (offered fed now self_id) (candidates_for peer ms),
          refused + length (filter (\<lambda>m. offered fed now self_id m = None) (candidates_for peer ms)),
          candidates + length (candidates_for peer ms))"
proof (induction ms arbitrary: records refused candidates)
  case (Cons m ms)
  obtain r where r: "moderate (fd_refuse_threshold fed) (fd_mapping_ttl_hours fed) now (m_content m) (m_tags m) = Inr r"
    using moderate_total by blast
  show ?case
    using r by (cases "build_compact_record m self_id r")
      (auto simp: Cons.IH candidates_for_def offered_def List.map_filter_simps)
qed (simp add: candidates_for_def List.map_filter_simps)

lemma map_filter_counts:
  "length (List.map_filter f ms) + length (filter (\<lambda>m. f m = None) ms) = length ms"
  by (induction ms) (auto simp: List.map_filter_simps split: option.split)

lemma set_map_filter: "r \<in> set (List.map_filter f ms) \<longleftrightarrow> (\<exists>m \<in> set ms. f m = Some r)"
  by (induction ms) (auto simp: List.map_filter_simps split: option.split)

section \<open>The access log\<close>

lemma py_max_last: "f best < f x \<Longrightarrow> \<forall>y \<in> set ys. f y < f x \<Longrightarrow> py_max f best (ys @ [x]) = x"
  by (induction ys arbitrary: best) auto

lemma log_query_latest:
  assumes "ae_peer_id e = p" "ae_topic_hash e = h" "\<forall>e' \<in> set l. ae_timestamp e' < ae_timestamp e"
  shows "log_query p h (l @ [e]) = Some e"
proof (cases "filter (\<lambda>e. ae_peer_id e = p \<and> ae_topic_hash e = h) l")
  case Nil
  then show ?thesis using assms by (simp add: log_query_def)
next
  case (Cons a as)
  then have "set (a # as) \<subseteq> set l" by (metis filter_is_subset)
  then have "\<forall>y \<in> set (a # as). ae_timestamp y < ae_timestamp e" using assms(3) by blast
  with Cons assms show ?thesis by (simp add: log_query_def py_max_last)
qed

lemma count_by_trigger_code_eq:
  "count_by_trigger_code p since l code =
     length (filter (\<lambda>e. ae_trigger_code e = code) (log_query_recent p since l))"
proof -
  have "foldl (\<lambda>counts e. counts(ae_trigger_code e := counts (ae_trigger_code e) + 1)) c es code =
      c code + length (filter (\<lambda>e. ae_trigger_code e = code) es)" for c :: "trigger_code \<Rightarrow> nat" and es
    by (induction es arbitrary: c) auto
  from this [of "\<lambda>_. 0"] show ?thesis unfolding count_by_trigger_code_def by simp
qed

section \<open>The sliding window\<close>

text \<open>The allowed times of a run of checks of one bucket.\<close>

fun bucket_run :: "int \<Rightarrow> moment list \<Rightarrow> moment list \<Rightarrow> moment list" where
  "bucket_run limit events [] = []"
| "bucket_run limit events (now # ts) =
     (case bucket_check now limit events of
        (ok, events') \<Rightarrow> (if ok then [now] else []) @ bucket_run limit events' ts)"

definition in_window :: "moment \<Rightarrow> moment list \<Rightarrow> nat" where
  "in_window t xs = length (filter (\<lambda>x. t - sec WINDOW_SEC < x \<and> x \<le> t) xs)"

lemma evict_filter: "sorted events \<Longrightarrow> evict c events = filter (\<lambda>t. c < t) events"
proof (induction events)
  case (Cons x xs)
  show ?case
  proof (cases "x \<le> c")
    case True
    with Cons show ?thesis by (simp add: evict_def)
  next
    case False
    with Cons.prems have "\<forall>y \<in> set (x # xs). c < y" by auto
    then have "filter (\<lambda>t. c < t) (x # xs) = x # xs" by (simp only: filter_True)
    with False show ?thesis by (simp add: evict_def)
  qed
qed (simp add: evict_def)

text \<open>\<open>A\<close> are the times allowed so far; the bucket holds those after the last cutoff.\<close>

lemma bucket_run_window:
  assumes "sorted A" "events = filter (\<lambda>t. c < t) A" "\<forall>x \<in> set A. x \<le> now0" "c \<le> now0 - sec WINDOW_SEC"
    and "sorted (now0 # ts)" and "\<forall>t. int (in_window t A) \<le> limit" and "0 \<le> limit"
  shows "int (in_window t (A @ bucket_run limit events ts)) \<le> limit"
  using assms
proof (induction ts arbitrary: A events c now0)
  case (Cons now ts)
  define c' where "c' = now - sec WINDOW_SEC"
  have le: "now0 \<le> now" "sorted (now # ts)" using Cons.prems(5) by auto
  have "sorted events" using Cons.prems(1,2) by (simp add: sorted_wrt_filter)
  then have ev: "evict c' events = filter (\<lambda>t. c' < t) A"
    using Cons.prems(2,4) le(1) by (auto simp: evict_filter c'_def intro: filter_cong)
  show ?case
  proof (cases "limit \<le> int (length (evict c' events))")
    case True
    then have "bucket_run limit events (now # ts) = bucket_run limit (evict c' events) ts"
      by (simp add: bucket_check_def c'_def)
    moreover have "\<forall>x \<in> set A. x \<le> now" using Cons.prems(3) le(1) by auto
    ultimately show ?thesis
      using Cons.IH [OF Cons.prems(1) ev _ _ le(2) Cons.prems(6,7)] by (simp add: c'_def)
  next
    case False
    have run: "bucket_run limit events (now # ts) = now # bucket_run limit (evict c' events @ [now]) ts"
      using False by (simp add: bucket_check_def c'_def)
    define A' where "A' = A @ [now]"
    have A: "\<forall>x \<in> set A'. x \<le> now" "sorted A'"
      using Cons.prems(1,3) le(1) by (auto simp: A'_def sorted_append)
    have pos: "c' < now" by (simp add: c'_def sec_def WINDOW_SEC_def)
    have ev': "evict c' events @ [now] = filter (\<lambda>t. c' < t) A'" by (simp add: ev A'_def pos)
    have "int (in_window u A') \<le> limit" for u
    proof (cases "u < now")
      case True
      then have "in_window u A' = in_window u A" by (simp add: in_window_def A'_def)
      with Cons.prems(6) show ?thesis by simp
    next
      case not_before: False
      have "length (filter (\<lambda>x. u - sec WINDOW_SEC < x \<and> x \<le> u) A) \<le> length (filter (\<lambda>t. c' < t) A)"
        using not_before by (induction A) (auto simp: c'_def)
      with False ev not_before show ?thesis by (simp add: in_window_def A'_def)
    qed
    with Cons.IH [OF A(2) ev' A(1) _ le(2) _ Cons.prems(7)]
    have "int (in_window t (A' @ bucket_run limit (evict c' events @ [now]) ts)) \<le> limit"
      by (simp add: c'_def)
    then show ?thesis unfolding run A'_def by simp
  qed
qed simp

text \<open>A run of the whole limiter: the allowed (peer, time) pairs, in order.\<close>

fun limiter_run :: "(string \<Rightarrow> int) \<Rightarrow> (string \<Rightarrow> moment list) \<Rightarrow> (string \<times> moment) list \<Rightarrow> (string \<times> moment) list" where
  "limiter_run limits buckets [] = []"
| "limiter_run limits buckets ((p, now) # reqs) =
     (case limiter_check p (limits p) now buckets of
        (ok, buckets') \<Rightarrow> (if ok then [(p, now)] else []) @ limiter_run limits buckets' reqs)"

lemma limiter_run_peer:
  "map snd (filter (\<lambda>r. fst r = p) (limiter_run limits buckets reqs)) =
     bucket_run (limits p) (buckets p) (map snd (filter (\<lambda>r. fst r = p) reqs))"
proof (induction limits buckets reqs rule: limiter_run.induct)
  case (2 limits buckets q now reqs)
  obtain ok ev where b: "bucket_check now (limits q) (buckets q) = (ok, ev)" by fastforce
  then have c: "limiter_check q (limits q) now buckets = (ok, buckets(q := ev))" by (simp add: limiter_check_def)
  have "map snd (filter (\<lambda>r. fst r = p) (limiter_run limits (buckets(q := ev)) reqs)) =
      bucket_run (limits p) ((buckets(q := ev)) p) (map snd (filter (\<lambda>r. fst r = p) reqs))"
    using 2 c by (simp only: prod.inject)
  with b c show ?case by (cases "q = p") (simp_all add: fun_upd_def)
qed simp

section \<open>What the server does\<close>

text \<open>The peer a request authenticates as, if any.\<close>

definition known_peer :: "(string \<rightharpoonup> string) \<Rightarrow> fed_settings \<Rightarrow> string option \<Rightarrow> pull_request \<Rightarrow> peer_config option" where
  "known_peer env fed token rq =
     (case map_of (fd_peers fed) (rq_peer_id rq) of
        None \<Rightarrow> None
      | Some peer \<Rightarrow> if token_ok token (resolve_peer_token env peer) then Some peer else None)"

definition log_entry :: "(string \<Rightarrow> string) \<Rightarrow> moment \<Rightarrow> pull_request \<Rightarrow> pull_response \<Rightarrow> access_entry" where
  "log_entry digest now rq resp =
     \<lparr>ae_peer_id = rq_peer_id rq, ae_topic_hash = digest (rq_query rq), ae_timestamp = now,
      ae_project_scope = rq_project_scope rq, ae_trigger_code = rs_trigger_code resp,
      ae_record_ids = map cr_id (rs_records resp)\<rparr>"

lemma handle_pull_cases:
  "handle_pull env digest search log_ok fed self_id token fingerprint tick now rq st =
     (case known_peer env fed token rq of
        None \<Rightarrow> Inr ((refused_response REFUSED, 403), st)
      | Some peer \<Rightarrow>
          if \<not> verify_mtls_fingerprint fingerprint (pc_mtls_fingerprint peer) then
            Inr ((refused_response REFUSED, 403),
              st\<lparr>pl_log := log_access log_ok digest now rq REFUSED [] (pl_log st)\<rparr>)
          else
            (let chk = bucket_check tick (pc_rate_limit peer) (pl_buckets st (rq_peer_id rq));
                 st1 = st\<lparr>pl_buckets := (pl_buckets st)(rq_peer_id rq := snd chk)\<rparr>
             in if \<not> fst chk then
                  Inr ((refused_response REFUSED, 429),
                    st1\<lparr>pl_log := log_access log_ok digest now rq REFUSED [] (pl_log st)\<rparr>)
                else if \<not> acl_allows peer (rq_project_scope rq) then
                  Inr ((refused_response REFUSED, 403),
                    st1\<lparr>pl_log := log_access log_ok digest now rq REFUSED [] (pl_log st)\<rparr>)
                else serve_pull digest search log_ok fed self_id now peer rq st1))"
  by (auto simp: handle_pull_def known_peer_def limiter_check_def Let_def verify_mtls_fingerprint_def
      split: option.splits prod.splits)

lemma serve_pull_cases:
  "serve_pull digest search log_ok fed self_id now peer rq st =
     (let cands = candidates_for peer (search (rq_query rq) (rq_project_scope rq));
          records = List.map_filter (offered fed now self_id) cands;
          refused = length (filter (\<lambda>m. offered fed now self_id m = None) cands);
          again = map_option ae_trigger_code (log_query (rq_peer_id rq) (digest (rq_query rq)) (pl_log st)) = Some EXHAUSTIVE;
          resp = \<lparr>rs_trigger_code = (if again then ALREADY_EXHAUSTED
                                    else select_trigger_code (length cands) refused (length records)),
                  rs_records = (if again then [] else records), rs_ttl_class = ''ephemeral'', rs_peer_id = self_id\<rparr>
      in Inr ((resp, 200), st\<lparr>pl_log := log_access log_ok digest now rq (rs_trigger_code resp)
                                         (map cr_id (rs_records resp)) (pl_log st)\<rparr>))"
  unfolding serve_pull_def pull_loop_result Let_def
  by (cases "map_option ae_trigger_code (log_query (rq_peer_id rq) (digest (rq_query rq)) (pl_log st)) = Some EXHAUSTIVE")
     (simp_all only: simp_thms if_True if_False list.map sum.case prod.case append_Nil add_0 pull_response.simps)

text \<open>
  C14. A pull ships only what its peer may see: when an answer carries records, the request
  came from a configured peer with its token and pinned certificate, under its rate limit
  and for an allowed project, and every record was built from a search result without the
  no-federate tag, of an allowed type, that moderation did not refuse.
\<close>

theorem pull_ships_only_allowed:
  assumes "handle_pull env digest search log_ok fed self_id token fingerprint tick now rq st =
      Inr ((resp, status), st')" and "rs_records resp \<noteq> []"
  shows "\<exists>peer. known_peer env fed token rq = Some peer \<and> status = 200 \<and>
    verify_mtls_fingerprint fingerprint (pc_mtls_fingerprint peer) \<and>
    fst (bucket_check tick (pc_rate_limit peer) (pl_buckets st (rq_peer_id rq))) \<and>
    acl_allows peer (rq_project_scope rq) \<and>
    list_all (\<lambda>r. list_ex (\<lambda>m. NO_FEDERATE_TAG \<notin> set (m_tags m) \<and>
                 type_allowed peer (memory_type_for_filter (m_tags m)) \<and> offered fed now self_id m = Some r)
               (search (rq_query rq) (rq_project_scope rq)))
      (rs_records resp)"
proof -
  from assms obtain peer where p: "known_peer env fed token rq = Some peer"
    by (auto simp: handle_pull_cases refused_response_def split: option.splits)
  have mtls: "verify_mtls_fingerprint fingerprint (pc_mtls_fingerprint peer)"
    and lim: "fst (bucket_check tick (pc_rate_limit peer) (pl_buckets st (rq_peer_id rq)))"
    and acl: "acl_allows peer (rq_project_scope rq)"
    using assms p by (auto simp: handle_pull_cases refused_response_def Let_def split: if_splits)
  define cands where "cands = candidates_for peer (search (rq_query rq) (rq_project_scope rq))"
  from assms p mtls lim acl have "status = 200"
    and "rs_records resp = List.map_filter (offered fed now self_id) cands"
    by (auto simp: handle_pull_cases serve_pull_cases Let_def cands_def split: if_splits)
  with p mtls lim acl show ?thesis
    by (auto simp: list_all_iff list_ex_iff set_map_filter cands_def candidates_for_def)
qed

text \<open>The audit trail is complete and hides the topic: every request of an authenticated
  peer adds exactly one entry -- its digest, its project, the trigger code and the ids that
  were shipped --, and a request that is not authenticated changes nothing at all.
\<close>

theorem pull_audited:
  "\<exists>resp status st'.
     handle_pull env digest search log_ok fed self_id token fingerprint tick now rq st = Inr ((resp, status), st') \<and>
     (case known_peer env fed token rq of
        None \<Rightarrow> st' = st \<and> resp = refused_response REFUSED \<and> status = 403
      | Some peer \<Rightarrow>
          pl_log st' = (if log_ok then pl_log st @ [log_entry digest now rq resp] else pl_log st))"
  by (cases "known_peer env fed token rq")
     (simp_all add: handle_pull_cases serve_pull_cases Let_def log_access_def log_append_def log_entry_def
       refused_response_def)

text \<open>
  The trigger code tells the truth about the candidates: on a topic that is not
  short-circuited the answer is exhaustive exactly when no candidate was refused, refused
  exactly when there were candidates and none was shipped, and partial exactly when some
  were shipped and some refused.
\<close>

theorem trigger_code_truth:
  assumes "map_option ae_trigger_code (log_query (rq_peer_id rq) (digest (rq_query rq)) (pl_log st)) \<noteq> Some EXHAUSTIVE"
    and "candidates_for peer (search (rq_query rq) (rq_project_scope rq)) = cands"
  shows "\<exists>resp st'. serve_pull digest search log_ok fed self_id now peer rq st = Inr ((resp, 200), st') \<and>
    length (rs_records resp) \<le> length cands \<and>
    rs_trigger_code resp =
      (if length (rs_records resp) = length cands then EXHAUSTIVE
       else if rs_records resp = [] then REFUSED else PARTIAL)"
proof -
  have "length (List.map_filter (offered fed now self_id) cands) +
      length (filter (\<lambda>m. offered fed now self_id m = None) cands) = length cands"
    by (rule map_filter_counts)
  with assms show ?thesis
    by (auto simp: serve_pull_cases Let_def select_trigger_code_def)
qed

definition pull_sample :: pull_request where
  "pull_sample = \<lparr>rq_peer_id = ''a'', rq_query = ''q'', rq_project_scope = ''p'', rq_include_content = True\<rparr>"

definition peer_sample :: peer_config where
  "peer_sample = \<lparr>pc_bearer_token_env = ''T'', pc_allowed_projects = [''p''], pc_allowed_types = [''*''],
     pc_rate_limit = 1, pc_mtls_fingerprint = None\<rparr>"

definition fed_sample :: fed_settings where
  "fed_sample = \<lparr>fd_peers = [(''a'', peer_sample)], fd_refuse_threshold = 8 / 10, fd_mapping_ttl_hours = 24\<rparr>"

definition empty_pull_state :: pull_state where
  "empty_pull_state = \<lparr>pl_buckets = (\<lambda>p. []), pl_log = []\<rparr>"

lemma trigger_code_truth_witness:
  "\<exists>resp st'. serve_pull (\<lambda>t. t) (\<lambda>q p. [new_memory ''m1'' [] 0]) True fed_sample ''b'' 0 peer_sample
      pull_sample empty_pull_state = Inr ((resp, 200), st')"
proof -
  have "map_option ae_trigger_code (log_query (rq_peer_id pull_sample) ((\<lambda>t. t) (rq_query pull_sample))
      (pl_log empty_pull_state)) \<noteq> Some EXHAUSTIVE"
    by (simp add: empty_pull_state_def log_query_def)
  from trigger_code_truth [where digest = "\<lambda>t. t" and rq = pull_sample and st = empty_pull_state
      and search = "\<lambda>q p. [new_memory ''m1'' [] 0]" and peer = peer_sample
      and log_ok = True and fed = fed_sample and self_id = "''b''" and now = 0, OF this refl]
  show ?thesis by blast
qed

lemma sample_offered: "offered fed_sample 0 ''b'' (new_memory ''m1'' [] 0) \<noteq> None"
  by (simp add: offered_def moderate_def new_memory_def mod_result_def build_compact_record_def)

lemma pull_ships_only_allowed_witness:
  "\<exists>peer. known_peer (\<lambda>v. Some ''secret'') fed_sample (Some ''secret'') pull_sample = Some peer \<and>
     acl_allows peer ''p''"
proof -
  let ?pull = "handle_pull (\<lambda>v. Some ''secret'') (\<lambda>t. t) (\<lambda>q p. [new_memory ''m1'' [] 0]) True fed_sample ''b''
      (Some ''secret'') None 0 0 pull_sample empty_pull_state"
  have k: "known_peer (\<lambda>v. Some ''secret'') fed_sample (Some ''secret'') pull_sample = Some peer_sample"
    by (simp add: known_peer_def fed_sample_def pull_sample_def resolve_peer_token_def token_ok_def)
  have v: "verify_mtls_fingerprint None (pc_mtls_fingerprint peer_sample)"
    by (simp add: verify_mtls_fingerprint_def peer_sample_def)
  have b: "fst (bucket_check 0 (pc_rate_limit peer_sample) (pl_buckets empty_pull_state (rq_peer_id pull_sample)))"
    by (simp add: bucket_check_def evict_def empty_pull_state_def peer_sample_def)
  have a: "acl_allows peer_sample (rq_project_scope pull_sample)"
    by (simp add: acl_allows_def peer_sample_def pull_sample_def)
  have c: "candidates_for peer_sample [new_memory ''m1'' [] 0] = [new_memory ''m1'' [] 0]"
    by (simp add: candidates_for_def new_memory_def type_allowed_def peer_sample_def)
  obtain rec where r: "offered fed_sample 0 ''b'' (new_memory ''m1'' [] 0) = Some rec"
    using sample_offered by blast
  have "\<exists>resp st'. ?pull = Inr ((resp, 200), st') \<and> rs_records resp \<noteq> []"
    unfolding handle_pull_cases k option.case Let_def serve_pull_cases c
    using v b a r by (simp add: List.map_filter_simps empty_pull_state_def log_query_def)
  then obtain resp st' where "?pull = Inr ((resp, 200), st')" "rs_records resp \<noteq> []"
    by blast
  from pull_ships_only_allowed [OF this] show ?thesis by (auto simp: pull_sample_def)
qed

text \<open>The rate limit is a true sliding window for each peer on its own: however the requests
  of all peers interleave, no window of sixty seconds holds more allowed requests of a peer
  than its limit, and what the other peers do does not change which ones are allowed.
\<close>

theorem rate_window:
  assumes "sorted (map snd reqs)" and "0 \<le> limits p"
  shows "int (in_window t (map snd (filter (\<lambda>r. fst r = p) (limiter_run limits (\<lambda>_. []) reqs)))) \<le> limits p \<and>
    map snd (filter (\<lambda>r. fst r = p) (limiter_run limits (\<lambda>_. []) reqs)) =
      bucket_run (limits p) [] (map snd (filter (\<lambda>r. fst r = p) reqs))"
proof -
  define ts where "ts = map snd (filter (\<lambda>r. fst r = p) reqs)"
  have srt: "sorted ts" using assms(1) unfolding ts_def by (simp add: sorted_wrt_map sorted_wrt_filter sorted_map)
  define now0 where "now0 = (if ts = [] then 0 else hd ts)"
  have "sorted (now0 # ts)" using srt by (cases ts) (auto simp: now0_def)
  from bucket_run_window [of "[]" "[]" "now0 - sec WINDOW_SEC" now0 ts "limits p" t] this assms(2)
  have "int (in_window t (bucket_run (limits p) [] ts)) \<le> limits p" by (simp add: in_window_def)
  then show ?thesis by (simp add: limiter_run_peer ts_def)
qed

lemma rate_window_witness:
  "int (in_window 5 (map snd (filter (\<lambda>r. fst r = ''a'')
      (limiter_run (\<lambda>_. 1) (\<lambda>_. []) [(''a'', 1), (''b'', 2), (''a'', 3)])))) \<le> 1"
proof -
  have "sorted (map snd [(''a'', 1), (''b'', 2), (''a'', 3 :: moment)])" by simp
  moreover have "0 \<le> (\<lambda>_. 1 :: int) ''a''" by simp
  ultimately show ?thesis by (rule rate_window [THEN conjunct1])
qed

text \<open>An exhaustive answer is not repeated at once, but it is repeated: after it the next
  request of the peer on the topic, for whatever project, ships nothing and is told so; that
  very answer hides the exhaustive one from the lookup, and the request after it is served
  by a search again.
\<close>

theorem repeat_after_exhaustive:
  assumes "\<forall>e \<in> set (pl_log st). ae_timestamp e < t1" and "t1 < t2" and "t2 < t3"
    and "serve_pull digest search True fed self_id t1 peer rq st = Inr ((r1, s1), st1)"
    and "rs_trigger_code r1 = EXHAUSTIVE"
    and "rq_peer_id rq2 = rq_peer_id rq" and "rq_query rq2 = rq_query rq"
    and "rq_peer_id rq3 = rq_peer_id rq" and "rq_query rq3 = rq_query rq"
  shows "\<exists>r2 st2 r3 st3.
    serve_pull digest search True fed self_id t2 peer rq2 st1 = Inr ((r2, 200), st2) \<and>
    rs_trigger_code r2 = ALREADY_EXHAUSTED \<and> rs_records r2 = [] \<and>
    serve_pull digest search True fed self_id t3 peer rq3 st2 = Inr ((r3, 200), st3) \<and>
    rs_records r3 = List.map_filter (offered fed t3 self_id)
      (candidates_for peer (search (rq_query rq3) (rq_project_scope rq3)))"
proof -
  define q where "q l = map_option ae_trigger_code (log_query (rq_peer_id rq) (digest (rq_query rq)) l)" for l
  have entry: "q (log_access True digest now x code ids l) = Some code"
    if "rq_peer_id x = rq_peer_id rq" "rq_query x = rq_query rq" "\<forall>e \<in> set l. ae_timestamp e < now"
    for now x code ids l
  proof -
    have "log_query (rq_peer_id rq) (digest (rq_query rq)) (log_access True digest now x code ids l) =
        Some \<lparr>ae_peer_id = rq_peer_id rq, ae_topic_hash = digest (rq_query rq), ae_timestamp = now,
             ae_project_scope = rq_project_scope x, ae_trigger_code = code, ae_record_ids = ids\<rparr>"
      unfolding log_access_def log_append_def if_True that(1,2)
      by (rule log_query_latest) (use that(3) in simp_all)
    then show ?thesis by (simp add: q_def)
  qed
  have fresh: "\<forall>e \<in> set (log_access True digest now x code ids l). ae_timestamp e < now'"
    if "\<forall>e \<in> set l. ae_timestamp e < now" "now < now'" for now now' x code ids l
    using that by (auto simp: log_access_def log_append_def)
  from assms(4) obtain ids where l1: "pl_log st1 = log_access True digest t1 rq EXHAUSTIVE ids (pl_log st)"
    using assms(5) by (auto simp: serve_pull_cases Let_def)
  have q1: "q (pl_log st1) = Some EXHAUSTIVE" unfolding l1 by (rule entry) (use assms(1) in simp_all)
  have f1: "\<forall>e \<in> set (pl_log st1). ae_timestamp e < t2" unfolding l1 by (rule fresh [OF assms(1,2)])
  define st2 where "st2 = st1\<lparr>pl_log := log_access True digest t2 rq2 ALREADY_EXHAUSTED [] (pl_log st1)\<rparr>"
  have "q (pl_log st2) = Some ALREADY_EXHAUSTED"
    unfolding st2_def using entry [OF assms(6,7) f1] by simp
  then have "q (pl_log st2) \<noteq> Some EXHAUSTIVE" by simp
  with q1 show ?thesis
    using assms(6-9)
    by (simp add: serve_pull_cases [of _ _ _ _ _ _ _ rq2] serve_pull_cases [of _ _ _ _ _ _ _ rq3] q_def Let_def
        st2_def [symmetric] del: map_option_eq_Some)
qed

lemma repeat_after_exhaustive_witness:
  "\<exists>r2 st1 st2 r3 st3.
     serve_pull (\<lambda>t. t) (\<lambda>q p. []) True fed_sample ''b'' 2 peer_sample pull_sample st1 = Inr ((r2, 200), st2) \<and>
     rs_trigger_code r2 = ALREADY_EXHAUSTED \<and>
     serve_pull (\<lambda>t. t) (\<lambda>q p. []) True fed_sample ''b'' 3 peer_sample pull_sample st2 = Inr ((r3, 200), st3) \<and>
     rs_records r3 = []"
proof -
  have "\<exists>r1 s1 st1. serve_pull (\<lambda>t. t) (\<lambda>q p. []) True fed_sample ''b'' 1 peer_sample pull_sample empty_pull_state =
      Inr ((r1, s1), st1) \<and> rs_trigger_code r1 = EXHAUSTIVE"
    by (simp add: serve_pull_cases Let_def candidates_for_def empty_pull_state_def log_query_def
        select_trigger_code_def)
  then obtain r1 s1 st1 where "serve_pull (\<lambda>t. t) (\<lambda>q p. []) True fed_sample ''b'' 1 peer_sample pull_sample
      empty_pull_state = Inr ((r1, s1), st1)" "rs_trigger_code r1 = EXHAUSTIVE" by blast
  from repeat_after_exhaustive [OF _ _ _ this, of 2 3 pull_sample pull_sample]
  have "\<exists>r2 st2 r3 st3. serve_pull (\<lambda>t. t) (\<lambda>q p. []) True fed_sample ''b'' 2 peer_sample pull_sample st1 =
        Inr ((r2, 200), st2) \<and> rs_trigger_code r2 = ALREADY_EXHAUSTED \<and> rs_records r2 = [] \<and>
      serve_pull (\<lambda>t. t) (\<lambda>q p. []) True fed_sample ''b'' 3 peer_sample pull_sample st2 = Inr ((r3, 200 :: nat), st3) \<and>
      rs_records r3 = []"
    by (simp add: empty_pull_state_def candidates_for_def List.map_filter_simps)
  then show ?thesis by blast
qed

text \<open>The asking side fails closed: a pull falls back to the local search, with no records
  and a code that says so, unless the peer is configured, its token and address are known
  and it answered 200 with a well-formed body, and then the result is that body.
\<close>

theorem client_fails_closed:
  "let r = pull_from_peer env post fed override peer_id in
     pr_fell_back r \<and> pr_records r = [] \<and> should_fallback_to_local (pr_trigger_code r) \<and> pr_peer_id r = peer_id \<or>
     (\<exists>peer token url code records sender.
        map_of (fd_peers fed) peer_id = Some peer \<and> resolve_peer_token env peer = Some token \<and>
        post url token = Reply 200 (Some (code, records, sender)) \<and>
        pr_fell_back r = False \<and> pr_trigger_code r = code \<and> pr_records r = records)"
proof -
  have f: "pr_fell_back (fallback peer_id b) \<and> pr_records (fallback peer_id b) = [] \<and>
      should_fallback_to_local (pr_trigger_code (fallback peer_id b)) \<and> pr_peer_id (fallback peer_id b) = peer_id" for b
    by (simp add: fallback_def should_fallback_to_local_def)
  show ?thesis
  proof (cases "\<exists>b. pull_from_peer env post fed override peer_id = fallback peer_id b")
    case True
    with f show ?thesis by (auto simp: Let_def)
  next
    case False
    then obtain peer token url code records sender where
      "map_of (fd_peers fed) peer_id = Some peer" "resolve_peer_token env peer = Some token"
      "post url token = Reply 200 (Some (code, records, sender))"
      "pull_from_peer env post fed override peer_id = parse_ok (Some (code, records, sender)) peer_id"
      unfolding pull_from_peer_def
      by (auto simp: parse_ok_def split: option.splits http_outcome.splits if_splits)
    then show ?thesis by (fastforce simp: Let_def parse_ok_def)
  qed
qed

text \<open>The wildcard grants every project, listed as shared or not.\<close>

lemma wildcard_grants_any_project: "''*'' \<in> set (pc_allowed_projects peer) \<Longrightarrow> acl_allows peer project"
  by (auto simp: acl_allows_def)

end
