(* ===== verification/Context_Filter.thy ===== *)
theory Context_Filter
  imports Regex Json_Text Text_Ops Floats "HOL-Library.Code_Target_Nat" "HOL-Library.AList" "HOL-Library.Sublist"
begin

text \<open>
  The five-stage context filter of \<open>filter/pipeline.py\<close>: dedup, noise, extract, compress and
  tokens, the profile detection, and \<open>apply_filter\<close>.

  Texts are over the code points below 256, so the spinner and bullet characters of the
  patterns, which lie above, are left out of their classes.  How \<open>json.dumps\<close> prints the
  float that \<open>json.loads\<close> read from a text is the parameter \<open>fr\<close>.
\<close>

section \<open>Vocabulary\<close>

text \<open>The values of the statistics, which are dicts.\<close>

datatype stat = SInt int | SBool bool | SNone | SNum rat

type_synonym stats = "(string \<times> stat) list"

abbreviation digit :: rx where
  "digit \<equiv> ranges [(48, 57)] []"

abbreviation digits :: "nat \<Rightarrow> rx" where
  "digits n \<equiv> Rep n (Some n) digit"

abbreviation space :: rx where
  "space \<equiv> ranges space_ranges []"

abbreviation newline :: string where
  "newline \<equiv> [CHR 0x0A]"

definition occurs :: "string \<Rightarrow> string \<Rightarrow> bool" where
  "occurs p s \<longleftrightarrow> count_sub p s \<noteq> 0"

text \<open>\<open>dict\<close>: of several pairs with one key the first gives the place and the last the value.\<close>

definition dict_of :: "(string \<times> 'a) list \<Rightarrow> (string \<times> 'a) list" where
  "dict_of kvs = foldl (\<lambda>d (k, v). AList.update k v d) [] kvs"

fun as_dict :: "wire \<Rightarrow> wire" where
  "as_dict (WArr xs) = WArr (map as_dict xs)"
| "as_dict (WObj kvs) = WObj (dict_of (map (\<lambda>(k, v). (k, as_dict v)) kvs))"
| "as_dict v = v"

text \<open>\<open>json.loads\<close> of a \<open>str\<close>; \<open>None\<close> is a \<open>ValueError\<close>.  A text nests no deeper than its length, so the
  recursion limit is left out.\<close>

definition json_loads :: "string \<Rightarrow> wire option" where
  "json_loads s =
     (case p_value (length s) (2 * length s + 2) (skip_space s) of
        Inl e \<Rightarrow> None
      | Inr (v, r) \<Rightarrow> if skip_space r = [] then Some (as_dict v) else None)"

definition esc_plain :: "char \<Rightarrow> string" where
  "esc_plain c = (if 127 \<le> (of_char c :: nat) then [c] else esc c)"

definition new_line :: "nat \<Rightarrow> string" where
  "new_line k = newline @ replicate (2 * k) (CHR '' '')"

text \<open>\<open>json.dumps(v, indent=2, ensure_ascii=False)\<close>.\<close>

fun dumps_indent :: "(string \<Rightarrow> string) \<Rightarrow> nat \<Rightarrow> wire \<Rightarrow> string" where
  "dumps_indent fr k (WNum s) = fr s"
| "dumps_indent fr k (WStr s) = quote_char # concat (map esc_plain s) @ [quote_char]"
| "dumps_indent fr k (WArr xs) =
     (if xs = [] then ''[]''
      else ''['' @ new_line (k + 1) @ join ('','' @ new_line (k + 1)) (map (dumps_indent fr (k + 1)) xs) @
           new_line k @ '']'')"
| "dumps_indent fr k (WObj kvs) =
     (if kvs = [] then ''{}''
      else ''{'' @ new_line (k + 1) @
           join ('','' @ new_line (k + 1))
             (map (\<lambda>(a, v). quote_char # concat (map esc_plain a) @ [quote_char] @ '': '' @ dumps_indent fr (k + 1) v) kvs) @
           new_line k @ ''}'')"
| "dumps_indent fr k v = dumps v"

definition opens_json :: "string \<Rightarrow> bool" where
  "opens_json t \<longleftrightarrow> starts_with (lstrip t) ''['' \<or> starts_with (lstrip t) ''{''"

definition is_json :: "string \<Rightarrow> bool" where
  "is_json t \<longleftrightarrow> opens_json t \<and> json_loads t \<noteq> None"

section \<open>Stage 1: dedup\<close>

text \<open>\<open>re.sub(r"\W+", "", stripped).lower()\<close>.\<close>

definition normalized_line :: "string \<Rightarrow> string" where
  "normalized_line s = lower (filter (in_ranges word_ranges) s)"

fun dedup_lines :: "string list \<Rightarrow> string set \<Rightarrow> string list \<times> nat \<times> nat" where
  "dedup_lines [] seen = ([], 0, 0)"
| "dedup_lines (l # ls) seen =
     (let stripped = rstrip l; normalized = normalized_line stripped
      in if stripped = [] then (case dedup_lines ls seen of (out, e, n) \<Rightarrow> (l # out, e, n))
         else if stripped \<in> seen then (case dedup_lines ls seen of (out, e, n) \<Rightarrow> (out, Suc e, n))
         else if normalized \<noteq> [] \<and> normalized \<in> seen then
           (case dedup_lines ls seen of (out, e, n) \<Rightarrow> (out, e, Suc n))
         else
           (case dedup_lines ls (insert stripped (if normalized \<noteq> [] then insert normalized seen else seen)) of
              (out, e, n) \<Rightarrow> (l # out, e, n)))"

definition dedup_stats :: "nat \<Rightarrow> nat \<Rightarrow> nat \<Rightarrow> nat \<Rightarrow> stats" where
  "dedup_stats i k e n =
     [(''lines_in'', SInt (int i)), (''lines_out'', SInt (int k)), (''exact_dups'', SInt (int e)),
      (''near_dups'', SInt (int n))]"

definition stage_dedup :: "string \<Rightarrow> string \<times> stats" where
  "stage_dedup t =
     (let ls = splitlines t
      in if is_json t then (t, dedup_stats (length ls) (length ls) 0 0 @ [(''json_skipped'', SBool True)])
         else if ls = [] then (t, dedup_stats 0 0 0 0)
         else (case dedup_lines ls {} of
                 (out, e, n) \<Rightarrow> (join newline out, dedup_stats (length ls) (length out) e n)))"

section \<open>Stage 2: noise\<close>

definition ANSI_RE :: rx where
  "ANSI_RE = seqs [lit [CHR 0x1B, CHR ''[''], star (ranges [(48, 57)] '';''), lit ''m'']"

definition PROGRESS_RE :: rx where
  "PROGRESS_RE =
     alts [seqs [plus (chars [CHR ''#'', CHR ''-'', CHR ''='', CHR ''|'', CHR 0x5C, CHR ''/'']), star space, plus digit,
                 opt (lit ''%'')],
           seqs [lit ''['', star space, plus (lit ''#''), star space, lit '']'', star digit, opt (lit ''%'')],
           seqs [lit ''['', star space, plus digit, lit ''/'', star digit, star space, lit '']'']]"

definition TIMESTAMP_RE :: rx where
  "TIMESTAMP_RE =
     seqs [digits 4, lit ''-'', digits 2, lit ''-'', digits 2, chars ''T '', digits 2, lit '':'', digits 2, lit '':'',
           digits 2, opt (seqs [lit ''.'', plus digit]),
           opt (alts [lit ''Z'', seqs [chars ''+-'', digits 2, lit '':'', digits 2]]), star space]"

definition SEPARATOR_RE :: rx where
  "SEPARATOR_RE =
     alts [seqs [Bol, Rep 3 None (chars ''-=''), Eol], seqs [Bol, star space, lit ''*'', star space, Eol]]"

definition stage_noise :: "string \<Rightarrow> string \<Rightarrow> string \<times> stats" where
  "stage_noise t0 profile =
     (let t1 = rx_sub ANSI_RE [] t0;
          noisy = profile \<in> {''log'', ''terminal''};
          t2 = (if noisy then rx_sub TIMESTAMP_RE [] t1 else t1);
          t3 = (if noisy then rx_sub PROGRESS_RE [] t2 else t2);
          ls = splitlines t3;
          kept = filter (\<lambda>l. \<not> rx_match SEPARATOR_RE (strip l)) ls;
          split = profile \<in> {''log'', ''terminal'', ''default''};
          t4 = (if split then join newline kept else t3)
      in (rx_sub (Rep 3 None (lit newline)) (newline @ newline) t4,
          [(''original_chars'', SInt (int (length t0))),
           (''removed_ansi'', SInt (int (length (finditer ANSI_RE t0)))),
           (''removed_progress'', SInt (if noisy then int (length (finditer PROGRESS_RE t2)) else 0)),
           (''removed_timestamps'', SInt (if noisy then int (length (finditer TIMESTAMP_RE t1)) else 0)),
           (''removed_separators'', SInt (if split then int (length ls - length kept) else 0))]))"

section \<open>Stage 3: extract\<close>

definition ERROR_RE :: rx where
  "ERROR_RE =
     seqs [alts (map lit_ci [''error'', ''exception'', ''traceback'', ''failed'', ''failure'', ''fatal'', ''panic'',
             ''assertionerror'', ''runtimeerror'', ''typeerror'', ''valueerror'', ''keyerror'', ''indexerror'']),
           star space, opt (lit '':''), star space]"

definition WARNING_RE :: rx where
  "WARNING_RE =
     seqs [alts (map lit_ci [''warning'', ''warn'', ''deprecated'', ''obsolete'', ''todo'', ''fixme'', ''hack'', ''xxx'']),
           star space, opt (lit '':''), star space]"

definition EXIT_RE :: rx where
  "EXIT_RE =
     seqs [alts [seqs [lit_ci ''exit'', star space, lit_ci ''code''], seqs [lit_ci ''return'', star space, lit_ci ''code''],
                 seqs [lit_ci ''status'', star space, lit_ci ''code''], lit_ci ''rc='',
                 seqs [lit_ci ''exited'', star space, lit_ci ''with'', opt (seqs [star space, lit_ci ''code''])]],
           star space, opt (lit '':''), star space, plus digit]"

definition level_rx :: rx where
  "level_rx = alts (map lit_ci [''debug'', ''info'', ''trace''])"

definition VERBOSE_RE :: rx where
  "VERBOSE_RE =
     alts [seqs [Bol, star space, lit ''['', star space, level_rx, star space, lit '']''],
           seqs [Bol, star space, level_rx, star space, opt (lit '':''), space],
           seqs [alts (map lit_ci [''started'', ''completed'', ''finished'', ''succeeded'', ''ok'', ''done'', ''ready'']),
                 star space, opt (lit ''.''), star space, Eol]]"

definition IMPORT_RE :: rx where
  "IMPORT_RE =
     seqs [Bol, star space,
           alts [seqs [lit_ci ''import'', space],
                 seqs [lit_ci ''from'', plus space, plus (Cls True space_ranges), plus space, lit_ci ''import'', space],
                 seqs [lit_ci ''#include'', space], seqs [lit_ci ''use'', space], seqs [lit_ci ''require'', space],
                 seqs [lit_ci ''const'', plus space, lit ''{'', star (Cls True [(10, 10)]), lit ''}'', star space, lit ''='',
                       star space, lit_ci ''require'']]]"

definition is_signal :: "string \<Rightarrow> bool" where
  "is_signal s \<longleftrightarrow> rx_search ERROR_RE s \<or> rx_search WARNING_RE s \<or> rx_search EXIT_RE s"

definition add_pair :: "(nat \<times> string) list \<Rightarrow> nat \<times> string \<Rightarrow> (nat \<times> string) list" where
  "add_pair acc p = (if p \<in> set acc then acc else acc @ [p])"

definition extract_step ::
  "string \<Rightarrow> string list \<Rightarrow> (nat \<times> string) list \<times> nat \<Rightarrow> nat \<times> string \<Rightarrow> (nat \<times> string) list \<times> nat" where
  "extract_step profile ls st p =
     (case (st, p) of
        ((signals, verbose), (idx, line)) \<Rightarrow>
          if strip line = [] then (signals, verbose)
          else if is_signal (strip line) then
            (foldl add_pair signals (map (\<lambda>i. (i, ls ! i)) [idx - 2..<min (length ls) (idx + 3)]), verbose)
          else if profile \<in> {''log'', ''terminal''} \<and> rx_search VERBOSE_RE (strip line) then (signals, Suc verbose)
          else (signals, verbose))"

definition sample_indices :: "nat \<Rightarrow> nat list" where
  "sample_indices n =
     filter (\<lambda>i. i < 10 \<or> n - 10 \<le> i \<or> (i < n - 10 \<and> (i - 10) mod 10 = 0)) [0..<n]"

definition stage_extract :: "string \<Rightarrow> string \<Rightarrow> string \<times> stats" where
  "stage_extract t profile =
     (let ls = splitlines t; nothing = [(''signal_lines'', SInt 0), (''sampled'', SInt 0)]
      in if ls = [] then (t, nothing)
         else if profile \<in> {''docs'', ''web'', ''default''} then (t, nothing)
         else if is_json t then (t, nothing @ [(''json_skipped'', SBool True)])
         else
           (case foldl (extract_step profile ls) ([], 0) (enumerate 0 ls) of
              (signals, verbose) \<Rightarrow>
                if signals \<noteq> [] then
                  (join newline (map snd (sort_key fst signals)),
                   [(''signal_lines'', SInt (int (length signals))), (''sampled'', SInt (int (length signals))),
                    (''verbose_dropped'', SInt (int verbose))])
                else if 50 < length ls \<and> profile \<in> {''log'', ''terminal''} then
                  (join newline (map (\<lambda>i. ls ! i) (sample_indices (length ls))),
                   [(''signal_lines'', SInt 0),
                    (''sampled'', SInt (int (length ls) - int (length (sample_indices (length ls))))),
                    (''verbose_dropped'', SInt (int verbose))])
                else (t, nothing)))"

section \<open>Stage 4: compress\<close>

definition ERROR_WORDS :: "string list" where
  "ERROR_WORDS = [''error'', ''fail'', ''warn'', ''exception'', ''critical'', ''fatal'', ''timeout'']"

fun is_json_anomaly :: "wire \<Rightarrow> bool" where
  "is_json_anomaly WNull = False"
| "is_json_anomaly (WBool b) = b"
| "is_json_anomaly (WStr s) = list_ex (\<lambda>w. occurs w (lower s)) ERROR_WORDS"
| "is_json_anomaly (WObj kvs) =
     list_ex (\<lambda>(k, v).
       lower k \<in> {''error'', ''error_code'', ''error_message'', ''exception'', ''failure''} \<or>
       lower k \<in> {''status'', ''level'', ''severity'', ''state''} \<and>
         (case v of
            WStr s \<Rightarrow> list_ex (\<lambda>w. occurs w (lower s)) [''error'', ''fail'', ''fatal'', ''critical'', ''warn'']
          | WBool b \<Rightarrow> b
          | _ \<Rightarrow> False)) kvs"
| "is_json_anomaly (WArr xs) = list_ex is_json_anomaly xs"
| "is_json_anomaly v = False"

definition last_n :: "nat \<Rightarrow> 'a list \<Rightarrow> 'a list" where
  "last_n n xs = drop (length xs - n) xs"

text \<open>The kept items of the middle of an array, and the number that is dropped.\<close>

definition kept_anomalies :: "wire list \<Rightarrow> wire list" where
  "kept_anomalies arr = take 10 (filter is_json_anomaly (take (length arr - 10) (drop 5 arr)))"

definition dropped_count :: "wire list \<Rightarrow> nat" where
  "dropped_count arr = length (take (length arr - 10) (drop 5 arr)) - length (kept_anomalies arr)"

definition sample_marker :: "wire list \<Rightarrow> wire" where
  "sample_marker arr =
     WObj ([(''_compressed_marker'', WBool True), (''dropped'', WInt (int (dropped_count arr)))] @
           (if kept_anomalies arr = [] then []
            else [(''anomalies_kept'', WInt (int (length (kept_anomalies arr))))]))"

definition sample_json_array :: "wire list \<Rightarrow> wire list" where
  "sample_json_array arr = take 5 arr @ [sample_marker arr] @ kept_anomalies arr @ last_n 5 arr"

record json_stats =
  js_blocks :: nat
  js_arrays :: nat
  js_items_in :: nat
  js_items_out :: nat
  js_dropped :: nat

definition add_sample :: "json_stats \<Rightarrow> wire list \<Rightarrow> json_stats" where
  "add_sample s arr =
     \<lparr>js_blocks = js_blocks s + 1, js_arrays = js_arrays s + 1, js_items_in = js_items_in s + length arr,
      js_items_out = js_items_out s + length (sample_json_array arr), js_dropped = js_dropped s + dropped_count arr\<rparr>"

definition no_sample :: json_stats where
  "no_sample = \<lparr>js_blocks = 0, js_arrays = 0, js_items_in = 0, js_items_out = 0, js_dropped = 0\<rparr>"

text \<open>\<open>\[[\s\S]*?\]\<close>: from an opening bracket to the next closing one.\<close>

definition ARRAY_RE :: rx where
  "ARRAY_RE = seqs [lit ''['', star (Cls True [(93, 93)]), lit '']'']"

definition long_array :: "string \<Rightarrow> wire list option" where
  "long_array raw = (case json_loads raw of Some (WArr xs) \<Rightarrow> if 20 \<le> length xs then Some xs else None | _ \<Rightarrow> None)"

definition compress_json_arrays :: "(string \<Rightarrow> string) \<Rightarrow> string \<Rightarrow> (string \<times> json_stats) option" where
  "compress_json_arrays fr t =
     (case long_array t of
        Some xs \<Rightarrow> Some (dumps_indent fr 0 (WArr (sample_json_array xs)), add_sample no_sample xs)
      | None \<Rightarrow>
          (let spans = finditer ARRAY_RE t;
               found = List.map_filter (\<lambda>(a, b). map_option (Pair (a, b)) (long_array (slice t a b))) spans
           in if found = [] then None
              else Some (replace_spans t 0
                           (map (\<lambda>((a, b), xs). (a, b, dumps_indent fr 0 (WArr (sample_json_array xs)))) found),
                         foldl (\<lambda>s (_, xs). add_sample s xs) no_sample found)))"

record code_state =
  cs_out :: "string list"
  cs_in_import :: bool
  cs_start :: nat
  cs_block :: nat
  cs_imports :: nat
  cs_blanks :: nat
  cs_blocks :: nat

definition import_marker :: "nat \<Rightarrow> string" where
  "import_marker n = ''  # ... '' @ nat_str n @ '' more imports ...''"

definition insert_at :: "nat \<Rightarrow> 'a \<Rightarrow> 'a list \<Rightarrow> 'a list" where
  "insert_at i x xs = take i xs @ [x] @ drop i xs"

definition close_import_block :: "code_state \<Rightarrow> code_state" where
  "close_import_block st =
     (if \<not> cs_in_import st then st
      else (if 0 < cs_block st
            then st\<lparr>cs_out := insert_at (cs_start st + 1) (import_marker (cs_block st)) (cs_out st),
                    cs_blocks := cs_blocks st + 1\<rparr>
            else st)\<lparr>cs_in_import := False\<rparr>)"

definition code_step :: "code_state \<Rightarrow> string \<Rightarrow> code_state" where
  "code_step st line =
     (if strip line = [] then
        (if cs_out st \<noteq> [] \<and> strip (last (cs_out st)) = [] then st\<lparr>cs_blanks := cs_blanks st + 1\<rparr>
         else st\<lparr>cs_out := cs_out st @ [line]\<rparr>)
      else if rx_match IMPORT_RE (strip line) then
        (if \<not> cs_in_import st
         then st\<lparr>cs_in_import := True, cs_start := length (cs_out st), cs_block := 0, cs_out := cs_out st @ [line]\<rparr>
         else st\<lparr>cs_block := cs_block st + 1, cs_imports := cs_imports st + 1\<rparr>)
      else (close_import_block st)\<lparr>cs_out := cs_out (close_import_block st) @ [line]\<rparr>)"

definition code_init :: code_state where
  "code_init = \<lparr>cs_out = [], cs_in_import = False, cs_start = 0, cs_block = 0, cs_imports = 0, cs_blanks = 0, cs_blocks = 0\<rparr>"

definition code_finish :: "code_state \<Rightarrow> code_state" where
  "code_finish st =
     (if cs_in_import st \<and> 0 < cs_block st
      then st\<lparr>cs_out := cs_out st @ [import_marker (cs_block st)], cs_blocks := cs_blocks st + 1\<rparr> else st)"

definition compress_code :: "string \<Rightarrow> string \<times> code_state" where
  "compress_code t =
     (let st = code_finish (foldl code_step code_init (splitlines t)) in (join newline (cs_out st), st))"

definition first_words :: "string \<Rightarrow> string option" where
  "first_words line =
     (case py_split (strip line) of w0 # w1 # ws \<Rightarrow> Some (w0 @ '' '' @ w1) | _ \<Rightarrow> None)"

definition similar_marker :: "nat \<Rightarrow> string" where
  "similar_marker n = ''  ... ('' @ nat_str n @ '' similar lines) ...''"

function collapse_runs :: "string list \<Rightarrow> string list \<times> nat" where
  "collapse_runs [] = ([], 0)"
| "collapse_runs (l # ls) =
     (let run = takeWhile (\<lambda>x. first_words x = first_words l) ls
      in if first_words l \<noteq> None \<and> 2 \<le> length ls \<and> 3 \<le> Suc (length run) then
           (case collapse_runs (drop (length run) ls) of
              (out, n) \<Rightarrow> (similar_marker (Suc (length run)) # out, Suc n))
         else (case collapse_runs ls of (out, n) \<Rightarrow> (l # out, n)))"
  by pat_completeness auto
termination
  by (relation "measure length") auto

definition line_count :: "string \<Rightarrow> int" where
  "line_count t = int (count_sub newline t) + 1"

definition stage_compress :: "(string \<Rightarrow> string) \<Rightarrow> string \<Rightarrow> string \<Rightarrow> string \<times> stats" where
  "stage_compress fr t profile =
     (case (if profile \<in> {''log'', ''terminal'', ''default'', ''web''} then compress_json_arrays fr t else None) of
        Some (out, js) \<Rightarrow>
          (out,
           [(''original_lines'', SInt (line_count t)), (''compressed_lines'', SInt (line_count out)),
            (''compressed_blocks'', SInt (int (js_blocks js))), (''json_arrays_sampled'', SInt (int (js_arrays js))),
            (''json_items_in'', SInt (int (js_items_in js))), (''json_items_out'', SInt (int (js_items_out js))),
            (''json_items_dropped'', SInt (int (js_dropped js)))])
      | None \<Rightarrow>
          if profile = ''code'' then
            (case compress_code t of
               (out, cs) \<Rightarrow>
                 (out,
                  [(''original_lines'', SInt (line_count t)), (''compressed_lines'', SInt (line_count out)),
                   (''compressed_blocks'', SInt (int (cs_blocks cs))), (''imports_dropped'', SInt (int (cs_imports cs))),
                   (''blank_lines_dropped'', SInt (int (cs_blanks cs)))]))
          else
            (let ls = splitlines t
             in if length ls < 10 then
                  (t, [(''original_lines'', SInt (int (length ls))), (''compressed_blocks'', SInt 0)])
                else
                  (case collapse_runs ls of
                     (out, n) \<Rightarrow>
                       (join newline out,
                        [(''original_lines'', SInt (int (length ls))), (''compressed_lines'', SInt (int (length out))),
                         (''compressed_blocks'', SInt (int n))]))))"

section \<open>Stage 5: tokens\<close>

definition estimate_tokens :: "string \<Rightarrow> nat" where
  "estimate_tokens t = (if t = [] then 0 else max (length (py_split t)) (length t div 4))"

text \<open>\<open>s[:n]\<close> and \<open>s.rfind("\n")\<close>.\<close>

definition py_prefix :: "int \<Rightarrow> string \<Rightarrow> string" where
  "py_prefix n s = (if 0 \<le> n then take (nat n) s else take (length s - nat (- n)) s)"

definition rfind_newline :: "string \<Rightarrow> int" where
  "rfind_newline s =
     (case find (\<lambda>i. s ! i = CHR 0x0A) (rev [0..<length s]) of None \<Rightarrow> -1 | Some i \<Rightarrow> int i)"

definition truncated_mark :: string where
  "truncated_mark = newline @ newline @ ''[...truncated...]''"

definition truncate_to :: "int \<Rightarrow> string \<Rightarrow> string" where
  "truncate_to budget t =
     (let target = budget * 4; cut_text = py_prefix target t; last_nl = rfind_newline cut_text
      in (if fl (of_int target * fl (8 / 10)) < of_int last_nl then py_prefix last_nl cut_text else cut_text) @ truncated_mark)"

definition stage_tokens :: "string \<Rightarrow> int option \<Rightarrow> string \<times> stats" where
  "stage_tokens t budget =
     (let est = int (estimate_tokens t);
          cap = (case budget of None \<Rightarrow> SNone | Some b \<Rightarrow> SInt b);
          st = (\<lambda>b. [(''estimated_tokens'', SInt est), (''budget'', cap), (''truncated'', SBool b)])
      in (case budget of
            None \<Rightarrow> (t, st False)
          | Some b \<Rightarrow>
              if b \<noteq> 0 \<and> b < est \<and> t \<noteq> [] then
                (truncate_to b t, st True @ [(''estimated_tokens_after'', SInt (int (estimate_tokens (truncate_to b t))))])
              else (t, st False)))"

section \<open>The pipeline\<close>

definition PROFILES :: "string set" where
  "PROFILES = {''log'', ''terminal'', ''code'', ''docs'', ''web'', ''default''}"

definition LOG_STAMP_RE :: rx where
  "LOG_STAMP_RE = seqs [digits 4, lit ''-'', digits 2, lit ''-'', digits 2, chars ''T '', digits 2, lit '':'', digits 2, lit '':'', digits 2]"

definition LOG_LEVEL_RE :: rx where
  "LOG_LEVEL_RE = seqs [lit ''['', alts (map lit_ci [''debug'', ''info'', ''warn'', ''error'', ''fatal'']), lit '']'']"

definition CODE_PATTERNS :: "rx list" where
  "CODE_PATTERNS =
     [seqs [Bol, star space, lit ''def'', plus space], seqs [Bol, star space, lit ''class'', plus space],
      seqs [Bol, star space, lit ''import'', plus space], seqs [Bol, star space, lit ''#'', star space, lit ''include''],
      seqs [Bol, star space, lit ''function'', plus space], seqs [Bol, star space, lit ''const'', plus space],
      seqs [Bol, star space, lit ''let'', plus space], seqs [Bol, star space, lit ''var'', plus space]]"

definition log_indicators :: "string list \<Rightarrow> nat" where
  "log_indicators ls =
     sum_list (map (\<lambda>l. of_bool (rx_search LOG_STAMP_RE l) + of_bool (rx_search LOG_LEVEL_RE l)) (take 20 ls))"

definition code_hits :: "string list \<Rightarrow> nat" where
  "code_hits ls = sum_list (map (\<lambda>r. length (filter (rx_search r) ls)) CODE_PATTERNS)"

definition detect_profile :: "string \<Rightarrow> string option \<Rightarrow> string" where
  "detect_profile t hint =
     (if truthy hint \<and> lower (the hint) \<in> PROFILES then lower (the hint)
      else
        (let ls = splitlines t; tl = lower t
         in if 3 \<le> log_indicators ls then ''log''
            else if occurs [CHR 0x1B, CHR ''[''] t then ''terminal''
            else if 3 \<le> code_hits ls then ''code''
            else if occurs ''<html'' tl \<or> occurs ''<!doctype'' tl \<or> occurs ''<div'' tl then ''web''
            else if 3 < count_sub ''#'' t \<or> 1 < count_sub ''---'' t then ''docs''
            else ''default''))"

record filter_result =
  fr_clean_content :: string
  fr_profile :: string
  fr_stats :: "(string \<times> stats) list"
  fr_version :: string

definition stat_nat :: "string \<Rightarrow> stats \<Rightarrow> int" where
  "stat_nat k st = (case map_of st k of Some (SInt n) \<Rightarrow> n | _ \<Rightarrow> 0)"

definition apply_filter ::
  "(string \<Rightarrow> string) \<Rightarrow> string \<Rightarrow> string option \<Rightarrow> int option \<Rightarrow> string \<Rightarrow> filter_result" where
  "apply_filter fr t profile budget version =
     (let detected = (if truthy profile then the profile else detect_profile t profile);
          (t1, s1) = stage_dedup t;
          (t2, s2) = stage_noise t1 detected;
          (t3, s3) = stage_extract t2 detected;
          (t4, s4) = stage_compress fr t3 detected;
          (t5, s5) = stage_tokens t4 budget;
          original = stat_nat ''original_chars'' s2
      in \<lparr>fr_clean_content = t5, fr_profile = detected,
          fr_stats = [(''dedup'', s1), (''noise'', s2), (''extract'', s3), (''compress'', s4), (''tokens'', s5),
            (''reduction'', [(''original_chars'', SInt original), (''final_chars'', SInt (int (length t5))),
              (''char_ratio'', SNum (fl (of_nat (length t5) / of_int (max original 1))))])],
          fr_version = version\<rparr>)"

section \<open>What dedup keeps\<close>

definition line_keys :: "string \<Rightarrow> string set" where
  "line_keys l = {rstrip l, normalized_line (rstrip l)} - {[]}"

lemma rstrip_Nil [simp]: "rstrip [] = []"
  by (simp add: rstrip_def)

lemma normalized_Nil [simp]: "normalized_line [] = []"
  by (simp add: normalized_line_def lower_def)

text \<open>The loop in terms of the keys: a line is dropped when one of its keys is known.\<close>

lemma dedup_lines_keys:
  assumes "[] \<notin> seen"
  shows "line_keys l \<inter> seen = {} \<Longrightarrow>
      dedup_lines (l # ls) seen = (case dedup_lines ls (seen \<union> line_keys l) of (out, e, n) \<Rightarrow> (l # out, e, n))"
    "line_keys l \<inter> seen \<noteq> {} \<Longrightarrow>
      \<exists>e' n'. e' + n' = 1 \<and> dedup_lines (l # ls) seen = (case dedup_lines ls seen of (out, e, n) \<Rightarrow> (out, e + e', n + n'))"
proof -
  assume "line_keys l \<inter> seen = {}"
  moreover have "insert (rstrip l) (if normalized_line (rstrip l) \<noteq> [] then insert (normalized_line (rstrip l)) seen else seen) =
      seen \<union> line_keys l" if "rstrip l \<noteq> []" using that by (auto simp: line_keys_def)
  moreover have "line_keys l = {}" if "rstrip l = []" using that by (simp add: line_keys_def)
  ultimately show "dedup_lines (l # ls) seen =
      (case dedup_lines ls (seen \<union> line_keys l) of (out, e, n) \<Rightarrow> (l # out, e, n))"
    by (cases "rstrip l = []") (auto simp: Let_def line_keys_def)
next
  assume k: "line_keys l \<inter> seen \<noteq> {}"
  then have "rstrip l \<noteq> []" by (auto simp: line_keys_def)
  then show "\<exists>e' n'. e' + n' = 1 \<and> dedup_lines (l # ls) seen = (case dedup_lines ls seen of (out, e, n) \<Rightarrow> (out, e + e', n + n'))"
  proof (cases "rstrip l \<in> seen")
    case True
    with \<open>rstrip l \<noteq> []\<close> show ?thesis
      by (intro exI [of _ 1] exI [of _ 0]) (simp add: Let_def split: prod.split)
  next
    case False
    with k \<open>rstrip l \<noteq> []\<close> show ?thesis
      by (intro exI [of _ 0] exI [of _ 1]) (auto simp: Let_def line_keys_def split: prod.split)
  qed
qed

lemma dedup_lines_spec:
  "dedup_lines ls seen = (out, e, n) \<Longrightarrow> [] \<notin> seen \<Longrightarrow>
   subseq out ls \<and> (\<forall>l \<in> set out. line_keys l \<inter> seen = {}) \<and>
   sorted_wrt (\<lambda>k l. line_keys k \<inter> line_keys l = {}) out \<and>
   (\<forall>l \<in> set ls. l \<in> set out \<or> line_keys l \<inter> (seen \<union> \<Union> (line_keys ` set out)) \<noteq> {}) \<and>
   length ls = length out + e + n"
proof (induction ls arbitrary: seen out e n)
  case (Cons l ls)
  show ?case
  proof (cases "line_keys l \<inter> seen = {}")
    case True
    obtain o' e' n' where r: "dedup_lines ls (seen \<union> line_keys l) = (o', e', n')" by (metis prod_cases3)
    have "[] \<notin> seen \<union> line_keys l" using Cons.prems(2) by (simp add: line_keys_def)
    from Cons.IH [OF r this] have IH:
      "subseq o' ls" "\<forall>k \<in> set o'. line_keys k \<inter> (seen \<union> line_keys l) = {}"
      "sorted_wrt (\<lambda>k l. line_keys k \<inter> line_keys l = {}) o'"
      "\<forall>k \<in> set ls. k \<in> set o' \<or> line_keys k \<inter> (seen \<union> line_keys l \<union> \<Union> (line_keys ` set o')) \<noteq> {}"
      "length ls = length o' + e' + n'" by auto
    have o: "out = l # o'" "e = e'" "n = n'"
      using dedup_lines_keys(1) [OF Cons.prems(2) True, of ls] r Cons.prems(1) by (simp_all del: dedup_lines.simps)
    show ?thesis unfolding o using IH True by (auto simp: Un_assoc)
  next
    case False
    obtain o' e' n' where r: "dedup_lines ls seen = (o', e', n')" by (metis prod_cases3)
    obtain i j where ij: "i + j = 1" "dedup_lines (l # ls) seen = (case dedup_lines ls seen of (out, e, n) \<Rightarrow> (out, e + i, n + j))"
      using dedup_lines_keys(2) [OF Cons.prems(2) False, of ls] by blast
    then have "out = o'" "e = e' + i" "n = n' + j" using r Cons.prems(1) by (simp_all del: dedup_lines.simps)
    then show ?thesis using Cons.IH [OF r Cons.prems(2)] False ij(1) by auto
  qed
qed simp

text \<open>On a text that is not JSON, dedup keeps a selection of the lines whose keys (the line without
  trailing blanks and its letters and digits in lower case) are disjoint, and every line it drops shares a
  key with one that it keeps.\<close>

theorem dedup_effect:
  assumes "\<not> is_json t"
  shows "\<exists>out. fst (stage_dedup t) = join newline out \<and> subseq out (splitlines t) \<and>
    sorted_wrt (\<lambda>k l. line_keys k \<inter> line_keys l = {}) out \<and>
    (\<forall>l \<in> set (splitlines t). l \<in> set out \<or> (\<exists>k \<in> set out. line_keys l \<inter> line_keys k \<noteq> {}))"
proof -
  obtain out e n where d: "dedup_lines (splitlines t) {} = (out, e, n)" by (metis prod_cases3)
  have "fst (stage_dedup t) = join newline out"
    using assms d by (cases "splitlines t") (auto simp: stage_dedup_def Let_def)
  then show ?thesis using dedup_lines_spec [OF d] by (intro exI [of _ out]) auto
qed

theorem dedup_effect_witness:
  "\<exists>out. fst (stage_dedup ''A-b.'') = join newline out \<and> subseq out (splitlines ''A-b.'')"
proof -
  have "\<not> is_json ''A-b.''" by code_simp
  from dedup_effect [OF this] show ?thesis by blast
qed

text \<open>Lines that differ only in operators share a key, and the later one is lost.\<close>

lemma dedup_merges_operators:
  "fst (stage_dedup (''a > b'' @ newline @ ''a < b'')) = ''a > b''"
  by code_simp

section \<open>What extraction keeps\<close>

definition signal_line :: "string list \<Rightarrow> nat \<Rightarrow> bool" where
  "signal_line ls j \<longleftrightarrow> j < length ls \<and> strip (ls ! j) \<noteq> [] \<and> is_signal (strip (ls ! j))"

definition near_signal :: "string list \<Rightarrow> nat \<Rightarrow> bool" where
  "near_signal ls i \<longleftrightarrow> list_ex (\<lambda>j. signal_line ls j) [i - 2..<i + 3]"

lemma near_signal_iff: "near_signal ls i \<longleftrightarrow> (\<exists>j. signal_line ls j \<and> i \<le> j + 2 \<and> j \<le> i + 2)"
proof
  assume "near_signal ls i"
  then show "\<exists>j. signal_line ls j \<and> i \<le> j + 2 \<and> j \<le> i + 2" by (force simp: near_signal_def list_ex_iff)
next
  assume "\<exists>j. signal_line ls j \<and> i \<le> j + 2 \<and> j \<le> i + 2"
  then obtain j where "signal_line ls j" "j \<in> set [i - 2..<i + 3]" by auto
  then show "near_signal ls i" unfolding near_signal_def list_ex_iff by blast
qed

definition pairs_ok :: "string list \<Rightarrow> nat set \<Rightarrow> (nat \<times> string) list \<Rightarrow> bool" where
  "pairs_ok ls I ps \<longleftrightarrow> distinct ps \<and> set ps = (\<lambda>i. (i, ls ! i)) ` I"

lemma fold_add_pair:
  "pairs_ok ls I ps \<Longrightarrow> pairs_ok ls (I \<union> set is) (foldl add_pair ps (map (\<lambda>i. (i, ls ! i)) is))"
proof (induction "is" arbitrary: I ps)
  case (Cons i "is")
  have "pairs_ok ls (insert i I) (add_pair ps (i, ls ! i))"
    using Cons.prems by (auto simp: pairs_ok_def add_pair_def)
  from Cons.IH [OF this] show ?case by simp
qed simp

lemma extract_fold:
  "xs = enumerate k ys \<Longrightarrow> ys = drop k ls \<Longrightarrow> k \<le> length ls \<Longrightarrow>
   pairs_ok ls {i. i < length ls \<and> (\<exists>j < k. signal_line ls j \<and> i \<le> j + 2 \<and> j \<le> i + 2)} (fst st) \<Longrightarrow>
   pairs_ok ls {i. i < length ls \<and> near_signal ls i} (fst (foldl (extract_step profile ls) st xs))"
proof (induction xs arbitrary: k ys st)
  case Nil
  from Nil.prems(1) have "ys = []" by (metis length_0_conv length_enumerate)
  with Nil.prems have "length ls \<le> k" by simp
  then have "signal_line ls j \<Longrightarrow> j < k" for j by (simp add: signal_line_def)
  then have "{i. i < length ls \<and> (\<exists>j < k. signal_line ls j \<and> i \<le> j + 2 \<and> j \<le> i + 2)} = {i. i < length ls \<and> near_signal ls i}"
    by (auto simp: near_signal_iff)
  with Nil show ?case by simp
next
  case (Cons x xs)
  from Cons.prems(1) have "ys \<noteq> []" by auto
  then obtain y ys' where ys: "ys = y # ys'" by (cases ys) auto
  with Cons.prems(1) have y: "ys = y # ys'" "x = (k, y)" "xs = enumerate (Suc k) ys'" by simp_all
  have k: "k < length ls" "y = ls ! k" "ys' = drop (Suc k) ls"
  proof -
    show "k < length ls" using Cons.prems(2) ys by (metis drop_all linorder_not_le list.distinct(1))
    then show "y = ls ! k" "ys' = drop (Suc k) ls"
      using Cons.prems(2) ys Cons_nth_drop_Suc [of k ls] by (metis list.inject)+
  qed
  obtain sg vb where st: "st = (sg, vb)" by fastforce
  let ?I = "\<lambda>k. {i. i < length ls \<and> (\<exists>j < k. signal_line ls j \<and> i \<le> j + 2 \<and> j \<le> i + 2)}"
  have "pairs_ok ls (?I (Suc k)) (fst (extract_step profile ls st x))"
  proof (cases "signal_line ls k")
    case True
    have "?I (Suc k) = ?I k \<union> set [k - 2..<min (length ls) (k + 3)]"
    proof -
      have "(\<exists>j < Suc k. Q j) \<longleftrightarrow> (\<exists>j < k. Q j) \<or> Q k" for Q by (metis less_Suc_eq)
      then show ?thesis using True by auto
    qed
    with fold_add_pair [of ls "?I k" sg "[k - 2..<min (length ls) (k + 3)]"] Cons.prems(4) show ?thesis
      using True by (simp add: extract_step_def st y(2) k signal_line_def)
  next
    case False
    then have "?I (Suc k) = ?I k" by (auto simp: less_Suc_eq)
    moreover have "fst (extract_step profile ls st x) = sg"
      using False by (auto simp: extract_step_def st y(2) k signal_line_def)
    ultimately show ?thesis using Cons.prems(4) st by simp
  qed
  from Cons.IH [OF y(3) k(3) _ this] k show ?case by simp
qed

lemma pairs_sorted:
  assumes "pairs_ok ls {i. i < length ls \<and> P i} ps"
  shows "map snd (sort_key fst ps) = map ((!) ls) (filter P [0..<length ls])"
proof -
  have "inj_on fst (set ps)" using assms by (auto simp: pairs_ok_def intro: inj_onI)
  then have d: "distinct (map fst (sort_key fst ps))" using assms by (simp add: pairs_ok_def distinct_map)
  have "map fst (sort_key fst ps) = filter P [0..<length ls]"
  proof (rule sorted_distinct_set_unique)
    show "set (map fst (sort_key fst ps)) = set (filter P [0..<length ls])"
      using assms by (simp add: pairs_ok_def image_image)
  qed (use d in \<open>simp_all add: sorted_wrt_filter\<close>)
  moreover have "map snd (sort_key fst ps) = map (\<lambda>p. ls ! fst p) (sort_key fst ps)"
    using assms by (auto simp: pairs_ok_def)
  ultimately show ?thesis by (metis (no_types, lifting) list.map_comp map_map comp_def map_eq_conv)
qed

text \<open>Outside the prose profiles, and on a text that is not JSON, extraction keeps the lines within
  two lines of an error, a warning or an exit status, in their order, when there is one.\<close>

theorem extract_effect:
  assumes "profile \<in> {''log'', ''terminal'', ''code''}" "\<not> is_json t" "signal_line (splitlines t) j"
  shows "fst (stage_extract t profile) =
    join newline (map ((!) (splitlines t)) (filter (near_signal (splitlines t)) [0..<length (splitlines t)]))"
proof -
  define ls where "ls = splitlines t"
  obtain signals verbose where f: "foldl (extract_step profile ls) ([], 0) (enumerate 0 ls) = (signals, verbose)"
    by fastforce
  have "pairs_ok ls {i. i < length ls \<and> near_signal ls i} (fst (foldl (extract_step profile ls) ([], 0) (enumerate 0 ls)))"
    by (rule extract_fold [of _ 0 ls]) (simp_all add: pairs_ok_def)
  then have ok: "pairs_ok ls {i. i < length ls \<and> near_signal ls i} signals" by (simp add: f)
  have "j < length ls" "near_signal ls j" using assms(3) by (auto simp: ls_def signal_line_def near_signal_iff)
  then have "signals \<noteq> []" using ok by (auto simp: pairs_ok_def)
  moreover have "ls \<noteq> []" "profile \<notin> {''docs'', ''web'', ''default''}" using \<open>j < length ls\<close> assms(1) by auto
  ultimately show ?thesis
    using assms(2) pairs_sorted [OF ok] unfolding stage_extract_def Let_def ls_def [symmetric] f by auto
qed

definition sample_code :: string where
  "sample_code = ''def a():'' @ newline @ ''  b = 1'' @ newline @ ''  c = 2'' @ newline @ ''  d = 3'' @ newline @ ''  raise KeyError''"

lemma sample_code_lines:
  "splitlines sample_code = [''def a():'', ''  b = 1'', ''  c = 2'', ''  d = 3'', ''  raise KeyError'']"
  by code_simp

lemma length_splitlines_sample: "length (splitlines sample_code) = 5"
  by (simp add: sample_code_lines)

theorem extract_effect_witness:
  "fst (stage_extract sample_code ''code'') = join newline [''  c = 2'', ''  d = 3'', ''  raise KeyError'']"
proof -
  have "\<not> is_json sample_code" by code_simp
  moreover have s: "signal_line (splitlines sample_code) j \<longleftrightarrow> j = 4" for j
  proof -
    let ?f = "\<lambda>l. strip l \<noteq> [] \<and> is_signal (strip l)"
    have "map ?f (splitlines sample_code) = [False, False, False, False, True]"
      by code_simp
    moreover have "map ?f (splitlines sample_code) ! j = ?f (splitlines sample_code ! j)" if "j < 5"
      using that by (simp add: length_splitlines_sample)
    moreover have "[False, False, False, False, True] ! j \<longleftrightarrow> j = 4" if "j < 5"
      using that by (auto simp: less_Suc_eq numeral_eq_Suc)
    ultimately have "?f (splitlines sample_code ! j) \<longleftrightarrow> j = 4" if "j < 5" using that by metis
    then show ?thesis by (auto simp: signal_line_def length_splitlines_sample)
  qed
  ultimately have "fst (stage_extract sample_code ''code'') =
      join newline (map ((!) (splitlines sample_code)) (filter (near_signal (splitlines sample_code)) [0..<length (splitlines sample_code)]))"
    by (intro extract_effect [of _ _ 4]) simp_all
  moreover have "filter (near_signal (splitlines sample_code)) [0..<length (splitlines sample_code)] = [2, 3, 4]"
    unfolding near_signal_iff s by (simp add: sample_code_lines upt_rec)
  ultimately show ?thesis by (simp add: sample_code_lines)
qed

section \<open>What compression drops\<close>

lemma subseq_insert_at: "subseq xs ys \<Longrightarrow> subseq xs (insert_at i y ys)"
proof -
  have "subseq (take i ys @ drop i ys) (take i ys @ [y] @ drop i ys)" by (intro list_emb_append_mono) auto
  then have "subseq ys (insert_at i y ys)" by (simp add: insert_at_def)
  then show "subseq xs ys \<Longrightarrow> subseq xs (insert_at i y ys)" by (rule subseq_order.trans [rotated])
qed

lemma length_insert_at [simp]: "length (insert_at i y ys) = Suc (length ys)"
  by (simp add: insert_at_def)

definition body_line :: "string \<Rightarrow> bool" where
  "body_line l \<longleftrightarrow> strip l \<noteq> [] \<and> \<not> rx_match IMPORT_RE (strip l)"

text \<open>After a prefix of the lines: what is out, and how many lines are not.\<close>

definition code_inv :: "string list \<Rightarrow> code_state \<Rightarrow> bool" where
  "code_inv ls st \<longleftrightarrow>
     subseq (filter body_line ls) (cs_out st) \<and>
     length (cs_out st) + cs_imports st + cs_blanks st = length ls + cs_blocks st"

lemma subseq_snoc: "subseq xs ys \<Longrightarrow> subseq xs (ys @ [y])"
  by (simp add: subseq_order.trans [OF _ list_emb_append2] subseq_rev_drop_many)

lemma subseq_snoc2: "subseq xs ys \<Longrightarrow> subseq (xs @ [y]) (ys @ [y])"
  by (rule list_emb_append_mono) simp_all

lemma close_import_inv: "code_inv ls st \<Longrightarrow> code_inv ls (close_import_block st)"
  by (simp add: code_inv_def close_import_block_def subseq_insert_at)

lemma code_step_inv: "code_inv ls st \<Longrightarrow> code_inv (ls @ [l]) (code_step st l)"
  using close_import_inv [of ls st]
  by (auto simp: code_inv_def code_step_def body_line_def subseq_snoc subseq_snoc2 dest!: list_emb_Nil2)

lemma code_fold_inv: "code_inv ls st \<Longrightarrow> code_inv (ls @ ms) (foldl code_step st ms)"
proof (induction ms arbitrary: ls st)
  case (Cons m ms)
  from Cons.IH [OF code_step_inv [OF Cons.prems]] show ?case by simp
qed simp

text \<open>Code compression keeps every line that is neither blank nor an import, in order, and its counters
  account for all other lines and for the markers it adds.\<close>

theorem compress_code_effect:
  "\<exists>out st. compress_code t = (join newline out, st) \<and>
     subseq (filter body_line (splitlines t)) out \<and>
     length out + cs_imports st + cs_blanks st = length (splitlines t) + cs_blocks st"
proof -
  have "code_inv ([] @ splitlines t) (foldl code_step code_init (splitlines t))"
    by (rule code_fold_inv) (simp add: code_inv_def code_init_def)
  then have "code_inv (splitlines t) (code_finish (foldl code_step code_init (splitlines t)))"
    by (auto simp: code_finish_def code_inv_def subseq_snoc)
  then show ?thesis
    by (intro exI [of _ "cs_out (code_finish (foldl code_step code_init (splitlines t)))"]
        exI [of _ "code_finish (foldl code_step code_init (splitlines t))"])
      (simp add: compress_code_def Let_def code_inv_def)
qed

lemma sample_length: "20 \<le> length arr \<Longrightarrow>
   length (sample_json_array arr) + dropped_count arr = length arr + 1 \<and> length (sample_json_array arr) \<le> 21"
proof -
  assume n: "20 \<le> length arr"
  define mid where "mid = take (length arr - 10) (drop 5 arr)"
  have k: "kept_anomalies arr = take 10 (filter is_json_anomaly mid)" by (simp add: kept_anomalies_def mid_def)
  have "length (kept_anomalies arr) \<le> length (filter is_json_anomaly mid)" "length (kept_anomalies arr) \<le> 10"
    unfolding k by simp_all
  moreover have "length (filter is_json_anomaly mid) \<le> length mid" by (rule length_filter_le)
  moreover
  have "length mid = length arr - 10" using n by (simp add: mid_def)
  ultimately show ?thesis
    using n unfolding sample_json_array_def dropped_count_def mid_def [symmetric] by (simp add: last_n_def)
qed

lemma sample_subseq:
  assumes "20 \<le> length arr"
  shows "subseq (take 5 arr @ kept_anomalies arr @ last_n 5 arr) arr"
proof -
  define n where "n = length arr"
  have "arr = take 5 arr @ take (n - 10) (drop 5 arr) @ drop (n - 5) arr"
  proof -
    have "drop (n - 10) (drop 5 arr) = drop (n - 5) arr" using assms by (simp add: n_def)
    then show ?thesis by (metis append_take_drop_id)
  qed
  moreover have "subseq (kept_anomalies arr) (take (n - 10) (drop 5 arr))"
    unfolding kept_anomalies_def n_def
    using subseq_filter_left subseq_order.trans [OF _ subseq_filter_left] by (metis take_is_prefix prefix_imp_subseq)
  ultimately show ?thesis
    by (metis (no_types, lifting) last_n_def list_emb_append_mono n_def subseq_order.order_refl)
qed

definition stats_balanced :: "json_stats \<Rightarrow> bool" where
  "stats_balanced s \<longleftrightarrow>
     js_items_out s + js_dropped s = js_items_in s + js_arrays s \<and> js_items_out s \<le> 21 * js_arrays s \<and>
     20 * js_arrays s \<le> js_items_in s \<and> js_blocks s = js_arrays s"

lemma add_sample_balanced: "stats_balanced s \<Longrightarrow> 20 \<le> length xs \<Longrightarrow> stats_balanced (add_sample s xs)"
  using sample_length [of xs] by (simp add: stats_balanced_def add_sample_def)

lemma long_array_length: "long_array raw = Some xs \<Longrightarrow> 20 \<le> length xs"
  by (auto simp: long_array_def split: option.splits wire.splits if_splits)

lemma fold_balanced:
  "stats_balanced s \<Longrightarrow> \<forall>(p, xs) \<in> set found. 20 \<le> length xs \<Longrightarrow>
   stats_balanced (foldl (\<lambda>s (_, xs). add_sample s xs) s found)"
  by (induction found arbitrary: s) (auto intro: add_sample_balanced)

text \<open>The counters of the array sampler: kept items and dropped items make up the items read, one
  marker is added per array, and at most twenty items of an array are kept.\<close>

theorem sampling_accounted:
  assumes "compress_json_arrays fr t = Some (out, js)"
  shows "js_items_out js + js_dropped js = js_items_in js + js_arrays js \<and> js_items_out js \<le> 21 * js_arrays js \<and>
    20 * js_arrays js \<le> js_items_in js \<and> js_blocks js = js_arrays js"
proof -
  have z: "stats_balanced no_sample" by (simp add: stats_balanced_def no_sample_def)
  have "stats_balanced js"
  proof (cases "long_array t")
    case (Some xs)
    then show ?thesis
      using assms long_array_length [OF Some] add_sample_balanced [OF z] by (auto simp: compress_json_arrays_def)
  next
    case None
    define found where "found = List.map_filter (\<lambda>(a, b). map_option (Pair (a, b)) (long_array (slice t a b))) (finditer ARRAY_RE t)"
    have "\<forall>(p, xs) \<in> set found. 20 \<le> length xs"
      using long_array_length by (fastforce simp: found_def List.map_filter_def)
    from fold_balanced [OF z this] show ?thesis
      using assms None unfolding compress_json_arrays_def Let_def found_def [symmetric] by (simp split: if_splits)
  qed
  then show ?thesis by (simp add: stats_balanced_def)
qed

text \<open>A budget is no bound: the mark of the truncation alone can exceed it, and the text it replaces.\<close>

lemma truncation_exceeds_budget:
  "estimate_tokens (replicate 8 (CHR ''a'')) = 2 \<and>
   estimate_tokens (fst (stage_tokens (replicate 8 (CHR ''a'')) (Some 1))) = 5"
  by code_simp

lemma detected_profile: "detect_profile t hint \<in> PROFILES"
  by (simp add: detect_profile_def PROFILES_def Let_def)

end
