(* ===== verification/Regex_Match.thy ===== *)
theory Regex_Match
  imports Regex
begin

text \<open>
  Reasoning about matches of the patterns of \<open>Regex\<close>: which characters a match consumes, when a
  sequence of literals, counted classes and greedy runs can match one way only, when \<open>finditer\<close> finds a
  given match, and which parts of a text a substitution leaves alone.
\<close>

lemma finditer_marks_ok:
  assumes "0 < rx_min r"
  shows "spans_ok (length s) 0 (map (\<lambda>(a, b). (a, b, new)) (finditer r s))"
proof -
  have mk: "sorted_wrt (\<lambda>(_, e) (a, _). e \<le> a) xs \<Longrightarrow> \<forall>x \<in> set xs. c \<le> fst x \<and> fst x < snd x \<and> snd x \<le> n \<Longrightarrow>
     spans_ok n c (map (\<lambda>(a, b). (a, b, new)) xs)" for c n and xs :: "(nat \<times> nat) list"
  proof (induction xs arbitrary: c)
    case (Cons x xs)
    from Cons.prems have "\<forall>y \<in> set xs. snd x \<le> fst y \<and> fst y < snd y \<and> snd y \<le> n" by auto
    with Cons.IH [of "snd x"] Cons.prems show ?case by (cases x) auto
  qed simp
  show ?thesis
    by (rule mk [OF finditer_sorted [OF assms]]) (use finditer_span [OF _ assms] in \<open>force\<close>)
qed

text \<open>Every character a pattern consumes satisfies \<open>P\<close>.\<close>

primrec rx_within :: "(char \<Rightarrow> bool) \<Rightarrow> rx \<Rightarrow> bool" where
  "rx_within P Eps = True"
| "rx_within P (Cls neg rs) = (\<forall>c. in_ranges rs c \<noteq> neg \<longrightarrow> P c)"
| "rx_within P (Seq a b) = (rx_within P a \<and> rx_within P b)"
| "rx_within P (Alt a b) = (rx_within P a \<and> rx_within P b)"
| "rx_within P (Rep m k a) = rx_within P a"
| "rx_within P Bound = True"
| "rx_within P (NotAhead a) = True"
| "rx_within P (Ahead a) = True"
| "rx_within P (NotBehind rs) = True"
| "rx_within P Bol = True"
| "rx_within P Eol = True"

lemma rep_ends_within:
  assumes "\<And>i j k. j \<in> set (step i) \<Longrightarrow> i \<le> k \<Longrightarrow> k < j \<Longrightarrow> Q k"
  shows "j \<in> set (rep_ends step n m l i) \<Longrightarrow> i \<le> k \<Longrightarrow> k < j \<Longrightarrow> Q k"
proof (induction n arbitrary: m l i)
  case (Suc n)
  show ?case
  proof (cases "j \<in> set (if m = 0 then [i] else [])")
    case False
    with Suc.prems obtain i' where i': "i' \<in> set (step i)" "j \<in> set (rep_ends step n (m - 1) (map_option (\<lambda>k. k - 1) l) i')"
      by (auto split: if_splits)
    show ?thesis
      using Suc.IH [OF i'(2)] assms [OF i'(1) Suc.prems(2)] Suc.prems(3) by (cases "i' \<le> k") auto
  qed (use Suc.prems in \<open>auto split: if_splits\<close>)
qed (auto split: if_splits)

lemma ends_within: "rx_within P r \<Longrightarrow> j \<in> set (ends r s i) \<Longrightarrow> i \<le> k \<Longrightarrow> k < j \<Longrightarrow> P (s ! k)"
proof (induction r arbitrary: i j k)
  case (Seq a b)
  from Seq.prems obtain i' where i': "i' \<in> set (ends a s i)" "j \<in> set (ends b s i')" by auto
  show ?case
    using Seq.IH(1) [OF _ i'(1)] Seq.IH(2) [OF _ i'(2)] Seq.prems by (cases "i' \<le> k") auto
next
  case (Rep m l a)
  have j: "j \<in> set (rep_ends (ends a s) (Suc (length s)) m l i)" using Rep.prems(2) by simp
  show ?case
  proof (rule rep_ends_within [where Q = "\<lambda>k. P (s ! k)", OF _ j Rep.prems(3,4)])
    fix i j k
    assume "j \<in> set (ends a s i)" "i \<le> k" "k < j"
    then show "P (s ! k)" by (rule Rep.IH [rotated]) (use Rep.prems(1) in simp)
  qed
next
  case (Cls neg rs)
  then have "k = i" by (auto split: if_splits)
  with Cls show ?case by (auto split: if_splits)
qed (auto split: if_splits)

lemma rep_run:
  assumes "\<And>k. i \<le> k \<Longrightarrow> k < j \<Longrightarrow> step k = [Suc k]" "step j = []" "i \<le> j" "j - i \<le> n"
  shows "rep_ends step n m None i = rev [i + m..<Suc j]"
  using assms
proof (induction n arbitrary: m i)
  case (Suc n)
  show ?case
  proof (cases "i < j")
    case True
    have "rep_ends step n (m - 1) None (Suc i) = rev [Suc i + (m - 1)..<Suc j]"
      by (rule Suc.IH) (use Suc.prems True in auto)
    moreover have "step i = [Suc i]" using Suc.prems(1) True by simp
    moreover have "[i..<Suc j] = i # [Suc i..<Suc j]" using True by (simp add: upt_conv_Cons del: upt_Suc)
    ultimately show ?thesis by (cases m) (simp_all del: upt_Suc)
  next
    case False
    with Suc.prems have "j = i" by simp
    with Suc.prems(2) show ?thesis by (cases m) simp_all
  qed
qed (auto simp: not_less)

lemma rep_exact:
  assumes "\<And>k. i \<le> k \<Longrightarrow> k < i + m \<Longrightarrow> step k = [Suc k]" "m < n"
  shows "rep_ends step n m (Some m) i = [i + m]"
  using assms
proof (induction m arbitrary: n i)
  case 0
  then show ?case by (cases n) simp_all
next
  case (Suc m)
  from Suc.prems obtain n' where n: "n = Suc n'" "m < n'" by (cases n) auto
  have "rep_ends step n' m (Some m) (Suc i) = [Suc i + m]" by (rule Suc.IH) (use Suc.prems n in auto)
  moreover have "step i = [Suc i]" using Suc.prems(1) by simp
  ultimately show ?case by (simp add: n)
qed

lemma ends_run_step:
  assumes "s = p @ v @ q" "\<forall>c \<in> set v. in_ranges rs c" "q = [] \<or> \<not> in_ranges rs (hd q)" "m \<le> length v"
    "\<And>k. k < length s \<Longrightarrow> in_ranges rs (s ! k) \<Longrightarrow> ends b s k = []"
  shows "ends (Seq (Rep m None (Cls False rs)) b) s (length p) = ends b s (length (p @ v))"
proof -
  let ?i = "length p" and ?j = "length (p @ v)"
  have run: "k < length s \<and> in_ranges rs (s ! k)" if "?i \<le> k" "k < ?j" for k
    using that assms(1,2) by (auto simp: nth_append)
  have stop: "ends (Cls False rs) s ?j = []"
    using assms(1,3) by (cases q) (auto simp: nth_append)
  have "ends (Rep m None (Cls False rs)) s ?i = rep_ends (ends (Cls False rs) s) (Suc (length s)) m None ?i" by simp
  also have "\<dots> = rev [?i + m..<Suc ?j]"
    using stop by (intro rep_run) (use run assms(1) in auto)
  also have "\<dots> = ?j # rev [?i + m..<?j]" using assms(4) by simp
  finally have "ends (Seq (Rep m None (Cls False rs)) b) s ?i = ends b s ?j @ concat (map (ends b s) (rev [?i + m..<?j]))"
    by simp
  moreover have "concat (map (ends b s) (rev [?i + m..<?j])) = []" using assms(5) run by auto
  ultimately show ?thesis by simp
qed

lemma ends_exact_step:
  assumes "s = p @ v @ q" "\<forall>c \<in> set v. in_ranges rs c" "length v = m"
  shows "ends (Seq (Rep m (Some m) (Cls False rs)) b) s (length p) = ends b s (length (p @ v))"
proof -
  have "k < length s \<and> in_ranges rs (s ! k)" if "length p \<le> k" "k < length p + m" for k
    using that assms by (auto simp: nth_append)
  then have "rep_ends (ends (Cls False rs) s) (Suc (length s)) m (Some m) (length p) = [length p + m]"
    by (intro rep_exact) (use assms in auto)
  then show ?thesis using assms(3) by simp
qed

lemma ends_lit_at: "s = p @ v @ q \<Longrightarrow> ends (lit v) s (length p) = [length (p @ v)]"
proof (induction v arbitrary: p)
  case (Cons c v)
  have "ends (lit v) s (length (p @ [c])) = [length ((p @ [c]) @ v)]" by (rule Cons.IH) (use Cons.prems in simp)
  moreover have "s ! length p = c" "length p < length s" using Cons.prems by auto
  ultimately show ?case by (simp add: lit_def chars_def in_ranges_def)
qed (simp add: lit_def)

text \<open>A character a match can consume first.\<close>

primrec rx_first :: "rx \<Rightarrow> char \<Rightarrow> bool" where
  "rx_first Eps c = False"
| "rx_first (Cls neg rs) c = (in_ranges rs c \<noteq> neg)"
| "rx_first (Seq a b) c = (rx_first a c \<or> rx_min a = 0 \<and> rx_first b c)"
| "rx_first (Alt a b) c = (rx_first a c \<or> rx_first b c)"
| "rx_first (Rep m k a) c = rx_first a c"
| "rx_first Bound c = False"
| "rx_first (NotAhead a) c = False"
| "rx_first (Ahead a) c = False"
| "rx_first (NotBehind rs) c = False"
| "rx_first Bol c = False"
| "rx_first Eol c = False"

lemma not_first: "\<not> rx_first r (s ! i) \<Longrightarrow> j \<in> set (ends r s i) \<Longrightarrow> j = i"
proof (induction r arbitrary: j)
  case (Seq a b)
  then obtain i' where i': "i' \<in> set (ends a s i)" "j \<in> set (ends b s i')" by auto
  then have "i' = i" using Seq by auto
  moreover have "rx_min a = 0" using ends_min [OF i'(1)] \<open>i' = i\<close> by simp
  ultimately show ?case using Seq i' by auto
next
  case (Rep m k a)
  have step: "i' \<in> set (ends a s i) \<Longrightarrow> i' = i" for i' using Rep by auto
  have "j \<in> set (rep_ends (ends a s) n m l i) \<Longrightarrow> j = i" for n m l
    by (induction n arbitrary: m l) (auto split: if_splits dest: step)
  from this [of "Suc (length s)" m k] show ?case using Rep.prems(2) by (simp only: ends.simps)
qed (auto split: if_splits)

lemma first_starts: "0 < rx_min r \<Longrightarrow> \<not> rx_first r (s ! i) \<Longrightarrow> ends r s i = []"
  using not_first [of r s i] ends_min [of _ r s i] by (metis add_cancel_left_right gr0_conv_Suc le_add1 leD list.set_intros(1)
    less_add_same_cancel1 neq_Nil_conv)

lemma rx_first_lit [simp]: "rx_first (lit (c # v)) d \<longleftrightarrow> c = d"
proof -
  have "of_char d = (of_char c :: nat) \<longleftrightarrow> c = d" by (metis of_char_eq_iff)
  then show ?thesis by (auto simp: lit_def chars_def in_ranges_def)
qed

text \<open>A sequence of literals, counted classes and greedy runs that can only match one way.\<close>

inductive forced :: "rx list \<Rightarrow> string list \<Rightarrow> bool" where
  forced_Nil: "forced [] []"
| forced_lit: "forced rs vs \<Longrightarrow> forced (lit v # rs) (v # vs)"
| forced_exact: "forced rs vs \<Longrightarrow> \<forall>c \<in> set v. in_ranges ks c \<Longrightarrow> length v = m \<Longrightarrow>
    forced (Rep m (Some m) (Cls False ks) # rs) (v # vs)"
| forced_run: "forced rs vs \<Longrightarrow> \<forall>c \<in> set v. in_ranges ks c \<Longrightarrow> m \<le> length v \<Longrightarrow> concat vs \<noteq> [] \<Longrightarrow>
    \<not> in_ranges ks (hd (concat vs)) \<Longrightarrow> 0 < rx_min (seqs rs) \<Longrightarrow>
    \<forall>c. in_ranges ks c \<longrightarrow> \<not> rx_first (seqs rs) c \<Longrightarrow>
    forced (Rep m None (Cls False ks) # rs) (v # vs)"

lemma seqs_Cons: "seqs (r # rs) = Seq r (seqs rs)"
  by (simp add: seqs_def)

lemma forced_ends: "forced rs vs \<Longrightarrow> s = p @ concat vs @ q \<Longrightarrow> ends (seqs rs) s (length p) = [length (p @ concat vs)]"
proof (induction arbitrary: p rule: forced.induct)
  case forced_Nil
  then show ?case by (simp add: seqs_def)
next
  case (forced_lit rs vs v)
  have "ends (seqs rs) s (length (p @ v)) = [length ((p @ v) @ concat vs)]"
    by (rule forced_lit.IH) (use forced_lit.prems in simp)
  with ends_lit_at [of s p v "concat vs @ q"] forced_lit.prems show ?case by (simp add: seqs_Cons)
next
  case (forced_exact rs vs v ks m)
  have "ends (seqs rs) s (length (p @ v)) = [length ((p @ v) @ concat vs)]"
    by (rule forced_exact.IH) (use forced_exact.prems in simp)
  with ends_exact_step [of s p v "concat vs @ q" ks m] forced_exact.prems forced_exact.hyps
  show ?case by (simp add: seqs_Cons del: ends.simps)
next
  case (forced_run rs vs v ks m)
  have "ends (seqs rs) s (length (p @ v)) = [length ((p @ v) @ concat vs)]"
    by (rule forced_run.IH) (use forced_run.prems in simp)
  moreover have "ends (Seq (Rep m None (Cls False ks)) (seqs rs)) s (length p) = ends (seqs rs) s (length (p @ v))"
    by (rule ends_run_step [where q = "concat vs @ q"]) (use forced_run.prems forced_run.hyps first_starts in auto)
  ultimately show ?case by (simp add: seqs_Cons del: ends.simps)
qed

lemma scan_finds:
  assumes "i \<le> k" "k - i < n" "ends r s k = e # es" "\<And>a b. a < k \<Longrightarrow> b \<in> set (ends r s a) \<Longrightarrow> b \<le> k"
  shows "(k, e) \<in> set (scan r s n i)"
  using assms(1,2)
proof (induction n arbitrary: i)
  case (Suc n)
  show ?case
  proof (cases "i = k")
    case True
    then show ?thesis using assms(3) by simp
  next
    case False
    with Suc.prems have i: "i < k" by simp
    show ?thesis
    proof (cases "ends r s i")
      case Nil
      then show ?thesis using Suc.IH [of "Suc i"] Suc.prems i by simp
    next
      case (Cons f fs)
      have "f \<le> k" using assms(4) [OF i, of f] Cons by simp
      then have "max f (Suc i) \<le> k" using i by simp
      then show ?thesis using Suc.IH [of "max f (Suc i)"] Suc.prems i Cons by auto
    qed
  qed
qed simp

lemma finditer_finds:
  assumes "k \<le> length s" "ends r s k = e # es" "\<And>a b. a < k \<Longrightarrow> b \<in> set (ends r s a) \<Longrightarrow> b \<le> k"
  shows "(k, e) \<in> set (finditer r s)"
proof -
  have "e \<le> length s" using ends_le [of e r s k] assms(1,2) by simp
  moreover have "(k, e) \<in> set (scan r s (Suc (length s)) 0)" by (rule scan_finds) (use assms in auto)
  ultimately show ?thesis by (auto simp: finditer_def simp del: scan.simps)
qed

text \<open>The first match, and what the absence of matches means.\<close>

lemma scan_skips:
  "i \<le> k \<Longrightarrow> k - i < n \<Longrightarrow> (\<And>a. i \<le> a \<Longrightarrow> a < k \<Longrightarrow> ends r s a = []) \<Longrightarrow> scan r s n i = scan r s (n - (k - i)) k"
proof (induction n arbitrary: i)
  case (Suc n)
  show ?case
  proof (cases "i = k")
    case False
    with Suc.prems have "ends r s i = []" "Suc i \<le> k" by simp_all
    with Suc.IH [of "Suc i"] Suc.prems show ?thesis by (simp add: Suc_diff_le Suc_diff_Suc)
  qed simp
qed simp

lemma finditer_first:
  assumes "k \<le> length s" "\<And>a. a < k \<Longrightarrow> ends r s a = []" "ends r s k = [e]" "e \<le> length s"
  shows "\<exists>ms. finditer r s = (k, e) # ms"
proof -
  have "scan r s (Suc (length s)) 0 = scan r s (Suc (length s) - k) k"
    using scan_skips [of 0 k "Suc (length s)" r s] assms(1,2) by simp
  moreover obtain n where "Suc (length s) - k = Suc n" using assms(1) Suc_diff_le by metis
  ultimately show ?thesis using assms(3,4) by (simp add: finditer_def)
qed

lemma finditer_Nil: "finditer r s = [] \<Longrightarrow> k \<le> length s \<Longrightarrow> ends r s k = []"
proof (induction k rule: less_induct)
  case (less k)
  show ?case
  proof (cases "ends r s k")
    case (Cons e es)
    have "(k, e) \<in> set (finditer r s)" using less by (intro finditer_finds [OF _ Cons]) auto
    with less.prems show ?thesis by simp
  qed simp
qed

text \<open>Expressions that look at nothing beyond the characters they consume, and whose repetitions consume some.\<close>

primrec rx_local :: "rx \<Rightarrow> bool" where
  "rx_local Eps = True"
| "rx_local (Cls neg rs) = True"
| "rx_local (Seq a b) = (rx_local a \<and> rx_local b)"
| "rx_local (Alt a b) = (rx_local a \<and> rx_local b)"
| "rx_local (Rep m k a) = (rx_local a \<and> 0 < rx_min a)"
| "rx_local Bound = False"
| "rx_local (NotAhead a) = False"
| "rx_local (Ahead a) = False"
| "rx_local (NotBehind rs) = False"
| "rx_local Bol = False"
| "rx_local Eol = False"

lemma rep_ends_local:
  assumes "\<And>i j. j \<in> set (f i) \<Longrightarrow> j \<le> l \<Longrightarrow> j \<in> set (g i)" "\<And>i j. j \<in> set (f i) \<Longrightarrow> i < j"
  shows "j \<in> set (rep_ends f n m k i) \<Longrightarrow> j \<le> l \<Longrightarrow> j - i \<le> n' \<Longrightarrow> j \<in> set (rep_ends g n' m k i)"
proof (induction n arbitrary: m k i n')
  case 0
  then show ?case by (cases n') (simp_all split: if_splits)
next
  case (Suc n)
  show ?case
  proof (cases "j \<in> set (if m = 0 then [i] else [])")
    case True
    then show ?thesis by (cases n') (simp_all split: if_splits)
  next
    case False
    with Suc.prems obtain i' where i': "i' \<in> set (f i)" "k \<noteq> Some 0"
      "j \<in> set (rep_ends f n (m - 1) (map_option (\<lambda>k. k - 1) k) i')" by (auto split: if_splits)
    have "i' \<le> j" using rep_ends_min [of f 0, OF _ i'(3)] assms(2) by (simp add: less_imp_le)
    moreover have "i < i'" by (rule assms(2) [OF i'(1)])
    ultimately obtain n'' where n': "n' = Suc n''" "j - i' \<le> n''" using Suc.prems(3) by (cases n') auto
    have "i' \<in> set (g i)" using assms(1) [OF i'(1)] \<open>i' \<le> j\<close> Suc.prems(2) by simp
    moreover have "j \<in> set (rep_ends g n'' (m - 1) (map_option (\<lambda>k. k - 1) k) i')"
      by (rule Suc.IH [OF i'(3) Suc.prems(2) n'(2)])
    ultimately show ?thesis using i'(2) by (auto simp: n'(1))
  qed
qed

lemma ends_local: "rx_local r \<Longrightarrow> j \<in> set (ends r (p @ q) i) \<Longrightarrow> j \<le> length p \<Longrightarrow> j \<in> set (ends r p i)"
proof (induction r arbitrary: i j)
  case (Cls neg rs)
  then show ?case by (auto simp: nth_append split: if_splits)
next
  case (Seq a b)
  then obtain i' where i': "i' \<in> set (ends a (p @ q) i)" "j \<in> set (ends b (p @ q) i')" by auto
  then have "i' \<le> length p" using ends_min [OF i'(2)] Seq.prems(3) by simp
  with i' Seq show ?case by fastforce
next
  case (Rep m k a)
  have "0 < rx_min a" using Rep.prems(1) by simp
  then have step: "i < j" if "j \<in> set (ends a (p @ q) i)" for i j using ends_min [OF that] by simp
  have "j \<in> set (rep_ends (ends a (p @ q)) (Suc (length (p @ q))) m k i)" using Rep.prems(2) by simp
  from rep_ends_local [of "ends a (p @ q)" "length p" "ends a p", OF _ step this Rep.prems(3), of "Suc (length p)"]
  show ?case using Rep.IH Rep.prems by simp
qed auto

lemma ends_assoc: "ends (Seq (Seq a b) c) s i = ends (Seq a (Seq b c)) s i"
proof -
  have "concat (map f (concat xs)) = concat (map (\<lambda>y. concat (map f y)) xs)" for f :: "nat \<Rightarrow> nat list" and xs
    by (induction xs) simp_all
  moreover have "ends (Seq b c) s = (\<lambda>x. concat (map (ends c s) (ends b s x)))" by (rule ext) simp
  ultimately show ?thesis by (simp add: o_def)
qed

lemma lit_Cons: "lit (c # v) = Seq (chars [c]) (lit v)"
  by (simp add: lit_def)

lemma masked_keeps:
  assumes "t = p @ u @ q" "\<forall>(a, b, r) \<in> set xs. a < b \<and> (b \<le> length p \<or> length p + length u \<le> a)"
  shows "\<exists>p' q'. concat (map (masked t xs) [0..<length t]) = p' @ u @ q'"
proof -
  let ?a = "length p" and ?e = "length p + length u"
  have keep: "masked t xs i = [t ! i]" if "?a \<le> i" "i < ?e" for i
  proof -
    have "find (\<lambda>(a, b, r). a = i) xs = None" using assms(2) that by (fastforce simp: find_None_iff)
    moreover have "\<not> covers xs i" using assms(2) that by (fastforce simp: covers_def)
    ultimately show ?thesis by (simp add: masked_def)
  qed
  have "[0..<length t] = [0..<?e] @ [?e..<length t]"
    using upt_add_eq_append [of 0 ?e "length q"] assms(1) by (simp add: add.assoc del: upt_Suc)
  moreover have "[0..<?e] = [0..<?a] @ [?a..<?e]" by (rule upt_add_eq_append) simp
  ultimately have "concat (map (masked t xs) [0..<length t]) = concat (map (masked t xs) [0..<?a]) @
      concat (map (masked t xs) [?a..<?e]) @ concat (map (masked t xs) [?e..<length t])"
    by (simp only: map_append concat_append append_assoc)
  moreover have "concat (map (masked t xs) [?a..<?e]) = slice t ?a ?e"
    by (rule slice_masked) (use keep assms(1) in auto)
  moreover have "slice t ?a ?e = u" by (simp add: slice_def assms(1))
  ultimately show ?thesis by metis
qed

lemma ball_marks: "(\<forall>(a, b, r) \<in> set (map (\<lambda>(a, b). (a, b, new)) xs). P a b) \<longleftrightarrow> (\<forall>(a, b) \<in> set xs. P a b)"
  by (induction xs) auto

lemma sub_keeps:
  assumes "t = p @ u @ q" "0 < rx_min r" "\<forall>(a, b) \<in> set (finditer r t). b \<le> length p \<or> length p + length u \<le> a"
  shows "\<exists>p' q'. rx_sub r new t = p' @ u @ q'"
proof -
  have sub: "rx_sub r new t = concat (map (masked t (map (\<lambda>(a, b). (a, b, new)) (finditer r t))) [0..<length t])"
    unfolding rx_sub_def by (rule replace_spans_masked [OF finditer_marks_ok [OF assms(2)]]) simp
  have "\<forall>(a, b, r') \<in> set (map (\<lambda>(a, b). (a, b, new)) (finditer r t)). a < b \<and> (b \<le> length p \<or> length p + length u \<le> a)"
    unfolding ball_marks using finditer_span [OF _ assms(2)] assms(3) by (metis (mono_tags, lifting) case_prodD case_prodI2)
  from masked_keeps [OF assms(1) this] show ?thesis by (simp only: sub)
qed

end
