(* ===== verification/Ccr_Marker.thy ===== *)
theory Ccr_Marker
  imports Context_Filter Regex_Match
begin

text \<open>
  The marker that \<open>ccr.py\<close> puts in place of a cached text, and the CacheAligner of
  \<open>cache_aligner.py\<close>, which moves the dynamic spans of a text to its tail and leaves markers alone.

  The arrow of a marker (U+2192) lies above the code points of the model; \<open>CHR 0x1A\<close>, which no
  pattern mentions, stands for it.
\<close>

section \<open>Markers\<close>

definition arrow :: char where
  "arrow = CHR 0x1A"

definition CCR_MARKER_RE :: rx where
  "CCR_MARKER_RE =
     seqs [lit ''[compressed:'', star space, Rep 64 (Some 64) (ranges [(48, 57), (97, 102)] []), star space, lit ''|'',
           star space, plus digit, lit [arrow], plus digit, star space, lit ''chars'', star space, lit ''|'', star space,
           lit ''retrieve via mnemos_retrieve]'']"

definition build_marker :: "string \<Rightarrow> nat \<Rightarrow> nat \<Rightarrow> string" where
  "build_marker h original_chars compressed_chars =
     ''[compressed: '' @ h @ '' | '' @ nat_str original_chars @ [arrow] @ nat_str compressed_chars @
     '' chars | retrieve via mnemos_retrieve]''"

record marker =
  mk_hash :: string
  mk_original :: int
  mk_compressed :: int
  mk_span :: "nat \<times> nat"

text \<open>The groups of a match; \<open>int\<close> raises on more than 4300 digits.\<close>

datatype marker_error = IntTooLong

definition marker_groups :: "string \<Rightarrow> string \<times> string \<times> string" where
  "marker_groups m =
     (let a = lstrip (drop (length ''[compressed:'') m); h = take 64 a;
          b = lstrip (drop 1 (lstrip (drop 64 a))); n = takeWhile is_digit b;
          c = drop (length n + 1) b
      in (h, n, takeWhile is_digit c))"

definition parse_marker :: "string \<Rightarrow> marker_error + marker option" where
  "parse_marker t =
     (case finditer CCR_MARKER_RE t of
        [] \<Rightarrow> Inr None
      | (a, e) # _ \<Rightarrow>
          (case marker_groups (slice t a e) of
             (h, n, k) \<Rightarrow>
               if MAX_INT_DIGITS < length n \<or> MAX_INT_DIGITS < length k then Inl IntTooLong
               else Inr (Some \<lparr>mk_hash = h, mk_original = digits_val n, mk_compressed = digits_val k,
                               mk_span = (a, e)\<rparr>)))"

section \<open>Dynamic spans\<close>

definition ALIGN_TIMESTAMP_RE :: rx where
  "ALIGN_TIMESTAMP_RE =
     seqs [Bound, digits 4, lit ''-'', digits 2, lit ''-'', digits 2, chars ''T '', digits 2, lit '':'', digits 2, lit '':'',
           digits 2, opt (seqs [lit ''.'', Rep 1 (Some 6) digit]),
           opt (alts [lit ''Z'', seqs [chars ''+-'', digits 2, opt (lit '':''), digits 2]]), Bound]"

definition hex_run :: "nat \<Rightarrow> rx" where
  "hex_run n = Rep n (Some n) (ranges hexdig [])"

definition UUID_RE :: rx where
  "UUID_RE =
     seqs [Bound, hex_run 8, lit ''-'', hex_run 4, lit ''-'', hex_run 4, lit ''-'', hex_run 4, lit ''-'', hex_run 12, Bound]"

definition SESSION_RE :: rx where
  "SESSION_RE =
     seqs [Bound, alts [seqs [lit_ci ''sess'', opt (lit_ci ''ion''), chars ''-:''], lit_ci ''session-id-'', lit_ci ''sid-''],
           Rep 4 (Some 64) (ranges alnum []), Bound]"

definition token_edge :: "(nat \<times> nat) list" where
  "token_edge = alnum @ [(95, 95), (47, 47), (43, 43), (61, 61)]"

definition TOKEN_RE :: rx where
  "TOKEN_RE = seqs [NotBehind token_edge, Rep 20 None (ranges alnum ''_-''), NotAhead (Cls False token_edge)]"

definition DATE_RE :: rx where
  "DATE_RE =
     seqs [Bound, digits 4, chars ''-/'', Rep 1 (Some 2) digit, chars ''-/'', Rep 1 (Some 2) digit, Bound]"

definition ALIGN_PATTERNS :: "(string \<times> rx) list" where
  "ALIGN_PATTERNS =
     [(''timestamp'', ALIGN_TIMESTAMP_RE), (''uuid'', UUID_RE), (''session_id'', SESSION_RE), (''date'', DATE_RE),
      (''token'', TOKEN_RE)]"

definition PROFILE_SKIP :: "string option \<Rightarrow> string list" where
  "PROFILE_SKIP p = (if p = Some ''code'' \<or> p = Some ''docs'' then [''token''] else [])"

record dyn_span =
  ds_kind :: string
  ds_value :: string
  ds_start :: nat
  ds_end :: nat

definition protected_marker_spans :: "string \<Rightarrow> (nat \<times> nat) list" where
  "protected_marker_spans t = finditer CCR_MARKER_RE t"

definition meets :: "nat \<times> nat \<Rightarrow> nat \<times> nat \<Rightarrow> bool" where
  "meets m p \<longleftrightarrow> fst m < snd p \<and> fst p < snd m"

definition raw_spans :: "string \<Rightarrow> string list \<Rightarrow> (nat \<times> nat) list \<Rightarrow> dyn_span list" where
  "raw_spans t skip protected =
     concat (map (\<lambda>(k, r).
       map (\<lambda>m. \<lparr>ds_kind = k, ds_value = slice t (fst m) (snd m), ds_start = fst m, ds_end = snd m\<rparr>)
         (filter (\<lambda>m. \<not> list_ex (meets m) protected) (finditer r t)))
       (filter (\<lambda>(k, r). k \<notin> set skip) ALIGN_PATTERNS))"

fun select_spans :: "int \<Rightarrow> dyn_span list \<Rightarrow> dyn_span list" where
  "select_spans last_end [] = []"
| "select_spans last_end (s # ss) =
     (if last_end \<le> int (ds_start s) then s # select_spans (int (ds_end s)) ss else select_spans last_end ss)"

definition extract_spans :: "string \<Rightarrow> string list \<Rightarrow> (nat \<times> nat) list \<Rightarrow> dyn_span list" where
  "extract_spans t skip protected =
     select_spans (-1)
       (sort_key (\<lambda>s. int (ds_start s)) (sort_key (\<lambda>s. - (int (ds_end s) - int (ds_start s))) (raw_spans t skip protected)))"

section \<open>Alignment\<close>

record aligned =
  al_text :: string
  al_extracted :: "dyn_span list"
  al_stabilized :: bool
  al_moved :: nat

definition span_marks :: "dyn_span list \<Rightarrow> (nat \<times> nat \<times> string) list" where
  "span_marks ss = map (\<lambda>s. (ds_start s, ds_end s, '' '')) ss"

text \<open>The text with one space for each span: character by character, as the code rewrites its list.\<close>

definition blanked :: "string \<Rightarrow> dyn_span list \<Rightarrow> string" where
  "blanked t ss = concat (map (masked t (span_marks ss)) [0..<length t])"

definition blanks :: rx where
  "blanks = chars [CHR '' '', CHR 0x09]"

definition aligned_body :: "string \<Rightarrow> dyn_span list \<Rightarrow> string" where
  "aligned_body t ss =
     rstrip (rx_sub (seqs [plus blanks, lit newline]) newline (rx_sub (Rep 2 None blanks) '' '' (blanked t ss)))"

definition dynamic_block :: "dyn_span list \<Rightarrow> string" where
  "dynamic_block ss =
     join newline ([[], ''--- Dynamic context ---''] @ map (\<lambda>s. ''- '' @ ds_kind s @ '': '' @ ds_value s) ss)"

definition align :: "string \<Rightarrow> string option \<Rightarrow> string list \<Rightarrow> aligned" where
  "align t profile skip_kinds =
     (let profile' = (if profile = Some ''default'' then None else profile);
          ss = extract_spans t (PROFILE_SKIP profile' @ skip_kinds) (protected_marker_spans t)
      in if t = [] \<or> ss = [] then \<lparr>al_text = t, al_extracted = [], al_stabilized = False, al_moved = 0\<rparr>
         else \<lparr>al_text = aligned_body t ss @ newline @ dynamic_block ss @ newline, al_extracted = ss,
               al_stabilized = 0 < ds_start (hd ss), al_moved = sum_list (map (\<lambda>s. ds_end s - ds_start s) ss)\<rparr>)"

record aligner_config =
  ac_enabled :: bool
  extract_timestamps :: bool
  extract_uuids :: bool
  extract_session_ids :: bool
  extract_dates :: bool
  extract_tokens :: bool

definition align_prefix :: "aligner_config \<Rightarrow> string \<Rightarrow> string option \<Rightarrow> aligned" where
  "align_prefix cfg t profile =
     (if \<not> ac_enabled cfg then \<lparr>al_text = t, al_extracted = [], al_stabilized = False, al_moved = 0\<rparr>
      else align t profile
        ((if extract_timestamps cfg then [] else [''timestamp'']) @ (if extract_uuids cfg then [] else [''uuid'']) @
         (if extract_session_ids cfg then [] else [''session_id'']) @ (if extract_dates cfg then [] else [''date'']) @
         (if extract_tokens cfg then [] else [''token''])))"

section \<open>What the aligner keeps\<close>

lemma select_spans_subset: "set (select_spans e ss) \<subseteq> set ss"
  by (induction e ss rule: select_spans.induct) auto

lemma select_spans_ordered:
  assumes "\<And>s. s \<in> set ss \<Longrightarrow> ds_start s < ds_end s"
  shows "sorted_wrt (\<lambda>a b. ds_end a \<le> ds_start b) (select_spans e ss) \<and>
    (\<forall>s \<in> set (select_spans e ss). e \<le> int (ds_start s))"
  using assms
proof (induction e ss rule: select_spans.induct)
  case (2 e s ss)
  show ?case
  proof (cases "e \<le> int (ds_start s)")
    case True
    with 2(1) [OF True] 2(3) have "sorted_wrt (\<lambda>a b. ds_end a \<le> ds_start b) (select_spans (int (ds_end s)) ss) \<and>
      (\<forall>x \<in> set (select_spans (int (ds_end s)) ss). int (ds_end s) \<le> int (ds_start x))" by simp
    moreover have "int (ds_start s) < int (ds_end s)" using 2(3) [of s] by simp
    ultimately show ?thesis using True by force
  next
    case False
    with 2(2) [OF False] 2(3) show ?thesis by simp
  qed
qed simp

lemma align_patterns_consume: "(k, r) \<in> set ALIGN_PATTERNS \<Longrightarrow> 0 < rx_min r"
  by (auto simp: ALIGN_PATTERNS_def ALIGN_TIMESTAMP_RE_def UUID_RE_def SESSION_RE_def DATE_RE_def TOKEN_RE_def hex_run_def)

lemma extract_spans_from:
  assumes "s \<in> set (extract_spans t skip protected)"
  obtains r where "(ds_kind s, r) \<in> set ALIGN_PATTERNS" "ds_kind s \<notin> set skip"
    "(ds_start s, ds_end s) \<in> set (finditer r t)" "ds_value s = slice t (ds_start s) (ds_end s)"
    "\<forall>p \<in> set protected. \<not> (ds_start s < snd p \<and> fst p < ds_end s)"
proof -
  from assms have "s \<in> set (raw_spans t skip protected)"
    unfolding extract_spans_def using select_spans_subset by fastforce
  then show ?thesis using that
    by (fastforce simp: raw_spans_def meets_def list_ex_iff)
qed

lemma extract_spans_bounds:
  assumes "s \<in> set (extract_spans t skip protected)"
  shows "ds_start s < ds_end s \<and> ds_end s \<le> length t"
proof -
  from extract_spans_from [OF assms] obtain r where r: "(ds_kind s, r) \<in> set ALIGN_PATTERNS"
    "(ds_start s, ds_end s) \<in> set (finditer r t)" by metis
  show ?thesis by (rule finditer_span [OF r(2) align_patterns_consume [OF r(1)]])
qed

lemma extract_spans_ordered: "sorted_wrt (\<lambda>a b. ds_end a \<le> ds_start b) (extract_spans t skip protected)"
proof -
  have "s \<in> set (sort_key (\<lambda>s. int (ds_start s)) (sort_key (\<lambda>s. - (int (ds_end s) - int (ds_start s)))
      (raw_spans t skip protected))) \<Longrightarrow> ds_start s < ds_end s" for s
    using align_patterns_consume finditer_span by (fastforce simp: raw_spans_def)
  then show ?thesis unfolding extract_spans_def by (rule select_spans_ordered [THEN conjunct1])
qed

lemma marks_ok:
  assumes "sorted_wrt (\<lambda>a b. ds_end a \<le> ds_start b) ss" "\<forall>s \<in> set ss. c \<le> ds_start s \<and> ds_start s < ds_end s \<and> ds_end s \<le> n"
  shows "spans_ok n c (span_marks ss)"
  using assms by (induction ss arbitrary: c) (auto simp: span_marks_def)

lemma extract_marks_ok: "spans_ok (length t) 0 (span_marks (extract_spans t skip protected))"
  by (rule marks_ok [OF extract_spans_ordered]) (auto dest: extract_spans_bounds)

subsection \<open>The visible characters\<close>

definition visible :: "string \<Rightarrow> string" where
  "visible s = filter (\<lambda>c. \<not> py_isspace c) s"

lemma visible_append [simp]: "visible (a @ b) = visible a @ visible b"
  by (simp add: visible_def)

lemma visible_Nil_iff: "visible s = [] \<longleftrightarrow> (\<forall>c \<in> set s. py_isspace c)"
  by (simp add: visible_def filter_empty_conv)

lemma visible_rstrip [simp]: "visible (rstrip s) = visible s"
proof -
  have "filter (\<lambda>c. \<not> py_isspace c) (dropWhile py_isspace u) = filter (\<lambda>c. \<not> py_isspace c) u" for u
    by (induction u) auto
  then show ?thesis by (simp add: visible_def rstrip_def rev_filter [symmetric])
qed

lemma replace_spans_visible:
  assumes "spans_ok (length s) c xs" "c \<le> length s" "\<forall>(a, b, r) \<in> set xs. visible r = visible (slice s a b)"
  shows "visible (replace_spans s c xs) = visible (drop c s)"
  using assms
proof (induction s c xs rule: replace_spans.induct)
  case (2 s c a b r xs)
  have "drop c s = slice s c a @ slice s a b @ drop b s"
  proof -
    from 2(2) have "c \<le> a" "a \<le> b" by auto
    then have "drop c s = take (a - c) (drop c s) @ drop a s" "drop a s = take (b - a) (drop a s) @ drop b s"
      by (metis append_take_drop_id drop_drop le_add_diff_inverse2)+
    then show ?thesis unfolding slice_def by metis
  qed
  then show ?case using 2 by simp
qed simp

lemma sub_space_visible:
  assumes "0 < rx_min r" "rx_within py_isspace r" "visible new = []"
  shows "visible (rx_sub r new s) = visible s"
proof -
  have "visible (slice s a b) = []" if "(a, b) \<in> set (finditer r s)" for a b
  proof -
    have "b \<in> set (ends r s a)" "a < b" "b \<le> length s" using finditer_matches finditer_span assms(1) that by blast+
    then have "\<forall>k < b - a. py_isspace (s ! (a + k))" using ends_within [OF assms(2), of b s a] by auto
    then show ?thesis by (auto simp: visible_Nil_iff slice_def in_set_conv_nth)
  qed
  then have "visible (replace_spans s 0 (map (\<lambda>(a, b). (a, b, new)) (finditer r s))) = visible (drop 0 s)"
    using assms(3) by (intro replace_spans_visible finditer_marks_ok [OF assms(1)]) auto
  then show ?thesis by (simp add: rx_sub_def)
qed

lemma in_blanks: "in_ranges [(32, 32), (9, 9)] c \<longleftrightarrow> c = CHR '' '' \<or> c = CHR 0x09"
proof -
  have "c = char_of n" if "of_char c = n" for n :: nat using that by auto
  then have "of_char c = (32 :: nat) \<Longrightarrow> c = char_of (32 :: nat)" "of_char c = (9 :: nat) \<Longrightarrow> c = char_of (9 :: nat)"
    by blast+
  moreover have "char_of (32 :: nat) = CHR '' ''" "char_of (9 :: nat) = CHR 0x09" by code_simp+
  ultimately show ?thesis by (auto simp: in_ranges_def)
qed

lemma blanks_within: "rx_within py_isspace (Rep 2 None blanks)" "rx_within py_isspace (seqs [plus blanks, lit newline])"
  by (auto simp: blanks_def chars_def in_blanks seqs_def lit_def in_ranges_def py_isspace_def)

lemma blanks_min: "0 < rx_min (Rep 2 None blanks)" "0 < rx_min (seqs [plus blanks, lit newline])"
  by (simp_all add: blanks_def)

lemma aligned_body_visible: "visible (aligned_body t ss) = visible (blanked t ss)"
proof -
  have "visible '' '' = []" "visible newline = []" by (simp_all add: visible_def py_isspace_def)
  then show ?thesis
    unfolding aligned_body_def visible_rstrip by (simp only: sub_space_visible [OF blanks_min(1) blanks_within(1)]
      sub_space_visible [OF blanks_min(2) blanks_within(2)])
qed

definition outside :: "dyn_span list \<Rightarrow> string \<Rightarrow> string" where
  "outside ss t = map ((!) t) (filter (\<lambda>i. \<forall>s \<in> set ss. \<not> (ds_start s \<le> i \<and> i < ds_end s)) [0..<length t])"

lemma blanked_visible: "visible (blanked t ss) = visible (outside ss t)"
proof -
  have cov: "covers (span_marks ss) i \<longleftrightarrow> \<not> (\<forall>s \<in> set ss. \<not> (ds_start s \<le> i \<and> i < ds_end s))" for i
    by (auto simp: covers_def span_marks_def)
  have new: "visible (case find (\<lambda>(a, b, r). a = i) (span_marks ss) of Some (a, b, r) \<Rightarrow> r | None \<Rightarrow> []) = []" for i
    by (auto simp: span_marks_def visible_def py_isspace_def find_Some_iff split: option.splits)
  have "visible (concat (map (masked t (span_marks ss)) is)) =
     visible (map ((!) t) (filter (\<lambda>i. \<forall>s \<in> set ss. \<not> (ds_start s \<le> i \<and> i < ds_end s)) is))" for "is"
    by (induction "is") (simp_all add: masked_def new cov, auto simp: visible_def)
  then show ?thesis by (simp add: blanked_def outside_def)
qed

text \<open>Alignment only moves: the visible characters outside the extracted spans keep their order, the tail lists
  the spans, and these are ordered, disjoint pieces of the text that meet no marker.\<close>

theorem align_conserves:
  "\<exists>ss. al_extracted (align t profile skip) = ss \<and>
    visible (al_text (align t profile skip)) =
      visible (outside ss t) @ (if ss = [] then [] else visible (dynamic_block ss)) \<and>
    sorted_wrt (\<lambda>a b. ds_end a \<le> ds_start b) ss \<and>
    (\<forall>s \<in> set ss. ds_start s < ds_end s \<and> ds_end s \<le> length t \<and> ds_value s = slice t (ds_start s) (ds_end s)) \<and>
    (\<forall>s \<in> set ss. \<forall>m \<in> set (finditer CCR_MARKER_RE t). ds_end s \<le> fst m \<or> snd m \<le> ds_start s)"
proof -
  define profile' where "profile' = (if profile = Some ''default'' then None else profile)"
  define E where "E = extract_spans t (PROFILE_SKIP profile' @ skip) (protected_marker_spans t)"
  define ss where "ss = al_extracted (align t profile skip)"
  have cases: "ss = [] \<and> al_text (align t profile skip) = t \<or>
    ss = E \<and> E \<noteq> [] \<and> al_text (align t profile skip) = aligned_body t E @ newline @ dynamic_block E @ newline"
    unfolding ss_def align_def Let_def profile'_def [symmetric] E_def [symmetric] by simp
  have none: "outside [] t = t" by (simp add: outside_def map_nth)
  have sub: "set ss \<subseteq> set E" using cases by auto
  have vis: "visible (al_text (align t profile skip)) = visible (outside ss t) @ (if ss = [] then [] else visible (dynamic_block ss))"
    using cases by (auto simp: none aligned_body_visible blanked_visible) (simp_all add: visible_def py_isspace_def)
  have ord: "sorted_wrt (\<lambda>a b. ds_end a \<le> ds_start b) ss"
    using cases extract_spans_ordered [of t] unfolding E_def by auto
  have each: "ds_start s < ds_end s \<and> ds_end s \<le> length t \<and> ds_value s = slice t (ds_start s) (ds_end s) \<and>
      (\<forall>m \<in> set (finditer CCR_MARKER_RE t). ds_end s \<le> fst m \<or> snd m \<le> ds_start s)" if "s \<in> set ss" for s
  proof -
    from that sub have s: "s \<in> set (extract_spans t (PROFILE_SKIP profile' @ skip) (protected_marker_spans t))"
      by (auto simp: E_def)
    from extract_spans_from [OF s] extract_spans_bounds [OF s] show ?thesis
      by (auto simp: protected_marker_spans_def not_less)
  qed
  show ?thesis
    using vis ord each unfolding ss_def by blast
qed


theorem align_conserves_witness:
  "\<exists>ss. al_extracted (align ''on 2026-07-17 done'' None []) = ss \<and> ss \<noteq> [] \<and>
    visible (al_text (align ''on 2026-07-17 done'' None [])) =
      visible (outside ss ''on 2026-07-17 done'') @ visible (dynamic_block ss) \<and>
    (\<forall>s \<in> set ss. ds_value s = slice ''on 2026-07-17 done'' (ds_start s) (ds_end s))"
proof -
  have ne: "al_extracted (align ''on 2026-07-17 done'' None []) \<noteq> []" by code_simp
  with align_conserves [of "''on 2026-07-17 done''" None "[]"] show ?thesis by auto
qed

section \<open>Finding a minted marker\<close>

definition marker_hash :: "string \<Rightarrow> bool" where
  "marker_hash h \<longleftrightarrow> length h = 64 \<and> (\<forall>c \<in> set h. in_ranges [(48, 57), (97, 102)] c)"

lemma digits_in_range: "\<forall>c \<in> set (nat_str m). in_ranges [(48, 57)] c"
proof
  fix c assume "c \<in> set (nat_str m)"
  then have "is_digit c" by (rule nat_str_is_digit)
  then show "in_ranges [(48, 57)] c" by (simp add: is_digit_def in_ranges_def Let_def)
qed

lemma minted_forced:
  assumes "marker_hash h"
  shows "forced
    [lit ''[compressed:'', star (Cls False space_ranges), Rep 64 (Some 64) (Cls False [(48, 57), (97, 102)]),
     star (Cls False space_ranges), lit ''|'', star (Cls False space_ranges), plus (Cls False [(48, 57)]), lit [arrow],
     plus (Cls False [(48, 57)]), star (Cls False space_ranges), lit ''chars'', star (Cls False space_ranges), lit ''|'',
     star (Cls False space_ranges), lit ''retrieve via mnemos_retrieve]'']
    [''[compressed:'', '' '', h, '' '', ''|'', '' '', nat_str n, [arrow], nat_str k, '' '', ''chars'', '' '', ''|'', '' '',
     ''retrieve via mnemos_retrieve]'']"
proof -
  have h: "length h = 64" "\<forall>c \<in> set h. in_ranges [(48, 57), (97, 102)] c" "h \<noteq> []"
    using assms by (auto simp: marker_hash_def)
  have sp: "in_ranges space_ranges (CHR '' '')" by (simp add: in_ranges_def)
  have hd: "hd (nat_str m @ xs) = hd (nat_str m)" for m xs by (simp add: hd_append)
  have ns: "\<not> in_ranges space_ranges c" if "in_ranges [(48, 57), (97, 102)] c \<or> in_ranges [(48, 57)] c" for c
    using that by (auto simp: in_ranges_def)
  have hh: "in_ranges [(48, 57), (97, 102)] (hd h)" "in_ranges [(48, 57)] (hd (nat_str m))" for m
    using h digits_in_range [of m] hd_in_set [OF nat_str_not_Nil, of m] by simp_all
  have cl: "(\<forall>c. in_ranges ks c \<longrightarrow> d \<noteq> c) \<longleftrightarrow> \<not> in_ranges ks d" for ks d by auto
  show ?thesis
    by (intro forced.intros) (simp_all add: sp h hd hh digits_in_range seqs_Cons ns cl Suc_le_eq, simp_all add: in_ranges_def arrow_def)
qed

lemma ends_minted:
  assumes "marker_hash h"
  shows "ends CCR_MARKER_RE (p @ build_marker h n k @ q) (length p) = [length (p @ build_marker h n k)]"
  using forced_ends [OF minted_forced [OF assms, of n k], of "p @ build_marker h n k @ q" p q]
  by (simp add: CCR_MARKER_RE_def build_marker_def ranges_def)

lemma marker_match_inside:
  assumes "j \<in> set (ends CCR_MARKER_RE s a)" "a < k" "k < j"
  shows "s ! k \<noteq> CHR ''[''"
proof -
  define rest where "rest = seqs [lit ''compressed:'', star space, Rep 64 (Some 64) (ranges [(48, 57), (97, 102)] []), star space, lit ''|'',
           star space, plus digit, lit [arrow], plus digit, star space, lit ''chars'', star space, lit ''|'', star space,
           lit ''retrieve via mnemos_retrieve]'']"
  have cl: "(\<forall>c. in_ranges ks c \<longrightarrow> c \<noteq> d) \<longleftrightarrow> \<not> in_ranges ks d" for ks d by auto
  have within_lit: "rx_within (\<lambda>c. c \<noteq> d) (lit v) \<longleftrightarrow> d \<notin> set v" for d v
  proof -
    have "of_char d = (of_char c :: nat) \<longleftrightarrow> d = c" for c by (metis of_char_eq_iff)
    then show ?thesis by (induction v) (auto simp: lit_def chars_def cl in_ranges_def)
  qed
  have w: "rx_within (\<lambda>c. c \<noteq> CHR ''['') rest"
    unfolding rest_def by (simp add: seqs_def within_lit ranges_def cl) (simp add: in_ranges_def arrow_def)
  have "ends CCR_MARKER_RE s a = ends (Seq (chars ''['') rest) s a"
    unfolding CCR_MARKER_RE_def rest_def seqs_Cons lit_Cons ends_assoc ..
  with assms(1) have "j \<in> set (ends rest s (Suc a))" by (auto simp: chars_def split: if_splits)
  from ends_within [OF w this, of k] assms(2,3) show ?thesis by simp
qed

lemma finditer_minted:
  assumes "marker_hash h"
  shows "(length p, length (p @ build_marker h n k)) \<in> set (finditer CCR_MARKER_RE (p @ build_marker h n k @ q))"
proof (rule finditer_finds)
  let ?s = "p @ build_marker h n k @ q"
  show "ends CCR_MARKER_RE ?s (length p) = [length (p @ build_marker h n k)]" by (rule ends_minted [OF assms])
  fix a b
  assume "a < length p" "b \<in> set (ends CCR_MARKER_RE ?s a)"
  moreover have "?s ! length p = CHR ''[''" by (simp add: build_marker_def nth_append)
  ultimately show "b \<le> length p" using marker_match_inside [of b ?s a "length p"] by (meson not_le)
qed simp

text \<open>Where no match starts before it, a minted marker is the first one found.\<close>

lemma parse_minted_at:
  assumes "marker_hash h" "length (nat_str n) \<le> 4300" "length (nat_str k) \<le> 4300"
    and "\<And>a. a < length p \<Longrightarrow> ends CCR_MARKER_RE (p @ build_marker h n k @ q) a = []"
  shows "parse_marker (p @ build_marker h n k @ q) =
    Inr (Some \<lparr>mk_hash = h, mk_original = int n, mk_compressed = int k,
      mk_span = (length p, length p + length (build_marker h n k))\<rparr>)"
proof -
  let ?u = "build_marker h n k"
  have "\<exists>ms. finditer CCR_MARKER_RE (p @ ?u @ q) = (length p, length (p @ ?u)) # ms"
    by (rule finditer_first [OF _ assms(4) ends_minted [OF assms(1)]]) simp_all
  moreover have "marker_groups ?u = (h, nat_str n, nat_str k)"
  proof -
    have h: "length h = 64" "\<forall>c \<in> set h. \<not> py_isspace c"
      using assms(1) unfolding in_space_ranges [symmetric] by (auto simp: marker_hash_def in_ranges_def)
    have dig: "takeWhile is_digit (nat_str m @ c # xs) = nat_str m" if "\<not> is_digit c" for m c xs
      using that nat_str_is_digit by (simp add: takeWhile_append)
    have ls: "lstrip (v @ xs) = v @ xs" if "v \<noteq> []" "\<forall>c \<in> set v. \<not> py_isspace c" for v xs
      using that by (cases v) (auto simp: lstrip_def)
    have sp: "lstrip ('' '' @ xs) = lstrip xs" for xs by (simp add: lstrip_def py_isspace_def)
    have nd: "\<forall>c \<in> set (nat_str m). \<not> py_isspace c" for m using nat_str_is_digit digit_not_space by blast
    have ht: "h \<noteq> []" "nat_str m \<noteq> []" for m using h by auto
    have a: "lstrip (drop (length ''[compressed:'') ?u) = h @ '' | '' @ nat_str n @ [arrow] @ nat_str k @ '' chars | retrieve via mnemos_retrieve]''"
      using ls [OF ht(1) h(2)] sp by (simp add: build_marker_def)
    have b: "lstrip (drop 1 (lstrip ('' | '' @ nat_str n @ xs))) = nat_str n @ xs" for xs
      using ls [OF ht(2) nd] by (simp add: lstrip_def py_isspace_def)
    show ?thesis
      unfolding marker_groups_def Let_def a using h(1) b dig by (simp add: is_digit_def arrow_def Let_def)
  qed
  ultimately show ?thesis
    using assms(2,3) by (auto simp: parse_marker_def slice_def MAX_INT_DIGITS_def digits_val_nat_str)
qed

lemma marker_local: "rx_local CCR_MARKER_RE" "0 < rx_min CCR_MARKER_RE"
  by (simp_all add: CCR_MARKER_RE_def seqs_def ranges_def lit_def chars_def)

text \<open>C26. Round trip of a marker: wherever it stands in a text, the marker minted for a text of a realistic size
  parses back to its hash, its two sizes and its span, unless the text before it holds a marker, which then is the
  one found.\<close>

theorem parse_minted:
  assumes "marker_hash h" "length (nat_str n) \<le> 4300" "length (nat_str k) \<le> 4300" "parse_marker p = Inr None"
  shows "parse_marker (p @ build_marker h n k @ q) =
    Inr (Some \<lparr>mk_hash = h, mk_original = int n, mk_compressed = int k,
      mk_span = (length p, length p + length (build_marker h n k))\<rparr>)"
proof (rule parse_minted_at [OF assms(1-3)])
  fix a assume a: "a < length p"
  let ?s = "p @ build_marker h n k @ q"
  have none: "finditer CCR_MARKER_RE p = []"
    using assms(4) by (auto simp: parse_marker_def split: list.splits prod.splits if_splits)
  show "ends CCR_MARKER_RE ?s a = []"
  proof (rule ccontr)
    assume "ends CCR_MARKER_RE ?s a \<noteq> []"
    then obtain b where b: "b \<in> set (ends CCR_MARKER_RE ?s a)" by (cases "ends CCR_MARKER_RE ?s a") auto
    have "?s ! length p = CHR ''[''" by (simp add: build_marker_def nth_append)
    then have "b \<le> length p" using marker_match_inside [OF b a] by (meson not_le)
    with ends_local [OF marker_local(1) b] have "b \<in> set (ends CCR_MARKER_RE p a)" .
    with finditer_Nil [OF none, of a] a show False by simp
  qed
qed

definition sample_hash :: string where
  "sample_hash = replicate 64 (CHR ''a'')"

lemma sample_hash_ok: "marker_hash sample_hash"
  by (simp add: sample_hash_def marker_hash_def in_ranges_def)

theorem parse_minted_witness:
  "parse_marker (''[see] '' @ build_marker sample_hash 5000 500 @ ''rest'') =
    Inr (Some \<lparr>mk_hash = sample_hash, mk_original = 5000, mk_compressed = 500,
      mk_span = (6, 6 + length (build_marker sample_hash 5000 500))\<rparr>)"
proof -
  have "length (nat_str 5000) \<le> 4300" "length (nat_str 500) \<le> 4300" "parse_marker ''[see] '' = Inr None" by code_simp+
  from parse_minted [OF sample_hash_ok this, of "''rest''"] show ?thesis by simp
qed

section \<open>A minted marker survives alignment\<close>

text \<open>A text no blank rule of the aligner touches.\<close>

definition blank :: "char \<Rightarrow> bool" where
  "blank c \<longleftrightarrow> c = CHR '' '' \<or> c = CHR 0x09"

definition steady :: "string \<Rightarrow> bool" where
  "steady u \<longleftrightarrow> u \<noteq> [] \<and> \<not> py_isspace (hd u) \<and> \<not> py_isspace (last u) \<and> CHR 0x0A \<notin> set u \<and>
     successively (\<lambda>x y. \<not> (blank x \<and> blank y)) u"

lemma inner_match:
  assumes t: "t = p @ u @ q" and u: "steady u"
    and w: "rx_within py_isspace r" "b \<in> set (ends r t a)" and meet: "\<not> (b \<le> length p \<or> length p + length u \<le> a)" "a < b"
  shows "length p < a \<and> b < length p + length u"
proof -
  have sp: "py_isspace (t ! k)" if "a \<le> k" "k < b" for k by (rule ends_within [OF w that])
  have "u \<noteq> []" using u by (simp add: steady_def)
  then have hd: "t ! length p = hd u" and last: "t ! (length p + length u - 1) = last u"
    unfolding t by (cases u rule: rev_cases; simp add: nth_append hd_conv_nth)+
  have "\<not> a \<le> length p" using sp [of "length p"] u hd meet by (auto simp: steady_def)
  moreover have "\<not> length p + length u \<le> b"
  proof
    assume "length p + length u \<le> b"
    moreover have "0 < length u" using \<open>u \<noteq> []\<close> by simp
    moreover have "a \<le> length p + length u - 1" using meet \<open>0 < length u\<close> by linarith
    ultimately have "py_isspace (last u)" using sp [of "length p + length u - 1"] last by (metis diff_less add_pos_nonneg add.commute less_le_trans zero_le zero_less_one)
    then show False using u by (simp add: steady_def)
  qed
  ultimately show ?thesis by simp
qed

lemma rep2_blanks:
  assumes "b \<in> set (ends (Rep 2 None blanks) t a)" "a \<le> k" "k < b"
  shows "blank (t ! k)"
proof -
  have "rx_within blank (Rep 2 None blanks)" by (simp add: blanks_def chars_def in_blanks blank_def)
  from ends_within [OF this assms] show ?thesis .
qed

lemma steady_blanks:
  assumes "t = p @ u @ q" "steady u"
  shows "\<exists>p' q'. rx_sub (Rep 2 None blanks) new t = p' @ u @ q'"
proof (rule sub_keeps [OF assms(1) blanks_min(1)], clarify, rule ccontr)
  fix a b
  assume m: "(a, b) \<in> set (finditer (Rep 2 None blanks) t)" "\<not> length p + length u \<le> a" "\<not> b \<le> length p"
  from finditer_matches [OF m(1)] have e: "b \<in> set (ends (Rep 2 None blanks) t a)" .
  from ends_min [OF e] have two: "a + 2 \<le> b" by (simp add: blanks_def)
  from inner_match [OF assms blanks_within(1) e] m two have inn: "length p < a" "b < length p + length u" by auto
  define i where "i = a - length p"
  have i: "Suc i < length u" "a = length p + i" using inn two by (auto simp: i_def)
  have "blank (t ! a)" "blank (t ! Suc a)" using rep2_blanks [OF e] two by auto
  then have "blank (u ! i)" "blank (u ! Suc i)" using i assms(1) by (auto simp: nth_append)
  moreover have "\<not> (blank (u ! i) \<and> blank (u ! Suc i))"
    using assms(2) i(1) by (auto simp: steady_def successively_conv_nth)
  ultimately show False by simp
qed

lemma newline_ends:
  assumes "b \<in> set (ends (seqs [plus blanks, lit newline]) t a)"
  shows "0 < b \<and> t ! (b - 1) = CHR 0x0A"
proof -
  have nl: "c = CHR 0x0A" if "of_char c = (of_char (CHR 0x0A) :: nat)" for c using that by (simp only: of_char_eq_iff)
  from assms obtain i where "b \<in> set (ends (seqs [lit newline]) t i)" by (auto simp only: seqs_Cons ends.simps set_concat set_map)
  then have "b \<in> set (ends (chars newline) t i)" by (simp add: seqs_def lit_def)
  then show ?thesis by (auto simp: chars_def in_ranges_def split: if_splits intro: nl)
qed

lemma steady_newlines:
  assumes "t = p @ u @ q" "steady u"
  shows "\<exists>p' q'. rx_sub (seqs [plus blanks, lit newline]) new t = p' @ u @ q'"
proof (rule sub_keeps [OF assms(1) blanks_min(2)], clarify, rule ccontr)
  fix a b
  assume m: "(a, b) \<in> set (finditer (seqs [plus blanks, lit newline]) t)" "\<not> length p + length u \<le> a" "\<not> b \<le> length p"
  from finditer_matches [OF m(1)] have e: "b \<in> set (ends (seqs [plus blanks, lit newline]) t a)" .
  from finditer_span [OF m(1) blanks_min(2)] have "a < b" by simp
  with inner_match [OF assms blanks_within(2) e] m have inn: "length p < a" "b < length p + length u" by auto
  have "t ! (b - 1) = u ! (b - 1 - length p)" using assms(1) inn \<open>a < b\<close> by (auto simp: nth_append)
  with newline_ends [OF e] have "u ! (b - 1 - length p) = CHR 0x0A" by simp
  moreover have "b - 1 - length p < length u" using inn \<open>a < b\<close> by simp
  ultimately show False using assms(2) by (metis nth_mem steady_def)
qed

lemma rstrip_keeps:
  assumes "t = p @ u @ q" "steady u"
  shows "\<exists>p' q'. rstrip t = p' @ u @ q'"
proof -
  have pu: "rstrip (p @ u) = p @ u" using assms(2) by (cases u rule: rev_cases) (simp_all add: rstrip_def steady_def)
  show ?thesis
  proof (cases "\<forall>c \<in> set q. py_isspace c")
    case True
    then have "dropWhile py_isspace (rev q @ rev (p @ u)) = dropWhile py_isspace (rev (p @ u))" by (intro dropWhile_append2) simp
    then have "rstrip t = rstrip (p @ u)" by (simp add: rstrip_def assms(1))
    then have "rstrip t = p @ u @ []" using pu by simp
    then show ?thesis by blast
  next
    case False
    then obtain c where "c \<in> set (rev q)" "\<not> py_isspace c" by auto
    then have "dropWhile py_isspace (rev q @ rev (p @ u)) = dropWhile py_isspace (rev q) @ rev (p @ u)" by (rule dropWhile_append1)
    then have "rstrip t = p @ u @ rstrip q" by (simp add: rstrip_def assms(1))
    then show ?thesis by blast
  qed
qed

lemma minted_steady: "marker_hash h \<Longrightarrow> steady (build_marker h n k)"
proof -
  assume "marker_hash h"
  then have h: "h \<noteq> []" "\<forall>c \<in> set h. \<not> py_isspace c"
    unfolding in_space_ranges [symmetric] by (auto simp: marker_hash_def in_ranges_def)
  have d: "\<forall>c \<in> set (nat_str m). \<not> py_isspace c" for m using nat_str_is_digit digit_not_space by blast
  have bl: "\<not> blank c" if "\<not> py_isspace c" for c using that by (auto simp: blank_def py_isspace_def)
  have calm: "successively (\<lambda>x y. \<not> (blank x \<and> blank y)) v" if "\<forall>c \<in> set v. \<not> py_isspace c" for v
    using that bl by (auto simp: successively_conv_nth)
  have nl: "CHR 0x0A \<notin> set v" if "\<forall>c \<in> set v. \<not> py_isspace c" for v using that by (auto simp: py_isspace_def)
  have "\<not> blank (last h)" "\<not> blank (last (nat_str n))" "\<not> blank (last (nat_str k))" "\<not> blank (hd h)"
    "\<not> blank (hd (nat_str n))" "\<not> blank (hd (nat_str k))"
    using h d bl by (meson last_in_set hd_in_set nat_str_not_Nil)+
  then show ?thesis
    using h(1) calm [OF h(2)] calm [OF d [of n]] calm [OF d [of k]] nl [OF h(2)] nl [OF d [of n]] nl [OF d [of k]]
    by (simp add: steady_def build_marker_def successively_append_iff successively_Cons) (simp add: blank_def arrow_def py_isspace_def)
qed

text \<open>A minted marker anywhere in a text is a contiguous piece of the aligned text, whatever the profile and the
  skipped kinds: no pattern of the aligner moves its hash, and no blank rule touches it.\<close>

theorem marker_survives_align:
  assumes "marker_hash h"
  shows "\<exists>p' q'. al_text (align (p @ build_marker h n k @ q) profile skip) = p' @ build_marker h n k @ q'"
proof -
  let ?u = "build_marker h n k"
  define t where "t = p @ ?u @ q"
  define profile' where "profile' = (if profile = Some ''default'' then None else profile)"
  define E where "E = extract_spans t (PROFILE_SKIP profile' @ skip) (protected_marker_spans t)"
  have st: "steady ?u" by (rule minted_steady [OF assms])
  have "\<forall>(a, b, r) \<in> set (span_marks E). a < b \<and> (b \<le> length p \<or> length p + length ?u \<le> a)"
  proof -
    have "(length p, length (p @ ?u)) \<in> set (protected_marker_spans t)"
      unfolding protected_marker_spans_def t_def by (rule finditer_minted [OF assms])
    then have "ds_start s < ds_end s \<and> (ds_end s \<le> length p \<or> length p + length ?u \<le> ds_start s)" if "s \<in> set E" for s
      using extract_spans_from [OF that [unfolded E_def]] extract_spans_bounds [OF that [unfolded E_def]]
      by (metis fst_conv length_append not_less snd_conv)
    then show ?thesis by (auto simp: span_marks_def)
  qed
  from masked_keeps [OF t_def this] obtain p1 q1 where "blanked t E = p1 @ ?u @ q1" by (auto simp: blanked_def)
  from steady_blanks [OF this st] obtain p2 q2 where "rx_sub (Rep 2 None blanks) '' '' (blanked t E) = p2 @ ?u @ q2" by metis
  from steady_newlines [OF this st] obtain p3 q3 where
    "rx_sub (seqs [plus blanks, lit newline]) newline (rx_sub (Rep 2 None blanks) '' '' (blanked t E)) = p3 @ ?u @ q3" by metis
  from rstrip_keeps [OF this st] obtain p4 q4 where "aligned_body t E = p4 @ ?u @ q4" by (auto simp: aligned_body_def)
  then show ?thesis
    unfolding align_def Let_def profile'_def [symmetric] t_def [symmetric] E_def [symmetric]
    by (cases "t = [] \<or> E = []") (simp_all only: aligned.simps if_True if_False append_assoc, auto simp: t_def)
qed

theorem marker_survives_align_witness:
  "\<exists>p' q'. al_text (align (''on 2026-07-17 '' @ build_marker sample_hash 5000 500 @ ''x'') None []) =
     p' @ build_marker sample_hash 5000 500 @ q'"
  using marker_survives_align [OF sample_hash_ok, of "''on 2026-07-17 ''" 5000 500 "''x''" None "[]"] .

text \<open>A directory path with a date in it is cut at the date.\<close>

lemma path_mangled:
  "al_text (align ''/var/log/2026/07/17/a'' None []) =
     ''/var/log/ /a'' @ newline @ newline @ ''--- Dynamic context ---'' @ newline @ ''- date: 2026/07/17'' @ newline"
  by code_simp

end
