(* ===== verification/Memory_Graph.thy ===== *)
theory Memory_Graph
  imports Memory_Store Tag_Contract Floats
begin

text \<open>
  The memory graph: the tables \<open>memory_edges\<close> and \<open>edge_stats\<close> of \<open>storage/sqlite_store.py\<close>,
  the candidate selector of \<open>graph_minting.py\<close>, and the operations of \<open>manager.py\<close> on them
  (edges with their per-project epoch, the minting of near-duplicate edges, the capture of
  used/rejected feedback).

  Edge weights and cosine similarities are floats, the rational numbers they stand for; the
  argument of an edge write may be no number.  The vector search, SHA-256 and \<open>uuid4\<close> are
  parameters; a store whose statements fail is outside the model.
\<close>

section \<open>The edge table\<close>

datatype edge_kind = Supersedes | RelatesTo

text \<open>\<open>_EDGE_KINDS\<close>, and the kind a caller's string names.\<close>

definition edge_kind_of :: "string \<Rightarrow> edge_kind option" where
  "edge_kind_of s =
     (if s = ''supersedes'' then Some Supersedes else if s = ''relates_to'' then Some RelatesTo else None)"

datatype float_arg = Finite rat | Infinite bool | NotANumber

record edge =
  e_from :: string
  e_to :: string
  e_kind :: edge_kind
  e_created_at :: moment
  e_weight :: rat
  e_provenance :: string
  e_scope_project :: "string option"
  e_scope_agent :: "string option"

datatype edge_error = UnknownKind | SelfEdge | EmptyProvenance | BadWeight | ForeignKey

definition edge_exists :: "string \<Rightarrow> string \<Rightarrow> edge_kind \<Rightarrow> edge list \<Rightarrow> bool" where
  "edge_exists a b k es \<longleftrightarrow> (\<exists>e \<in> set es. e_from e = a \<and> e_to e = b \<and> e_kind e = k)"

definition add_edge ::
  "string \<Rightarrow> string \<Rightarrow> string \<Rightarrow> float_arg \<Rightarrow> string \<Rightarrow> string option \<Rightarrow> string option \<Rightarrow> moment \<Rightarrow>
   row list \<Rightarrow> edge list \<Rightarrow> edge_error + bool \<times> edge list" where
  "add_edge a b kind weight prov scope_project scope_agent now rs es =
     (case edge_kind_of kind of
        None \<Rightarrow> Inl UnknownKind
      | Some k \<Rightarrow>
          if a = b then Inl SelfEdge
          else if prov = [] then Inl EmptyProvenance
          else (case weight of
                  Finite w \<Rightarrow>
                    if w \<le> 0 then Inl BadWeight
                    else if edge_exists a b k es then Inr (False, es)
                    else if get a rs = None \<or> get b rs = None then Inl ForeignKey
                    else Inr (True, es @ [\<lparr>e_from = a, e_to = b, e_kind = k, e_created_at = now,
                                         e_weight = w, e_provenance = prov,
                                         e_scope_project = scope_project, e_scope_agent = scope_agent\<rparr>])
                | _ \<Rightarrow> Inl BadWeight))"

text \<open>The cascade of the foreign keys when a memory is deleted.\<close>

definition cascade :: "string \<Rightarrow> edge list \<Rightarrow> edge list" where
  "cascade i es = filter (\<lambda>e. e_from e \<noteq> i \<and> e_to e \<noteq> i) es"

definition get_direct_edges :: "string \<Rightarrow> edge_kind \<Rightarrow> edge list \<Rightarrow> edge list" where
  "get_direct_edges a k es = order_asc e_created_at (filter (\<lambda>e. e_from e = a \<and> e_kind e = k) es)"

definition get_incoming_edges :: "string \<Rightarrow> edge_kind \<Rightarrow> edge list \<Rightarrow> edge list" where
  "get_incoming_edges b k es = order_asc e_created_at (filter (\<lambda>e. e_to e = b \<and> e_kind e = k) es)"

section \<open>The feedback table\<close>

definition EVENTS_PER_PRINCIPAL_CAP :: nat where
  "EVENTS_PER_PRINCIPAL_CAP = 10000"

definition TOTAL_ROWS_CAP :: nat where
  "TOTAL_ROWS_CAP = 1000000"

definition COUNTER_CLAMP :: nat where
  "COUNTER_CLAMP = 1000"

definition LAST_PURGE_META_KEY :: string where
  "LAST_PURGE_META_KEY = ''edge_stats_last_purge''"

datatype feedback_kind = Used | Rejected

definition feedback_kind_of :: "string \<Rightarrow> feedback_kind option" where
  "feedback_kind_of s =
     (if s = ''used'' then Some Used else if s = ''rejected'' then Some Rejected else None)"

record stat_row =
  st_event_id :: string
  st_memory_id :: string
  st_kind :: feedback_kind
  st_project :: string
  st_agent :: string
  st_created_at :: moment

datatype record_outcome = Inserted | Duplicate | CapDropped

datatype stat_error = UnknownFeedbackKind | EmptyEventId | NegativeKeep

definition count_edge_stats :: "feedback_kind option \<Rightarrow> stat_row list \<Rightarrow> nat" where
  "count_edge_stats k ss =
     (case k of None \<Rightarrow> length ss | Some k \<Rightarrow> rowcount (\<lambda>s. st_kind s = k) ss)"

definition record_edge_stat_event ::
  "string \<Rightarrow> string \<Rightarrow> string \<Rightarrow> string \<Rightarrow> string \<Rightarrow> moment \<Rightarrow> stat_row list \<Rightarrow>
   stat_error + record_outcome \<times> stat_row list" where
  "record_edge_stat_event event_id memory_id kind project agent now ss =
     (case feedback_kind_of kind of
        None \<Rightarrow> Inl UnknownFeedbackKind
      | Some k \<Rightarrow>
          if event_id = [] then Inl EmptyEventId
          else if EVENTS_PER_PRINCIPAL_CAP \<le> rowcount (\<lambda>s. st_project s = project \<and> st_agent s = agent) ss
          then Inr (CapDropped, ss)
          else if TOTAL_ROWS_CAP \<le> count_edge_stats None ss then Inr (CapDropped, ss)
          else if row_find st_event_id event_id ss \<noteq> None then Inr (Duplicate, ss)
          else Inr (Inserted, ss @ [\<lparr>st_event_id = event_id, st_memory_id = memory_id, st_kind = k,
                                   st_project = project, st_agent = agent, st_created_at = now\<rparr>]))"

definition edge_stats_counters :: "string \<Rightarrow> stat_row list \<Rightarrow> feedback_kind \<Rightarrow> nat" where
  "edge_stats_counters i ss k =
     min (rowcount (\<lambda>s. st_memory_id s = i \<and> st_kind s = k) ss) COUNTER_CLAMP"

text \<open>The batch read has an entry for the ids with a row only.\<close>

definition used_counts_batch :: "string list \<Rightarrow> stat_row list \<Rightarrow> string \<Rightarrow> nat option" where
  "used_counts_batch ids ss i =
     (let n = rowcount (\<lambda>s. st_memory_id s = i \<and> st_kind s = Used) ss
      in if i \<in> set ids \<and> 0 < n then Some (min n COUNTER_CLAMP) else None)"

definition count_by_kind :: "stat_row list \<Rightarrow> feedback_kind \<Rightarrow> nat" where
  "count_by_kind ss k = rowcount (\<lambda>s. st_kind s = k) ss"

record purge_report =
  pu_before :: nat
  pu_purged :: nat
  pu_after :: nat
  pu_dry_run :: bool

text \<open>\<open>ORDER BY created_at DESC, rowid DESC LIMIT -1 OFFSET keep_last\<close>: all but the newest; of
  rows written at one instant the later insertion counts as newer.\<close>

definition newest_first :: "stat_row list \<Rightarrow> stat_row list" where
  "newest_first ss = rev (order_asc st_created_at ss)"

definition doomed_rows :: "int \<Rightarrow> stat_row list \<Rightarrow> stat_row list" where
  "doomed_rows keep_last ss = sql_offset keep_last (newest_first ss)"

definition purge_stamp :: "moment \<Rightarrow> nat \<Rightarrow> int \<Rightarrow> string" where
  "purge_stamp now deleted keep_last =
     ''{'' @ [CHR 0x22] @ ''at'' @ [CHR 0x22] @ '': '' @ [CHR 0x22] @ isoformat now @ [CHR 0x22] @ '', '' @
     [CHR 0x22] @ ''purged'' @ [CHR 0x22] @ '': '' @ nat_str deleted @ '', '' @
     [CHR 0x22] @ ''keep_last'' @ [CHR 0x22] @ '': '' @ int_str keep_last @ ''}''"

definition purge_edge_stats_oldest ::
  "int \<Rightarrow> bool \<Rightarrow> moment \<Rightarrow> stat_row list \<Rightarrow> meta_row list \<Rightarrow>
   stat_error + purge_report \<times> stat_row list \<times> meta_row list" where
  "purge_edge_stats_oldest keep_last dry_run now ss ms =
     (if keep_last < 0 then Inl NegativeKeep
      else
        (let before = length ss; doomed = doomed_rows keep_last ss
         in if dry_run then
              Inr (\<lparr>pu_before = before, pu_purged = length doomed, pu_after = before - length doomed,
                    pu_dry_run = True\<rparr>, ss, ms)
            else
              (let P = (\<lambda>s. st_event_id s \<in> st_event_id ` set doomed); deleted = rowcount P ss
               in Inr (\<lparr>pu_before = before, pu_purged = deleted, pu_after = before - deleted,
                       pu_dry_run = False\<rparr>,
                       rows_delete P ss,
                       set_meta LAST_PURGE_META_KEY (purge_stamp now deleted keep_last) now ms))))"

section \<open>The state and the epochs\<close>

record graph =
  g_rows :: "row list"
  g_edges :: "edge list"
  g_stats :: "stat_row list"
  g_metas :: "meta_row list"

definition epoch_key :: "string \<Rightarrow> string \<Rightarrow> string" where
  "epoch_key prefix project = prefix @ '':'' @ nat_str (length project) @ '':'' @ project"

text \<open>A stored counter that is no number makes the bump fail, which is logged only.\<close>

definition bump_epoch :: "string \<Rightarrow> string \<Rightarrow> moment \<Rightarrow> meta_row list \<Rightarrow> int \<times> meta_row list" where
  "bump_epoch prefix project now ms =
     (let key = epoch_key prefix project; current = get_meta ms key
      in (case (if truthy current then py_int_of_str (the current) else Some 0) of
            None \<Rightarrow> (0, ms)
          | Some i \<Rightarrow> (i + 1, set_meta key (int_str (i + 1)) now ms)))"

definition bump_graph_epoch :: "string \<Rightarrow> moment \<Rightarrow> meta_row list \<Rightarrow> int \<times> meta_row list" where
  "bump_graph_epoch = bump_epoch ''graph_epoch''"

definition bump_feedback_epoch :: "string \<Rightarrow> moment \<Rightarrow> meta_row list \<Rightarrow> int \<times> meta_row list" where
  "bump_feedback_epoch = bump_epoch ''feedback_epoch''"

text \<open>The reads raise on a counter that is no number; that is \<open>None\<close>.\<close>

definition read_epoch :: "string \<Rightarrow> string \<Rightarrow> meta_row list \<Rightarrow> int option" where
  "read_epoch prefix project ms =
     (let current = get_meta ms (epoch_key prefix project)
      in if truthy current then py_int_of_str (the current) else Some 0)"

definition graph_epoch :: "string \<Rightarrow> meta_row list \<Rightarrow> int option" where
  "graph_epoch = read_epoch ''graph_epoch''"

definition feedback_epoch :: "string \<Rightarrow> meta_row list \<Rightarrow> int option" where
  "feedback_epoch = read_epoch ''feedback_epoch''"

definition add_memory_edge ::
  "string \<Rightarrow> string \<Rightarrow> string \<Rightarrow> float_arg \<Rightarrow> string \<Rightarrow> string option \<Rightarrow> string option \<Rightarrow> moment \<Rightarrow>
   graph \<Rightarrow> edge_error + bool \<times> graph" where
  "add_memory_edge a b kind weight prov scope_project scope_agent now g =
     (case add_edge a b kind weight prov scope_project scope_agent now (g_rows g) (g_edges g) of
        Inl e \<Rightarrow> Inl e
      | Inr (inserted, es) \<Rightarrow>
          if inserted then
            (let project =
               (if truthy scope_project then the scope_project
                else (case get a (g_rows g) of None \<Rightarrow> [] | Some m \<Rightarrow> m_project m))
             in Inr (True, g\<lparr>g_edges := es, g_metas := snd (bump_graph_epoch project now (g_metas g))\<rparr>))
          else Inr (False, g))"

definition delete_memory :: "string \<Rightarrow> graph \<Rightarrow> bool \<times> graph" where
  "delete_memory i g =
     (case delete i (g_rows g) of
        (ok, rs) \<Rightarrow> (ok, g\<lparr>g_rows := rs, g_edges := (if ok then cascade i (g_edges g) else g_edges g)\<rparr>))"

section \<open>Minting near-duplicate edges\<close>

definition AUTO_DEDUPE_PROVENANCE :: string where
  "AUTO_DEDUPE_PROVENANCE = ''auto-dedupe''"

definition AUTO_DEDUPE_EDGE_WEIGHT :: rat where
  "AUTO_DEDUPE_EDGE_WEIGHT = 2"

definition AUTO_DEDUPE_SIMILARITY_THRESHOLD :: rat where
  "AUTO_DEDUPE_SIMILARITY_THRESHOLD = fl (92 / 100)"

definition AUTO_DEDUPE_MAX_CANDIDATES :: nat where
  "AUTO_DEDUPE_MAX_CANDIDATES = 3"

definition AUTO_DEDUPE_CANDIDATE_POOL :: nat where
  "AUTO_DEDUPE_CANDIDATE_POOL = 10"

text \<open>One retrieval result of the selector: the row, its score, and whether the graph brought it.\<close>

record candidate =
  ca_memory :: memory
  ca_score :: rat
  ca_via_graph :: bool

definition mint_admits :: "memory \<Rightarrow> candidate \<Rightarrow> bool" where
  "mint_admits m r \<longleftrightarrow>
     (let c = ca_memory r in
      m_id c \<noteq> m_id m \<and> \<not> ca_via_graph r \<and> NO_FEDERATE_TAG \<notin> set (m_tags c) \<and>
      \<not> is_quarantined c \<and> is_context_admissible c \<and> m_project c = m_project m \<and>
      AUTO_DEDUPE_SIMILARITY_THRESHOLD \<le> ca_score r)"

definition select_auto_dedupe_candidates :: "memory \<Rightarrow> candidate list \<Rightarrow> candidate list" where
  "select_auto_dedupe_candidates m results =
     take AUTO_DEDUPE_MAX_CANDIDATES
       (sort_key (\<lambda>r. - ca_score r) (sort_key (\<lambda>r. m_id (ca_memory r)) (filter (mint_admits m) results)))"

text \<open>The loop over the candidates; a failing insert is skipped.\<close>

definition mint_one :: "memory \<Rightarrow> string set \<Rightarrow> moment \<Rightarrow> nat \<times> graph \<Rightarrow> candidate \<Rightarrow> nat \<times> graph" where
  "mint_one m incoming_from now st c =
     (case st of (minted, g) \<Rightarrow>
        if m_id (ca_memory c) \<in> incoming_from then (minted, g)
        else (case add_memory_edge (m_id m) (m_id (ca_memory c)) ''relates_to''
                     (Finite AUTO_DEDUPE_EDGE_WEIGHT) AUTO_DEDUPE_PROVENANCE None None now g of
                Inl e \<Rightarrow> (minted, g)
              | Inr (inserted, g1) \<Rightarrow> (if inserted then minted + 1 else minted, g1)))"

text \<open>The vector leg: the embedded text, the pool depth and the project; ids with their cosine.\<close>

type_synonym vector_search = "string \<Rightarrow> int \<Rightarrow> string option \<Rightarrow> (string \<times> rat) list"

definition mint_relates_to_edges ::
  "bool \<Rightarrow> (memory \<Rightarrow> string) \<Rightarrow> vector_search \<Rightarrow> memory \<Rightarrow> moment \<Rightarrow> graph \<Rightarrow> nat \<times> graph" where
  "mint_relates_to_edges graph_auto_mint embedding_text vectors m now g =
     (if \<not> graph_auto_mint then (0, g)
      else if NO_FEDERATE_TAG \<in> set (m_tags m) then (0, g)
      else if \<not> is_context_admissible m then (0, g)
      else if strip (embedding_text m) = [] then (0, g)
      else
        (let pairs = vectors (embedding_text m) (int AUTO_DEDUPE_CANDIDATE_POOL)
                       (if m_project m = [] then None else Some (m_project m));
             resolved = List.map_filter
               (\<lambda>(i, s). map_option (\<lambda>r. \<lparr>ca_memory = r, ca_score = s, ca_via_graph = False\<rparr>) (get i (g_rows g))) pairs;
             incoming_from = e_from ` set (get_incoming_edges (m_id m) RelatesTo (g_edges g))
         in foldl (mint_one m incoming_from now) (0, g) (select_auto_dedupe_candidates m resolved)))"

section \<open>Capturing feedback\<close>

definition feedback_preimage :: "string \<Rightarrow> string \<Rightarrow> string \<Rightarrow> string \<Rightarrow> string \<Rightarrow> string" where
  "feedback_preimage event_id memory_id kind project agent =
     concat (map (\<lambda>s. nat_str (length s) @ '':'' @ s) [event_id, memory_id, kind, project, agent])"

definition feedback_target_visible :: "string \<Rightarrow> string option \<Rightarrow> row list \<Rightarrow> bool" where
  "feedback_target_visible i project rs =
     (case get i rs of
        None \<Rightarrow> False
      | Some m \<Rightarrow>
          if truthy project \<and> m_project m \<noteq> the project then False else is_context_admissible m)"

record feedback_outcome =
  fo_enabled :: bool
  fo_reported :: nat
  fo_captured :: nat
  fo_duplicates :: nat
  fo_out_of_scope :: nat
  fo_cap_dropped :: nat

text \<open>One id of the report, with the identifier its row gets.  No digest and no \<open>uuid4\<close> is empty, so
  the recording does not raise here.\<close>

definition report_one ::
  "string \<Rightarrow> string option \<Rightarrow> string \<Rightarrow> moment \<Rightarrow> feedback_outcome \<times> graph \<Rightarrow> string \<times> string \<Rightarrow>
   feedback_outcome \<times> graph" where
  "report_one kind project agent now st p =
     (case st of (out, g) \<Rightarrow>
      (case p of (i, row_event_id) \<Rightarrow>
        if \<not> feedback_target_visible i project (g_rows g)
        then (out\<lparr>fo_out_of_scope := fo_out_of_scope out + 1\<rparr>, g)
        else (case record_edge_stat_event row_event_id i kind (or_str project []) agent now (g_stats g) of
                Inl e \<Rightarrow> (out, g)
              | Inr (Inserted, ss) \<Rightarrow> (out\<lparr>fo_captured := fo_captured out + 1\<rparr>, g\<lparr>g_stats := ss\<rparr>)
              | Inr (Duplicate, ss) \<Rightarrow> (out\<lparr>fo_duplicates := fo_duplicates out + 1\<rparr>, g\<lparr>g_stats := ss\<rparr>)
              | Inr (CapDropped, ss) \<Rightarrow> (out\<lparr>fo_cap_dropped := fo_cap_dropped out + 1\<rparr>, g\<lparr>g_stats := ss\<rparr>))))"

text \<open>\<open>list(dict.fromkeys(ids))\<close>: the first occurrence of every id.\<close>

definition dict_fromkeys :: "'a list \<Rightarrow> 'a list" where
  "dict_fromkeys xs = rev (remdups (rev xs))"

definition report_search_feedback ::
  "bool \<Rightarrow> (string \<Rightarrow> string) \<Rightarrow> (nat \<Rightarrow> string) \<Rightarrow> string list \<Rightarrow> string \<Rightarrow> string option \<Rightarrow> string option \<Rightarrow>
   string option \<Rightarrow> moment \<Rightarrow> graph \<Rightarrow> stat_error + feedback_outcome \<times> graph" where
  "report_search_feedback enabled sha256 uuid4 memory_ids kind project agent event_id now g =
     (if feedback_kind_of kind = None then Inl UnknownFeedbackKind
      else
        (let unique_ids = dict_fromkeys memory_ids;
             out0 = \<lparr>fo_enabled = enabled, fo_reported = length unique_ids, fo_captured = 0,
                     fo_duplicates = 0, fo_out_of_scope = 0, fo_cap_dropped = 0\<rparr>
         in if \<not> enabled then Inr (out0, g)
            else
              (let ids = map (\<lambda>(n, i). (i, if truthy event_id
                              then sha256 (feedback_preimage (the event_id) i kind (or_str project []) (or_str agent []))
                              else uuid4 n)) (enumerate 0 unique_ids);
                   r = foldl (report_one kind project (or_str agent []) now) (out0, g) ids
               in (case r of (out, g1) \<Rightarrow>
                     Inr (out, if 0 < fo_captured out
                               then g1\<lparr>g_metas := snd (bump_feedback_epoch (or_str project []) now (g_metas g1))\<rparr>
                               else g1)))))"

section \<open>The graph invariant\<close>

definition edge_key :: "edge \<Rightarrow> string \<times> string \<times> edge_kind" where
  "edge_key e = (e_from e, e_to e, e_kind e)"

definition edges_ok :: "row list \<Rightarrow> edge list \<Rightarrow> bool" where
  "edges_ok rs es \<longleftrightarrow> distinct (map edge_key es) \<and>
     (\<forall>e \<in> set es. e_from e \<noteq> e_to e \<and> 0 < e_weight e \<and> e_provenance e \<noteq> [] \<and>
        e_from e \<in> row_id ` set rs \<and> e_to e \<in> row_id ` set rs)"

definition of_principal :: "string \<Rightarrow> string \<Rightarrow> stat_row \<Rightarrow> bool" where
  "of_principal p a s \<longleftrightarrow> st_project s = p \<and> st_agent s = a"

definition stats_ok :: "stat_row list \<Rightarrow> bool" where
  "stats_ok ss \<longleftrightarrow> distinct (map st_event_id ss) \<and> length ss \<le> TOTAL_ROWS_CAP \<and>
     (\<forall>p a. rowcount (of_principal p a) ss \<le> EVENTS_PER_PRINCIPAL_CAP)"

definition graph_ok :: "graph \<Rightarrow> bool" where
  "graph_ok g \<longleftrightarrow> edges_ok (g_rows g) (g_edges g) \<and> stats_ok (g_stats g)"

lemma get_known: "get i rs \<noteq> None \<longleftrightarrow> i \<in> row_id ` set rs"
  by (simp add: get_def row_find_None_iff)

lemma edge_exists_key: "edge_exists a b k es \<longleftrightarrow> (a, b, k) \<in> edge_key ` set es"
  by (auto simp: edge_exists_def edge_key_def)

lemma add_edge_cases:
  assumes "add_edge a b kind w prov sp sa now rs es = Inr (ins, es')"
  shows "\<not> ins \<and> es' = es \<or>
    (ins \<and> (\<exists>k x. edge_kind_of kind = Some k \<and> w = Finite x \<and> 0 < x \<and> a \<noteq> b \<and> prov \<noteq> [] \<and>
       (a, b, k) \<notin> edge_key ` set es \<and> a \<in> row_id ` set rs \<and> b \<in> row_id ` set rs \<and>
       es' = es @ [\<lparr>e_from = a, e_to = b, e_kind = k, e_created_at = now, e_weight = x,
                   e_provenance = prov, e_scope_project = sp, e_scope_agent = sa\<rparr>]))"
proof -
  have "get i rs = None \<longleftrightarrow> i \<notin> row_id ` set rs" for i using get_known [of i rs] by blast
  then show ?thesis
    using assms unfolding add_edge_def edge_exists_key
    by (auto split: option.splits if_splits float_arg.splits)
qed

lemma add_edge_ok:
  assumes "add_edge a b kind w prov sp sa now rs es = Inr (ins, es')" "edges_ok rs es"
  shows "edges_ok rs es'"
  using add_edge_cases [OF assms(1)]
proof (elim disjE conjE exE)
  fix k x
  assume e: "0 < x" "a \<noteq> b" "prov \<noteq> []" "(a, b, k) \<notin> edge_key ` set es" "a \<in> row_id ` set rs" "b \<in> row_id ` set rs"
    and es': "es' = es @ [\<lparr>e_from = a, e_to = b, e_kind = k, e_created_at = now, e_weight = x,
                   e_provenance = prov, e_scope_project = sp, e_scope_agent = sa\<rparr>]"
  have "edge_key \<lparr>e_from = a, e_to = b, e_kind = k, e_created_at = now, e_weight = x,
                   e_provenance = prov, e_scope_project = sp, e_scope_agent = sa\<rparr> = (a, b, k)"
    by (simp add: edge_key_def)
  with e assms(2) show ?thesis by (simp add: edges_ok_def es' del: image_iff)
qed (use assms(2) in simp)

lemma add_memory_edge_frame:
  assumes "add_memory_edge a b kind w prov sp sa now g = Inr (ins, g')"
  shows "g_rows g' = g_rows g" "g_stats g' = g_stats g"
    "add_edge a b kind w prov sp sa now (g_rows g) (g_edges g) = Inr (ins, g_edges g')"
  using assms
  by (auto simp: add_memory_edge_def add_edge_def Let_def split: sum.splits if_splits option.splits float_arg.splits)

lemma add_memory_edge_ok:
  "add_memory_edge a b kind w prov sp sa now g = Inr (ins, g') \<Longrightarrow> graph_ok g \<Longrightarrow> graph_ok g'"
  using add_edge_ok by (fastforce simp: graph_ok_def dest: add_memory_edge_frame)

lemma rowcount_append [simp]: "rowcount P (xs @ ys) = rowcount P xs + rowcount P ys"
  by (simp add: rowcount_def)

lemma rowcount_delete: "rowcount P (rows_delete Q xs) \<le> rowcount P xs"
  by (induction xs) (auto simp: rowcount_def rows_delete_def)

lemma principal_rows: "rowcount (\<lambda>s. st_project s = p \<and> st_agent s = a) ss = rowcount (of_principal p a) ss"
  by (simp add: rowcount_def of_principal_def [abs_def])

lemma record_cases:
  assumes "record_edge_stat_event ev i kind p a now ss = Inr (r, ss')"
  shows "ss' = ss \<and> r \<noteq> Inserted \<or>
    (r = Inserted \<and> ev \<notin> st_event_id ` set ss \<and> rowcount (of_principal p a) ss < EVENTS_PER_PRINCIPAL_CAP \<and>
     length ss < TOTAL_ROWS_CAP \<and>
     (\<exists>k. ss' = ss @ [\<lparr>st_event_id = ev, st_memory_id = i, st_kind = k, st_project = p, st_agent = a,
                       st_created_at = now\<rparr>]))"
  using assms
  by (auto simp: record_edge_stat_event_def principal_rows count_edge_stats_def not_le
      row_find_None_iff split: option.splits if_splits)

lemma record_ok:
  assumes "record_edge_stat_event ev i kind p a now ss = Inr (r, ss')" "stats_ok ss"
  shows "stats_ok ss'"
  using record_cases [OF assms(1)] assms(2)
  by (auto simp: stats_ok_def rowcount_def of_principal_def)

lemma report_one_frame:
  "g_rows (snd (report_one kind p a now st x)) = g_rows (snd st)"
  "g_edges (snd (report_one kind p a now st x)) = g_edges (snd st)"
  "g_metas (snd (report_one kind p a now st x)) = g_metas (snd st)"
  by (auto simp: report_one_def split: prod.split sum.split record_outcome.split)

lemma report_one_ok: "stats_ok (g_stats (snd st)) \<Longrightarrow> stats_ok (g_stats (snd (report_one kind p a now st x)))"
  using record_ok
  by (fastforce simp: report_one_def split: prod.split sum.split record_outcome.split)

lemma report_loop_frame:
  "g_rows (snd (foldl (report_one kind p a now) st xs)) = g_rows (snd st) \<and>
   g_edges (snd (foldl (report_one kind p a now) st xs)) = g_edges (snd st) \<and>
   g_metas (snd (foldl (report_one kind p a now) st xs)) = g_metas (snd st)"
  by (induction xs arbitrary: st) (simp_all add: report_one_frame)

lemma report_loop_ok:
  "stats_ok (g_stats (snd st)) \<Longrightarrow> stats_ok (g_stats (snd (foldl (report_one kind p a now) st xs)))"
  by (induction xs arbitrary: st) (simp_all add: report_one_ok)

lemma report_ok:
  assumes "report_search_feedback en sha uid ids kind p a ev now g = Inr (out, g')" "graph_ok g"
  shows "graph_ok g'"
proof -
  define xs where "xs = map (\<lambda>(n, i). (i, if truthy ev
      then sha (feedback_preimage (the ev) i kind (or_str p []) (or_str a [])) else uid n))
      (enumerate 0 (dict_fromkeys ids))"
  define o0 where "o0 = \<lparr>fo_enabled = en, fo_reported = length (dict_fromkeys ids), fo_captured = 0,
      fo_duplicates = 0, fo_out_of_scope = 0, fo_cap_dropped = 0\<rparr>"
  obtain o1 g1 where l: "foldl (report_one kind p (or_str a []) now) (o0, g) xs = (o1, g1)" by fastforce
  have "g_rows g1 = g_rows g \<and> g_edges g1 = g_edges g \<and> stats_ok (g_stats g1)"
    using report_loop_frame [of kind p "or_str a []" now "(o0, g)" xs]
      report_loop_ok [of "(o0, g)" kind p "or_str a []" now xs] assms(2) by (simp add: l graph_ok_def)
  then have "graph_ok (g1\<lparr>g_metas := ms\<rparr>)" "graph_ok g1" for ms using assms(2) by (simp_all add: graph_ok_def)
  moreover have "g' = g \<or> g' = g1 \<or> (\<exists>ms. g' = g1\<lparr>g_metas := ms\<rparr>)"
    using assms(1) l unfolding xs_def o0_def
    by (auto simp: report_search_feedback_def Let_def split: if_splits)
  ultimately show ?thesis using assms(2) by auto
qed

lemma purge_ok:
  assumes "purge_edge_stats_oldest keep dry now ss ms = Inr (r, ss', ms')" "stats_ok ss"
  shows "stats_ok ss'"
proof -
  have "stats_ok (rows_delete P ss)" for P
    using assms(2) distinct_map_delete [of st_event_id ss P]
    by (auto simp: stats_ok_def length_rows_delete intro: order_trans [OF rowcount_delete])
  then show ?thesis
    using assms by (auto simp: purge_edge_stats_oldest_def Let_def split: if_splits)
qed

lemma mint_one_ok: "graph_ok (snd st) \<Longrightarrow> graph_ok (snd (mint_one m I now st c))"
  using add_memory_edge_ok by (fastforce simp: mint_one_def split: prod.split sum.split)

lemma mint_loop_ok: "graph_ok (snd st) \<Longrightarrow> graph_ok (snd (foldl (mint_one m I now) st cs))"
  by (induction cs arbitrary: st) (simp_all add: mint_one_ok)

lemma mint_ok: "graph_ok g \<Longrightarrow> graph_ok (snd (mint_relates_to_edges on emb vec m now g))"
  by (simp add: mint_relates_to_edges_def Let_def mint_loop_ok)

lemma save_ids: "row_id ` set (save trusted m rs) = insert (m_id m) (row_id ` set rs)"
proof -
  have u: "row_id (updated_row trusted m r) = m_id m" for r
    by (simp add: updated_row_def saved_columns_def)
  have "map row_id (rows_update (\<lambda>r. row_id r = m_id m) (updated_row trusted m) rs) = map row_id rs"
    by (auto simp: rows_update_def u)
  then have "row_id ` set (rows_update (\<lambda>r. row_id r = m_id m) (updated_row trusted m) rs) = row_id ` set rs"
    by (metis list.set_map)
  then show ?thesis
    by (cases "row_find row_id (m_id m) rs = None")
       (auto simp: save_def inserted_row_def saved_columns_def row_find_None_iff image_iff no_workflow_def)
qed

lemma delete_memory_ok: "delete_memory i g = (ok, g') \<Longrightarrow> graph_ok g \<Longrightarrow> graph_ok g'"
proof -
  assume d: "delete_memory i g = (ok, g')" and g: "graph_ok g"
  have "edges_ok (rows_delete (\<lambda>r. row_id r = i) (g_rows g)) (cascade i (g_edges g))"
    using g by (auto simp: graph_ok_def edges_ok_def cascade_def distinct_map_filter)
  moreover have "rows_delete (\<lambda>r. row_id r = i) (g_rows g) = g_rows g"
    if "\<not> (\<exists>r \<in> set (g_rows g). row_id r = i)"
    using that by (auto simp: rows_delete_def filter_id_conv)
  ultimately show ?thesis
    using d g by (auto simp: delete_memory_def delete_def graph_ok_def split: if_splits)
qed

text \<open>The steps of a graph: its operations in any order, with writes of memories between them.\<close>

inductive graph_step :: "graph \<Rightarrow> graph \<Rightarrow> bool" where
  edge_step: "add_memory_edge a b kind w prov sp sa now g = Inr (ins, g') \<Longrightarrow> graph_step g g'"
| mint_step: "mint_relates_to_edges on emb vec m now g = (n, g') \<Longrightarrow> graph_step g g'"
| report_step: "report_search_feedback en sha uid ids kind p a ev now g = Inr (out, g') \<Longrightarrow> graph_step g g'"
| purge_step: "purge_edge_stats_oldest keep dry now (g_stats g) (g_metas g) = Inr (r, ss, ms) \<Longrightarrow>
     graph_step g (g\<lparr>g_stats := ss, g_metas := ms\<rparr>)"
| save_step: "graph_step g (g\<lparr>g_rows := save trusted m (g_rows g)\<rparr>)"
| delete_step: "delete_memory i g = (ok, g') \<Longrightarrow> graph_step g g'"

lemma graph_step_ok: "graph_step g g' \<Longrightarrow> graph_ok g \<Longrightarrow> graph_ok g'"
proof (induction rule: graph_step.induct)
  case (mint_step on emb vec m now g n g')
  then show ?case using mint_ok by (metis snd_conv)
next
  case (purge_step keep dry now g r ss ms)
  then show ?case by (auto simp: graph_ok_def intro: purge_ok)
next
  case (save_step g trusted m)
  then show ?case by (auto simp: graph_ok_def edges_ok_def save_ids)
qed (blast intro: add_memory_edge_ok report_ok delete_memory_ok)+

definition empty_graph :: graph where
  "empty_graph = \<lparr>g_rows = [], g_edges = [], g_stats = [], g_metas = []\<rparr>"

lemma graph_reachable_ok: "graph_step\<^sup>*\<^sup>* empty_graph g \<Longrightarrow> graph_ok g"
proof (induction rule: rtranclp_induct)
  case base
  show ?case by (simp add: empty_graph_def graph_ok_def edges_ok_def stats_ok_def rowcount_def)
qed (rule graph_step_ok)

section \<open>Minting\<close>

lemma mint_one_step:
  "\<exists>new. g_edges (snd (mint_one m I now (n, g) c)) = g_edges g @ new \<and>
     fst (mint_one m I now (n, g) c) = n + length new \<and> length new \<le> 1 \<and>
     g_rows (snd (mint_one m I now (n, g) c)) = g_rows g \<and> g_stats (snd (mint_one m I now (n, g) c)) = g_stats g \<and>
     (\<forall>e \<in> set new. e_from e = m_id m \<and> e_to e = m_id (ca_memory c) \<and> e_kind e = RelatesTo \<and>
        e_weight e = AUTO_DEDUPE_EDGE_WEIGHT \<and> e_provenance e = AUTO_DEDUPE_PROVENANCE \<and> e_to e \<notin> I)"
proof (cases "m_id (ca_memory c) \<in> I")
  case True
  then show ?thesis by (simp add: mint_one_def)
next
  case False
  have kind: "edge_kind_of ''relates_to'' = Some RelatesTo" by (simp add: edge_kind_of_def)
  show ?thesis
  proof (cases "add_memory_edge (m_id m) (m_id (ca_memory c)) ''relates_to''
                     (Finite AUTO_DEDUPE_EDGE_WEIGHT) AUTO_DEDUPE_PROVENANCE None None now g")
    case (Inl e)
    with False show ?thesis by (simp add: mint_one_def)
  next
    case (Inr r)
    obtain ins g1 where r: "r = (ins, g1)" by fastforce
    note F = add_memory_edge_frame [OF Inr [unfolded r]]
    from add_edge_cases [OF F(3)] False F(1,2) kind Inr show ?thesis
      by (auto simp: mint_one_def r)
  qed
qed

lemma mint_loop:
  "\<exists>new. g_edges (snd (foldl (mint_one m I now) (n, g) cs)) = g_edges g @ new \<and>
     fst (foldl (mint_one m I now) (n, g) cs) = n + length new \<and> length new \<le> length cs \<and>
     g_rows (snd (foldl (mint_one m I now) (n, g) cs)) = g_rows g \<and>
     g_stats (snd (foldl (mint_one m I now) (n, g) cs)) = g_stats g \<and>
     (\<forall>e \<in> set new. e_from e = m_id m \<and> (\<exists>c \<in> set cs. e_to e = m_id (ca_memory c)) \<and> e_kind e = RelatesTo \<and>
        e_weight e = AUTO_DEDUPE_EDGE_WEIGHT \<and> e_provenance e = AUTO_DEDUPE_PROVENANCE \<and> e_to e \<notin> I)"
proof (induction cs arbitrary: n g)
  case (Cons c cs)
  obtain n1 g1 where s: "mint_one m I now (n, g) c = (n1, g1)" by fastforce
  from mint_one_step [of m I now n g c] obtain new1 where
    1: "g_edges g1 = g_edges g @ new1" "n1 = n + length new1" "length new1 \<le> 1" "g_rows g1 = g_rows g"
      "g_stats g1 = g_stats g"
      "\<forall>e \<in> set new1. e_from e = m_id m \<and> e_to e = m_id (ca_memory c) \<and> e_kind e = RelatesTo \<and>
        e_weight e = AUTO_DEDUPE_EDGE_WEIGHT \<and> e_provenance e = AUTO_DEDUPE_PROVENANCE \<and> e_to e \<notin> I"
    by (auto simp: s)
  from Cons [of n1 g1] obtain new2 where
    2: "g_edges (snd (foldl (mint_one m I now) (n1, g1) cs)) = g_edges g1 @ new2"
      "fst (foldl (mint_one m I now) (n1, g1) cs) = n1 + length new2" "length new2 \<le> length cs"
      "g_rows (snd (foldl (mint_one m I now) (n1, g1) cs)) = g_rows g1"
      "g_stats (snd (foldl (mint_one m I now) (n1, g1) cs)) = g_stats g1"
      "\<forall>e \<in> set new2. e_from e = m_id m \<and> (\<exists>c \<in> set cs. e_to e = m_id (ca_memory c)) \<and> e_kind e = RelatesTo \<and>
        e_weight e = AUTO_DEDUPE_EDGE_WEIGHT \<and> e_provenance e = AUTO_DEDUPE_PROVENANCE \<and> e_to e \<notin> I"
    by auto
  from 1 2 show ?case
    by (intro exI [of _ "new1 @ new2"]) (auto simp: s)
qed simp

lemma select_candidates:
  "set (select_auto_dedupe_candidates m rs) \<subseteq> {r \<in> set rs. mint_admits m r}"
  "length (select_auto_dedupe_candidates m rs) \<le> AUTO_DEDUPE_MAX_CANDIDATES"
  by (auto simp: select_auto_dedupe_candidates_def dest!: in_set_takeD)

lemma get_id: "get i rs = Some r \<Longrightarrow> m_id r = i"
  by (auto simp: get_def row_to_memory_def dest: row_find_SomeD)

lemma incoming_keys:
  "a \<notin> e_from ` set (get_incoming_edges b k es) \<longleftrightarrow> (a, b, k) \<notin> edge_key ` set es"
  by (force simp: get_incoming_edges_def edge_key_def)

text \<open>Minting adds at most three edges and changes nothing else; every one goes from the new row
  to an admissible row of the same project, neither of them marked no-federate, that the vector
  search found similar enough, and never doubles an edge the other way round.\<close>

theorem mint_safe:
  assumes "mint_relates_to_edges on embedding_text vectors m now g = (n, g')"
  shows "\<exists>new. g_edges g' = g_edges g @ new \<and> n = length new \<and> n \<le> 3 \<and>
    g_rows g' = g_rows g \<and> g_stats g' = g_stats g \<and>
    (\<forall>e \<in> set new. e_from e = m_id m \<and> e_kind e = RelatesTo \<and> e_weight e = 2 \<and> e_provenance e = ''auto-dedupe'' \<and>
       on \<and> is_context_admissible m \<and> NO_FEDERATE_TAG \<notin> set (m_tags m) \<and>
       (e_to e, m_id m, RelatesTo) \<notin> edge_key ` set (g_edges g) \<and>
       (\<exists>c s. get (e_to e) (g_rows g) = Some c \<and> m_id c \<noteq> m_id m \<and> is_context_admissible c \<and>
          m_project c = m_project m \<and> NO_FEDERATE_TAG \<notin> set (m_tags c) \<and>
          (e_to e, s) \<in> set (vectors (embedding_text m) 10 (if m_project m = [] then None else Some (m_project m))) \<and>
          AUTO_DEDUPE_SIMILARITY_THRESHOLD \<le> s))"
proof (cases "on \<and> NO_FEDERATE_TAG \<notin> set (m_tags m) \<and> is_context_admissible m \<and> strip (embedding_text m) \<noteq> []")
  case False
  then have "n = 0 \<and> g' = g" using assms by (auto simp: mint_relates_to_edges_def split: if_splits)
  then show ?thesis by simp
next
  case True
  define pairs where "pairs = vectors (embedding_text m) 10 (if m_project m = [] then None else Some (m_project m))"
  define res where "res = List.map_filter
     (\<lambda>(i, s). map_option (\<lambda>r. \<lparr>ca_memory = r, ca_score = s, ca_via_graph = False\<rparr>) (get i (g_rows g))) pairs"
  define I where "I = e_from ` set (get_incoming_edges (m_id m) RelatesTo (g_edges g))"
  define cs where "cs = select_auto_dedupe_candidates m res"
  have run: "(n, g') = foldl (mint_one m I now) (0, g) cs"
    using assms True
    by (simp add: mint_relates_to_edges_def Let_def pairs_def res_def I_def cs_def AUTO_DEDUPE_CANDIDATE_POOL_def)
  from mint_loop [of m I now 0 g cs] obtain new where
    N: "g_edges g' = g_edges g @ new" "n = length new" "length new \<le> length cs" "g_rows g' = g_rows g"
      "g_stats g' = g_stats g"
      "\<forall>e \<in> set new. e_from e = m_id m \<and> (\<exists>c \<in> set cs. e_to e = m_id (ca_memory c)) \<and> e_kind e = RelatesTo \<and>
        e_weight e = AUTO_DEDUPE_EDGE_WEIGHT \<and> e_provenance e = AUTO_DEDUPE_PROVENANCE \<and> e_to e \<notin> I"
    unfolding run [symmetric] by auto
  have cand: "\<exists>s. get (m_id (ca_memory c)) (g_rows g) = Some (ca_memory c) \<and> mint_admits m c \<and>
      (m_id (ca_memory c), s) \<in> set pairs \<and> ca_score c = s" if "c \<in> set cs" for c
    using that select_candidates(1) [of m res] get_id
    by (fastforce simp: cs_def res_def List.map_filter_def)
  have e: "e_from e = m_id m \<and> e_kind e = RelatesTo \<and> e_weight e = 2 \<and> e_provenance e = ''auto-dedupe'' \<and>
       (e_to e, m_id m, RelatesTo) \<notin> edge_key ` set (g_edges g) \<and>
       (\<exists>c s. get (e_to e) (g_rows g) = Some c \<and> m_id c \<noteq> m_id m \<and> is_context_admissible c \<and>
          m_project c = m_project m \<and> NO_FEDERATE_TAG \<notin> set (m_tags c) \<and> (e_to e, s) \<in> set pairs \<and>
          AUTO_DEDUPE_SIMILARITY_THRESHOLD \<le> s)" if "e \<in> set new" for e
  proof -
    from N(6) that obtain c where c: "c \<in> set cs" "e_to e = m_id (ca_memory c)" by auto
    from cand [OF c(1)] have "\<exists>c s. get (e_to e) (g_rows g) = Some c \<and> m_id c \<noteq> m_id m \<and> is_context_admissible c \<and>
          m_project c = m_project m \<and> NO_FEDERATE_TAG \<notin> set (m_tags c) \<and> (e_to e, s) \<in> set pairs \<and>
          AUTO_DEDUPE_SIMILARITY_THRESHOLD \<le> s"
      by (auto simp: mint_admits_def Let_def c(2))
    moreover have "(e_to e, m_id m, RelatesTo) \<notin> edge_key ` set (g_edges g)"
      using N(6) that unfolding I_def incoming_keys by blast
    ultimately show ?thesis
      using N(6) that by (simp add: AUTO_DEDUPE_EDGE_WEIGHT_def AUTO_DEDUPE_PROVENANCE_def)
  qed
  have "n \<le> 3" using N(2,3) select_candidates(2) [of m res] by (simp add: cs_def AUTO_DEDUPE_MAX_CANDIDATES_def)
  with N(1,2,4,5) e True show ?thesis unfolding pairs_def by (intro exI [of _ new]) auto
qed

section \<open>Feedback\<close>

definition absorbed :: "string option \<Rightarrow> string \<Rightarrow> row list \<Rightarrow> stat_row list \<Rightarrow> string \<times> string \<Rightarrow> bool" where
  "absorbed project agent rs ss x \<longleftrightarrow>
     (case x of (i, ev) \<Rightarrow> feedback_target_visible i project rs \<longrightarrow> ev \<noteq> [] \<longrightarrow>
        ev \<in> st_event_id ` set ss \<or> EVENTS_PER_PRINCIPAL_CAP \<le> rowcount (of_principal (or_str project []) agent) ss \<or>
        TOTAL_ROWS_CAP \<le> length ss)"

lemma report_one_stats:
  "\<exists>new. g_stats (snd (report_one kind p a now st x)) = g_stats (snd st) @ new"
  using record_cases
  by (fastforce simp: report_one_def split: prod.split sum.split record_outcome.split)

lemma absorbed_append: "absorbed p a rs ss x \<Longrightarrow> absorbed p a rs (ss @ new) x"
  by (auto simp: absorbed_def)

lemma report_one_absorbs:
  assumes "feedback_kind_of kind \<noteq> None" "g_rows (snd st) = rs"
  shows "absorbed p a rs (g_stats (snd (report_one kind p a now st x))) x"
proof -
  obtain out g i ev where st: "st = (out, g)" and x: "x = (i, ev)" by fastforce
  show ?thesis
  proof (cases "feedback_target_visible i p rs \<and> ev \<noteq> []")
    case True
    then show ?thesis
      using assms
      by (auto simp: absorbed_def report_one_def st x record_edge_stat_event_def principal_rows
          count_edge_stats_def row_find_None_iff split: option.splits)
  qed (auto simp: absorbed_def x)
qed

lemma report_loop_absorbs:
  assumes "feedback_kind_of kind \<noteq> None"
  shows "g_rows (snd st) = rs \<Longrightarrow> x \<in> set xs \<or> absorbed p a rs (g_stats (snd st)) x \<Longrightarrow>
     absorbed p a rs (g_stats (snd (foldl (report_one kind p a now) st xs))) x"
proof (induction xs arbitrary: st)
  case (Cons y xs)
  have "x \<in> set xs \<or> absorbed p a rs (g_stats (snd (report_one kind p a now st y))) x"
    using Cons.prems report_one_absorbs [OF assms Cons.prems(1)] absorbed_append report_one_stats
    by (metis set_ConsD)
  then show ?case using Cons.IH [of "report_one kind p a now st y"] Cons.prems(1) by (simp add: report_one_frame)
qed simp

lemma absorbed_report_one:
  assumes "absorbed p a (g_rows g) (g_stats g) x"
  shows "\<exists>out'. report_one kind p a now (out, g) x = (out', g) \<and> fo_captured out' = fo_captured out"
  using assms
  by (auto simp: absorbed_def report_one_def record_edge_stat_event_def principal_rows count_edge_stats_def
      row_find_None_iff split: prod.splits option.splits)

lemma absorbed_loop:
  assumes "\<forall>x \<in> set xs. absorbed p a (g_rows g) (g_stats g) x"
  shows "\<exists>out'. foldl (report_one kind p a now) (out, g) xs = (out', g) \<and> fo_captured out' = fo_captured out"
  using assms
proof (induction xs arbitrary: out)
  case (Cons x xs)
  from absorbed_report_one [of p a g x kind now out] Cons.prems obtain o1 where
    "report_one kind p a now (out, g) x = (o1, g)" "fo_captured o1 = fo_captured out" by auto
  with Cons.IH [of o1] Cons.prems show ?case by simp
qed simp

text \<open>Reporting is idempotent: a retry under the same report id captures nothing and leaves the
  whole state, the epoch included, as the first report left it.\<close>

theorem feedback_retry:
  assumes "report_search_feedback en sha uid ids kind p a (Some ev) now g = Inr (out, g1)" "ev \<noteq> []"
  shows "\<exists>out'. report_search_feedback en sha uid' ids kind p a (Some ev) now' g1 = Inr (out', g1) \<and>
    fo_captured out' = 0"
proof (cases en)
  case False
  with assms show ?thesis by (auto simp: report_search_feedback_def Let_def split: if_splits)
next
  case True
  define xs where "xs = map (\<lambda>(n :: nat, i). (i, sha (feedback_preimage ev i kind (or_str p []) (or_str a []))))
      (enumerate 0 (dict_fromkeys ids))"
  define o0 where "o0 = \<lparr>fo_enabled = True, fo_reported = length (dict_fromkeys ids), fo_captured = 0,
      fo_duplicates = 0, fo_out_of_scope = 0, fo_cap_dropped = 0\<rparr>"
  have run: "report_search_feedback en sha u ids kind p a (Some ev) t h =
      (case foldl (report_one kind p (or_str a []) t) (o0, h) xs of (out, h1) \<Rightarrow>
         Inr (out, if 0 < fo_captured out
               then h1\<lparr>g_metas := snd (bump_feedback_epoch (or_str p []) t (g_metas h1))\<rparr> else h1))"
    if "feedback_kind_of kind \<noteq> None" for u t h
    using that True assms(2)
    by (cases "feedback_kind_of kind") (simp_all add: report_search_feedback_def Let_def truthy_def xs_def o0_def)
  have k: "feedback_kind_of kind \<noteq> None"
    using assms(1) by (auto simp: report_search_feedback_def split: if_splits)
  obtain h1 where l: "foldl (report_one kind p (or_str a []) now) (o0, g) xs = (out, h1)"
    and g1: "g_stats g1 = g_stats h1" "g_rows g1 = g_rows h1"
    using assms(1) run [OF k] by (auto split: prod.splits if_splits)
  have "g_rows h1 = g_rows g"
    using report_loop_frame [of kind p "or_str a []" now "(o0, g)" xs] by (simp add: l)
  then have "\<forall>x \<in> set xs. absorbed p (or_str a []) (g_rows g1) (g_stats g1) x"
    using report_loop_absorbs [OF k, of "(o0, g)" "g_rows g" _ xs p "or_str a []" now] g1 by (simp add: l)
  from absorbed_loop [OF this, of kind now' o0] obtain out' where
    "foldl (report_one kind p (or_str a []) now') (o0, g1) xs = (out', g1)" "fo_captured out' = 0"
    by (auto simp: o0_def)
  then show ?thesis by (simp add: run [OF k])
qed

text \<open>Two reports share a preimage only if they agree in report, memory, kind and principal.\<close>

lemma prefixed_inj: "nat_str (length s) @ CHR '':'' # s @ x = nat_str (length t) @ CHR '':'' # t @ y \<Longrightarrow> s = t \<and> x = y"
proof -
  assume e: "nat_str (length s) @ CHR '':'' # s @ x = nat_str (length t) @ CHR '':'' # t @ y"
  have tw: "takeWhile (\<lambda>c. c \<noteq> CHR '':'') (nat_str n @ CHR '':'' # z) = nat_str n" for n z
    using nat_str_no_colon [of n] by (subst takeWhile_append2) auto
  from e have "nat_str (length s) = nat_str (length t)" using tw by metis
  then have "length s = length t" by (rule nat_str_inj)
  with e show ?thesis by simp
qed

lemma feedback_preimage_inj:
  "feedback_preimage e i k p a = feedback_preimage e' i' k' p' a' \<Longrightarrow>
     e = e' \<and> i = i' \<and> k = k' \<and> p = p' \<and> a = a'"
  using prefixed_inj [of a "[]" a' "[]"]
  by (simp add: feedback_preimage_def) (drule prefixed_inj, (elim conjE)?, drule prefixed_inj,
      (elim conjE)?, drule prefixed_inj, (elim conjE)?, drule prefixed_inj, simp)

section \<open>The state invariant\<close>

text \<open>C22. In every state the operations reach, edges are unique by endpoints and kind, join two
  different existing memories, and have positive weight; feedback rows are unique by event, and
  neither a principal nor the table exceeds its cap.\<close>

theorem graph_invariant:
  assumes "graph_step\<^sup>*\<^sup>* empty_graph g"
  shows "distinct (map edge_key (g_edges g)) \<and>
    (\<forall>e \<in> set (g_edges g). e_from e \<noteq> e_to e \<and> 0 < e_weight e \<and>
       get (e_from e) (g_rows g) \<noteq> None \<and> get (e_to e) (g_rows g) \<noteq> None) \<and>
    distinct (map st_event_id (g_stats g)) \<and> count_edge_stats None (g_stats g) \<le> TOTAL_ROWS_CAP \<and>
    (\<forall>p a. rowcount (\<lambda>s. st_project s = p \<and> st_agent s = a) (g_stats g) \<le> EVENTS_PER_PRINCIPAL_CAP)"
  using graph_reachable_ok [OF assms]
  unfolding graph_ok_def edges_ok_def stats_ok_def get_known principal_rows count_edge_stats_def by simp

section \<open>Epochs\<close>

lemma epoch_key_inj: "epoch_key x p = epoch_key x q \<longleftrightarrow> p = q"
  using prefixed_inj [of p "[]" q "[]"] by (auto simp: epoch_key_def)

lemma epoch_key_kinds: "epoch_key ''graph_epoch'' p \<noteq> epoch_key ''feedback_epoch'' q"
  by (simp add: epoch_key_def)

lemma int_str_not_Nil: "int_str i \<noteq> []"
  by (simp add: int_str_def)

lemma bump_epoch_read:
  assumes "read_epoch x p ms = Some n"
  shows "fst (bump_epoch x p now ms) = n + 1"
    "read_epoch x q (snd (bump_epoch x p now ms)) = (if q = p then Some (n + 1) else read_epoch x q ms)"
  using assms
  by (auto simp: read_epoch_def bump_epoch_def Let_def meta_kv.get_put epoch_key_inj truthy_def int_str_not_Nil
      py_int_of_int_str split: option.splits if_splits)

text \<open>A new edge bumps the epoch of its project and no other; a repeated one bumps nothing.\<close>

lemma edge_epoch:
  assumes "add_memory_edge a b kind w prov (Some p) sa now g = Inr (ins, g')" "p \<noteq> []"
    and "graph_epoch p (g_metas g) = Some n"
  shows "graph_epoch q (g_metas g') = (if ins \<and> q = p then Some (n + 1) else graph_epoch q (g_metas g))"
  using assms bump_epoch_read(2) [of "''graph_epoch''" p "g_metas g" n]
  by (auto simp: add_memory_edge_def add_edge_def Let_def graph_epoch_def bump_graph_epoch_def truthy_def
      split: sum.splits option.splits if_splits float_arg.splits)

text \<open>A deletion drops edges and leaves every epoch as it is.\<close>

lemma delete_keeps_epochs: "graph_epoch q (g_metas (snd (delete_memory i g))) = graph_epoch q (g_metas g)"
  by (simp add: delete_memory_def split: prod.split)

section \<open>Purging\<close>

lemma length_newest_first [simp]: "length (newest_first ss) = length ss"
  by (simp add: newest_first_def order_asc_def)

lemma set_newest_first [simp]: "set (newest_first ss) = set ss"
  by (simp add: newest_first_def)

text \<open>A purge leaves exactly the newest rows, as many as asked for, and the dry run announces it.\<close>

lemma purge_keeps_newest:
  assumes "purge_edge_stats_oldest keep False now ss ms = Inr (r, ss', ms')" "stats_ok ss"
  shows "set ss' = set (take (nat keep) (newest_first ss))" "length ss' = min (nat keep) (length ss)"
    "pu_before r = length ss" "pu_purged r = length ss - length ss'" "pu_after r = length ss'"
    "purge_edge_stats_oldest keep True now' ss ms = Inr (r\<lparr>pu_dry_run := True\<rparr>, ss, ms)"
proof -
  let ?P = "\<lambda>s. st_event_id s \<in> st_event_id ` set (doomed_rows keep ss)"
  have k: "0 \<le> keep" and ss': "ss' = rows_delete ?P ss"
    and r: "r = \<lparr>pu_before = length ss, pu_purged = rowcount ?P ss, pu_after = length ss - rowcount ?P ss,
                pu_dry_run = False\<rparr>"
    using assms(1) by (auto simp: purge_edge_stats_oldest_def Let_def split: if_splits)
  have nf: "newest_first ss = take (nat keep) (newest_first ss) @ doomed_rows keep ss"
    by (simp add: doomed_rows_def sql_offset_def)
  have d: "distinct (map st_event_id ss)" using assms(2) by (simp add: stats_ok_def)
  have "distinct (newest_first ss)" using d by (simp add: newest_first_def order_asc_def distinct_map)
  then have "distinct (map st_event_id (newest_first ss))"
    using d by (simp add: distinct_map)
  then have dd: "distinct (map st_event_id (take (nat keep) (newest_first ss)))"
    "st_event_id ` set (take (nat keep) (newest_first ss)) \<inter> st_event_id ` set (doomed_rows keep ss) = {}"
    by (subst (asm) nf, simp)+
  have u: "set ss = set (take (nat keep) (newest_first ss)) \<union> set (doomed_rows keep ss)"
    by (metis nf set_append set_newest_first)
  show s: "set ss' = set (take (nat keep) (newest_first ss))"
    using u dd(2) by (auto simp: ss')
  have "distinct ss" "distinct ss'" using d by (auto simp: ss' rows_delete_def distinct_map intro: distinct_filter)
  then have "length ss' = card (set ss')" by (simp add: distinct_card)
  also have "\<dots> = length (take (nat keep) (newest_first ss))"
    unfolding s using dd(1) by (simp add: distinct_card distinct_map)
  finally show l: "length ss' = min (nat keep) (length ss)" by simp
  have "length ss' = length ss - rowcount ?P ss" by (simp add: ss' length_rows_delete)
  moreover have "rowcount ?P ss \<le> length ss" by (simp add: rowcount_def)
  ultimately have "rowcount ?P ss = length ss - nat keep" using l by (simp add: min_def split: if_splits)
  then show "pu_before r = length ss" "pu_purged r = length ss - length ss'" "pu_after r = length ss'"
    "purge_edge_stats_oldest keep True now' ss ms = Inr (r\<lparr>pu_dry_run := True\<rparr>, ss, ms)"
    using l k by (auto simp: r purge_edge_stats_oldest_def Let_def doomed_rows_def sql_offset_def min_def)
qed

section \<open>Witnesses\<close>

definition sample_memory :: "string \<Rightarrow> memory" where
  "sample_memory i = (new_memory i ''text'' 0)\<lparr>m_project := ''p'', m_status := PUBLISHED, m_title := Some ''t''\<rparr>"

definition sample_row :: "nat \<Rightarrow> string \<Rightarrow> row" where
  "sample_row n i = \<lparr>rowid = n, mem = sample_memory i, rewrite_source = None, rewrite_session = None,
                     rewrite_event_key = None\<rparr>"

definition sample_graph :: graph where
  "sample_graph = \<lparr>g_rows = [sample_row 1 ''a'', sample_row 2 ''b''], g_edges = [], g_stats = [], g_metas = []\<rparr>"

lemma sample_simps [simp]:
  "row_id (sample_row n i) = i" "m_id (sample_memory i) = i" "m_project (sample_memory i) = ''p''"
  "m_tags (sample_memory i) = []" "is_context_admissible (sample_memory i)"
  "row_to_memory (sample_row n i) = sample_memory i"
  by (simp_all add: sample_row_def sample_memory_def new_memory_def is_context_admissible_in_def
      CONTEXT_ADMISSIBLE_STATUSES_def is_quarantined_def row_to_memory_def)

lemma sample_get:
  "get ''a'' (g_rows sample_graph) = Some (sample_memory ''a'')"
  "get ''b'' (g_rows sample_graph) = Some (sample_memory ''b'')"
  "g_stats sample_graph = []" "g_edges sample_graph = []" "g_metas sample_graph = []"
  by (simp_all add: get_def sample_graph_def)

lemma sample_saves: "graph_step\<^sup>*\<^sup>* empty_graph sample_graph"
proof -
  let ?g1 = "empty_graph\<lparr>g_rows := save False (sample_memory ''a'') (g_rows empty_graph)\<rparr>"
  have "graph_step empty_graph ?g1" by (rule graph_step.save_step)
  moreover have "graph_step ?g1 (?g1\<lparr>g_rows := save False (sample_memory ''b'') (g_rows ?g1)\<rparr>)"
    by (rule graph_step.save_step)
  moreover have "?g1\<lparr>g_rows := save False (sample_memory ''b'') (g_rows ?g1)\<rparr> = sample_graph"
    by (simp add: empty_graph_def sample_graph_def save_def inserted_row_def sample_row_def saved_columns_def
        no_workflow_def sample_memory_def new_memory_def auto_title_def truthy_def promoted_def next_rowid_def)
  ultimately show ?thesis by (metis converse_rtranclp_into_rtranclp rtranclp.rtrancl_refl)
qed

theorem graph_invariant_witness: "get ''a'' (g_rows sample_graph) \<noteq> None \<and> distinct (map edge_key (g_edges sample_graph))"
  using graph_invariant [OF sample_saves] sample_get by simp

theorem mint_safe_witness:
  "\<exists>n g'. mint_relates_to_edges True (\<lambda>m. ''text'') (\<lambda>t k p. [(''a'', 1), (''b'', 1)]) (sample_memory ''b'') 5 sample_graph = (n, g') \<and>
     n \<le> 3 \<and> g_rows g' = g_rows sample_graph"
proof -
  obtain n g' where m: "mint_relates_to_edges True (\<lambda>m. ''text'') (\<lambda>t k p. [(''a'', 1), (''b'', 1)])
      (sample_memory ''b'') 5 sample_graph = (n, g')" by fastforce
  from mint_safe [OF m] m show ?thesis by auto
qed

theorem feedback_retry_witness:
  "\<exists>out g1 out'. report_search_feedback True (\<lambda>s. ''h'') (\<lambda>n. ''u'') [''a''] ''used'' (Some ''p'') None (Some ''ev'') 7 sample_graph =
      Inr (out, g1) \<and> fo_captured out = 1 \<and>
     report_search_feedback True (\<lambda>s. ''h'') (\<lambda>n. ''u'') [''a''] ''used'' (Some ''p'') None (Some ''ev'') 9 g1 = Inr (out', g1) \<and>
     fo_captured out' = 0"
proof -
  obtain out g1 where r: "report_search_feedback True (\<lambda>s. ''h'') (\<lambda>n. ''u'') [''a''] ''used'' (Some ''p'') None
      (Some ''ev'') 7 sample_graph = Inr (out, g1)" "fo_captured out = 1"
    by (simp add: report_search_feedback_def feedback_kind_of_def dict_fromkeys_def report_one_def
        feedback_target_visible_def sample_get truthy_def record_edge_stat_event_def rowcount_def
        count_edge_stats_def EVENTS_PER_PRINCIPAL_CAP_def TOTAL_ROWS_CAP_def or_str_def)
  from feedback_retry [OF r(1), of "\<lambda>n. ''u''" 9] r show ?thesis by auto
qed

end
