(* ===== verification/Search.thy ===== *)
theory Search
  imports Memory_Graph Text_Ops "HOL-Library.AList"
begin

text \<open>
  Hybrid search: the FTS5 query builder and \<open>fts_search\<close> of \<open>storage/sqlite_store.py\<close>, and
  \<open>_search_core\<close> with its graph legs of \<open>manager.py\<close>.

  The FTS5 engine (the ids a MATCH expression finds, best first) and the vector leg (the ids of
  the nearest embeddings, best first) are parameters; \<open>None\<close> is a leg that raises.  Scores are
  floats, computed with \<open>fl\<close>.  The search statistics are left out.
\<close>

section \<open>The FTS query\<close>

definition FTS5_SPECIAL_CHARS :: string where
  "FTS5_SPECIAL_CHARS = [CHR 0x22, CHR 0x27, CHR ''*'', CHR ''('', CHR '')'', CHR '':'']"

definition FTS_NO_MATCH_PLACEHOLDER :: string where
  "FTS_NO_MATCH_PLACEHOLDER = ''__mnemos_fts5_no_match_placeholder__''"

definition FTS_TERM_CAP :: nat where
  "FTS_TERM_CAP = 8"

text \<open>The English half of the list; the Russian words are outside the code points of the model.\<close>

definition FTS_STOPWORDS :: "string list" where
  "FTS_STOPWORDS =
     [''and'', ''the'', ''for'', ''with'', ''that'', ''this'', ''from'', ''into'', ''not'', ''but'', ''are'',
      ''was'', ''is'', ''it'', ''of'', ''to'', ''in'', ''on'', ''at'', ''by'', ''or'', ''an'', ''if'', ''as'',
      ''be'', ''no'', ''so'', ''we'', ''all'', ''any'', ''its'', ''has'', ''had'', ''will'']"

definition is_upper_char :: "char \<Rightarrow> bool" where
  "is_upper_char c \<longleftrightarrow> (let n = of_char c :: nat in (65 \<le> n \<and> n \<le> 90) \<or> (192 \<le> n \<and> n \<le> 222 \<and> n \<noteq> 215))"

definition is_lower_char :: "char \<Rightarrow> bool" where
  "is_lower_char c \<longleftrightarrow>
     (let n = of_char c :: nat
      in (97 \<le> n \<and> n \<le> 122) \<or> n \<in> {170, 181, 186} \<or> (223 \<le> n \<and> n \<noteq> 247))"

definition py_isupper :: "string \<Rightarrow> bool" where
  "py_isupper s \<longleftrightarrow> list_ex is_upper_char s \<and> \<not> list_ex is_lower_char s"

definition fts_quote_prefix :: "string \<Rightarrow> string" where
  "fts_quote_prefix token = [CHR 0x22] @ token @ [CHR 0x22, CHR ''*'']"

definition fts_sanitise :: "string \<Rightarrow> string" where
  "fts_sanitise raw =
     strip (collapse_space (map (\<lambda>c. if c \<in> set FTS5_SPECIAL_CHARS then CHR '' '' else c) raw))"

definition fts_tokenize :: "string \<Rightarrow> string list" where
  "fts_tokenize user_query =
     dict_fromkeys (filter (\<lambda>t. t \<noteq> []) (map fts_sanitise (py_split user_query)))"

definition fts_guard_tokens :: "string list \<Rightarrow> string list" where
  "fts_guard_tokens tokens =
     (let guarded = filter (\<lambda>t. 2 \<le> length t \<and> (py_isupper t \<or> lower t \<notin> set FTS_STOPWORDS)) tokens
      in if guarded = [] then tokens else guarded)"

definition fts_expand_hyphen :: "string \<Rightarrow> string" where
  "fts_expand_hyphen token =
     (if CHR ''-'' \<notin> set token then fts_quote_prefix token
      else (let head = hd (split_on (CHR ''-'') token)
            in if head = [] then fts_quote_prefix token
               else ''('' @ fts_quote_prefix token @ '' OR '' @ fts_quote_prefix head @ '')''))"

definition fts_query_terms :: "string \<Rightarrow> string list" where
  "fts_query_terms user_query =
     map fts_expand_hyphen (take FTS_TERM_CAP (fts_guard_tokens (fts_tokenize user_query)))"

definition fts_no_match :: string where
  "fts_no_match = [CHR 0x22] @ FTS_NO_MATCH_PLACEHOLDER @ [CHR 0x22]"

definition fts_query_v2 :: "string \<Rightarrow> string" where
  "fts_query_v2 user_query =
     (let terms = fts_query_terms user_query in if terms = [] then fts_no_match else join '' AND '' terms)"

definition fts_join_or :: "string list \<Rightarrow> string" where
  "fts_join_or terms = (if terms = [] then fts_no_match else join '' OR '' terms)"

text \<open>The ids a MATCH expression finds, in rank order.\<close>

type_synonym fts_engine = "string \<Rightarrow> string list option"

definition fts_run ::
  "fts_engine \<Rightarrow> row list \<Rightarrow> int \<Rightarrow> string option \<Rightarrow> string option \<Rightarrow> memory_status option \<Rightarrow> string \<Rightarrow>
   memory list option" where
  "fts_run eng rs limit project agent status match_expr =
     map_option (\<lambda>ids.
       map row_to_memory (sql_limit limit (filter
         (\<lambda>r. (truthy project \<longrightarrow> m_project (mem r) = the project) \<and>
              (truthy agent \<longrightarrow> m_agent (mem r) = the agent) \<and>
              (status \<noteq> None \<longrightarrow> m_status (mem r) = the status))
         (List.map_filter (\<lambda>i. row_find row_id i rs) ids))))
       (eng match_expr)"

definition fts_search ::
  "fts_engine \<Rightarrow> row list \<Rightarrow> string \<Rightarrow> int \<Rightarrow> string option \<Rightarrow> string option \<Rightarrow> memory_status option \<Rightarrow>
   memory list option" where
  "fts_search eng rs query limit project agent status =
     (let run = fts_run eng rs limit project agent status; terms = fts_query_terms query
      in (case run (fts_query_v2 query) of
            None \<Rightarrow> None
          | Some found \<Rightarrow> if found = [] \<and> 1 < length terms then run (fts_join_or terms) else Some found))"

section \<open>Requests and results\<close>

record search_query =
  q_text :: string
  q_tags :: "string list option"
  q_project :: "string option"
  q_agent :: "string option"
  q_status :: "memory_status option"
  q_limit :: int
  q_alpha :: "rat option"
  q_include_raw :: bool
  q_refined_only :: bool

datatype search_mode = Hybrid | FtsOnly

record search_result =
  sr_memory :: memory
  sr_score :: rat
  sr_mode :: search_mode
  sr_project_fallback :: bool
  sr_task_fallback :: bool
  sr_via_graph :: bool
  sr_via_kind :: "edge_kind option"

definition fused_result :: "search_mode \<Rightarrow> memory \<Rightarrow> rat \<Rightarrow> search_result" where
  "fused_result mode m s =
     \<lparr>sr_memory = m, sr_score = s, sr_mode = mode, sr_project_fallback = False, sr_task_fallback = False,
      sr_via_graph = False, sr_via_kind = None\<rparr>"

abbreviation result_id :: "search_result \<Rightarrow> string" where
  "result_id r \<equiv> m_id (sr_memory r)"

record search_env =
  se_fts :: fts_engine
  se_vectors :: "string \<Rightarrow> int \<Rightarrow> string option \<Rightarrow> string list option"
  se_alpha :: rat
  se_graph_walk :: bool
  se_feedback_apply :: bool

section \<open>Gates\<close>

definition allowed_statuses :: "search_query \<Rightarrow> memory_status set option" where
  "allowed_statuses q =
     (if q_status q = None \<and> \<not> q_include_raw q then Some CONTEXT_ADMISSIBLE_STATUSES
      else if q_status q = None \<and> q_include_raw q then Some {RAW, PROCESSING, PROCESSED, PUBLISHED}
      else None)"

definition lifecycle_gate :: "search_query \<Rightarrow> memory \<Rightarrow> bool" where
  "lifecycle_gate q m \<longleftrightarrow>
     (case allowed_statuses q of None \<Rightarrow> True | Some S \<Rightarrow> is_context_admissible_in S m) \<and>
     \<not> is_quarantined m \<and> (q_refined_only q \<longrightarrow> m_pipeline_state m = Some PS_REFINED)"

definition row_gate :: "search_query \<Rightarrow> memory \<Rightarrow> bool" where
  "row_gate q m \<longleftrightarrow>
     \<not> (truthy (q_project q) \<and> m_project m \<noteq> the (q_project q)) \<and>
     \<not> (truthy (q_agent q) \<and> m_agent m \<noteq> the (q_agent q)) \<and>
     \<not> (q_status q \<noteq> None \<and> m_status m \<noteq> the (q_status q)) \<and>
     lifecycle_gate q m"

definition tags_gate :: "search_query \<Rightarrow> memory \<Rightarrow> bool" where
  "tags_gate q m \<longleftrightarrow> (case q_tags q of None \<Rightarrow> True | Some ts \<Rightarrow> list_all (\<lambda>t. t \<in> set (m_tags m)) ts)"

section \<open>The vector leg and the fusion\<close>

definition VECTOR_LEG_OVERFETCH_FACTOR :: int where
  "VECTOR_LEG_OVERFETCH_FACTOR = 4"

fun resolve_vector ::
  "search_query \<Rightarrow> row list \<Rightarrow> string list \<Rightarrow> (string \<Rightarrow> memory option) \<Rightarrow> string list \<Rightarrow>
   (string \<Rightarrow> memory option) \<times> string list" where
  "resolve_vector q rs [] mp res = (mp, res)"
| "resolve_vector q rs (i # is) mp res =
     (case (case mp i of
              Some m \<Rightarrow> Some mp
            | None \<Rightarrow> (case get i rs of
                         None \<Rightarrow> None
                       | Some c \<Rightarrow> if row_gate q c then Some (mp(i \<mapsto> c)) else None)) of
        None \<Rightarrow> resolve_vector q rs is mp res
      | Some mp1 \<Rightarrow>
          if q_limit q * 2 \<le> int (length (res @ [i])) then (mp1, res @ [i])
          else resolve_vector q rs is mp1 (res @ [i]))"

definition rrf_k :: nat where
  "rrf_k = 60"

text \<open>One leg of the reciprocal rank fusion: the scores of a dict, in insertion order.\<close>

fun rrf_add :: "rat \<Rightarrow> nat \<Rightarrow> string list \<Rightarrow> (string \<times> rat) list \<Rightarrow> (string \<times> rat) list" where
  "rrf_add c rank [] scores = scores"
| "rrf_add c rank (i # is) scores =
     rrf_add c (rank + 1) is
       (AList.update i (fl ((case map_of scores i of None \<Rightarrow> 0 | Some s \<Rightarrow> s) + fl (c / of_nat (rrf_k + rank)))) scores)"

text \<open>\<open>sorted(scores.items(), key=lambda kv: (-kv[1], kv[0]))\<close>.\<close>

definition fused_order :: "(string \<times> rat) list \<Rightarrow> (string \<times> rat) list" where
  "fused_order scores = sort_key (\<lambda>kv. - snd kv) (sort_key fst scores)"

fun fused_fill ::
  "search_query \<Rightarrow> search_mode \<Rightarrow> (string \<Rightarrow> memory option) \<Rightarrow> int \<Rightarrow> (string \<times> rat) list \<Rightarrow> search_result list \<Rightarrow>
   search_result list" where
  "fused_fill q mode mp n [] results = results"
| "fused_fill q mode mp n ((i, s) # rest) results =
     (case mp i of
        None \<Rightarrow> fused_fill q mode mp n rest results
      | Some m \<Rightarrow>
          if \<not> tags_gate q m then fused_fill q mode mp n rest results
          else if n \<le> int (length (results @ [fused_result mode m s])) then results @ [fused_result mode m s]
          else fused_fill q mode mp n rest (results @ [fused_result mode m s]))"

fun backfill ::
  "search_query \<Rightarrow> search_mode \<Rightarrow> (string \<Rightarrow> memory option) \<Rightarrow> string set \<Rightarrow> (string \<times> rat) list \<Rightarrow> search_result list \<Rightarrow>
   search_result list" where
  "backfill q mode mp seen [] results = results"
| "backfill q mode mp seen ((i, s) # rest) results =
     (if q_limit q \<le> int (length results) then results
      else (case mp i of
              None \<Rightarrow> backfill q mode mp seen rest results
            | Some m \<Rightarrow>
                if m_id m \<in> seen \<or> \<not> tags_gate q m then backfill q mode mp seen rest results
                else backfill q mode mp seen rest (results @ [fused_result mode m s])))"

section \<open>The graph legs\<close>

definition graph_adjacent :: "edge list \<Rightarrow> string \<Rightarrow> edge_kind \<Rightarrow> string set" where
  "graph_adjacent es i k =
     (e_to ` set (get_direct_edges i k es) \<union> e_from ` set (get_incoming_edges i k es)) - {i}"

definition walk_quota :: "int \<Rightarrow> int" where
  "walk_quota limit = (if limit < 3 then 0 else min (- ((- limit) div 5)) (limit div 2))"

definition WALK_DEPTH_DECAY :: rat where
  "WALK_DEPTH_DECAY = fl (7 / 10)"

definition WALK_FANOUT_CAP :: nat where
  "WALK_FANOUT_CAP = 32"

definition WALK_TOTAL_WORK_CAP :: nat where
  "WALK_TOTAL_WORK_CAP = 512"

definition FEEDBACK_BOOST_CAP :: nat where
  "FEEDBACK_BOOST_CAP = 10"

definition FEEDBACK_BOOST_SLOPE :: rat where
  "FEEDBACK_BOOST_SLOPE = fl (1 / 10)"

definition feedback_boost_factor :: "nat \<Rightarrow> rat" where
  "feedback_boost_factor used = fl (1 + fl (of_nat (min used FEEDBACK_BOOST_CAP) * FEEDBACK_BOOST_SLOPE))"

record walk_candidate =
  wc_id :: string
  wc_anchor_pos :: nat
  wc_depth :: nat
  wc_weight :: rat
  wc_via_relates :: bool

text \<open>The neighbours of one node with the weight of the edge, heaviest first, id tiebreak, capped;
  the batch of the code answers this for every id of the layer.\<close>

definition adjacent_weighted :: "edge list \<Rightarrow> edge_kind \<Rightarrow> string \<Rightarrow> (string \<times> rat) list" where
  "adjacent_weighted es k i =
     (let outgoing = map (\<lambda>e. (e_to e, e_weight e)) (filter (\<lambda>e. e_from e = i \<and> e_kind e = k) es);
          incoming = map (\<lambda>e. (e_from e, e_weight e)) (filter (\<lambda>e. e_to e = i \<and> e_kind e = k) es)
      in filter (\<lambda>p. fst p \<noteq> i)
           (take WALK_FANOUT_CAP (sort_key (\<lambda>p. - snd p) (sort_key fst (outgoing @ incoming)))))"

definition claim :: "string set \<Rightarrow> walk_candidate list \<Rightarrow> walk_candidate \<Rightarrow> walk_candidate list" where
  "claim on_page claimed c =
     (if wc_id c \<in> wc_id ` set claimed \<or> wc_id c \<in> on_page then claimed
      else if WALK_TOTAL_WORK_CAP \<le> length claimed then claimed
      else claimed @ [c])"

definition expand_layer ::
  "edge list \<Rightarrow> edge_kind \<Rightarrow> nat \<Rightarrow> bool \<Rightarrow> string set \<Rightarrow> (nat \<times> string) list \<Rightarrow> walk_candidate list \<Rightarrow> walk_candidate list" where
  "expand_layer es k depth via_relates on_page entries claimed =
     foldl (claim on_page) claimed
       (concat (map (\<lambda>(pos, i).
          map (\<lambda>(n, w). \<lparr>wc_id = n, wc_anchor_pos = pos, wc_depth = depth, wc_weight = w,
                        wc_via_relates = via_relates\<rparr>)
              (take WALK_FANOUT_CAP (adjacent_weighted es k i))) entries))"

definition collect_walk_candidates :: "edge list \<Rightarrow> string list \<Rightarrow> string set \<Rightarrow> walk_candidate list" where
  "collect_walk_candidates es fused_ids on_page =
     (let anchors = enumerate 1 fused_ids;
          c1 = expand_layer es Supersedes 1 False on_page anchors [];
          c2 = expand_layer es RelatesTo 1 True on_page anchors c1;
          c3 = (if length c2 < WALK_TOTAL_WORK_CAP
                then expand_layer es RelatesTo 2 True on_page
                       (map (\<lambda>c. (wc_anchor_pos c, wc_id c)) (sort_key wc_id c2)) c2
                else c2)
      in sort_key wc_anchor_pos (sort_key wc_depth (sort_key wc_id c3)))"

definition walk_score :: "rat \<Rightarrow> walk_candidate \<Rightarrow> rat \<Rightarrow> rat" where
  "walk_score alpha c factor =
     (let decayed = fl (fl (1 - alpha) / of_nat (rrf_k + 2 * wc_anchor_pos c));
          depth_decay = (if wc_depth c = 1 then 1 else WALK_DEPTH_DECAY)
      in fl (fl (decayed * fl (wc_weight c * depth_decay)) * factor))"

definition via_graph_result :: "search_mode \<Rightarrow> memory \<Rightarrow> rat \<Rightarrow> edge_kind \<Rightarrow> search_result" where
  "via_graph_result mode m s k =
     (fused_result mode m s)\<lparr>sr_via_graph := True, sr_via_kind := Some k\<rparr>"

text \<open>The walk fills its quota with the candidates that pass the gates.\<close>

fun walk_fill ::
  "search_query \<Rightarrow> search_mode \<Rightarrow> rat \<Rightarrow> row list \<Rightarrow> (string \<Rightarrow> memory option) \<Rightarrow> (string \<Rightarrow> nat option) \<Rightarrow> int \<Rightarrow>
   walk_candidate list \<Rightarrow> search_result list \<times> bool \<Rightarrow> search_result list \<times> bool" where
  "walk_fill q mode alpha rs mp used k [] st = st"
| "walk_fill q mode alpha rs mp used k (c # cs) (appended, boosted) =
     (if k \<le> int (length appended) then (appended, boosted)
      else (case (case mp (wc_id c) of Some m \<Rightarrow> Some m | None \<Rightarrow> get (wc_id c) rs) of
              None \<Rightarrow> walk_fill q mode alpha rs mp used k cs (appended, boosted)
            | Some m \<Rightarrow>
                if \<not> (row_gate q m \<and> tags_gate q m) then walk_fill q mode alpha rs mp used k cs (appended, boosted)
                else
                  (let factor = feedback_boost_factor (case used (wc_id c) of None \<Rightarrow> 0 | Some n \<Rightarrow> n)
                   in walk_fill q mode alpha rs mp used k cs
                        (appended @ [via_graph_result mode m (walk_score alpha c factor)
                                      (if wc_via_relates c then RelatesTo else Supersedes)],
                         boosted \<or> factor \<noteq> 1))))"

definition result_order :: "search_result list \<Rightarrow> search_result list" where
  "result_order rs = sort_key (\<lambda>r. - sr_score r) (sort_key result_id rs)"

text \<open>The leg of a page without the walk: first anchors of the one-hop neighbours.\<close>

definition anchor_step ::
  "edge list \<Rightarrow> string set \<Rightarrow> (string \<times> nat) list \<Rightarrow> nat \<times> string \<Rightarrow> (string \<times> nat) list" where
  "anchor_step es on_page ranks p =
     (case p of (pos, i) \<Rightarrow>
        ranks @ map (\<lambda>n. (n, pos))
          (filter (\<lambda>n. n \<notin> fst ` set ranks \<and> n \<notin> on_page)
             (sorted_list_of_set (graph_adjacent es i Supersedes))))"

fun headroom_fill ::
  "search_query \<Rightarrow> search_mode \<Rightarrow> rat \<Rightarrow> row list \<Rightarrow> (string \<Rightarrow> memory option) \<Rightarrow> (string \<times> nat) list \<Rightarrow> search_result list \<Rightarrow>
   search_result list" where
  "headroom_fill q mode alpha rs mp [] results = results"
| "headroom_fill q mode alpha rs mp ((i, pos) # rest) results =
     (if q_limit q + q_limit q \<le> int (length results) then results
      else (case (case mp i of Some m \<Rightarrow> Some m | None \<Rightarrow> get i rs) of
              None \<Rightarrow> headroom_fill q mode alpha rs mp rest results
            | Some m \<Rightarrow>
                if \<not> (row_gate q m \<and> tags_gate q m) then headroom_fill q mode alpha rs mp rest results
                else headroom_fill q mode alpha rs mp rest
                       (results @ [via_graph_result mode m (fl (fl (1 - alpha) / of_nat (rrf_k + 2 * pos))) Supersedes])))"

section \<open>One pass\<close>

text \<open>Everything before the graph leg: the score table, the rows by id, the mode.\<close>

definition fuse ::
  "search_env \<Rightarrow> row list \<Rightarrow> search_query \<Rightarrow> rat \<Rightarrow> (string \<times> rat) list \<times> (string \<Rightarrow> memory option) \<times> search_mode" where
  "fuse env rs q alpha =
     (let found = (case fts_search (se_fts env) rs (q_text q) (q_limit q * 2) (q_project q) (q_agent q) (q_status q) of
                     None \<Rightarrow> [] | Some ms \<Rightarrow> ms);
          fts = filter (lifecycle_gate q) found;
          vector_ids = (case se_vectors env (q_text q) (q_limit q * VECTOR_LEG_OVERFETCH_FACTOR) (q_project q) of
                          None \<Rightarrow> [] | Some is \<Rightarrow> is)
      in (case resolve_vector q rs vector_ids (map_of (rev (map (\<lambda>m. (m_id m, m)) fts))) [] of
            (mp, resolved) \<Rightarrow>
              (rrf_add alpha 1 resolved (rrf_add (fl (1 - alpha)) 1 (map m_id fts) []), mp,
               if \<exists>i \<in> set resolved. i \<notin> m_id ` set fts then Hybrid else FtsOnly)))"

text \<open>The block the walk adds, at most its quota.\<close>

definition walk_block ::
  "search_env \<Rightarrow> graph \<Rightarrow> search_query \<Rightarrow> rat \<Rightarrow> (string \<Rightarrow> memory option) \<Rightarrow> search_mode \<Rightarrow> string set \<Rightarrow>
   search_result list \<Rightarrow> search_result list" where
  "walk_block env g q alpha mp mode on_page results =
     (let cands = collect_walk_candidates (g_edges g) (map result_id results) on_page;
          used = (if se_feedback_apply env then used_counts_batch (map wc_id cands) (g_stats g) else Map.empty)
      in (case walk_fill q mode alpha (g_rows g) mp used (walk_quota (q_limit q)) cands ([], False) of
            (appended, boosted) \<Rightarrow> if boosted \<and> 1 < length appended then result_order appended else appended))"

text \<open>The page with the walk: fused block, walk, surplus.\<close>

definition walk_page ::
  "search_env \<Rightarrow> graph \<Rightarrow> search_query \<Rightarrow> rat \<Rightarrow> (string \<times> rat) list \<Rightarrow> (string \<Rightarrow> memory option) \<Rightarrow> search_mode \<Rightarrow>
   search_result list" where
  "walk_page env g q alpha scores mp mode =
     (let k = walk_quota (q_limit q);
          results = fused_fill q mode mp (if 0 < k then q_limit q - k else q_limit q) (fused_order scores) [];
          surplus = (if 0 < k then filter (\<lambda>p. fst p \<notin> result_id ` set results) (fused_order scores) else []);
          walked = (if 0 < k \<and> results \<noteq> [] then walk_block env g q alpha mp mode (fst ` set scores) results else [])
      in backfill q mode mp (result_id ` set results) surplus (results @ walked))"

text \<open>The page without it: fused block, and one-hop neighbours if there is room.\<close>

definition headroom_page ::
  "graph \<Rightarrow> search_query \<Rightarrow> rat \<Rightarrow> (string \<times> rat) list \<Rightarrow> (string \<Rightarrow> memory option) \<Rightarrow> search_mode \<Rightarrow>
   search_result list" where
  "headroom_page g q alpha scores mp mode =
     (let results = fused_fill q mode mp (q_limit q) (fused_order scores) []
      in if int (length results) < q_limit q then
           headroom_fill q mode alpha (g_rows g) mp
             (foldl (anchor_step (g_edges g) (fst ` set scores)) [] (enumerate 1 (map result_id results))) results
         else results)"

definition search_core :: "search_env \<Rightarrow> graph \<Rightarrow> search_query \<Rightarrow> search_result list" where
  "search_core env g q =
     (let alpha = (case q_alpha q of None \<Rightarrow> se_alpha env | Some a \<Rightarrow> a)
      in (case fuse env (g_rows g) q alpha of
            (scores, mp, mode) \<Rightarrow>
              if se_graph_walk env then walk_page env g q alpha scores mp mode
              else headroom_page g q alpha scores mp mode))"

section \<open>What the legs let through\<close>

lemma row_to_memory_fields [simp]:
  "m_id (row_to_memory r) = row_id r" "m_project (row_to_memory r) = m_project (mem r)"
  "m_agent (row_to_memory r) = m_agent (mem r)" "m_status (row_to_memory r) = m_status (mem r)"
  by (simp_all add: row_to_memory_def)

lemma map_filter_SomeD: "x \<in> set (List.map_filter f xs) \<Longrightarrow> \<exists>y \<in> set xs. f y = Some x"
  by (auto simp: List.map_filter_def)

lemma fts_run_gate:
  assumes "fts_run eng rs n (q_project q) (q_agent q) (q_status q) e = Some ms" "m \<in> set ms"
  shows "(truthy (q_project q) \<longrightarrow> m_project m = the (q_project q)) \<and>
    (truthy (q_agent q) \<longrightarrow> m_agent m = the (q_agent q)) \<and> (q_status q \<noteq> None \<longrightarrow> m_status m = the (q_status q))"
  using assms set_sql_limit by (fastforce simp: fts_run_def)

lemma fts_search_gate:
  assumes "fts_search eng rs t n (q_project q) (q_agent q) (q_status q) = Some ms" "m \<in> set ms" "lifecycle_gate q m"
  shows "row_gate q m"
  using assms fts_run_gate [of eng rs n q _ _ m]
  by (fastforce simp: fts_search_def row_gate_def Let_def split: option.splits if_splits)

text \<open>What the id table holds: rows under their own id that pass the gates.\<close>

definition table_gated :: "search_query \<Rightarrow> (string \<Rightarrow> memory option) \<Rightarrow> bool" where
  "table_gated q mp \<longleftrightarrow> (\<forall>i m. mp i = Some m \<longrightarrow> m_id m = i \<and> row_gate q m)"

lemma resolve_vector_gated:
  "table_gated q mp \<Longrightarrow> table_gated q (fst (resolve_vector q rs is mp res))"
proof (induction "is" arbitrary: mp res)
  case (Cons i "is")
  have "table_gated q (mp(i \<mapsto> c))" if "get i rs = Some c" "row_gate q c" for c
    using that Cons.prems get_id by (auto simp: table_gated_def)
  with Cons show ?case by (auto split: option.split)
qed simp

lemma fuse_gated: "fuse env rs q alpha = (scores, mp, mode) \<Longrightarrow> table_gated q mp"
proof -
  assume f: "fuse env rs q alpha = (scores, mp, mode)"
  define fts where "fts = filter (lifecycle_gate q)
     (case fts_search (se_fts env) rs (q_text q) (q_limit q * 2) (q_project q) (q_agent q) (q_status q) of
        None \<Rightarrow> [] | Some ms \<Rightarrow> ms)"
  have g: "row_gate q m" if "m \<in> set fts" for m
  proof (cases "fts_search (se_fts env) rs (q_text q) (q_limit q * 2) (q_project q) (q_agent q) (q_status q)")
    case (Some ms)
    with that have "m \<in> set ms" "lifecycle_gate q m" by (simp_all add: fts_def)
    then show ?thesis by (rule fts_search_gate [OF Some])
  qed (use that in \<open>simp add: fts_def\<close>)
  have "table_gated q (map_of (rev (map (\<lambda>m. (m_id m, m)) fts)))"
    unfolding table_gated_def using g by (auto dest!: map_of_SomeD)
  moreover define ids where "ids = (case se_vectors env (q_text q) (q_limit q * VECTOR_LEG_OVERFETCH_FACTOR) (q_project q) of
      None \<Rightarrow> [] | Some is \<Rightarrow> is)"
  moreover obtain mp' res where r: "resolve_vector q rs ids (map_of (rev (map (\<lambda>m. (m_id m, m)) fts))) [] = (mp', res)"
    by fastforce
  ultimately have "table_gated q mp'" using resolve_vector_gated by (metis fst_conv)
  moreover have "mp = mp'"
    using f unfolding fuse_def Let_def fts_def [symmetric] ids_def [symmetric] r by simp
  ultimately show ?thesis by simp
qed

lemma fused_fill_in:
  assumes "r \<in> set (fused_fill q mode mp n xs acc)"
  shows "r \<in> set acc \<or> (\<exists>i s m. (i, s) \<in> set xs \<and> mp i = Some m \<and> tags_gate q m \<and> r = fused_result mode m s)"
  using assms
  by (induction q mode mp n xs acc rule: fused_fill.induct) (fastforce split: option.splits if_splits)+

lemma backfill_in:
  assumes "r \<in> set (backfill q mode mp seen xs acc)"
  shows "r \<in> set acc \<or> (\<exists>i s m. (i, s) \<in> set xs \<and> mp i = Some m \<and> tags_gate q m \<and> r = fused_result mode m s)"
  using assms
  by (induction q mode mp seen xs acc rule: backfill.induct) (fastforce split: option.splits if_splits)+

lemma walk_fill_in:
  assumes "r \<in> set (fst (walk_fill q mode alpha rs mp used k cs (acc, b)))"
  shows "r \<in> set acc \<or> (\<exists>m s kind. row_gate q m \<and> tags_gate q m \<and> r = via_graph_result mode m s kind)"
  using assms
  by (induction q mode alpha rs mp used k cs "(acc, b)" arbitrary: acc b rule: walk_fill.induct)
     (fastforce simp: Let_def split: option.splits if_splits)+

lemma headroom_fill_in:
  assumes "r \<in> set (headroom_fill q mode alpha rs mp xs acc)"
  shows "r \<in> set acc \<or> (\<exists>m s kind. row_gate q m \<and> tags_gate q m \<and> r = via_graph_result mode m s kind)"
  using assms
  by (induction q mode alpha rs mp xs acc rule: headroom_fill.induct) (fastforce split: option.splits if_splits)+

lemma result_fields [simp]:
  "sr_memory (fused_result mode m s) = m" "sr_memory (via_graph_result mode m s k) = m"
  "sr_via_graph (fused_result mode m s) = False" "sr_via_graph (via_graph_result mode m s k) = True"
  "sr_project_fallback (fused_result mode m s) = False" "sr_project_fallback (via_graph_result mode m s k) = False"
  "sr_task_fallback (fused_result mode m s) = False" "sr_task_fallback (via_graph_result mode m s k) = False"
  "sr_score (fused_result mode m s) = s" "sr_score (via_graph_result mode m s k) = s"
  by (simp_all add: fused_result_def via_graph_result_def)

lemma set_result_order [simp]: "set (result_order rs) = set rs"
  by (simp add: result_order_def)

lemma length_result_order [simp]: "length (result_order rs) = length rs"
  by (simp add: result_order_def)

text \<open>The parts of a page: the fused block, and what the graph and the surplus add.\<close>

lemma search_core_gated:
  assumes "r \<in> set (search_core env g q)"
  shows "row_gate q (sr_memory r) \<and> tags_gate q (sr_memory r) \<and> \<not> sr_project_fallback r \<and> \<not> sr_task_fallback r"
proof -
  define alpha where "alpha = (case q_alpha q of None \<Rightarrow> se_alpha env | Some a \<Rightarrow> a)"
  obtain scores mp mode where f: "fuse env (g_rows g) q alpha = (scores, mp, mode)" by (metis prod_cases3)
  note tg = fuse_gated [OF f]
  have fused: "row_gate q (sr_memory x) \<and> tags_gate q (sr_memory x) \<and> \<not> sr_project_fallback x \<and> \<not> sr_task_fallback x"
    if "x \<in> set (fused_fill q mode mp n xs [])" for x n xs
    using fused_fill_in [OF that] tg by (auto simp: table_gated_def)
  have walked: "row_gate q (sr_memory x) \<and> tags_gate q (sr_memory x) \<and> \<not> sr_project_fallback x \<and> \<not> sr_task_fallback x"
    if "x \<in> set (fst (walk_fill q mode alpha (g_rows g) mp used k cs ([], False)))" for x used k cs
    using walk_fill_in [OF that] by auto
  have hd_leg: "row_gate q (sr_memory x) \<and> tags_gate q (sr_memory x) \<and> \<not> sr_project_fallback x \<and> \<not> sr_task_fallback x"
    if "x \<in> set (headroom_fill q mode alpha (g_rows g) mp xs acc)"
      "\<forall>y \<in> set acc. row_gate q (sr_memory y) \<and> tags_gate q (sr_memory y) \<and> \<not> sr_project_fallback y \<and> \<not> sr_task_fallback y"
    for x xs acc
    using headroom_fill_in [OF that(1)] that(2) by auto
  have bk: "row_gate q (sr_memory x) \<and> tags_gate q (sr_memory x) \<and> \<not> sr_project_fallback x \<and> \<not> sr_task_fallback x"
    if "x \<in> set (backfill q mode mp seen xs acc)"
      "\<forall>y \<in> set acc. row_gate q (sr_memory y) \<and> tags_gate q (sr_memory y) \<and> \<not> sr_project_fallback y \<and> \<not> sr_task_fallback y"
    for x seen xs acc
    using backfill_in [OF that(1)] that(2) tg by (auto simp: table_gated_def)
  have blk: "row_gate q (sr_memory x) \<and> tags_gate q (sr_memory x) \<and> \<not> sr_project_fallback x \<and> \<not> sr_task_fallback x"
    if "x \<in> set (walk_block env g q alpha mp mode P results)" for x P results
    using that walked by (auto simp: walk_block_def Let_def prod.case_eq_if split: if_splits)
  have "r \<in> set (walk_page env g q alpha scores mp mode) \<or> r \<in> set (headroom_page g q alpha scores mp mode)"
    using assms unfolding search_core_def Let_def alpha_def [symmetric] f by (auto split: if_splits)
  then show ?thesis
  proof
    assume "r \<in> set (walk_page env g q alpha scores mp mode)"
    then show ?thesis
      unfolding walk_page_def Let_def by (rule bk) (use fused blk in \<open>auto split: if_splits\<close>)
  next
    assume "r \<in> set (headroom_page g q alpha scores mp mode)"
    then show ?thesis
      unfolding headroom_page_def Let_def using fused hd_leg by (auto split: if_splits)
  qed
qed

section \<open>The fused block in closed form\<close>

definition passing :: "search_query \<Rightarrow> (string \<Rightarrow> memory option) \<Rightarrow> string \<times> rat \<Rightarrow> bool" where
  "passing q mp p \<longleftrightarrow> (case mp (fst p) of None \<Rightarrow> False | Some m \<Rightarrow> tags_gate q m)"

definition hit :: "search_mode \<Rightarrow> (string \<Rightarrow> memory option) \<Rightarrow> string \<times> rat \<Rightarrow> search_result" where
  "hit mode mp p = fused_result mode (the (mp (fst p))) (snd p)"

lemma fused_fill_eq:
  "fused_fill q mode mp n xs acc =
     acc @ map (hit mode mp) (take (max 1 (nat n - length acc)) (filter (passing q mp) xs))"
proof (induction xs arbitrary: acc)
  case (Cons p xs)
  obtain i s where p: "p = (i, s)" by fastforce
  show ?case
  proof (cases "passing q mp p")
    case False
    then show ?thesis using Cons by (auto simp: p passing_def split: option.splits)
  next
    case True
    then obtain m where m: "mp i = Some m" "tags_gate q m" by (auto simp: p passing_def split: option.splits)
    show ?thesis
    proof (cases "n \<le> int (length (acc @ [fused_result mode m s]))")
      case True
      then have "max 1 (nat n - length acc) = 1" by auto
      with True m \<open>passing q mp p\<close> show ?thesis by (simp add: p hit_def)
    next
      case False
      then have e: "max 1 (nat n - length acc) = Suc (max 1 (nat n - length (acc @ [fused_result mode m s])))"
        by auto
      show ?thesis
        unfolding e using False m \<open>passing q mp p\<close> Cons.IH [of "acc @ [fused_result mode m s]"]
        by (simp add: p hit_def)
    qed
  qed
qed simp

lemma backfill_eq:
  assumes "table_gated q mp"
  shows "backfill q mode mp seen xs acc =
     acc @ map (hit mode mp) (take (nat (q_limit q) - length acc) (filter (\<lambda>p. passing q mp p \<and> fst p \<notin> seen) xs))"
proof (induction xs arbitrary: acc)
  case (Cons p xs)
  obtain i s where p: "p = (i, s)" by fastforce
  show ?case
  proof (cases "q_limit q \<le> int (length acc)")
    case True
    then have "nat (q_limit q) - length acc = 0" by auto
    with True show ?thesis by (simp add: p)
  next
    case False
    show ?thesis
    proof (cases "passing q mp p \<and> fst p \<notin> seen")
      case True
      then obtain m where m: "mp i = Some m" "tags_gate q m" by (auto simp: p passing_def split: option.splits)
      with assms have "m_id m = i" by (auto simp: table_gated_def)
      moreover have "nat (q_limit q) - length acc = Suc (nat (q_limit q) - length (acc @ [fused_result mode m s]))"
        using False by auto
      ultimately show ?thesis
        using False True m Cons.IH [of "acc @ [fused_result mode m s]"] by (simp add: p hit_def)
    next
      case no: False
      have "backfill q mode mp seen (p # xs) acc = backfill q mode mp seen xs acc"
        using no assms False by (auto simp: p passing_def table_gated_def split: option.splits)
      moreover have "filter (\<lambda>p. passing q mp p \<and> fst p \<notin> seen) (p # xs) =
          filter (\<lambda>p. passing q mp p \<and> fst p \<notin> seen) xs" using no by auto
      ultimately show ?thesis using Cons by simp
    qed
  qed
qed simp

lemma hit_id: "table_gated q mp \<Longrightarrow> passing q mp p \<Longrightarrow> result_id (hit mode mp p) = fst p"
  by (auto simp: passing_def hit_def table_gated_def split: option.splits)

lemma hit_ids: "table_gated q mp \<Longrightarrow> map result_id (map (hit mode mp) (take n (filter (passing q mp) xs))) =
     map fst (take n (filter (passing q mp) xs))"
  using hit_id by (fastforce dest: in_set_takeD)

lemma distinct_rrf_add: "distinct (map fst sc) \<Longrightarrow> distinct (map fst (rrf_add c k is sc))"
  by (induction c k "is" sc rule: rrf_add.induct) (simp_all add: distinct_update)

lemma fuse_distinct: "fuse env rs q alpha = (scores, mp, mode) \<Longrightarrow> distinct (map fst scores)"
  unfolding fuse_def Let_def prod.case_eq_if by (auto intro!: distinct_rrf_add)

lemma fused_order_facts [simp]:
  "set (fused_order sc) = set sc" "distinct (map fst (fused_order sc)) = distinct (map fst sc)"
proof -
  show s: "set (fused_order sc) = set sc" by (simp add: fused_order_def)
  have "distinct (fused_order sc) = distinct sc" by (simp add: fused_order_def)
  then show "distinct (map fst (fused_order sc)) = distinct (map fst sc)" by (simp add: distinct_map s)
qed

lemma filter_not_taken:
  "distinct (map f xs) \<Longrightarrow> filter (\<lambda>x. f x \<notin> f ` set (take n xs)) xs = drop n xs"
proof -
  assume d: "distinct (map f xs)"
  have "distinct (map f (take n xs @ drop n xs))" using d by simp
  then have "\<forall>x \<in> set (drop n xs). f x \<notin> f ` set (take n xs)" unfolding map_append distinct_append by auto
  moreover have "filter (\<lambda>x. f x \<notin> f ` set (take n xs)) (take n xs @ drop n xs) =
      filter (\<lambda>x. f x \<notin> f ` set (take n xs)) (drop n xs)"
    unfolding filter_append by (simp add: filter_empty_conv)
  ultimately show ?thesis by (simp add: filter_id_conv)
qed

lemma walk_quota_bounds: "0 < walk_quota n \<Longrightarrow> 3 \<le> n \<and> walk_quota n < n"
  by (auto simp: walk_quota_def split: if_splits)

text \<open>Without edges the surplus returns every reserved slot to the fused block.\<close>

lemma expand_no_edges: "expand_layer [] k depth rel P entries cs = cs"
proof -
  have "concat (map (\<lambda>(pos, i). map (\<lambda>(n, w). \<lparr>wc_id = n, wc_anchor_pos = pos, wc_depth = depth, wc_weight = w,
      wc_via_relates = rel\<rparr>) (take WALK_FANOUT_CAP (adjacent_weighted [] k i))) entries) = []"
    by (auto simp: adjacent_weighted_def)
  then show ?thesis by (simp only: expand_layer_def foldl.simps)
qed

lemma collect_no_edges: "collect_walk_candidates [] ids P = []"
  by (simp add: collect_walk_candidates_def expand_no_edges Let_def)

lemma no_ranks: "foldl (anchor_step [] P) [] xs = []"
  by (induction xs) (simp_all add: anchor_step_def graph_adjacent_def get_direct_edges_def get_incoming_edges_def
      order_asc_def split: prod.split)

lemma filter_surplus:
  assumes "distinct (map fst xs)"
  shows "filter (\<lambda>p. P p \<and> fst p \<notin> fst ` set (take n (filter P xs))) xs = drop n (filter P xs)"
proof -
  have "distinct (map fst (filter P xs))" using assms by (simp add: distinct_map_filter)
  then have "filter (\<lambda>p. fst p \<notin> fst ` set (take n (filter P xs))) (filter P xs) = drop n (filter P xs)"
    by (rule filter_not_taken)
  then show ?thesis by (simp add: conj_commute)
qed

text \<open>On a store without edges the reserved walk quota costs nothing: the walk flag does not
  change a single result of any search pass.\<close>

theorem empty_graph_walk_neutral:
  assumes "g_edges g = []"
  shows "search_core (env\<lparr>se_graph_walk := True\<rparr>) g q = search_core (env\<lparr>se_graph_walk := False\<rparr>) g q"
proof -
  define alpha where "alpha = (case q_alpha q of None \<Rightarrow> se_alpha env | Some a \<Rightarrow> a)"
  obtain scores mp mode where f: "fuse env (g_rows g) q alpha = (scores, mp, mode)" by (metis prod_cases3)
  note tg = fuse_gated [OF f]
  define F where "F = filter (passing q mp) (fused_order scores)"
  define k where "k = walk_quota (q_limit q)"
  have d: "distinct (map fst (fused_order scores))" using fuse_distinct [OF f] by simp
  have page: "search_core (env\<lparr>se_graph_walk := b\<rparr>) g q =
      (if b then walk_page (env\<lparr>se_graph_walk := b\<rparr>) g q alpha scores mp mode else headroom_page g q alpha scores mp mode)" for b
  proof -
    have "(case q_alpha q of None \<Rightarrow> se_alpha (env\<lparr>se_graph_walk := b\<rparr>) | Some a \<Rightarrow> a) = alpha"
      by (simp add: alpha_def split: option.split)
    moreover have "fuse (env\<lparr>se_graph_walk := b\<rparr>) (g_rows g) q alpha = (scores, mp, mode)"
      using f by (simp add: fuse_def)
    ultimately show ?thesis by (simp add: search_core_def Let_def)
  qed
  have off: "search_core (env\<lparr>se_graph_walk := False\<rparr>) g q = map (hit mode mp) (take (max 1 (nat (q_limit q))) F)"
    unfolding page headroom_page_def Let_def by (simp add: assms no_ranks fused_fill_eq F_def)
  have on: "search_core (env\<lparr>se_graph_walk := True\<rparr>) g q =
      (let results = map (hit mode mp) (take (max 1 (nat (if 0 < k then q_limit q - k else q_limit q))) F)
       in backfill q mode mp (result_id ` set results)
            (if 0 < k then filter (\<lambda>p. fst p \<notin> result_id ` set results) (fused_order scores) else []) results)"
    unfolding page walk_page_def walk_block_def Let_def
    by (simp add: assms collect_no_edges fused_fill_eq F_def k_def del: backfill.simps)
  show ?thesis
  proof (cases "0 < k")
    case False
    then show ?thesis by (simp add: on off Let_def)
  next
    case True
    then have l: "3 \<le> q_limit q" "k < q_limit q" using walk_quota_bounds by (auto simp: k_def)
    define n where "n = nat (q_limit q - k)"
    have n: "max 1 n = n" "max 1 (nat (q_limit q)) = nat (q_limit q)" "n \<le> nat (q_limit q)"
      using l True by (auto simp: n_def)
    have ids: "result_id ` set (map (hit mode mp) (take n F)) = fst ` set (take n F)"
      using hit_ids [OF tg, of mode n "fused_order scores"] unfolding F_def [symmetric] by (metis list.set_map)
    have "filter (\<lambda>p. passing q mp p \<and> fst p \<notin> fst ` set (take n F))
        (filter (\<lambda>p. fst p \<notin> fst ` set (take n F)) (fused_order scores)) = drop n F"
      using filter_surplus [OF d, of "passing q mp" n] unfolding F_def by (simp add: conj_ac)
    moreover have "max (Suc 0) n = n" "result_id ` hit mode mp ` set (take n F) = fst ` set (take n F)"
      using n(1) ids by simp_all
    ultimately have "search_core (env\<lparr>se_graph_walk := True\<rparr>) g q =
        map (hit mode mp) (take n F) @ map (hit mode mp) (take (nat (q_limit q) - length (take n F)) (drop n F))"
      using True by (simp add: on Let_def n_def [symmetric] backfill_eq [OF tg])
    also have "\<dots> = map (hit mode mp) (take (nat (q_limit q)) F)"
    proof (cases "n \<le> length F")
      case True
      then have "take n F @ take (nat (q_limit q) - n) (drop n F) = take (nat (q_limit q)) F"
        using n(3) take_add [of n "nat (q_limit q) - n" F] by simp
      with True show ?thesis by (simp add: min_absorb2 flip: map_append)
    next
      case False
      then show ?thesis using n(3) by simp
    qed
    finally show ?thesis unfolding off n(2) .
  qed
qed

section \<open>The graph block\<close>

definition claims_ok :: "string set \<Rightarrow> walk_candidate list \<Rightarrow> bool" where
  "claims_ok P cs \<longleftrightarrow> distinct (map wc_id cs) \<and> wc_id ` set cs \<inter> P = {} \<and> length cs \<le> WALK_TOTAL_WORK_CAP"

lemma claim_fold_ok: "claims_ok P cs \<Longrightarrow> claims_ok P (foldl (claim P) cs xs)"
  by (induction xs arbitrary: cs) (auto simp: claims_ok_def claim_def)

lemma expand_ok: "claims_ok P cs \<Longrightarrow> claims_ok P (expand_layer es k d rel P entries cs)"
  by (simp add: expand_layer_def claim_fold_ok)

lemma claims_ok_sort: "claims_ok P (sort_key f cs) = claims_ok P cs"
  by (auto simp: claims_ok_def distinct_map)

lemma collect_ok: "claims_ok P (collect_walk_candidates es ids P)"
proof -
  have "claims_ok P []" by (simp add: claims_ok_def)
  then show ?thesis by (simp add: collect_walk_candidates_def Let_def claims_ok_sort expand_ok)
qed

definition neighbour :: "(string \<Rightarrow> memory option) \<Rightarrow> row list \<Rightarrow> string \<Rightarrow> memory option" where
  "neighbour mp rs i = (case mp i of Some m \<Rightarrow> Some m | None \<Rightarrow> get i rs)"

lemma neighbour_id: "table_gated q mp \<Longrightarrow> neighbour mp rs i = Some m \<Longrightarrow> m_id m = i"
  using get_id by (auto simp: neighbour_def table_gated_def split: option.splits)

lemma walk_fill_ids:
  assumes "table_gated q mp"
  shows "\<exists>ds. map result_id (fst (walk_fill q mode alpha rs mp used k cs (acc, b))) = map result_id acc @ ds \<and>
     set ds \<subseteq> wc_id ` set cs \<and> (distinct (map wc_id cs) \<longrightarrow> distinct ds) \<and>
     (int (length acc) \<le> k \<longrightarrow> int (length acc + length ds) \<le> k)"
proof (induction cs arbitrary: acc b)
  case (Cons c cs)
  have skip: ?case if "walk_fill q mode alpha rs mp used k (c # cs) (acc, b) = walk_fill q mode alpha rs mp used k cs (acc, b)"
  proof -
    from Cons.IH [of acc b] obtain ds where
      "map result_id (fst (walk_fill q mode alpha rs mp used k cs (acc, b))) = map result_id acc @ ds"
      "set ds \<subseteq> wc_id ` set cs" "distinct (map wc_id cs) \<longrightarrow> distinct ds"
      "int (length acc) \<le> k \<longrightarrow> int (length acc + length ds) \<le> k" by auto
    then show ?thesis unfolding that by (intro exI [of _ ds]) auto
  qed
  show ?case
  proof (cases "k \<le> int (length acc)")
    case True
    then show ?thesis by (intro exI [of _ "[]"]) simp
  next
    case False
    show ?thesis
    proof (cases "\<exists>m. neighbour mp rs (wc_id c) = Some m \<and> row_gate q m \<and> tags_gate q m")
      case True
      then obtain m where m: "neighbour mp rs (wc_id c) = Some m" "row_gate q m" "tags_gate q m" by auto
      then have id: "m_id m = wc_id c" using neighbour_id [OF assms] by blast
      obtain r b' where step: "walk_fill q mode alpha rs mp used k (c # cs) (acc, b) =
          walk_fill q mode alpha rs mp used k cs (acc @ [r], b')" "sr_memory r = m"
        using False m by (simp add: neighbour_def [symmetric] Let_def)
      from Cons.IH [of "acc @ [r]" b'] obtain ds where
        "map result_id (fst (walk_fill q mode alpha rs mp used k cs (acc @ [r], b'))) = map result_id (acc @ [r]) @ ds"
        "set ds \<subseteq> wc_id ` set cs" "distinct (map wc_id cs) \<longrightarrow> distinct ds"
        "int (length (acc @ [r])) \<le> k \<longrightarrow> int (length (acc @ [r]) + length ds) \<le> k" by auto
      with False step id show ?thesis by (intro exI [of _ "wc_id c # ds"]) auto
    next
      case no: False
      show ?thesis
        using no False by (intro skip) (auto simp: neighbour_def [symmetric] split: option.split)
    qed
  qed
qed simp

lemma walk_fill_memories:
  assumes "map sr_memory acc = map sr_memory acc'"
  shows "map sr_memory (fst (walk_fill q mode alpha rs mp used k cs (acc, b))) =
    map sr_memory (fst (walk_fill q mode alpha rs mp used' k cs (acc', b')))"
  using assms
proof (induction cs arbitrary: acc acc' b b')
  case (Cons c cs)
  have "length acc = length acc'" using Cons.prems by (metis length_map)
  with Cons show ?case by (auto simp: Let_def split: option.split)
qed simp

lemma anchor_fold_ok:
  assumes "distinct (map fst rk)" "fst ` set rk \<inter> P = {}"
  shows "distinct (map fst (foldl (anchor_step es P) rk xs)) \<and> fst ` set (foldl (anchor_step es P) rk xs) \<inter> P = {}"
  using assms
proof (induction xs arbitrary: rk)
  case (Cons x xs)
  obtain pos i where x: "x = (pos, i)" by fastforce
  have "distinct (map fst (anchor_step es P rk x)) \<and> fst ` set (anchor_step es P rk x) \<inter> P = {}"
    using Cons.prems by (auto simp: anchor_step_def x distinct_map o_def inj_on_def)
  then show ?case using Cons.IH by simp
qed simp

lemma headroom_fill_ids:
  assumes "table_gated q mp"
  shows "\<exists>ds. map result_id (headroom_fill q mode alpha rs mp xs acc) = map result_id acc @ ds \<and>
     set ds \<subseteq> fst ` set xs \<and> (distinct (map fst xs) \<longrightarrow> distinct ds) \<and>
     (int (length acc) \<le> q_limit q + q_limit q \<longrightarrow> int (length acc + length ds) \<le> q_limit q + q_limit q)"
proof (induction xs arbitrary: acc)
  case (Cons x xs)
  obtain i pos where x: "x = (i, pos)" by fastforce
  have skip: ?case if "headroom_fill q mode alpha rs mp (x # xs) acc = headroom_fill q mode alpha rs mp xs acc"
  proof -
    from Cons.IH [of acc] obtain ds where
      "map result_id (headroom_fill q mode alpha rs mp xs acc) = map result_id acc @ ds"
      "set ds \<subseteq> fst ` set xs" "distinct (map fst xs) \<longrightarrow> distinct ds"
      "int (length acc) \<le> q_limit q + q_limit q \<longrightarrow> int (length acc + length ds) \<le> q_limit q + q_limit q" by auto
    then show ?thesis unfolding that by (intro exI [of _ ds]) auto
  qed
  show ?case
  proof (cases "q_limit q + q_limit q \<le> int (length acc)")
    case True
    then show ?thesis by (intro exI [of _ "[]"]) (simp add: x)
  next
    case False
    show ?thesis
    proof (cases "\<exists>m. neighbour mp rs i = Some m \<and> row_gate q m \<and> tags_gate q m")
      case True
      then obtain m where m: "neighbour mp rs i = Some m" "row_gate q m" "tags_gate q m" by auto
      then have id: "m_id m = i" using neighbour_id [OF assms] by blast
      obtain r where step: "headroom_fill q mode alpha rs mp (x # xs) acc =
          headroom_fill q mode alpha rs mp xs (acc @ [r])" "sr_memory r = m"
        using False m by (simp add: neighbour_def [symmetric] x)
      from Cons.IH [of "acc @ [r]"] obtain ds where
        "map result_id (headroom_fill q mode alpha rs mp xs (acc @ [r])) = map result_id (acc @ [r]) @ ds"
        "set ds \<subseteq> fst ` set xs" "distinct (map fst xs) \<longrightarrow> distinct ds"
        "int (length (acc @ [r])) \<le> q_limit q + q_limit q \<longrightarrow> int (length (acc @ [r]) + length ds) \<le> q_limit q + q_limit q"
        by auto
      with False step id show ?thesis by (intro exI [of _ "i # ds"]) (auto simp: x)
    next
      case no: False
      show ?thesis
        using no False by (intro skip) (auto simp: neighbour_def [symmetric] x split: option.split)
    qed
  qed
qed simp

section \<open>Pages\<close>

lemma search_core_page:
  obtains alpha scores mp mode where "fuse env (g_rows g) q alpha = (scores, mp, mode)"
    "search_core env g q =
      (if se_graph_walk env then walk_page env g q alpha scores mp mode else headroom_page g q alpha scores mp mode)"
proof -
  define alpha where "alpha = (case q_alpha q of None \<Rightarrow> se_alpha env | Some a \<Rightarrow> a)"
  obtain scores mp mode where f: "fuse env (g_rows g) q alpha = (scores, mp, mode)" by (metis prod_cases3)
  then show ?thesis using that unfolding search_core_def alpha_def Let_def by simp
qed

lemma result_order_ids: "set (map result_id (result_order rs)) = set (map result_id rs) \<and>
    distinct (map result_id (result_order rs)) = distinct (map result_id rs)"
proof -
  have "distinct (result_order rs) = distinct rs" by (simp add: result_order_def)
  then show ?thesis by (simp add: distinct_map)
qed

lemma walk_block_ids:
  assumes "table_gated q mp"
  shows "distinct (map result_id (walk_block env g q alpha mp mode P results)) \<and>
    set (map result_id (walk_block env g q alpha mp mode P results)) \<inter> P = {} \<and>
    int (length (walk_block env g q alpha mp mode P results)) \<le> max 0 (walk_quota (q_limit q))"
proof -
  define cs where "cs = collect_walk_candidates (g_edges g) (map result_id results) P"
  define used where "used = (if se_feedback_apply env then used_counts_batch (map wc_id cs) (g_stats g) else Map.empty)"
  obtain ws b where w: "walk_fill q mode alpha (g_rows g) mp used (walk_quota (q_limit q)) cs ([], False) = (ws, b)"
    by fastforce
  have cs: "claims_ok P cs" unfolding cs_def by (rule collect_ok)
  have blk: "walk_block env g q alpha mp mode P results = (if b \<and> 1 < length ws then result_order ws else ws)"
    by (simp add: walk_block_def Let_def cs_def [symmetric] used_def [symmetric] w)
  from walk_fill_ids [OF assms, of mode alpha "g_rows g" used "walk_quota (q_limit q)" cs "[]" False] obtain ds where
    ds: "map result_id ws = ds" "set ds \<subseteq> wc_id ` set cs" "distinct (map wc_id cs) \<longrightarrow> distinct ds"
      "int (length ([] :: search_result list)) \<le> walk_quota (q_limit q) \<longrightarrow> int (length ds) \<le> walk_quota (q_limit q)"
    by (auto simp: w)
  have "0 \<le> walk_quota (q_limit q)" by (auto simp: walk_quota_def)
  moreover have "length ws = length ds" using ds(1) by (metis length_map)
  ultimately have "int (length ws) \<le> max 0 (walk_quota (q_limit q))" using ds(4) by simp
  moreover have "distinct (map result_id ws)" "set (map result_id ws) \<inter> P = {}"
    using ds cs by (auto simp: claims_ok_def)
  ultimately show ?thesis using result_order_ids [of ws] by (simp add: blk)
qed

lemma take_ids:
  assumes "table_gated q mp" "distinct (map fst xs)"
  shows "distinct (map result_id (map (hit mode mp) (take n (filter (passing q mp) xs))))"
    "set (map result_id (map (hit mode mp) (take n (filter (passing q mp) xs)))) \<subseteq> fst ` set xs"
proof -
  have "distinct (map fst (filter (passing q mp) xs))" using assms(2) by (simp add: distinct_map_filter)
  then have "distinct (map fst (take n (filter (passing q mp) xs)))" by (simp flip: take_map)
  then show "distinct (map result_id (map (hit mode mp) (take n (filter (passing q mp) xs))))"
    unfolding hit_ids [OF assms(1)] .
  show "set (map result_id (map (hit mode mp) (take n (filter (passing q mp) xs)))) \<subseteq> fst ` set xs"
    unfolding hit_ids [OF assms(1)] by (fastforce dest: in_set_takeD)
qed

lemma headroom_page_bounds:
  assumes "table_gated q mp" "distinct (map fst scores)"
  shows "distinct (map result_id (headroom_page g q alpha scores mp mode)) \<and>
    int (length (headroom_page g q alpha scores mp mode)) \<le> max 1 (2 * q_limit q)"
proof -
  define results where "results = map (hit mode mp) (take (max 1 (nat (q_limit q))) (filter (passing q mp) (fused_order scores)))"
  define rk where "rk = foldl (anchor_step (g_edges g) (fst ` set scores)) [] (enumerate 1 (map result_id results))"
  have rk: "distinct (map fst rk)" "fst ` set rk \<inter> fst ` set scores = {}"
    using anchor_fold_ok [of "[]" "fst ` set scores" "g_edges g"] by (simp_all add: rk_def)
  have page: "headroom_page g q alpha scores mp mode =
      (if int (length results) < q_limit q then headroom_fill q mode alpha (g_rows g) mp rk results else results)"
  proof -
    have "fused_fill q mode mp (q_limit q) (fused_order scores) [] = results"
      by (simp add: fused_fill_eq results_def)
    then show ?thesis by (simp add: headroom_page_def Let_def rk_def)
  qed
  have r: "distinct (map result_id results)" "set (map result_id results) \<subseteq> fst ` set scores"
    "int (length results) \<le> max 1 (q_limit q)"
    using take_ids [OF assms(1), of "fused_order scores" mode] assms(2) by (auto simp: results_def)
  from headroom_fill_ids [OF assms(1), of mode alpha "g_rows g" rk results] rk(1) obtain ds where
    ds: "map result_id (headroom_fill q mode alpha (g_rows g) mp rk results) = map result_id results @ ds"
      "set ds \<subseteq> fst ` set rk" "distinct ds"
      "int (length results) \<le> q_limit q + q_limit q \<longrightarrow> int (length results + length ds) \<le> q_limit q + q_limit q"
    by auto
  have "length (headroom_fill q mode alpha (g_rows g) mp rk results) = length results + length ds"
    using ds(1) by (metis length_map length_append)
  moreover have "distinct (map result_id results @ ds)"
    using r(1,2) ds(2,3) rk(2) by (simp only: distinct_append) blast
  ultimately show ?thesis using r(1,3) ds(1,4) by (auto simp: page)
qed

lemma walk_page_bounds:
  assumes "table_gated q mp" "distinct (map fst scores)"
  shows "distinct (map result_id (walk_page env g q alpha scores mp mode)) \<and>
    int (length (walk_page env g q alpha scores mp mode)) \<le> max 1 (q_limit q)"
proof -
  define k where "k = walk_quota (q_limit q)"
  define n where "n = max 1 (nat (if 0 < k then q_limit q - k else q_limit q))"
  define results where "results = map (hit mode mp) (take n (filter (passing q mp) (fused_order scores)))"
  define S where "S = result_id ` set results"
  define walked where "walked = (if 0 < k \<and> results \<noteq> [] then walk_block env g q alpha mp mode (fst ` set scores) results else [])"
  define B where "B = filter (\<lambda>p. passing q mp p \<and> fst p \<notin> S)
      (if 0 < k then filter (\<lambda>p. fst p \<notin> S) (fused_order scores) else [])"
  define T where "T = take (nat (q_limit q) - length (results @ walked)) B"
  have page: "walk_page env g q alpha scores mp mode = (results @ walked) @ map (hit mode mp) T"
  proof -
    have "fused_fill q mode mp (if 0 < k then q_limit q - k else q_limit q) (fused_order scores) [] = results"
      by (simp add: fused_fill_eq results_def n_def)
    then show ?thesis
      unfolding walk_page_def k_def [symmetric] Let_def
      by (simp only: walked_def [symmetric] S_def [symmetric] backfill_eq [OF assms(1)] B_def [symmetric] T_def)
  qed
  have k: "0 < k \<Longrightarrow> 3 \<le> q_limit q \<and> k < q_limit q" using walk_quota_bounds by (simp add: k_def)
  have w: "distinct (map result_id walked)" "set (map result_id walked) \<inter> fst ` set scores = {}"
    "int (length walked) \<le> max 0 k"
    using walk_block_ids [OF assms(1), of env g alpha mode "fst ` set scores" results] by (auto simp: walked_def k_def)
  have R: "distinct (map result_id results)" "set (map result_id results) \<subseteq> fst ` set scores"
    using take_ids [OF assms(1), of "fused_order scores" mode] assms(2) by (auto simp: results_def)
  have T: "set T \<subseteq> set B" unfolding T_def by (rule set_take_subset)
  then have ids: "map result_id (map (hit mode mp) T) = map fst T"
    using hit_id [OF assms(1)] by (auto simp: B_def)
  have "distinct (map fst B)" using assms(2) by (simp add: B_def distinct_map_filter)
  then have Td: "distinct (map fst T)" unfolding T_def by (simp flip: take_map)
  have Ts: "set (map fst T) \<subseteq> fst ` set scores - S" using T by (auto simp: B_def)
  have "set (map result_id results) = S" by (simp add: S_def)
  then have "distinct (map result_id results @ map result_id walked @ map fst T)"
    using R w Td Ts by (simp only: distinct_append set_append) blast
  moreover have "int (length (walk_page env g q alpha scores mp mode)) \<le> max 1 (q_limit q)"
  proof (cases "0 < k")
    case True
    then have "int (length results) \<le> q_limit q - k" using k by (auto simp: results_def n_def)
    then have "int (length (results @ walked)) \<le> q_limit q" using w(3) True by simp
    then show ?thesis by (simp add: page T_def)
  next
    case False
    then have "int (length results) \<le> max 1 (q_limit q)" "T = []" "walked = []"
      by (auto simp: results_def n_def B_def T_def walked_def)
    then show ?thesis by (simp add: page)
  qed
  ultimately show ?thesis unfolding page map_append ids by simp
qed

text \<open>A page never repeats a row, and it is bounded: by the limit with the walk, by twice the
  limit without it.\<close>

theorem page_bounds:
  "distinct (map result_id (search_core env g q)) \<and>
   int (length (search_core env g q)) \<le> max 1 (if se_graph_walk env then q_limit q else 2 * q_limit q)"
proof -
  obtain alpha scores mp mode where f: "fuse env (g_rows g) q alpha = (scores, mp, mode)" and
    c: "search_core env g q =
      (if se_graph_walk env then walk_page env g q alpha scores mp mode else headroom_page g q alpha scores mp mode)"
    by (rule search_core_page)
  show ?thesis
    using walk_page_bounds [OF fuse_gated [OF f] fuse_distinct [OF f]]
      headroom_page_bounds [OF fuse_gated [OF f] fuse_distinct [OF f]] by (simp add: c)
qed

section \<open>Feedback\<close>

lemma boost_factor_values_0: "list_all (\<lambda>n. 1 \<le> feedback_boost_factor n \<and> feedback_boost_factor n \<le> 2) [0, 1, 2]"
  by code_simp

lemma boost_factor_values_1: "list_all (\<lambda>n. 1 \<le> feedback_boost_factor n \<and> feedback_boost_factor n \<le> 2) [3, 4, 5]"
  by code_simp

lemma boost_factor_values_2: "list_all (\<lambda>n. 1 \<le> feedback_boost_factor n \<and> feedback_boost_factor n \<le> 2) [6, 7, 8]"
  by code_simp

lemma boost_factor_values_3: "list_all (\<lambda>n. 1 \<le> feedback_boost_factor n \<and> feedback_boost_factor n \<le> 2) [9, 10]"
  by code_simp

lemma boost_factor_values: "n \<le> 10 \<Longrightarrow> 1 \<le> feedback_boost_factor n \<and> feedback_boost_factor n \<le> 2"
proof -
  assume "n \<le> 10"
  then have "n \<in> set ([0, 1, 2] @ [3, 4, 5] @ [6, 7, 8] @ [9, 10])" by (simp add: le_Suc_eq numeral_eq_Suc)
  then show ?thesis
    using boost_factor_values_0 boost_factor_values_1 boost_factor_values_2 boost_factor_values_3
    unfolding list_all_iff set_append by blast
qed

text \<open>The factor is neutral without feedback and saturates at two.\<close>

lemma boost_factor_bounds: "1 \<le> feedback_boost_factor n \<and> feedback_boost_factor n \<le> 2"
proof -
  have "feedback_boost_factor n = feedback_boost_factor (min n 10)"
    by (simp add: feedback_boost_factor_def FEEDBACK_BOOST_CAP_def)
  then show ?thesis using boost_factor_values [of "min n 10"] by simp
qed

lemma boost_factor_neutral: "feedback_boost_factor 0 = 1"
  by code_simp

lemma walk_fill_via:
  "\<forall>r \<in> set acc. sr_via_graph r \<Longrightarrow>
   \<forall>r \<in> set (fst (walk_fill q mode alpha rs mp used k cs (acc, b))). sr_via_graph r"
proof
  fix r
  assume "\<forall>r \<in> set acc. sr_via_graph r" "r \<in> set (fst (walk_fill q mode alpha rs mp used k cs (acc, b)))"
  then show "sr_via_graph r" using walk_fill_in [of r q mode alpha rs mp used k cs acc b] by auto
qed

lemma walk_block_feedback:
  "set (map sr_memory (walk_block (env\<lparr>se_feedback_apply := True\<rparr>) g q alpha mp mode P results)) =
     set (map sr_memory (walk_block (env\<lparr>se_feedback_apply := False\<rparr>) g q alpha mp mode P results)) \<and>
   length (walk_block (env\<lparr>se_feedback_apply := True\<rparr>) g q alpha mp mode P results) =
     length (walk_block (env\<lparr>se_feedback_apply := False\<rparr>) g q alpha mp mode P results) \<and>
   (\<forall>r \<in> set (walk_block env g q alpha mp mode P results). sr_via_graph r)"
proof -
  define cs where "cs = collect_walk_candidates (g_edges g) (map result_id results) P"
  define W where "W = (\<lambda>used. fst (walk_fill q mode alpha (g_rows g) mp used (walk_quota (q_limit q)) cs ([], False)))"
  have W: "map sr_memory (W u) = map sr_memory (W u')" for u u'
    unfolding W_def by (rule walk_fill_memories) simp
  have via: "\<forall>r \<in> set (W u). sr_via_graph r" for u unfolding W_def by (rule walk_fill_via) simp
  have "\<exists>u. walk_block e g q alpha mp mode P results = result_order (W u) \<or>
      walk_block e g q alpha mp mode P results = W u" for e
    unfolding walk_block_def Let_def cs_def [symmetric] W_def prod.case_eq_if by (auto split: if_splits)
  then have "\<exists>u. sr_memory ` set (walk_block e g q alpha mp mode P results) = sr_memory ` set (W u) \<and>
      length (walk_block e g q alpha mp mode P results) = length (W u) \<and>
      set (walk_block e g q alpha mp mode P results) = set (W u)" for e
    by (metis set_result_order length_result_order)
  moreover have "sr_memory ` set (W u) = sr_memory ` set (W Map.empty) \<and> length (W u) = length (W Map.empty)" for u
    using W [of u Map.empty] by (metis length_map set_map)
  ultimately have "sr_memory ` set (walk_block e g q alpha mp mode P results) = sr_memory ` set (W Map.empty) \<and>
      length (walk_block e g q alpha mp mode P results) = length (W Map.empty) \<and>
      (\<forall>r \<in> set (walk_block e g q alpha mp mode P results). sr_via_graph r)" for e
    using via by metis
  then show ?thesis by simp
qed

text \<open>Feedback only reorders: applying it leaves the rows of the page, their places in the fused
  and the graph part, and every fused result as they are.\<close>

theorem feedback_rank_only:
  "set (map sr_memory (search_core (env\<lparr>se_feedback_apply := True\<rparr>) g q)) =
     set (map sr_memory (search_core (env\<lparr>se_feedback_apply := False\<rparr>) g q)) \<and>
   map sr_via_graph (search_core (env\<lparr>se_feedback_apply := True\<rparr>) g q) =
     map sr_via_graph (search_core (env\<lparr>se_feedback_apply := False\<rparr>) g q) \<and>
   filter (\<lambda>r. \<not> sr_via_graph r) (search_core (env\<lparr>se_feedback_apply := True\<rparr>) g q) =
     filter (\<lambda>r. \<not> sr_via_graph r) (search_core (env\<lparr>se_feedback_apply := False\<rparr>) g q)"
proof -
  define alpha where "alpha = (case q_alpha q of None \<Rightarrow> se_alpha env | Some a \<Rightarrow> a)"
  obtain scores mp mode where f: "fuse env (g_rows g) q alpha = (scores, mp, mode)" by (metis prod_cases3)
  note tg = fuse_gated [OF f]
  define E where "E = (\<lambda>b. env\<lparr>se_feedback_apply := b\<rparr>)"
  have core: "search_core (E b) g q =
      (if se_graph_walk env then walk_page (E b) g q alpha scores mp mode else headroom_page g q alpha scores mp mode)" for b
  proof -
    have "(case q_alpha q of None \<Rightarrow> se_alpha (E b) | Some a \<Rightarrow> a) = alpha"
      by (simp add: alpha_def E_def split: option.split)
    moreover have "fuse (E b) (g_rows g) q alpha = (scores, mp, mode)" using f by (simp add: fuse_def E_def)
    moreover have "se_graph_walk (E b) = se_graph_walk env" by (simp add: E_def)
    ultimately show ?thesis by (simp add: search_core_def Let_def)
  qed
  define k where "k = walk_quota (q_limit q)"
  define results where "results = fused_fill q mode mp (if 0 < k then q_limit q - k else q_limit q) (fused_order scores) []"
  define V where "V = (\<lambda>b. if 0 < k \<and> results \<noteq> [] then walk_block (E b) g q alpha mp mode (fst ` set scores) results else [])"
  have V: "set (map sr_memory (V True)) = set (map sr_memory (V False))" "length (V True) = length (V False)"
    "\<forall>r \<in> set (V b). sr_via_graph r" for b
    using walk_block_feedback [of env g q alpha mp mode "fst ` set scores" results]
      walk_block_feedback [of "E b" g q alpha mp mode "fst ` set scores" results] by (auto simp: V_def E_def)
  have Vb: "(if 0 < k \<and> results \<noteq> [] then walk_block (E b) g q alpha mp mode (fst ` set scores) results else []) = V b" for b
    by (simp add: V_def)
  obtain T where page: "walk_page (E b) g q alpha scores mp mode = (results @ V b) @ T" for b
  proof -
    have "walk_page (E b) g q alpha scores mp mode = (results @ V b) @
        map (hit mode mp) (take (nat (q_limit q) - (length results + length (V True)))
          (filter (\<lambda>p. passing q mp p \<and> fst p \<notin> result_id ` set results)
            (if 0 < k then filter (\<lambda>p. fst p \<notin> result_id ` set results) (fused_order scores) else [])))" for b
      unfolding walk_page_def k_def [symmetric] Let_def results_def [symmetric] backfill_eq [OF tg] Vb
      using V(2) by (cases b) simp_all
    then show ?thesis by (rule that)
  qed
  have "map sr_via_graph (V b) = replicate (length (V b)) True" "filter (\<lambda>r. \<not> sr_via_graph r) (V b) = []" for b
    using V(3) [of b] by (auto simp: filter_empty_conv intro!: replicate_eqI)
  moreover have "env\<lparr>se_feedback_apply := b\<rparr> = E b" for b by (simp add: E_def)
  moreover have "sr_memory ` set (V True) = sr_memory ` set (V False)" using V(1) by simp
  ultimately show ?thesis using V(2) by (simp add: core page image_Un)
qed

end
