(* ===== verification/Ccr_Cache.thy ===== *)
theory Ccr_Cache
  imports Ccr_Marker Search Moderation
begin

text \<open>
  The CCR cache (compress, cache, retrieve): the \<open>ccr_cache\<close> table of \<open>sqlite_store.py\<close>, \<open>compress\<close>,
  \<open>retrieve\<close> and \<open>cleanup\<close> of \<open>ccr.py\<close>, and the issuance boundary of \<open>manager.py\<close>: \<open>scan_issuance\<close>,
  \<open>validate_marker\<close>, the offset-mapped snippet scan and \<open>retrieve_content\<close>.

  A table is the list of its rows in rowid order.  SHA-256 is the parameter \<open>sha\<close>, the snippet
  function of FTS5 the parameter \<open>eng\<close>; the reasons of a refusal are an enumeration.
\<close>

section \<open>The table\<close>

record ccr_row =
  cr_hash :: string
  cr_original :: string
  cr_project :: string
  cr_created_at :: moment
  cr_size_bytes :: nat
  cr_count :: nat
  cr_last_retrieved_at :: "moment option"
  cr_verdict :: "string option"
  cr_scan_at :: "moment option"
  cr_issuer_agent :: "string option"
  cr_issuer_session :: "string option"

definition utf8_length :: "string \<Rightarrow> nat" where
  "utf8_length s = sum_list (map (\<lambda>c. if c = arrow then 3 else if (of_char c :: nat) < 128 then 1 else 2) s)"

definition strip_or_none :: "string option \<Rightarrow> string option" where
  "strip_or_none v = (case v of None \<Rightarrow> None | Some s \<Rightarrow> if strip s = [] then None else Some (strip s))"

definition scan_verdict :: "string \<Rightarrow> string" where
  "scan_verdict original = (if detect_secrets original \<noteq> [] then ''hit'' else ''clean'')"

definition ccr_key :: "ccr_row \<Rightarrow> string \<times> string" where
  "ccr_key r = (cr_project r, cr_hash r)"

definition ccr_store ::
  "moment \<Rightarrow> string \<Rightarrow> string \<Rightarrow> string \<Rightarrow> string option \<Rightarrow> string option \<Rightarrow> ccr_row list \<Rightarrow> ccr_row list" where
  "ccr_store now h original project issuer_agent issuer_session rows =
     (if (project, h) \<in> ccr_key ` set rows then
        rows_update (\<lambda>r. ccr_key r = (project, h))
          (\<lambda>r. r\<lparr>cr_verdict := Some (scan_verdict original), cr_scan_at := Some now\<rparr>) rows
      else rows @
        [\<lparr>cr_hash = h, cr_original = original, cr_project = project, cr_created_at = now,
          cr_size_bytes = utf8_length original, cr_count = 0, cr_last_retrieved_at = None,
          cr_verdict = Some (scan_verdict original), cr_scan_at = Some now,
          cr_issuer_agent = strip_or_none issuer_agent, cr_issuer_session = strip_or_none issuer_session\<rparr>])"

text \<open>The row a lookup reads: the project's own, or the first stored copy.\<close>

definition ccr_lookup :: "string \<Rightarrow> string option \<Rightarrow> ccr_row list \<Rightarrow> ccr_row option" where
  "ccr_lookup h project rows =
     (if truthy project then row_find ccr_key (the project, h) rows
      else (case order_asc cr_created_at (filter (\<lambda>r. cr_hash r = h) rows) of [] \<Rightarrow> None | r # _ \<Rightarrow> Some r))"

definition ccr_bump :: "moment \<Rightarrow> string \<Rightarrow> string option \<Rightarrow> ccr_row list \<Rightarrow> ccr_row list" where
  "ccr_bump now h project rows =
     rows_update (\<lambda>r. cr_hash r = h \<and> (project \<noteq> None \<longrightarrow> cr_project r = the project))
       (\<lambda>r. r\<lparr>cr_count := cr_count r + 1, cr_last_retrieved_at := Some now\<rparr>) rows"

definition ccr_get :: "moment \<Rightarrow> string \<Rightarrow> string option \<Rightarrow> bool \<Rightarrow> ccr_row list \<Rightarrow> ccr_row option \<times> ccr_row list" where
  "ccr_get now h project bump rows =
     (case ccr_lookup h project rows of
        None \<Rightarrow> (None, rows)
      | Some r \<Rightarrow>
          if bump then (Some (r\<lparr>cr_count := cr_count r + 1\<rparr>), ccr_bump now h (Some (cr_project r)) rows)
          else (Some r, rows))"

definition ccr_touch :: "moment \<Rightarrow> string \<Rightarrow> string option \<Rightarrow> ccr_row list \<Rightarrow> ccr_row list" where
  "ccr_touch now h project rows = ccr_bump now h project rows"

definition ccr_count :: "ccr_row list \<Rightarrow> nat" where
  "ccr_count rows = length rows"

text \<open>\<open>date\<close> of a stamp, as a day number.\<close>

definition day_of :: "moment \<Rightarrow> int" where
  "day_of t = t div days 1"

definition ccr_expired :: "moment \<Rightarrow> int \<Rightarrow> ccr_row \<Rightarrow> bool" where
  "ccr_expired now ttl_days r \<longleftrightarrow> day_of (cr_created_at r) + ttl_days < day_of now"

definition ccr_cleanup_ttl :: "moment \<Rightarrow> int \<Rightarrow> ccr_row list \<Rightarrow> nat \<times> ccr_row list" where
  "ccr_cleanup_ttl now ttl_days rows =
     (rowcount (ccr_expired now ttl_days) rows, rows_delete (ccr_expired now ttl_days) rows)"

text \<open>The rows the eviction picks: the least retrieved ones, the oldest first among equals.\<close>

definition lru_order :: "ccr_row list \<Rightarrow> ccr_row list" where
  "lru_order rows = sort_key (\<lambda>r. int (cr_count r)) (sort_key cr_created_at rows)"

definition lru_victims :: "int \<Rightarrow> ccr_row list \<Rightarrow> (string \<times> string) list" where
  "lru_victims max_entries rows = map ccr_key (take (nat (int (ccr_count rows) - max_entries)) (lru_order rows))"

definition ccr_evict_lru :: "int \<Rightarrow> ccr_row list \<Rightarrow> nat \<times> ccr_row list" where
  "ccr_evict_lru max_entries rows =
     (if int (ccr_count rows) \<le> max_entries then (0, rows)
      else (rowcount (\<lambda>r. ccr_key r \<in> set (lru_victims max_entries rows)) rows,
            rows_delete (\<lambda>r. ccr_key r \<in> set (lru_victims max_entries rows)) rows))"

definition ccr_delete_all :: "ccr_row list \<Rightarrow> nat \<times> ccr_row list" where
  "ccr_delete_all rows = (length rows, [])"

text \<open>What FTS5 answers to a MATCH: the snippet and rank of each matching row, or an \<open>OperationalError\<close>.\<close>

datatype snip_answer = SnipRows "ccr_row \<Rightarrow> (string \<times> rat) option" | SnipCorrupt | SnipFailed

type_synonym snip_engine = "ccr_row list \<Rightarrow> string \<Rightarrow> snip_answer"

datatype store_error = OperationalError

definition ccr_search ::
  "snip_engine \<Rightarrow> string \<Rightarrow> string \<Rightarrow> int \<Rightarrow> string option \<Rightarrow> ccr_row list \<Rightarrow> store_error + (string \<times> rat) list" where
  "ccr_search eng h query limit project rows =
     (if truthy project \<and> row_find ccr_key (the project, h) rows = None then Inr []
      else (case eng rows (fts_query_v2 query) of
              SnipCorrupt \<Rightarrow> Inr []
            | SnipFailed \<Rightarrow> Inl OperationalError
            | SnipRows f \<Rightarrow>
                (case (if truthy project then row_find ccr_key (the project, h) rows
                       else find (\<lambda>r. cr_hash r = h) rows) of
                   None \<Rightarrow> Inr []
                 | Some r \<Rightarrow> Inr (sql_limit limit (case f r of None \<Rightarrow> [] | Some s \<Rightarrow> [s])))))"

section \<open>Compression\<close>

record ccr_config =
  cc_enabled :: bool
  cc_ttl_days :: int
  cc_max_entries :: int
  cc_min_size_chars :: int
  cc_snippet_count :: int
  cc_filter_budget :: int
  cc_refuse_on_secret :: bool
  cc_require_project_match :: bool
  cc_validate_markers :: bool

record compressed =
  cp_text :: string
  cp_hash :: string
  cp_original_size :: nat
  cp_compressed_size :: nat
  cp_reduction_pct :: rat
  cp_marker :: string
  cp_cached :: bool
  cp_profile :: string
  cp_dropped_items :: int

definition uncompressed :: "string \<Rightarrow> string \<Rightarrow> compressed" where
  "uncompressed t profile =
     \<lparr>cp_text = t, cp_hash = [], cp_original_size = length t, cp_compressed_size = length t, cp_reduction_pct = 0,
      cp_marker = [], cp_cached = False, cp_profile = profile, cp_dropped_items = 0\<rparr>"

text \<open>\<open>round(x, 2)\<close>.\<close>

definition round2 :: "rat \<Rightarrow> rat" where
  "round2 x = fl (of_int (round_half_even (x * 100)) / 100)"

definition reduction_pct :: "nat \<Rightarrow> nat \<Rightarrow> rat" where
  "reduction_pct compressed_size original_size =
     round2 (fl (fl (1 - fl (of_nat compressed_size / of_nat (max original_size 1))) * 100))"

definition compress ::
  "(string \<Rightarrow> string) \<Rightarrow> (string \<Rightarrow> string) \<Rightarrow> ccr_config \<Rightarrow> moment \<Rightarrow> string \<Rightarrow> string option \<Rightarrow> string \<Rightarrow> string option \<Rightarrow>
   string option \<Rightarrow> string \<Rightarrow> ccr_row list \<Rightarrow> compressed \<times> ccr_row list" where
  "compress fr sha cfg now t profile project issuer_agent issuer_session version rows =
     (if int (length t) < cc_min_size_chars cfg then (uncompressed t ''skipped'', rows)
      else
        (let filtered = apply_filter fr t profile (Some (cc_filter_budget cfg)) version;
             body = fr_clean_content filtered;
             dropped = (case map_of (fr_stats filtered) ''compress'' of None \<Rightarrow> 0 | Some st \<Rightarrow> stat_nat ''json_items_dropped'' st);
             h = sha t;
             stored = ccr_store now h t project issuer_agent issuer_session rows;
             mark = build_marker h (length t) (length body)
         in (\<lparr>cp_text = mark @ newline @ body, cp_hash = h, cp_original_size = length t,
               cp_compressed_size = length body, cp_reduction_pct = reduction_pct (length body) (length t),
               cp_marker = mark, cp_cached = True, cp_profile = fr_profile filtered, cp_dropped_items = dropped\<rparr>,
             snd (ccr_evict_lru (cc_max_entries cfg) stored))))"

definition compress_content ::
  "(string \<Rightarrow> string) \<Rightarrow> (string \<Rightarrow> string) \<Rightarrow> ccr_config \<Rightarrow> moment \<Rightarrow> string \<Rightarrow> string option \<Rightarrow> string \<Rightarrow> string option \<Rightarrow>
   string option \<Rightarrow> string \<Rightarrow> ccr_row list \<Rightarrow> compressed \<times> ccr_row list" where
  "compress_content fr sha cfg now t profile project agent session version rows =
     (if \<not> cc_enabled cfg then (uncompressed t ''disabled'', rows)
      else compress fr sha cfg now t profile project agent session version rows)"

definition cleanup :: "ccr_config \<Rightarrow> moment \<Rightarrow> ccr_row list \<Rightarrow> (nat \<times> nat) \<times> ccr_row list" where
  "cleanup cfg now rows =
     (case ccr_cleanup_ttl now (cc_ttl_days cfg) rows of (ttl_deleted, rows1) \<Rightarrow>
      (case ccr_evict_lru (cc_max_entries cfg) rows1 of (lru_evicted, rows2) \<Rightarrow> ((ttl_deleted, lru_evicted), rows2)))"

section \<open>The issuance scan\<close>

record issuance_scan =
  is_text :: string
  is_refused :: bool
  is_reason :: "string option"
  is_redactions :: nat
  is_patterns :: "string \<Rightarrow> nat"

abbreviation no_patterns :: "string \<Rightarrow> nat" where
  "no_patterns \<equiv> \<lambda>_. 0"

definition scan_issuance :: "bool \<Rightarrow> string \<Rightarrow> issuance_scan" where
  "scan_issuance refuse_on_secret t =
     (let found = detect_secrets t
      in if found = [] then
           \<lparr>is_text = t, is_refused = False, is_reason = None, is_redactions = 0, is_patterns = no_patterns\<rparr>
         else if refuse_on_secret then
           \<lparr>is_text = [], is_refused = True, is_reason = Some ''secret detected'', is_redactions = length found,
            is_patterns = findings_by_pattern found\<rparr>
         else (case redact_content t found of
                 Inl _ \<Rightarrow> \<lparr>is_text = [], is_refused = True, is_reason = Some ''scanner error'', is_redactions = 0,
                           is_patterns = no_patterns\<rparr>
               | Inr redacted \<Rightarrow>
                   \<lparr>is_text = redacted, is_refused = False, is_reason = None, is_redactions = length found,
                    is_patterns = findings_by_pattern found\<rparr>))"

record item_scan =
  it_content :: string
  it_title :: string
  it_refused :: bool
  it_reason :: "string option"
  it_redactions :: nat
  it_patterns :: "string \<Rightarrow> nat"

definition scan_issuance_item :: "bool \<Rightarrow> string option \<Rightarrow> string option \<Rightarrow> item_scan" where
  "scan_issuance_item refuse_on_secret t title =
     (let content_scan = map_option (scan_issuance refuse_on_secret) t;
          title_scan = map_option (scan_issuance refuse_on_secret) title;
          scans = List.map_filter (\<lambda>s. s) [content_scan, title_scan];
          refused = list_ex is_refused scans
      in \<lparr>it_content = (case content_scan of Some s \<Rightarrow> if refused then [] else is_text s | None \<Rightarrow> []),
          it_title = (case title_scan of Some s \<Rightarrow> if refused then [] else is_text s | None \<Rightarrow> []),
          it_refused = refused,
          it_reason = (case find is_refused scans of Some s \<Rightarrow> is_reason s | None \<Rightarrow> None),
          it_redactions = sum_list (map is_redactions scans),
          it_patterns = (\<lambda>name. sum_list (map (\<lambda>s. is_patterns s name) scans))\<rparr>)"

section \<open>The offset-mapped snippet scan\<close>

definition SNIPPET_SCAN_MARGIN_CHARS :: nat where
  "SNIPPET_SCAN_MARGIN_CHARS = 64"

definition FTS_SNIPPET_START_MARK :: string where
  "FTS_SNIPPET_START_MARK = ''>>>''"

definition FTS_SNIPPET_END_MARK :: string where
  "FTS_SNIPPET_END_MARK = ''<<<''"

definition FTS_SNIPPET_ELLIPSIS :: string where
  "FTS_SNIPPET_ELLIPSIS = '' ... ''"

text \<open>\<open>str.split\<close> on a separator, and \<open>str.find\<close> from a position.\<close>

fun pieces_between :: "string \<Rightarrow> nat \<Rightarrow> (nat \<times> nat) list \<Rightarrow> string list" where
  "pieces_between s c [] = [drop c s]"
| "pieces_between s c ((a, b) # ms) = slice s c a # pieces_between s b ms"

definition split_str :: "string \<Rightarrow> string \<Rightarrow> string list" where
  "split_str separator s = pieces_between s 0 (finditer (lit separator) s)"

definition find_str :: "string \<Rightarrow> string \<Rightarrow> nat \<Rightarrow> nat option" where
  "find_str s u start = find (\<lambda>i. take (length u) (drop i s) = u) [start..<Suc (length s)]"

definition fragments_of :: "string \<Rightarrow> string list" where
  "fragments_of marked =
     filter (\<lambda>f. f \<noteq> [])
       (split_str FTS_SNIPPET_ELLIPSIS (rx_sub (lit FTS_SNIPPET_END_MARK) [] (rx_sub (lit FTS_SNIPPET_START_MARK) [] marked)))"

definition unique_span :: "string \<Rightarrow> string \<Rightarrow> (nat \<times> nat) option" where
  "unique_span original f =
     (case find_str original f 0 of
        None \<Rightarrow> None
      | Some a \<Rightarrow> if find_str original f (Suc a) \<noteq> None then None else Some (a, a + length f))"

datatype snippet_scan = Snip_unlocalized | Snip_clean | Snip_redacted string "secret_finding list"

definition scan_window :: "string \<Rightarrow> (nat \<times> nat) list \<Rightarrow> nat \<times> nat" where
  "scan_window original spans =
     (Min (set (map fst spans)) - SNIPPET_SCAN_MARGIN_CHARS,
      min (length original) (Max (set (map snd spans)) + SNIPPET_SCAN_MARGIN_CHARS))"

definition finding_meets :: "nat \<times> nat \<Rightarrow> secret_finding \<Rightarrow> bool" where
  "finding_meets w f \<longleftrightarrow> sf_start f < snd w \<and> fst w < sf_end f"

definition redact_fragment :: "secret_finding list \<Rightarrow> string \<Rightarrow> nat \<times> nat \<Rightarrow> string" where
  "redact_fragment found fragment w =
     (case foldl (\<lambda>(out, cursor) f.
             if finding_meets w f then
               (out @ slice fragment cursor (max (sf_start f) (fst w) - fst w) @ redaction f,
                max cursor (min (sf_end f) (snd w) - fst w))
             else (out, cursor)) ([], 0) found of
        (out, cursor) \<Rightarrow> out @ drop cursor fragment)"

definition offset_mapped_snippet_scan :: "string \<Rightarrow> string option \<Rightarrow> snippet_scan" where
  "offset_mapped_snippet_scan marked original =
     (case original of
        None \<Rightarrow> Snip_unlocalized
      | Some text \<Rightarrow>
          (let fragments = fragments_of marked; spans = List.map_filter (unique_span text) fragments
           in if fragments = [] \<or> list_ex (\<lambda>f. unique_span text f = None) fragments then Snip_unlocalized
              else
                (let (a, e) = scan_window text spans;
                     windows = map (\<lambda>(s, e'). (s - a, e' - a)) spans;
                     found = filter (\<lambda>f. list_ex (\<lambda>w. finding_meets w f) windows) (detect_secrets (slice text a e))
                 in if found = [] then Snip_clean
                    else Snip_redacted (join FTS_SNIPPET_ELLIPSIS (map2 (redact_fragment found) fragments windows)) found)))"

section \<open>Marker validation\<close>

datatype marker_check = Existence | Integrity | Provenance

datatype marker_reason =
    ScopeRequired | NotCached | LengthNotGiven | LengthMismatch | NoIssuerContext | UnverifiableLegacy | IssuerMismatch

datatype issuer_error = EmptyIssuerAgent

definition validate_marker ::
  "ccr_row list \<Rightarrow> string \<Rightarrow> string option \<Rightarrow> int option \<Rightarrow> (string \<times> string option) list \<Rightarrow>
   issuer_error + (marker_check \<times> marker_reason) option" where
  "validate_marker rows h project original_chars trusted =
     (if list_ex (\<lambda>(a, s). strip a = []) trusted then Inl EmptyIssuerAgent
      else Inr
        (let normalized = map (\<lambda>(a, s). (strip a, strip_or_none s)) trusted
         in if \<not> truthy project then Some (Existence, ScopeRequired)
            else (case ccr_lookup h project rows of
                    None \<Rightarrow> Some (Existence, NotCached)
                  | Some r \<Rightarrow>
                      if original_chars = None then Some (Integrity, LengthNotGiven)
                      else if the original_chars \<noteq> int (length (cr_original r)) then Some (Integrity, LengthMismatch)
                      else if normalized = [] then Some (Provenance, NoIssuerContext)
                      else if \<not> truthy (cr_issuer_agent r) then Some (Provenance, UnverifiableLegacy)
                      else if (the (cr_issuer_agent r), cr_issuer_session r) \<notin> set normalized then Some (Provenance, IssuerMismatch)
                      else None)))"

section \<open>Retrieval\<close>

datatype refusal =
    MarkerInvalid marker_check marker_reason | QuarantinedSource | MarkerRequired | ProjectRequired | SnippetsOfHit
  | SecretInSnippets | SnippetsUnlocalized | SecretInOriginal | ScannerError

datatype retrieval =
    NotFound
  | Refused bool refusal nat "string \<Rightarrow> nat"
  | Retracted string
  | Original string string nat nat nat "string \<Rightarrow> nat"
  | Snippets "(string \<times> rat) list" string nat nat "string \<Rightarrow> nat"
  | StoreFailed
  | GateRaised issuer_error

record retrieve_request =
  rq_hash :: string
  rq_query :: "string option"
  rq_snippet_count :: "int option"
  rq_project :: "string option"
  rq_validate_marker :: "bool option"
  rq_original_chars :: "int option"
  rq_agent :: "string option"
  rq_session :: "string option"

definition quarantine_retraction_for :: "row list \<Rightarrow> string \<Rightarrow> string option" where
  "quarantine_retraction_for mems payload =
     map_option render_retraction
       (find (\<lambda>m. payload = m_content m \<or> payload = effective_content m \<or> m_raw_content m = Some payload)
         (list_by_pipeline_state PS_QUARANTINED 1000 0 None None mems))"

definition strict_request :: "ccr_config \<Rightarrow> retrieve_request \<Rightarrow> bool" where
  "strict_request cfg q = (case rq_validate_marker q of None \<Rightarrow> cc_validate_markers cfg | Some b \<Rightarrow> b)"

definition marker_shaped :: "retrieve_request \<Rightarrow> bool" where
  "marker_shaped q \<longleftrightarrow> rq_original_chars q \<noteq> None \<or> rq_agent q \<noteq> None \<or> rq_session q \<noteq> None"

definition trusted_issuers :: "retrieve_request \<Rightarrow> (string \<times> string option) list" where
  "trusted_issuers q =
     (case strip_or_none (rq_agent q) of None \<Rightarrow> [] | Some a \<Rightarrow> [(a, strip_or_none (rq_session q))])"

text \<open>The strict gate before anything is read for issuance.\<close>

definition marker_gate ::
  "ccr_config \<Rightarrow> retrieve_request \<Rightarrow> ccr_row list \<Rightarrow> issuer_error + (marker_check \<times> marker_reason) option" where
  "marker_gate cfg q rows =
     (if strict_request cfg q \<and> marker_shaped q then
        validate_marker rows (rq_hash q) (rq_project q) (rq_original_chars q) (trusted_issuers q)
      else Inr None)"

text \<open>The snippet loop: every snippet scanned, the redactions, localization failures and pattern counts.\<close>

definition scan_snippet :: "string \<Rightarrow> string \<times> rat \<Rightarrow> (string \<times> rat) \<times> nat \<times> nat \<times> (string \<Rightarrow> nat)" where
  "scan_snippet original snip =
     (case offset_mapped_snippet_scan (fst snip) (Some original) of
        Snip_clean \<Rightarrow> (snip, 0, 0, no_patterns)
      | Snip_unlocalized \<Rightarrow> ((''<REDACTED:snippet>'', snd snip), 1, 1, (\<lambda>name. if name = ''snippet'' then 1 else 0))
      | Snip_redacted t found \<Rightarrow> ((t, snd snip), length found, 0, findings_by_pattern found))"

definition issue_snippets ::
  "ccr_config \<Rightarrow> moment \<Rightarrow> string \<Rightarrow> ccr_row \<Rightarrow> (string \<times> rat) list \<Rightarrow> ccr_row list \<Rightarrow> retrieval \<times> ccr_row list" where
  "issue_snippets cfg now h r snips rows =
     (if cr_verdict r = Some ''hit'' then (Refused True SnippetsOfHit 0 no_patterns, rows)
      else
        (let scans = map (scan_snippet (cr_original r)) snips;
             redactions = sum_list (map (\<lambda>(s, n, l, p). n) scans);
             failures = sum_list (map (\<lambda>(s, n, l, p). l) scans);
             counts = (\<lambda>name. sum_list (map (\<lambda>(s, n, l, p). p name) scans))
         in if redactions \<noteq> 0 \<and> cc_refuse_on_secret cfg then
              (Refused True (if failures < redactions then SecretInSnippets else SnippetsUnlocalized) redactions counts, rows)
            else (Snippets (map fst scans) (cr_project r) (cr_count r + 1) redactions counts,
                  ccr_touch now h (Some (cr_project r)) rows)))"

definition issue_original ::
  "ccr_config \<Rightarrow> moment \<Rightarrow> string \<Rightarrow> ccr_row \<Rightarrow> ccr_row list \<Rightarrow> retrieval \<times> ccr_row list" where
  "issue_original cfg now h r rows =
     (let s = scan_issuance (cc_refuse_on_secret cfg) (cr_original r)
      in if is_refused s then
           (Refused True (if is_reason s = Some ''secret detected'' then SecretInOriginal else ScannerError)
              (is_redactions s) (is_patterns s), rows)
         else (Original (is_text s) (cr_project r) (cr_size_bytes r) (cr_count r + 1) (is_redactions s) (is_patterns s),
               ccr_touch now h (Some (cr_project r)) rows))"

text \<open>What \<open>ccr.retrieve\<close> reads for a found row: nothing more, or the snippets of a query.\<close>

definition query_snippets ::
  "ccr_config \<Rightarrow> snip_engine \<Rightarrow> retrieve_request \<Rightarrow> ccr_row list \<Rightarrow> store_error + (string \<times> rat) list option" where
  "query_snippets cfg eng q rows =
     (case rq_query q of
        None \<Rightarrow> Inr None
      | Some query \<Rightarrow>
          (case ccr_search eng (rq_hash q) query
             (case rq_snippet_count q of None \<Rightarrow> cc_snippet_count cfg | Some n \<Rightarrow> n) (rq_project q) rows of
             Inl e \<Rightarrow> Inl e
           | Inr snips \<Rightarrow> Inr (Some snips)))"

definition issue_row ::
  "ccr_config \<Rightarrow> moment \<Rightarrow> row list \<Rightarrow> retrieve_request \<Rightarrow> ccr_row \<Rightarrow> (string \<times> rat) list option \<Rightarrow> ccr_row list \<Rightarrow>
   retrieval \<times> ccr_row list" where
  "issue_row cfg now mems q r snippets rows =
     (case quarantine_retraction_for mems (cr_original r) of
        Some retraction \<Rightarrow> (if rq_query q \<noteq> None then Refused True QuarantinedSource 0 no_patterns else Retracted retraction, rows)
      | None \<Rightarrow>
          if strict_request cfg q \<and> \<not> marker_shaped q \<and> truthy (cr_issuer_agent r) then
            (Refused True MarkerRequired 0 no_patterns, rows)
          else if \<not> truthy (rq_project q) \<and> cr_project r \<noteq> [] \<and> cc_require_project_match cfg then
            (Refused True ProjectRequired 0 no_patterns, rows)
          else (case snippets of
                  Some snips \<Rightarrow> issue_snippets cfg now (rq_hash q) r snips rows
                | None \<Rightarrow> issue_original cfg now (rq_hash q) r rows))"

definition retrieve_content ::
  "ccr_config \<Rightarrow> snip_engine \<Rightarrow> moment \<Rightarrow> row list \<Rightarrow> retrieve_request \<Rightarrow> ccr_row list \<Rightarrow> retrieval \<times> ccr_row list" where
  "retrieve_content cfg eng now mems q rows =
     (case marker_gate cfg q rows of
        Inl e \<Rightarrow> (GateRaised e, rows)
      | Inr (Some (check, why)) \<Rightarrow> (Refused (check \<noteq> Existence) (MarkerInvalid check why) 0 no_patterns, rows)
      | Inr None \<Rightarrow>
          (case ccr_lookup (rq_hash q) (rq_project q) rows of
             None \<Rightarrow> (NotFound, rows)
           | Some r \<Rightarrow>
               (case query_snippets cfg eng q rows of
                  Inl e \<Rightarrow> (StoreFailed, rows)
                | Inr snippets \<Rightarrow> issue_row cfg now mems q r snippets rows)))"

section \<open>The eviction\<close>

lemma set_lru_order [simp]: "set (lru_order rows) = set rows"
  by (simp add: lru_order_def)

lemma length_lru_order [simp]: "length (lru_order rows) = length rows"
  by (simp add: lru_order_def)

definition lru_le :: "ccr_row \<Rightarrow> ccr_row \<Rightarrow> bool" where
  "lru_le a b \<longleftrightarrow> cr_count a < cr_count b \<or> cr_count a = cr_count b \<and> cr_created_at a \<le> cr_created_at b"

lemma sorted_lru_order: "sorted_wrt lru_le (lru_order rows)"
proof -
  have "sorted_wrt (\<lambda>a b. f a < f b \<or> f a = f b \<and> g a \<le> g b) (sort_key f (sort_key g xs))"
    for f :: "ccr_row \<Rightarrow> int" and g :: "ccr_row \<Rightarrow> int" and xs
  proof -
    have "sorted_wrt (\<lambda>a b. f a < f b \<or> f a = f b \<and> g a \<le> g b) (insort_key f x ys)"
      if "sorted_wrt (\<lambda>a b. f a < f b \<or> f a = f b \<and> g a \<le> g b) ys" "\<forall>y \<in> set ys. g x \<le> g y" for x ys
      using that by (induction ys) (auto simp: set_insort_key)
    moreover have "sorted_wrt (\<lambda>a b. g a \<le> g b) ys \<Longrightarrow> set (foldr (insort_key f) ys []) = set ys" for ys
      by (induction ys) (auto simp: set_insort_key)
    ultimately have "sorted_wrt (\<lambda>a b. g a \<le> g b) ys \<Longrightarrow>
       sorted_wrt (\<lambda>a b. f a < f b \<or> f a = f b \<and> g a \<le> g b) (foldr (insort_key f) ys [])" for ys
      by (induction ys) auto
    moreover have "sorted_wrt (\<lambda>a b. g a \<le> g b) (sort_key g xs)"
      using sorted_sort_key [of g xs] by (simp only: sorted_map)
    ultimately show ?thesis by (simp add: sort_key_def [of f])
  qed
  then show ?thesis
    unfolding lru_order_def by (rule sorted_wrt_mono_rel [rotated]) (auto simp: lru_le_def)
qed

lemma key_inj: "distinct (map ccr_key rows) \<Longrightarrow> a \<in> set rows \<Longrightarrow> b \<in> set rows \<Longrightarrow> ccr_key a = ccr_key b \<Longrightarrow> a = b"
  by (meson distinct_map inj_onD)

lemma evict_set:
  assumes "distinct (map ccr_key rows)"
  shows "set (snd (ccr_evict_lru n rows)) =
    (if int (length rows) \<le> n then set rows else set (drop (nat (int (length rows) - n)) (lru_order rows)))"
proof (cases "int (length rows) \<le> n")
  case False
  define k where "k = nat (int (length rows) - n)"
  have d: "distinct (map ccr_key (lru_order rows))"
    using assms by (simp add: distinct_map lru_order_def)
  have split: "lru_order rows = take k (lru_order rows) @ drop k (lru_order rows)" by simp
  then have disj: "ccr_key ` set (take k (lru_order rows)) \<inter> ccr_key ` set (drop k (lru_order rows)) = {}"
    using d by (metis distinct_append map_append set_map)
  have "set rows = set (take k (lru_order rows)) \<union> set (drop k (lru_order rows))"
    using split by (metis set_append set_lru_order)
  then have "{r \<in> set rows. ccr_key r \<notin> ccr_key ` set (take k (lru_order rows))} = set (drop k (lru_order rows))"
    using disj by blast
  then show ?thesis
    using False by (simp add: ccr_evict_lru_def lru_victims_def ccr_count_def k_def)
qed (simp add: ccr_evict_lru_def ccr_count_def)

lemma evict_rows: "snd (ccr_evict_lru n rows) = rows \<or> (\<exists>P. snd (ccr_evict_lru n rows) = rows_delete P rows)"
  by (auto simp: ccr_evict_lru_def)

lemma evict_distinct: "distinct (map ccr_key rows) \<Longrightarrow> distinct (map ccr_key (snd (ccr_evict_lru n rows)))"
  using evict_rows [of n rows] distinct_map_delete by metis

lemma evict_subset: "set (snd (ccr_evict_lru n rows)) \<subseteq> set rows"
  using evict_rows [of n rows] by auto

text \<open>The eviction bounds the table: it leaves the smaller of the table's size and the limit, reports how many
  rows it removed, and no removed row was retrieved more often (or as often and stored later) than a kept one.\<close>

theorem evict_bounds:
  assumes "distinct (map ccr_key rows)" "0 \<le> n"
  shows "int (length (snd (ccr_evict_lru n rows))) = min (int (length rows)) n \<and>
    fst (ccr_evict_lru n rows) + length (snd (ccr_evict_lru n rows)) = length rows \<and>
    (\<forall>gone \<in> set rows - set (snd (ccr_evict_lru n rows)). \<forall>kept \<in> set (snd (ccr_evict_lru n rows)). lru_le gone kept)"
proof (cases "int (length rows) \<le> n")
  case True
  then show ?thesis by (simp add: ccr_evict_lru_def ccr_count_def)
next
  case False
  define k where "k = nat (int (length rows) - n)"
  have d: "distinct rows" using assms(1) by (simp add: distinct_map)
  have do: "distinct (lru_order rows)" using d by (simp add: lru_order_def)
  have kept: "set (snd (ccr_evict_lru n rows)) = set (drop k (lru_order rows))"
    using evict_set [OF assms(1), of n] False by (simp add: k_def)
  have ds: "distinct (snd (ccr_evict_lru n rows))" using evict_distinct [OF assms(1), of n] by (simp add: distinct_map)
  have len: "length (snd (ccr_evict_lru n rows)) = length (drop k (lru_order rows))"
    using kept ds do by (metis distinct_card distinct_drop)
  have gone: "set rows - set (drop k (lru_order rows)) = set (take k (lru_order rows))"
    using do by (metis Diff_cancel Un_Diff append_take_drop_id set_append set_lru_order set_take_disj_set_drop_if_distinct order_refl
        Diff_triv Un_empty_right)
  have count: "fst (ccr_evict_lru n rows) + length (snd (ccr_evict_lru n rows)) = length rows"
    using False sum_length_filter_compl [of "\<lambda>r. ccr_key r \<in> set (lru_victims n rows)" rows]
    by (simp add: ccr_evict_lru_def ccr_count_def rowcount_def rows_delete_def)
  have "sorted_wrt lru_le (take k (lru_order rows) @ drop k (lru_order rows))" using sorted_lru_order by simp
  then have "\<forall>a \<in> set (take k (lru_order rows)). \<forall>b \<in> set (drop k (lru_order rows)). lru_le a b"
    unfolding sorted_wrt_append by blast
  then show ?thesis
    using False count len kept gone assms(2) by (auto simp: k_def)
qed

section \<open>The table\<close>

definition ccr_frozen :: "ccr_row \<Rightarrow> string \<times> string \<times> string \<times> moment \<times> nat \<times> string option \<times> string option" where
  "ccr_frozen r = (cr_hash r, cr_original r, cr_project r, cr_created_at r, cr_size_bytes r, cr_issuer_agent r, cr_issuer_session r)"

definition ccr_row_ok :: "(string \<Rightarrow> string) \<Rightarrow> ccr_row \<Rightarrow> bool" where
  "ccr_row_ok sha r \<longleftrightarrow>
     cr_hash r = sha (cr_original r) \<and> cr_size_bytes r = utf8_length (cr_original r) \<and>
     cr_verdict r = Some (scan_verdict (cr_original r)) \<and> (0 < cr_count r \<longleftrightarrow> cr_last_retrieved_at r \<noteq> None)"

definition ccr_inv :: "(string \<Rightarrow> string) \<Rightarrow> ccr_row list \<Rightarrow> bool" where
  "ccr_inv sha rows \<longleftrightarrow> distinct (map ccr_key rows) \<and> (\<forall>r \<in> set rows. ccr_row_ok sha r)"

text \<open>No cached text other than \<open>t\<close> has the hash of \<open>t\<close>.\<close>

definition no_collision :: "(string \<Rightarrow> string) \<Rightarrow> string \<Rightarrow> ccr_row list \<Rightarrow> bool" where
  "no_collision sha t rows \<longleftrightarrow> (\<forall>r \<in> set rows. cr_hash r = sha t \<longrightarrow> cr_original r = t)"

inductive ccr_step :: "(string \<Rightarrow> string) \<Rightarrow> (string \<Rightarrow> string) \<Rightarrow> ccr_config \<Rightarrow> moment \<Rightarrow> ccr_row list \<Rightarrow> ccr_row list \<Rightarrow> bool"
  for fr sha cfg where
  compress: "no_collision sha t rows \<Longrightarrow>
    ccr_step fr sha cfg now rows (snd (compress_content fr sha cfg now t profile project agent session version rows))"
| retrieve: "ccr_step fr sha cfg now rows (snd (retrieve_content cfg eng now mems q rows))"
| cleanup: "ccr_step fr sha cfg now rows (snd (cleanup cfg now rows))"
| purge: "ccr_step fr sha cfg now rows (snd (ccr_delete_all rows))"

lemma bump_frozen: "map ccr_frozen (ccr_bump now h p rows) = map ccr_frozen rows"
  by (simp add: ccr_bump_def rows_update_def ccr_frozen_def)

lemma key_frozen: "ccr_key r = (let (h, t, p, rest) = ccr_frozen r in (p, h))"
  by (simp add: ccr_key_def ccr_frozen_def)

lemma keys_from_frozen: "map ccr_frozen rows' = map ccr_frozen rows \<Longrightarrow> map ccr_key rows' = map ccr_key rows"
proof -
  have "map ccr_key rs = map (\<lambda>(h, t, p, rest). (p, h)) (map ccr_frozen rs)" for rs
    by (simp add: ccr_key_def ccr_frozen_def)
  then show "map ccr_frozen rows' = map ccr_frozen rows \<Longrightarrow> map ccr_key rows' = map ccr_key rows" by metis
qed

lemma bump_inv: "ccr_inv sha rows \<Longrightarrow> ccr_inv sha (ccr_bump now h p rows)"
  using keys_from_frozen [OF bump_frozen [of now h p rows]]
  by (auto simp: ccr_inv_def ccr_bump_def set_rows_update ccr_row_ok_def)

lemma delete_inv: "ccr_inv sha rows \<Longrightarrow> ccr_inv sha (rows_delete P rows)"
  by (auto simp: ccr_inv_def intro: distinct_map_delete)

lemma store_inv:
  assumes "ccr_inv sha rows" "no_collision sha t rows"
  shows "ccr_inv sha (ccr_store now (sha t) t p a s rows)"
proof (cases "(p, sha t) \<in> ccr_key ` set rows")
  case True
  have "\<forall>r \<in> set rows. ccr_key r = (p, sha t) \<longrightarrow> cr_original r = t" using assms(2) by (auto simp: no_collision_def ccr_key_def)
  moreover have "map ccr_key (rows_update (\<lambda>r. ccr_key r = (p, sha t)) (\<lambda>r. r\<lparr>cr_verdict := v, cr_scan_at := w\<rparr>) rows) = map ccr_key rows" for v w
    by (simp add: rows_update_def ccr_key_def)
  ultimately show ?thesis
    using assms(1) True by (auto simp: ccr_store_def ccr_inv_def set_rows_update ccr_row_ok_def)
next
  case False
  then show ?thesis
    using assms(1) by (auto simp: ccr_store_def ccr_inv_def ccr_row_ok_def ccr_key_def)
qed

lemma retrieve_rows:
  "snd (retrieve_content cfg eng now mems q rows) = rows \<or>
   (\<exists>p. snd (retrieve_content cfg eng now mems q rows) = ccr_bump now (rq_hash q) (Some p) rows)"
proof -
  have o: "snd (issue_original cfg now h r rows) = rows \<or> (\<exists>p. snd (issue_original cfg now h r rows) = ccr_bump now h (Some p) rows)" for h r
    by (auto simp: issue_original_def Let_def ccr_touch_def)
  have s: "snd (issue_snippets cfg now h r ss rows) = rows \<or> (\<exists>p. snd (issue_snippets cfg now h r ss rows) = ccr_bump now h (Some p) rows)" for h r ss
    by (auto simp: issue_snippets_def Let_def ccr_touch_def)
  have "snd (issue_row cfg now mems q r ss rows) = rows \<or>
      (\<exists>p. snd (issue_row cfg now mems q r ss rows) = ccr_bump now (rq_hash q) (Some p) rows)" for r ss
    using o [of "rq_hash q" r] s [of "rq_hash q" r] by (auto simp: issue_row_def split: option.splits)
  then show ?thesis
    by (auto simp: retrieve_content_def split: sum.splits option.splits prod.splits)
qed

lemma compress_rows:
  "snd (compress_content fr sha cfg now t profile project agent session version rows) = rows \<or>
   snd (compress_content fr sha cfg now t profile project agent session version rows) =
     snd (ccr_evict_lru (cc_max_entries cfg) (ccr_store now (sha t) t project agent session rows))"
  by (simp add: compress_content_def compress_def Let_def)

lemma evict_inv: "ccr_inv sha rows \<Longrightarrow> ccr_inv sha (snd (ccr_evict_lru n rows))"
  using evict_rows [of n rows] delete_inv by metis

lemma cleanup_rows: "snd (cleanup cfg now rows) =
    snd (ccr_evict_lru (cc_max_entries cfg) (rows_delete (ccr_expired now (cc_ttl_days cfg)) rows))"
  by (simp add: cleanup_def ccr_cleanup_ttl_def split: prod.split)

lemma ccr_step_inv: "ccr_step fr sha cfg now rows rows' \<Longrightarrow> ccr_inv sha rows \<Longrightarrow> ccr_inv sha rows'"
proof (induction rule: ccr_step.induct)
  case (compress t rows now profile project agent session version)
  then show ?case
    using compress_rows [of fr sha cfg now t profile project agent session version rows] evict_inv store_inv by metis
next
  case (retrieve now rows eng mems q)
  then show ?case using retrieve_rows [of cfg eng now mems q rows] bump_inv by metis
next
  case (cleanup now rows)
  then show ?case by (simp add: cleanup_rows evict_inv delete_inv)
qed (simp add: ccr_delete_all_def ccr_inv_def)

text \<open>The tables a history of operations can produce, the clock passing freely.\<close>

inductive ccr_reachable :: "(string \<Rightarrow> string) \<Rightarrow> (string \<Rightarrow> string) \<Rightarrow> ccr_config \<Rightarrow> ccr_row list \<Rightarrow> bool"
  for fr sha cfg where
  start: "ccr_reachable fr sha cfg []"
| step: "ccr_reachable fr sha cfg rows \<Longrightarrow> ccr_step fr sha cfg now rows rows' \<Longrightarrow> ccr_reachable fr sha cfg rows'"

lemma ccr_reachable_inv: "ccr_reachable fr sha cfg rows \<Longrightarrow> ccr_inv sha rows"
proof (induction rule: ccr_reachable.induct)
  case start
  then show ?case by (simp add: ccr_inv_def)
next
  case (step rows now rows')
  then show ?case by (blast intro: ccr_step_inv)
qed

text \<open>First writer owns: after any operation every row is either an old row with its text, project, hash, size,
  creation time and issuer as they were, or a row this operation stored for a pair that had none.\<close>

theorem ccr_first_writer_owns:
  assumes "ccr_step fr sha cfg now rows rows'" "r \<in> set rows'"
  shows "ccr_frozen r \<in> ccr_frozen ` set rows \<or>
    (cr_created_at r = now \<and> cr_count r = 0 \<and> ccr_key r \<notin> ccr_key ` set rows)"
  using assms
proof (induction rule: ccr_step.induct)
  case (compress t rows now profile project agent session version)
  have upd: "ccr_frozen (r\<lparr>cr_verdict := v, cr_scan_at := w\<rparr>) = ccr_frozen r" for r :: ccr_row and v w
    by (simp add: ccr_frozen_def)
  have new: "ccr_frozen r \<in> ccr_frozen ` set rows \<or> (cr_created_at r = now \<and> cr_count r = 0 \<and> ccr_key r \<notin> ccr_key ` set rows)"
    if st: "r \<in> set (ccr_store now (sha t) t project agent session rows)"
  proof (cases "(project, sha t) \<in> ccr_key ` set rows")
    case True
    obtain r0 where "r0 \<in> set rows" "r = r0 \<or> r = r0\<lparr>cr_verdict := Some (scan_verdict t), cr_scan_at := Some now\<rparr>"
      using st unfolding ccr_store_def if_P [OF True] set_rows_update by blast
    then have "r0 \<in> set rows \<and> ccr_frozen r = ccr_frozen r0" using upd by metis
    then show ?thesis by blast
  next
    case False
    then show ?thesis using st by (auto simp: ccr_store_def ccr_key_def)
  qed
  have "r \<in> set rows \<or> r \<in> set (ccr_store now (sha t) t project agent session rows)"
  proof -
    have "set (snd (compress_content fr sha cfg now t profile project agent session version rows)) \<subseteq>
        set rows \<union> set (ccr_store now (sha t) t project agent session rows)"
      using compress_rows [of fr sha cfg now t profile project agent session version rows]
        evict_subset [of "cc_max_entries cfg" "ccr_store now (sha t) t project agent session rows"] by (elim disjE) auto
    then show ?thesis using compress.prems by blast
  qed
  then have "ccr_frozen r \<in> ccr_frozen ` set rows \<or> (cr_created_at r = now \<and> cr_count r = 0 \<and> ccr_key r \<notin> ccr_key ` set rows)"
    using new by blast
  then show ?case .
next
  case (retrieve now rows eng mems q)
  then have "ccr_frozen r \<in> ccr_frozen ` set rows"
    using retrieve_rows [of cfg eng now mems q rows] bump_frozen by (metis image_eqI image_set)
  then show ?case ..
next
  case (cleanup now rows)
  then have "r \<in> set rows" using evict_subset by (fastforce simp: cleanup_rows)
  then show ?case by auto
qed (simp add: ccr_delete_all_def)

text \<open>C25. The table of every history of operations, none of which caches a text whose hash another cached text has:
  one row per project and hash; every row is keyed by the hash of the text it holds, carries the verdict of the scan
  of that text, and has a retrieval stamp exactly when it was issued.  And the first writer owns: whatever operation
  comes next, a row of its table has the text, project, hash, size, creation time and issuer of a row that was there, or
  is a row it stored for a pair of project and hash that had none.\<close>

theorem ccr_table_invariant:
  assumes "ccr_reachable fr sha cfg rows" "ccr_step fr sha cfg now rows rows'"
  shows "distinct (map (\<lambda>r. (cr_project r, cr_hash r)) rows') \<and>
    (\<forall>r \<in> set rows'. cr_hash r = sha (cr_original r) \<and> cr_size_bytes r = utf8_length (cr_original r) \<and>
       (cr_verdict r = Some ''clean'' \<longleftrightarrow> detect_secrets (cr_original r) = []) \<and>
       (0 < cr_count r \<longleftrightarrow> cr_last_retrieved_at r \<noteq> None) \<and>
       ((\<exists>r0 \<in> set rows. cr_hash r0 = cr_hash r \<and> cr_original r0 = cr_original r \<and> cr_project r0 = cr_project r \<and>
           cr_created_at r0 = cr_created_at r \<and> cr_size_bytes r0 = cr_size_bytes r \<and>
           cr_issuer_agent r0 = cr_issuer_agent r \<and> cr_issuer_session r0 = cr_issuer_session r) \<or>
        (cr_created_at r = now \<and> cr_count r = 0 \<and> (cr_project r, cr_hash r) \<notin> (\<lambda>r. (cr_project r, cr_hash r)) ` set rows)))"
proof -
  have key: "ccr_key = (\<lambda>r. (cr_project r, cr_hash r))" by (simp add: ccr_key_def fun_eq_iff)
  have inv: "ccr_inv sha rows'" by (rule ccr_step_inv [OF assms(2) ccr_reachable_inv [OF assms(1)]])
  have old: "ccr_frozen r \<in> ccr_frozen ` set rows \<or>
      (cr_created_at r = now \<and> cr_count r = 0 \<and> (cr_project r, cr_hash r) \<notin> (\<lambda>r. (cr_project r, cr_hash r)) ` set rows)"
    if "r \<in> set rows'" for r
    using ccr_first_writer_owns [OF assms(2) that] by (simp only: key)
  show ?thesis
  proof (intro conjI ballI)
    show "distinct (map (\<lambda>r. (cr_project r, cr_hash r)) rows')" using inv by (simp add: ccr_inv_def key)
    fix r assume r: "r \<in> set rows'"
    then have ok: "ccr_row_ok sha r" using inv by (simp add: ccr_inv_def)
    then show "cr_hash r = sha (cr_original r)" "cr_size_bytes r = utf8_length (cr_original r)"
      "cr_verdict r = Some ''clean'' \<longleftrightarrow> detect_secrets (cr_original r) = []"
      "0 < cr_count r \<longleftrightarrow> cr_last_retrieved_at r \<noteq> None"
      by (simp_all add: ccr_row_ok_def scan_verdict_def)
    show "(\<exists>r0 \<in> set rows. cr_hash r0 = cr_hash r \<and> cr_original r0 = cr_original r \<and> cr_project r0 = cr_project r \<and>
           cr_created_at r0 = cr_created_at r \<and> cr_size_bytes r0 = cr_size_bytes r \<and>
           cr_issuer_agent r0 = cr_issuer_agent r \<and> cr_issuer_session r0 = cr_issuer_session r) \<or>
        (cr_created_at r = now \<and> cr_count r = 0 \<and> (cr_project r, cr_hash r) \<notin> (\<lambda>r. (cr_project r, cr_hash r)) ` set rows)"
      using old [OF r]
    proof (elim disjE)
      assume "ccr_frozen r \<in> ccr_frozen ` set rows"
      then obtain r0 where "r0 \<in> set rows" "ccr_frozen r = ccr_frozen r0" by blast
      then show ?thesis by (intro disjI1 bexI [of _ r0]) (simp_all add: ccr_frozen_def)
    qed simp
  qed
qed

section \<open>Issuance\<close>

lemma scan_issuance_issues:
  "\<not> is_refused (scan_issuance b t) \<Longrightarrow>
     is_text (scan_issuance b t) = masked_text t (marks (detect_secrets t)) \<and> (b \<longrightarrow> detect_secrets t = []) \<and>
     is_redactions (scan_issuance b t) = length (detect_secrets t)"
  using redact_detected [of t] by (auto simp: scan_issuance_def Let_def marks_def split: sum.splits if_splits)

lemma lookup_SomeD:
  assumes "ccr_lookup h project rows = Some r"
  shows "r \<in> set rows \<and> cr_hash r = h \<and> (truthy project \<longrightarrow> cr_project r = the project)"
proof (cases "truthy project")
  case True
  with assms show ?thesis using row_find_SomeD [of ccr_key "(the project, h)" rows r] by (auto simp: ccr_lookup_def ccr_key_def)
next
  case False
  with assms obtain rest where "order_asc cr_created_at (filter (\<lambda>r. cr_hash r = h) rows) = r # rest"
    by (auto simp: ccr_lookup_def split: list.splits)
  then have "r \<in> set (order_asc cr_created_at (filter (\<lambda>r. cr_hash r = h) rows))" by (metis list.set_intros(1))
  then show ?thesis using False by simp
qed

text \<open>What strict mode asks of the caller of an issuer-stamped row.\<close>

definition proves_issuer :: "retrieve_request \<Rightarrow> ccr_row \<Rightarrow> bool" where
  "proves_issuer q r \<longleftrightarrow>
     truthy (rq_project q) \<and> rq_original_chars q = Some (int (length (cr_original r))) \<and>
     strip_or_none (rq_agent q) = cr_issuer_agent r \<and> strip_or_none (rq_session q) = cr_issuer_session r"

lemma strip_or_none_idem: "strip_or_none (Some (strip a)) = strip_or_none (Some a)"
  by (simp add: strip_or_none_def strip_strip)

lemma strip_or_none_twice: "strip_or_none (strip_or_none v) = strip_or_none v"
  by (auto simp: strip_or_none_def strip_strip split: option.splits)

lemma gate_passed:
  assumes "marker_gate cfg q rows = Inr None" "ccr_lookup (rq_hash q) (rq_project q) rows = Some r" "strict_request cfg q"
    "marker_shaped q"
  shows "proves_issuer q r \<and> truthy (cr_issuer_agent r)"
proof -
  have v: "validate_marker rows (rq_hash q) (rq_project q) (rq_original_chars q) (trusted_issuers q) = Inr None"
    using assms(1,3,4) by (simp add: marker_gate_def)
  have some: "strip_or_none (rq_agent q) \<noteq> None"
  proof
    assume "strip_or_none (rq_agent q) = None"
    then have "trusted_issuers q = []" by (simp add: trusted_issuers_def)
    with v show False by (auto simp: validate_marker_def Let_def split: if_splits option.splits)
  qed
  then obtain a where a: "strip_or_none (rq_agent q) = Some a" by auto
  then have sa: "strip a = a" by (auto simp: strip_or_none_def strip_strip split: option.splits if_splits)
  have t: "trusted_issuers q = [(a, strip_or_none (rq_session q))]" using a by (simp add: trusted_issuers_def)
  show ?thesis
    using v assms(2) unfolding t validate_marker_def
    by (auto simp: Let_def proves_issuer_def a sa strip_or_none_twice truthy_def split: if_splits option.splits)
qed

definition issued_for :: "ccr_config \<Rightarrow> row list \<Rightarrow> retrieve_request \<Rightarrow> ccr_row list \<Rightarrow> ccr_row \<Rightarrow> bool" where
  "issued_for cfg mems q rows r \<longleftrightarrow>
     r \<in> set rows \<and> cr_hash r = rq_hash q \<and> (truthy (rq_project q) \<longrightarrow> cr_project r = the (rq_project q)) \<and>
     (\<not> truthy (rq_project q) \<and> cc_require_project_match cfg \<longrightarrow> cr_project r = []) \<and>
     quarantine_retraction_for mems (cr_original r) = None \<and>
     (strict_request cfg q \<and> (marker_shaped q \<or> truthy (cr_issuer_agent r)) \<longrightarrow> proves_issuer q r \<and> truthy (cr_issuer_agent r))"

definition no_issue :: "retrieval \<Rightarrow> bool" where
  "no_issue out \<longleftrightarrow> (case out of Original t p n c k pats \<Rightarrow> False | Snippets ss p c k pats \<Rightarrow> False | _ \<Rightarrow> True)"

text \<open>An answer of a row: the full original, snippets, or nothing.\<close>

definition full_answer :: "ccr_config \<Rightarrow> ccr_row \<Rightarrow> retrieval \<Rightarrow> bool" where
  "full_answer cfg r out \<longleftrightarrow>
     (\<exists>pats. out = Original (masked_text (cr_original r) (marks (detect_secrets (cr_original r)))) (cr_project r)
        (cr_size_bytes r) (cr_count r + 1) (length (detect_secrets (cr_original r))) pats) \<and>
     (cc_refuse_on_secret cfg \<longrightarrow> detect_secrets (cr_original r) = [])"

text \<open>The part of every finding that a fragment at \<open>w\<close> shows, in the fragment's own positions.\<close>

definition clips :: "nat \<times> nat \<Rightarrow> secret_finding list \<Rightarrow> (nat \<times> nat \<times> string) list" where
  "clips w found =
     map (\<lambda>f. (max (sf_start f) (fst w) - fst w, min (sf_end f) (snd w) - fst w, redaction f)) (filter (finding_meets w) found)"

text \<open>What a snippet of the engine is issued as: withheld; or, every fragment of it being a piece of the original, the
  fragments with every finding in a window masked that reaches the margin around all of them (or the text's ends); or, where
  no finding meets a fragment, as it is.\<close>

definition snippet_shown :: "string \<Rightarrow> string \<times> rat \<Rightarrow> string \<times> rat \<Rightarrow> bool" where
  "snippet_shown original snip shown \<longleftrightarrow> snd shown = snd snip \<and>
     (fst shown = ''<REDACTED:snippet>'' \<or>
      (\<exists>spans a e found. found = detect_secrets (slice original a e) \<and>
         list_all2 (\<lambda>f (x, y). y = x + length f \<and> slice original x y = f) (fragments_of (fst snip)) spans \<and>
         (\<forall>(x, y) \<in> set spans. a \<le> x - 64 \<and> min (length original) (y + 64) \<le> e) \<and>
         (fst shown = fst snip \<and> (\<forall>(x, y) \<in> set spans. clips (x - a, y - a) found = []) \<or>
          fst shown = join FTS_SNIPPET_ELLIPSIS
            (map2 (\<lambda>f (x, y). masked_text f (clips (x - a, y - a) found)) (fragments_of (fst snip)) spans))))"

definition snippet_answer ::
  "ccr_config \<Rightarrow> snip_engine \<Rightarrow> retrieve_request \<Rightarrow> ccr_row list \<Rightarrow> ccr_row \<Rightarrow> retrieval \<Rightarrow> bool" where
  "snippet_answer cfg eng q rows r out \<longleftrightarrow> cr_verdict r \<noteq> Some ''hit'' \<and>
     (\<exists>snips ss k pats. query_snippets cfg eng q rows = Inr (Some snips) \<and>
        out = Snippets ss (cr_project r) (cr_count r + 1) k pats \<and>
        list_all2 (snippet_shown (cr_original r)) snips ss \<and> (cc_refuse_on_secret cfg \<longrightarrow> k = 0 \<and> ss = snips))"

text \<open>The redaction of a fragment masks what the fragment shows of the findings.\<close>

definition redact_loop :: "string \<Rightarrow> nat \<times> nat \<Rightarrow> string \<times> nat \<Rightarrow> secret_finding \<Rightarrow> string \<times> nat" where
  "redact_loop fragment w = (\<lambda>(out, cursor) f.
     if finding_meets w f then
       (out @ slice fragment cursor (max (sf_start f) (fst w) - fst w) @ redaction f,
        max cursor (min (sf_end f) (snd w) - fst w))
     else (out, cursor))"

lemma redact_fragment_loop:
  "redact_fragment found fragment w = (case foldl (redact_loop fragment w) ([], 0) found of (out, cursor) \<Rightarrow> out @ drop cursor fragment)"
  by (simp only: redact_fragment_def redact_loop_def)

lemma clips_ok:
  assumes "sorted_wrt (\<lambda>f g. sf_end f \<le> sf_start g) found" "\<forall>f \<in> set found. sf_start f < sf_end f" "fst w < snd w"
    and "\<forall>f \<in> set found. c \<le> max (sf_start f) (fst w) - fst w"
  shows "spans_ok (snd w - fst w) c (clips w found)"
  using assms(1,2,4)
proof (induction found arbitrary: c)
  case (Cons f fs)
  show ?case
  proof (cases "finding_meets w f")
    case True
    then have m: "sf_start f < snd w" "fst w < sf_end f" by (simp_all add: finding_meets_def)
    have "spans_ok (snd w - fst w) (min (sf_end f) (snd w) - fst w) (clips w fs)"
      using Cons.prems by (intro Cons.IH) auto
    moreover have "max (sf_start f) (fst w) - fst w < min (sf_end f) (snd w) - fst w"
      using m assms(3) Cons.prems(2) by (simp add: max_def min_def) arith
    moreover have "c \<le> max (sf_start f) (fst w) - fst w" using Cons.prems(3) by simp
    ultimately show ?thesis using True by (simp add: clips_def)
  next
    case False
    with Cons show ?thesis by (simp add: clips_def)
  qed
qed (simp add: clips_def)

lemma redact_loop_replace:
  "spans_ok (snd w - fst w) c (clips w found) \<Longrightarrow>
   (case foldl (redact_loop fragment w) (out, c) found of (out', c') \<Rightarrow> out' @ drop c' fragment) =
     out @ replace_spans fragment c (clips w found)"
proof (induction found arbitrary: out c)
  case (Cons f fs)
  show ?case
  proof (cases "finding_meets w f")
    case True
    with Cons.prems have ok: "c \<le> max (sf_start f) (fst w) - fst w"
      "max (sf_start f) (fst w) - fst w < min (sf_end f) (snd w) - fst w"
      "spans_ok (snd w - fst w) (min (sf_end f) (snd w) - fst w) (clips w fs)" by (simp_all add: clips_def)
    then have "max c (min (sf_end f) (snd w) - fst w) = min (sf_end f) (snd w) - fst w" by linarith
    with Cons.IH [OF ok(3)] True show ?thesis by (simp add: clips_def redact_loop_def)
  next
    case False
    with Cons show ?thesis by (simp add: clips_def redact_loop_def)
  qed
qed (simp add: clips_def)

lemma detected_disjoint:
  "sorted_wrt (\<lambda>f g. sf_end f \<le> sf_start g) (detect_secrets s)" "\<forall>f \<in> set (detect_secrets s). sf_start f < sf_end f"
proof -
  obtain le where "absorbed s (raw_findings s) (detect_secrets s, le)" using detect_secrets_absorbed by blast
  then show "sorted_wrt (\<lambda>f g. sf_end f \<le> sf_start g) (detect_secrets s)" "\<forall>f \<in> set (detect_secrets s). sf_start f < sf_end f"
    by (auto simp: absorbed_def finding_ok_def)
qed

lemma redact_fragment_masks:
  assumes "length fragment = snd w - fst w" "fragment \<noteq> []"
  shows "redact_fragment (filter P (detect_secrets s)) fragment w = masked_text fragment (clips w (filter P (detect_secrets s)))"
proof -
  have "fst w < snd w" using assms by (cases fragment) auto
  then have "spans_ok (snd w - fst w) 0 (clips w (filter P (detect_secrets s)))"
    using detected_disjoint [of s] by (intro clips_ok) (auto simp: sorted_wrt_filter)
  with redact_loop_replace [OF this, of fragment "[]"] replace_spans_masked [of fragment 0 "clips w (filter P (detect_secrets s))"] assms
  show ?thesis by (simp add: redact_fragment_loop masked_text_def)
qed

lemma clips_filter: "w \<in> set ws \<Longrightarrow> clips w (filter (\<lambda>f. list_ex (\<lambda>w. finding_meets w f) ws) found) = clips w found"
  by (induction found) (auto simp: clips_def list_ex_iff)

lemma unique_span_SomeD:
  assumes "unique_span original f = Some (x, y)"
  shows "y = x + length f \<and> slice original x y = f"
  using assms by (auto simp: unique_span_def find_str_def slice_def find_Some_iff split: option.splits if_splits)

lemma located:
  "\<forall>f \<in> set fs. unique_span original f \<noteq> None \<Longrightarrow>
   list_all2 (\<lambda>f (x, y). y = x + length f \<and> slice original x y = f) fs (List.map_filter (unique_span original) fs)"
proof (induction fs)
  case (Cons f fs)
  then obtain x y where u: "unique_span original f = Some (x, y)" by auto
  have xy: "y = x + length f \<and> slice original x y = f" by (rule unique_span_SomeD [OF u])
  from Cons have "list_all2 (\<lambda>f (x, y). y = x + length f \<and> slice original x y = f) fs (List.map_filter (unique_span original) fs)"
    by simp
  with u show ?case using conjunct1 [OF xy] conjunct2 [OF xy] by (simp add: map_filter_simps)
qed (simp add: map_filter_simps)

lemma fragment_not_Nil: "f \<in> set (fragments_of marked) \<Longrightarrow> f \<noteq> []"
  by (simp add: fragments_of_def)

lemma snippet_shownI:
  assumes "snd shown = snd snip"
    and "list_all2 (\<lambda>f (x, y). y = x + length f \<and> slice original x y = f) (fragments_of (fst snip)) spans"
    and "\<forall>(x, y) \<in> set spans. a \<le> x - 64 \<and> min (length original) (y + 64) \<le> e"
    and "fst shown = fst snip \<and> (\<forall>(x, y) \<in> set spans. clips (x - a, y - a) (detect_secrets (slice original a e)) = []) \<or>
       fst shown = join FTS_SNIPPET_ELLIPSIS
         (map2 (\<lambda>f (x, y). masked_text f (clips (x - a, y - a) (detect_secrets (slice original a e)))) (fragments_of (fst snip)) spans)"
  shows "snippet_shown original snip shown"
  unfolding snippet_shown_def
  by (rule conjI [OF assms(1)], rule disjI2, rule exI [of _ spans], rule exI [of _ a], rule exI [of _ e], rule exI,
      rule conjI [OF refl], rule conjI [OF assms(2)], rule conjI [OF assms(3)], rule assms(4))

lemma scan_snippet_shows:
  assumes "scan_snippet original snip = (shown, n, l, pats)"
  shows "snippet_shown original snip shown \<and> (n = 0 \<longrightarrow> shown = snip)"
proof (cases "offset_mapped_snippet_scan (fst snip) (Some original) = Snip_unlocalized")
  case True
  with assms show ?thesis by (auto simp: scan_snippet_def snippet_shown_def)
next
  case False
  define fs where "fs = fragments_of (fst snip)"
  define spans where "spans = List.map_filter (unique_span original) fs"
  obtain a e where w: "scan_window original spans = (a, e)" by fastforce
  define D where "D = detect_secrets (slice original a e)"
  define ws where "ws = map (\<lambda>(x, y). (x - a, y - a)) spans"
  define found where "found = filter (\<lambda>f. list_ex (\<lambda>w. finding_meets w f) ws) D"
  have loc: "fs \<noteq> []" "\<forall>f \<in> set fs. unique_span original f \<noteq> None"
    using False by (auto simp: offset_mapped_snippet_scan_def Let_def fs_def list_ex_iff split: if_splits)
  note at = located [OF loc(2), folded spans_def]
  have margin: "\<forall>(x, y) \<in> set spans. a \<le> x - 64 \<and> min (length original) (y + 64) \<le> e"
  proof (intro ballI, unfold split_paired_all split_conv)
    fix x y assume "(x, y) \<in> set spans"
    then have "Min (set (map fst spans)) \<le> x" "y \<le> Max (set (map snd spans))" by (force intro: Min_le Max_ge)+
    with w show "a \<le> x - 64 \<and> min (length original) (y + 64) \<le> e"
      by (auto simp: scan_window_def SNIPPET_SCAN_MARGIN_CHARS_def)
  qed
  have scan: "offset_mapped_snippet_scan (fst snip) (Some original) =
     (if found = [] then Snip_clean else Snip_redacted (join FTS_SNIPPET_ELLIPSIS (map2 (redact_fragment found) fs ws)) found)"
  proof -
    have "\<not> list_ex (\<lambda>f. unique_span original f = None) fs" using loc(2) by (auto simp: list_ex_iff)
    then show ?thesis
      using loc(1) w by (simp add: offset_mapped_snippet_scan_def Let_def fs_def [symmetric] spans_def [symmetric]
          ws_def [symmetric] D_def [symmetric] found_def [symmetric] del: not_None_eq)
  qed
  have clip: "clips (x - a, y - a) found = clips (x - a, y - a) D" if "(x, y) \<in> set spans" for x y
    unfolding found_def using that by (intro clips_filter) (force simp: ws_def)
  show ?thesis
  proof (cases "found = []")
    case True
    then have "\<forall>(x, y) \<in> set spans. clips (x - a, y - a) D = []" using clip by (auto simp: clips_def)
    moreover have "shown = snip" using assms True scan by (simp add: scan_snippet_def)
    ultimately show ?thesis
      using snippet_shownI [OF _ at [unfolded fs_def] margin, of shown] by (simp add: D_def)
  next
    case no: False
    have parts: "map2 (redact_fragment found) fs ws = map2 (\<lambda>f (x, y). masked_text f (clips (x - a, y - a) D)) fs spans"
    proof -
      have "redact_fragment found f (x - a, y - a) = masked_text f (clips (x - a, y - a) D)"
        if "(f, (x, y)) \<in> set (zip fs spans)" for f x y
      proof -
        have xy: "(x, y) \<in> set spans" "f \<in> set fs" using that by (auto dest: set_zip_rightD set_zip_leftD)
        have "y = x + length f" using at that by (auto simp: list_all2_iff)
        moreover have "a \<le> x" using margin xy(1) by fastforce
        ultimately have "redact_fragment found f (x - a, y - a) = masked_text f (clips (x - a, y - a) found)"
          unfolding found_def D_def using fragment_not_Nil [of f] xy(2) by (intro redact_fragment_masks) (auto simp: fs_def)
        then show ?thesis by (simp only: clip [OF xy(1)])
      qed
      then show ?thesis unfolding ws_def zip_map2 map_map by (intro map_cong refl) auto
    qed
    from assms no scan have "shown = (join FTS_SNIPPET_ELLIPSIS (map2 (redact_fragment found) fs ws), snd snip)" "n = length found"
      by (auto simp: scan_snippet_def)
    then have "snd shown = snd snip" "n \<noteq> 0"
      "fst shown = join FTS_SNIPPET_ELLIPSIS
         (map2 (\<lambda>f (x, y). masked_text f (clips (x - a, y - a) (detect_secrets (slice original a e)))) (fragments_of (fst snip)) spans)"
      using no parts by (simp_all add: fs_def D_def)
    then show ?thesis using snippet_shownI [OF _ at [unfolded fs_def] margin, of shown] by blast
  qed
qed

lemma issue_original_answer:
  "issue_original cfg now h r rows = (out, rows') \<Longrightarrow>
   full_answer cfg r out \<and> rows' = ccr_touch now h (Some (cr_project r)) rows \<or> no_issue out \<and> rows' = rows"
  using scan_issuance_issues [of "cc_refuse_on_secret cfg" "cr_original r"]
  by (auto simp: issue_original_def Let_def full_answer_def no_issue_def split: if_splits)

lemma issue_snippets_answer:
  assumes "issue_snippets cfg now (rq_hash q) r snips rows = (out, rows')" "query_snippets cfg eng q rows = Inr (Some snips)"
  shows "snippet_answer cfg eng q rows r out \<and> rows' = ccr_touch now (rq_hash q) (Some (cr_project r)) rows \<or>
    no_issue out \<and> rows' = rows"
proof -
  let ?scans = "map (scan_snippet (cr_original r)) snips"
  have one: "snippet_shown (cr_original r) s (fst (scan_snippet (cr_original r) s)) \<and>
      ((case scan_snippet (cr_original r) s of (t, n, l, p) \<Rightarrow> n) = 0 \<longrightarrow> fst (scan_snippet (cr_original r) s) = s)" for s
    using scan_snippet_shows by (cases "scan_snippet (cr_original r) s") fastforce
  then have shown: "list_all2 (snippet_shown (cr_original r)) snips (map fst ?scans)"
    by (simp add: list_all2_map2 list.rel_refl_strong)
  have kept: "map fst ?scans = snips" if "sum_list (map (\<lambda>(s, n, l, p). n) ?scans) = 0"
  proof -
    from that have "\<forall>s \<in> set snips. (case scan_snippet (cr_original r) s of (t, n, l, p) \<Rightarrow> n) = 0"
      by (simp add: split_def)
    with one show ?thesis by (simp add: map_idI)
  qed
  consider "no_issue out" "rows' = rows"
    | k pats where "cr_verdict r \<noteq> Some ''hit''" "k = sum_list (map (\<lambda>(s, n, l, p). n) ?scans)"
        "cc_refuse_on_secret cfg \<longrightarrow> k = 0" "out = Snippets (map fst ?scans) (cr_project r) (cr_count r + 1) k pats"
        "rows' = ccr_touch now (rq_hash q) (Some (cr_project r)) rows"
  proof (cases "cr_verdict r = Some ''hit'' \<or>
      (sum_list (map (\<lambda>(s, n, l, p). n) ?scans) \<noteq> 0 \<and> cc_refuse_on_secret cfg)")
    case True
    with assms(1) have "no_issue out" "rows' = rows" unfolding issue_snippets_def Let_def no_issue_def by (auto split: if_splits)
    then show ?thesis by (rule that(1))
  next
    case False
    then have "issue_snippets cfg now (rq_hash q) r snips rows =
      (Snippets (map fst ?scans) (cr_project r) (cr_count r + 1) (sum_list (map (\<lambda>(s, n, l, p). n) ?scans))
         (\<lambda>name. sum_list (map (\<lambda>(s, n, l, p). p name) ?scans)), ccr_touch now (rq_hash q) (Some (cr_project r)) rows)"
      unfolding issue_snippets_def Let_def by (simp only: if_False de_Morgan_disj simp_thms)
    with assms(1) have "out = Snippets (map fst ?scans) (cr_project r) (cr_count r + 1) (sum_list (map (\<lambda>(s, n, l, p). n) ?scans))
         (\<lambda>name. sum_list (map (\<lambda>(s, n, l, p). p name) ?scans))"
      "rows' = ccr_touch now (rq_hash q) (Some (cr_project r)) rows" by simp_all
    moreover have "cr_verdict r \<noteq> Some ''hit''"
      "cc_refuse_on_secret cfg \<longrightarrow> sum_list (map (\<lambda>(s, n, l, p). n) ?scans) = 0" using False by blast+
    ultimately show ?thesis using that(2) [OF _ refl] by blast
  qed
  then show ?thesis
  proof cases
    case (2 k pats)
    then have refuse: "cc_refuse_on_secret cfg \<longrightarrow> k = 0 \<and> map fst ?scans = snips" using kept by simp
    have "snippet_answer cfg eng q rows r out"
      unfolding snippet_answer_def
      by (intro conjI [OF 2(1)] exI [of _ snips] exI [of _ "map fst ?scans"] exI [of _ k] exI [of _ pats] conjI [OF assms(2)]
          conjI [OF 2(4)] conjI [OF shown] refuse)
    with 2(5) show ?thesis by simp
  qed simp
qed

definition row_admitted :: "ccr_config \<Rightarrow> row list \<Rightarrow> retrieve_request \<Rightarrow> ccr_row \<Rightarrow> bool" where
  "row_admitted cfg mems q r \<longleftrightarrow>
     quarantine_retraction_for mems (cr_original r) = None \<and>
     \<not> (strict_request cfg q \<and> \<not> marker_shaped q \<and> truthy (cr_issuer_agent r)) \<and>
     \<not> (\<not> truthy (rq_project q) \<and> cr_project r \<noteq> [] \<and> cc_require_project_match cfg)"

lemma issue_row_answer:
  assumes "issue_row cfg now mems q r snips rows = (out, rows')" "query_snippets cfg eng q rows = Inr snips"
  shows "row_admitted cfg mems q r \<and> (full_answer cfg r out \<or> snippet_answer cfg eng q rows r out) \<and>
      rows' = ccr_touch now (rq_hash q) (Some (cr_project r)) rows \<or> no_issue out \<and> rows' = rows"
proof (cases "row_admitted cfg mems q r")
  case True
  then have "issue_row cfg now mems q r snips rows =
     (case snips of Some ss \<Rightarrow> issue_snippets cfg now (rq_hash q) r ss rows | None \<Rightarrow> issue_original cfg now (rq_hash q) r rows)"
    by (auto simp: issue_row_def row_admitted_def split: option.splits)
  then show ?thesis
    using assms True issue_original_answer [of cfg now "rq_hash q" r rows out rows']
      issue_snippets_answer [of cfg now q r _ rows out rows' eng] by (cases snips) auto
next
  case False
  then have "no_issue (fst (issue_row cfg now mems q r snips rows)) \<and> snd (issue_row cfg now mems q r snips rows) = rows"
    by (auto simp: issue_row_def row_admitted_def no_issue_def split: option.splits)
  then show ?thesis using assms by simp
qed

lemma retrieve_cases:
  assumes "retrieve_content cfg eng now mems q rows = (out, rows')"
  obtains "no_issue out" "rows' = rows"
  | r snips where "ccr_lookup (rq_hash q) (rq_project q) rows = Some r" "marker_gate cfg q rows = Inr None"
    "query_snippets cfg eng q rows = Inr snips" "issue_row cfg now mems q r snips rows = (out, rows')"
proof (cases "\<exists>r snips. ccr_lookup (rq_hash q) (rq_project q) rows = Some r \<and> marker_gate cfg q rows = Inr None \<and>
    query_snippets cfg eng q rows = Inr snips")
  case True
  then obtain r snips where "ccr_lookup (rq_hash q) (rq_project q) rows = Some r" "marker_gate cfg q rows = Inr None"
    "query_snippets cfg eng q rows = Inr snips" by blast
  then show ?thesis using assms that(2) by (simp add: retrieve_content_def)
next
  case False
  then have "no_issue (fst (retrieve_content cfg eng now mems q rows)) \<and> snd (retrieve_content cfg eng now mems q rows) = rows"
    by (auto simp: retrieve_content_def no_issue_def split: sum.splits option.splits)
  then show ?thesis using assms that(1) by simp
qed

text \<open>C23. The issuance contract: content leaves the cache only for a row of the requested hash and scope, not
  quarantined, and in strict mode only to the issuer that proves itself with the length of the text; the full original
  leaves with every finding masked, and in refuse mode only without findings; snippets leave only from a row whose
  verdict is no hit, and what leaves are the engine's snippets for the query, one by one withheld, or masked wherever a finding
  of the scanned window around them meets what they show, and in refuse mode only untouched; and only then is the row's
  counter bumped, every other answer leaving the table as it was.\<close>

theorem issuance_contract:
  assumes "retrieve_content cfg eng now mems q rows = (out, rows')"
  shows "no_issue out \<and> rows' = rows \<or>
    (\<exists>r. issued_for cfg mems q rows r \<and> (full_answer cfg r out \<or> snippet_answer cfg eng q rows r out) \<and>
       rows' = ccr_touch now (cr_hash r) (Some (cr_project r)) rows)"
  using assms
proof (cases rule: retrieve_cases)
  case (2 r snips)
  note l = lookup_SomeD [OF 2(1)]
  have "issued_for cfg mems q rows r" if "row_admitted cfg mems q r"
  proof -
    have "proves_issuer q r \<and> truthy (cr_issuer_agent r)" if "strict_request cfg q" "marker_shaped q \<or> truthy (cr_issuer_agent r)"
      using that \<open>row_admitted cfg mems q r\<close> gate_passed [OF 2(2,1)] by (auto simp: row_admitted_def)
    then show ?thesis
      using \<open>row_admitted cfg mems q r\<close> l unfolding issued_for_def row_admitted_def by blast
  qed
  moreover have h: "rq_hash q = cr_hash r" using l by simp
  ultimately show ?thesis using issue_row_answer [OF 2(4,3)] unfolding h by blast
qed blast

section \<open>Compress, then retrieve\<close>

lemma cached_when:
  assumes "cc_enabled cfg" "cc_min_size_chars cfg \<le> int (length t)"
  shows "compress_content fr sha cfg now t profile project agent session version rows =
    compress fr sha cfg now t profile project agent session version rows"
  using assms(1) by (simp add: compress_content_def)

lemma compress_fresh:
  assumes "cc_enabled cfg" "cc_min_size_chars cfg \<le> int (length t)" "int (length rows) < cc_max_entries cfg"
    "(project, sha t) \<notin> ccr_key ` set rows"
  shows "snd (compress_content fr sha cfg now t profile project agent session version rows) =
    rows @ [\<lparr>cr_hash = sha t, cr_original = t, cr_project = project, cr_created_at = now,
          cr_size_bytes = utf8_length t, cr_count = 0, cr_last_retrieved_at = None,
          cr_verdict = Some (scan_verdict t), cr_scan_at = Some now,
          cr_issuer_agent = strip_or_none agent, cr_issuer_session = strip_or_none session\<rparr>]"
  using assms by (simp add: compress_content_def compress_def Let_def ccr_store_def ccr_evict_lru_def ccr_count_def)

lemma compress_text:
  assumes "cc_enabled cfg" "cc_min_size_chars cfg \<le> int (length t)"
  obtains body where
    "cp_text (fst (compress_content fr sha cfg now t profile project agent session version rows)) =
       build_marker (sha t) (length t) (length body) @ newline @ body"
    "cp_cached (fst (compress_content fr sha cfg now t profile project agent session version rows))"
    "cp_compressed_size (fst (compress_content fr sha cfg now t profile project agent session version rows)) = length body"
  using assms by (simp add: compress_content_def compress_def Let_def)

lemma compressed_size:
  "cc_enabled cfg \<Longrightarrow> cc_min_size_chars cfg \<le> int (length t) \<Longrightarrow>
   cp_compressed_size (fst (compress_content fr sha cfg now t profile project agent session version rows)) =
     length (fr_clean_content (apply_filter fr t profile (Some (cc_filter_budget cfg)) version))"
  by (simp add: compress_content_def compress_def Let_def)

definition redeem :: "marker \<Rightarrow> string \<Rightarrow> string \<Rightarrow> string option \<Rightarrow> retrieve_request" where
  "redeem mk project agent session =
     \<lparr>rq_hash = mk_hash mk, rq_query = None, rq_snippet_count = None, rq_project = Some project, rq_validate_marker = Some True,
      rq_original_chars = Some (mk_original mk), rq_agent = Some agent, rq_session = session\<rparr>"

text \<open>C24. Round trip of the cache, in strict mode: a text long enough to be cached is compressed for a project and an
  agent that are not empty, into a table that is not full and has no row yet for the project and the hash.  The marker
  at the head of the compressed text then parses, and redeemed by the same agent and session in the same project, with
  no operation in between, it returns the whole text, with the findings of the secret scan masked and nothing else
  changed -- unless the cache is set to refuse on a secret, or a quarantined memory holds the text.  (The hash is 64 hex
  digits, and the sizes have at most 4300 digits, as a marker's pattern and \<open>int\<close> take them.)  In a full table the row
  can be gone at once: see \<open>fresh_row_evicted\<close>.\<close>

theorem compress_retrieve_roundtrip:
  assumes "cc_enabled cfg" "cc_min_size_chars cfg \<le> int (length t)" "int (length rows) < cc_max_entries cfg"
    "(project, sha t) \<notin> ccr_key ` set rows" "project \<noteq> []" "strip agent \<noteq> []" "\<not> cc_refuse_on_secret cfg"
    "marker_hash (sha t)" "quarantine_retraction_for mems t = None" "length (nat_str (length t)) \<le> 4300"
    "compress_content fr sha cfg now t profile project (Some agent) session version rows = (c, rows')"
    "length (nat_str (cp_compressed_size c)) \<le> 4300"
  shows "\<exists>mk pats. parse_marker (cp_text c) = Inr (Some mk) \<and>
    fst (retrieve_content cfg eng later mems (redeem mk project agent session) rows') =
      Original (masked_text t (marks (detect_secrets t))) project (utf8_length t) 1 (length (detect_secrets t)) pats"
proof -
  obtain body where cpt: "cp_text c = build_marker (sha t) (length t) (length body) @ newline @ body"
    and size: "cp_compressed_size c = length body"
    using compress_text [OF assms(1,2)] assms(11) by (metis fst_conv)
  define mk where "mk = \<lparr>mk_hash = sha t, mk_original = int (length t), mk_compressed = int (length body),
    mk_span = (0, length (build_marker (sha t) (length t) (length body)))\<rparr>"
  have p: "parse_marker (cp_text c) = Inr (Some mk)"
    using parse_minted_at [OF assms(8,10), of "length body" "[]" "newline @ body"] assms(12)
    by (simp add: cpt mk_def size)
  define r where "r = \<lparr>cr_hash = sha t, cr_original = t, cr_project = project, cr_created_at = now,
          cr_size_bytes = utf8_length t, cr_count = 0, cr_last_retrieved_at = None,
          cr_verdict = Some (scan_verdict t), cr_scan_at = Some now,
          cr_issuer_agent = strip_or_none (Some agent), cr_issuer_session = strip_or_none session\<rparr>"
  have rows': "rows' = rows @ [r]"
    using compress_fresh [where sha = sha and t = t, OF assms(1-4), where agent = "Some agent"] assms(11) by (metis r_def snd_conv)
  have none: "row_find ccr_key (project, sha t) rows = None" using assms(4) by (simp add: row_find_None_iff)
  let ?q = "redeem mk project agent session"
  have look: "ccr_lookup (rq_hash ?q) (rq_project ?q) rows' = Some r"
    using none assms(5) by (simp add: redeem_def mk_def ccr_lookup_def truthy_def rows' row_find_append ccr_key_def r_def)
  have ag: "strip_or_none (Some agent) = Some (strip agent)" using assms(6) by (simp add: strip_or_none_def)
  have tr: "trusted_issuers ?q = [(strip agent, strip_or_none session)]"
    by (simp add: trusted_issuers_def redeem_def ag)
  have "validate_marker rows' (rq_hash ?q) (rq_project ?q) (rq_original_chars ?q) (trusted_issuers ?q) = Inr None"
    unfolding validate_marker_def tr look
    using assms(5,6) by (simp add: Let_def redeem_def truthy_def mk_def r_def ag strip_strip strip_or_none_twice)
  then have gate: "marker_gate cfg ?q rows' = Inr None"
    by (simp add: marker_gate_def)
  have adm: "row_admitted cfg mems ?q r"
    using assms(5,9) by (simp add: row_admitted_def r_def redeem_def marker_shaped_def truthy_def)
  have "query_snippets cfg eng ?q rows' = Inr None" by (simp add: query_snippets_def redeem_def)
  then have "retrieve_content cfg eng later mems ?q rows' = issue_row cfg later mems ?q r None rows'"
    by (simp add: retrieve_content_def gate look)
  also have "\<dots> = issue_original cfg later (sha t) r rows'"
    using adm by (auto simp: issue_row_def row_admitted_def redeem_def mk_def)
  finally have eq: "retrieve_content cfg eng later mems ?q rows' = issue_original cfg later (sha t) r rows'" .
  have "\<not> is_refused (scan_issuance False t)"
    using redact_detected [of t] by (auto simp: scan_issuance_def Let_def)
  then have "\<exists>pats. fst (issue_original cfg later (sha t) r rows') =
      Original (masked_text t (marks (detect_secrets t))) project (utf8_length t) 1 (length (detect_secrets t)) pats"
    using scan_issuance_issues [of False t] assms(7) by (simp add: issue_original_def Let_def r_def)
  then show ?thesis using p eq by metis
qed

text \<open>The eviction after a compression can take the row just stored: in a full table whose rows have all been
  retrieved the new row is the victim, and the marker handed out, reported as cached, cannot be redeemed.\<close>

theorem fresh_row_evicted:
  assumes "cc_enabled cfg" "cc_min_size_chars cfg \<le> int (length t)" "int (length rows) = cc_max_entries cfg"
    "(project, sha t) \<notin> ccr_key ` set rows" "\<forall>r \<in> set rows. 0 < cr_count r" "distinct (map ccr_key rows)" "project \<noteq> []"
    "compress_content fr sha cfg now t profile project agent session version rows = (c, rows')"
  shows "cp_cached c \<and> cp_hash c = sha t \<and> ccr_lookup (sha t) (Some project) rows' = None \<and> rows' = rows"
proof -
  define r where "r = \<lparr>cr_hash = sha t, cr_original = t, cr_project = project, cr_created_at = now,
          cr_size_bytes = utf8_length t, cr_count = 0, cr_last_retrieved_at = None,
          cr_verdict = Some (scan_verdict t), cr_scan_at = Some now,
          cr_issuer_agent = strip_or_none agent, cr_issuer_session = strip_or_none session\<rparr>"
  have st: "ccr_store now (sha t) t project agent session rows = rows @ [r]"
    using assms(4) by (simp add: ccr_store_def r_def)
  have key: "ccr_key r = (project, sha t)" by (simp add: ccr_key_def r_def)
  obtain x xs where o: "lru_order (rows @ [r]) = x # xs"
    using length_lru_order [of "rows @ [r]"] by (cases "lru_order (rows @ [r])") auto
  have "x = r"
  proof (rule ccontr)
    assume "x \<noteq> r"
    have s: "set (x # xs) = insert r (set rows)" using set_lru_order [of "rows @ [r]"] by (simp add: o)
    then have "x \<in> set rows" "r \<in> set xs" using \<open>x \<noteq> r\<close> by auto
    then have "lru_le x r" "0 < cr_count x" using sorted_lru_order [of "rows @ [r]"] assms(5) by (auto simp: o)
    then show False by (simp add: lru_le_def r_def)
  qed
  then have v: "lru_victims (cc_max_entries cfg) (rows @ [r]) = [(project, sha t)]"
    using assms(3) by (simp add: lru_victims_def ccr_count_def o key)
  have "rows_delete (\<lambda>x. ccr_key x = (project, sha t)) rows = rows"
    unfolding rows_delete_def filter_id_conv using assms(4) by force
  then have del: "snd (ccr_evict_lru (cc_max_entries cfg) (rows @ [r])) = rows"
    using assms(3) by (simp add: ccr_evict_lru_def ccr_count_def v) (simp add: rows_delete_def key)
  have "rows' = rows" "cp_cached c" "cp_hash c = sha t"
    using assms(1,2,8) by (auto simp: compress_content_def compress_def Let_def st del)
  moreover have "row_find ccr_key (project, sha t) rows = None" using assms(4) by (simp add: row_find_None_iff)
  ultimately show ?thesis using assms(7) by (simp add: ccr_lookup_def truthy_def)
qed

section \<open>Witnesses\<close>

definition cfg0 :: ccr_config where
  "cfg0 = \<lparr>cc_enabled = True, cc_ttl_days = 7, cc_max_entries = 100, cc_min_size_chars = 50, cc_snippet_count = 5,
     cc_filter_budget = 4096, cc_refuse_on_secret = False, cc_require_project_match = False, cc_validate_markers = True\<rparr>"

definition output0 :: string where
  "output0 = ''the cache keeps the whole text of a long tool output here''"

definition row0 :: ccr_row where
  "row0 = \<lparr>cr_hash = sample_hash, cr_original = ''short text'', cr_project = ''p'', cr_created_at = 0, cr_size_bytes = 10,
     cr_count = 0, cr_last_retrieved_at = None, cr_verdict = Some ''clean'', cr_scan_at = Some 0,
     cr_issuer_agent = Some ''a'', cr_issuer_session = None\<rparr>"

definition request0 :: retrieve_request where
  "request0 = \<lparr>rq_hash = sample_hash, rq_query = None, rq_snippet_count = None, rq_project = Some ''p'',
     rq_validate_marker = None, rq_original_chars = Some 10, rq_agent = Some ''a'', rq_session = None\<rparr>"

definition repr0 :: "string \<Rightarrow> string" where
  "repr0 s = s"

lemma no_secrets_short: "detect_secrets ''short text'' = []"
proof -
  have "list_all (\<lambda>(n, r). finditer r ''short text'' = []) SECRET_PATTERNS" "finditer BASE64_SPAN_RE ''short text'' = []"
    by code_simp+
  then have "raw_findings ''short text'' = []" by (auto simp: raw_findings_def list_all_iff)
  then show ?thesis by (simp add: detect_secrets_Nil)
qed

theorem evict_bounds_witness:
  "int (length (snd (ccr_evict_lru 1 [row0, row0\<lparr>cr_project := ''q''\<rparr>]))) = 1"
proof -
  have d: "distinct (map ccr_key [row0, row0\<lparr>cr_project := ''q''\<rparr>])" by (simp add: ccr_key_def row0_def)
  have "(0 :: int) \<le> 1" by simp
  from evict_bounds [OF d this] show ?thesis by simp
qed

theorem ccr_table_invariant_witness:
  "\<exists>rows :: ccr_row list. length rows = 1 \<and> (\<forall>r \<in> set rows. cr_hash r = sample_hash \<and> cr_size_bytes r = utf8_length (cr_original r))"
proof -
  let ?rows = "snd (compress_content repr0 (\<lambda>_. sample_hash) cfg0 0 output0 None ''p'' (Some ''a'') None ''1'' [])"
  have "length ?rows = 1"
    by (subst compress_fresh) (simp_all add: cfg0_def output0_def)
  moreover have "ccr_step repr0 (\<lambda>_. sample_hash) cfg0 0 [] ?rows"
    by (rule ccr_step.compress) (simp add: no_collision_def)
  from ccr_table_invariant [OF ccr_reachable.start this] have "\<forall>r \<in> set ?rows. cr_hash r = sample_hash \<and> cr_size_bytes r = utf8_length (cr_original r)"
    by blast
  ultimately show ?thesis by (intro exI [of _ ?rows]) blast
qed

theorem ccr_first_writer_owns_witness:
  "\<exists>rows'. row0\<lparr>cr_count := 1, cr_last_retrieved_at := Some 5\<rparr> \<in> set rows' \<and>
     ccr_frozen (row0\<lparr>cr_count := 1, cr_last_retrieved_at := Some 5\<rparr>) = ccr_frozen row0"
proof -
  let ?r = "row0\<lparr>cr_count := 1, cr_last_retrieved_at := Some 5\<rparr>"
  note no_secrets_short
  then have rows: "snd (retrieve_content cfg0 (\<lambda>_ _. SnipCorrupt) 5 [] request0 [row0]) = [?r]"
    by (simp add: retrieve_content_def marker_gate_def strict_request_def marker_shaped_def request0_def cfg0_def row0_def
        validate_marker_def trusted_issuers_def strip_or_none_def ccr_lookup_def ccr_key_def truthy_def Let_def query_snippets_def
        issue_row_def quarantine_retraction_for_def list_by_pipeline_state_def sql_limit_def sql_offset_def order_desc_def
        issue_original_def scan_issuance_def ccr_touch_def ccr_bump_def rows_update_def strip_def lstrip_def rstrip_def py_isspace_def)
  have "ccr_step repr0 (\<lambda>_. sample_hash) cfg0 5 [row0] (snd (retrieve_content cfg0 (\<lambda>_ _. SnipCorrupt) 5 [] request0 [row0]))"
    by (rule ccr_step.retrieve)
  then have "ccr_step repr0 (\<lambda>_. sample_hash) cfg0 5 [row0] [?r]" by (simp only: rows)
  from ccr_first_writer_owns [OF this, of ?r] have "ccr_frozen ?r = ccr_frozen row0 \<or> cr_count ?r = 0" by auto
  then show ?thesis by (intro exI [of _ "[?r]"]) simp
qed

theorem issuance_contract_witness:
  "\<exists>r out. retrieve_content cfg0 (\<lambda>_ _. SnipCorrupt) 5 [] request0 [row0] = (out, ccr_touch 5 (cr_hash r) (Some (cr_project r)) [row0]) \<and>
     issued_for cfg0 [] request0 [row0] r \<and> \<not> no_issue out"
proof -
  note no_secrets_short
  then have n: "\<not> no_issue (fst (retrieve_content cfg0 (\<lambda>_ _. SnipCorrupt) 5 [] request0 [row0]))"
    by (simp add: retrieve_content_def marker_gate_def strict_request_def marker_shaped_def request0_def cfg0_def row0_def
        validate_marker_def trusted_issuers_def strip_or_none_def ccr_lookup_def ccr_key_def truthy_def Let_def query_snippets_def
        issue_row_def quarantine_retraction_for_def list_by_pipeline_state_def sql_limit_def sql_offset_def order_desc_def
        issue_original_def scan_issuance_def no_issue_def strip_def lstrip_def rstrip_def py_isspace_def)
  obtain out rows' where e: "retrieve_content cfg0 (\<lambda>_ _. SnipCorrupt) 5 [] request0 [row0] = (out, rows')" by fastforce
  from issuance_contract [OF e] n e show ?thesis by auto
qed

theorem compress_retrieve_roundtrip_witness:
  "\<exists>mk pats. parse_marker (cp_text (fst (compress_content repr0 (\<lambda>_. sample_hash) cfg0 0 output0 (Some ''docs'') ''p'' (Some ''a'') None ''1'' []))) = Inr (Some mk) \<and>
    fst (retrieve_content cfg0 (\<lambda>_ _. SnipCorrupt) 5 [] (redeem mk ''p'' ''a'' None)
      (snd (compress_content repr0 (\<lambda>_. sample_hash) cfg0 0 output0 (Some ''docs'') ''p'' (Some ''a'') None ''1'' []))) =
      Original (masked_text output0 (marks (detect_secrets output0))) ''p'' (utf8_length output0) 1 (length (detect_secrets output0)) pats"
proof -
  obtain c rows' where c: "compress_content repr0 (\<lambda>_. sample_hash) cfg0 0 output0 (Some ''docs'') ''p'' (Some ''a'') None ''1'' [] = (c, rows')" by fastforce
  have "length (fr_clean_content (apply_filter repr0 output0 (Some ''docs'') (Some 4096) ''1'')) = 57" by code_simp
  moreover have "cc_filter_budget cfg0 = 4096" "cc_enabled cfg0" "cc_min_size_chars cfg0 \<le> int (length output0)"
    by (simp_all add: cfg0_def output0_def)
  ultimately have "cp_compressed_size (fst (compress_content repr0 (\<lambda>_. sample_hash) cfg0 0 output0 (Some ''docs'') ''p'' (Some ''a'') None ''1'' [])) = 57"
    using compressed_size by metis
  moreover have n: "length (nat_str 57) \<le> 4300" by code_simp
  ultimately have s: "length (nat_str (cp_compressed_size c)) \<le> 4300" using c by simp
  have l: "length output0 = 57" by (simp add: output0_def)
  have "quarantine_retraction_for [] output0 = None"
    by (simp add: quarantine_retraction_for_def list_by_pipeline_state_def sql_limit_def sql_offset_def order_desc_def)
  from compress_retrieve_roundtrip [OF _ _ _ _ _ _ _ _ this _ c s, of "\<lambda>_ _. SnipCorrupt" 5] show ?thesis
    unfolding c l using n by (simp add: cfg0_def l sample_hash_ok strip_def lstrip_def rstrip_def py_isspace_def)
qed

theorem fresh_row_evicted_witness:
  "ccr_lookup sample_hash (Some ''p'') (snd (compress_content repr0 (\<lambda>_. sample_hash) (cfg0\<lparr>cc_max_entries := 1\<rparr>) 0 output0 None ''p'' None None ''1''
     [row0\<lparr>cr_project := ''q'', cr_count := 1\<rparr>])) = None"
proof -
  obtain c rows' where c: "compress_content repr0 (\<lambda>_. sample_hash) (cfg0\<lparr>cc_max_entries := 1\<rparr>) 0 output0 None ''p'' None None ''1''
     [row0\<lparr>cr_project := ''q'', cr_count := 1\<rparr>] = (c, rows')" by fastforce
  from fresh_row_evicted [OF _ _ _ _ _ _ _ c] show ?thesis unfolding c
    by (simp add: cfg0_def output0_def ccr_key_def row0_def ccr_lookup_def truthy_def)
qed

end
