(* ===== verification/Search_Scope.thy ===== *)
theory Search_Scope
  imports Search
begin

text \<open>
  \<open>search\<close> of \<open>manager.py\<close>: the task filter, the scoped pass, the task-tag retry and the project
  fallback around \<open>search_core\<close>; and what a user query turns into on its way to FTS5.
\<close>

section \<open>The shape of a MATCH expression\<close>

text \<open>What FTS5 reads outside string literals, and whether the last literal is closed.\<close>

fun fts_outside :: "bool \<Rightarrow> string \<Rightarrow> bool \<times> string" where
  "fts_outside lit [] = (lit, [])"
| "fts_outside lit (c # s) =
     (if c = CHR 0x22 then fts_outside (\<not> lit) s
      else (case fts_outside lit s of (b, out) \<Rightarrow> (b, if lit then out else c # out)))"

lemma fts_outside_append:
  "fts_outside lit (x @ y) = (let (b, out) = fts_outside lit x; (b', out') = fts_outside b y in (b', out @ out'))"
  by (induction x arbitrary: lit) (auto split: prod.split)

lemma fts_outside_literal: "CHR 0x22 \<notin> set s \<Longrightarrow> fts_outside True s = (True, [])"
  by (induction s) auto

lemma fts_outside_prefix:
  "CHR 0x22 \<notin> set t \<Longrightarrow> fts_outside False (fts_quote_prefix t) = (False, ''*'')"
  by (simp add: fts_quote_prefix_def fts_outside_append fts_outside_literal)

lemma set_collapse_space: "set (collapse_space s) \<subseteq> insert (CHR '' '') (set s)"
  by (induction s rule: collapse_space.induct) (auto dest: set_dropWhileD)

lemma set_strip: "set (strip s) \<subseteq> set s"
  by (auto simp: strip_def lstrip_def rstrip_def dest!: set_dropWhileD)

lemma fts_sanitise_clean: "CHR 0x22 \<notin> set (fts_sanitise raw)"
proof -
  have "CHR 0x22 \<notin> set (collapse_space (map (\<lambda>c. if c \<in> set FTS5_SPECIAL_CHARS then CHR '' '' else c) raw))"
    using set_collapse_space [of "map (\<lambda>c. if c \<in> set FTS5_SPECIAL_CHARS then CHR '' '' else c) raw"]
    by (auto simp: FTS5_SPECIAL_CHARS_def split: if_splits)
  then show ?thesis unfolding fts_sanitise_def using set_strip by blast
qed

lemma fts_tokenize_clean: "t \<in> set (fts_tokenize q) \<Longrightarrow> CHR 0x22 \<notin> set t"
  using fts_sanitise_clean by (fastforce simp: fts_tokenize_def dict_fromkeys_def)

lemma fts_guard_sub: "set (fts_guard_tokens ts) \<subseteq> set ts"
  by (auto simp: fts_guard_tokens_def Let_def)

lemma set_hd_split_on: "set (hd (split_on c s)) \<subseteq> set s"
  by (induction s) (auto split: list.splits)

lemma fts_expand_outside:
  assumes "CHR 0x22 \<notin> set t"
  shows "fts_outside False (fts_expand_hyphen t) = (False, ''*'') \<or>
    fts_outside False (fts_expand_hyphen t) = (False, ''(* OR *)'')"
proof -
  have "fts_outside False (fts_quote_prefix (hd (split_on (CHR ''-'') t))) = (False, ''*'')"
    by (rule fts_outside_prefix) (use assms set_hd_split_on [of "CHR ''-''" t] in blast)
  then show ?thesis using assms by (auto simp: fts_expand_hyphen_def Let_def fts_outside_prefix fts_outside_append)
qed

lemma fts_outside_join:
  assumes "\<forall>t \<in> set ts. \<exists>u \<in> U. fts_outside False t = (False, u)" "fts_outside False sep = (False, sep)"
  shows "\<exists>us. length us = length ts \<and> set us \<subseteq> U \<and> fts_outside False (join sep ts) = (False, join sep us)"
  using assms(1)
proof (induction ts)
  case (Cons t ts)
  then obtain u us where u: "u \<in> U" "fts_outside False t = (False, u)" and us: "length us = length ts" "set us \<subseteq> U"
    "fts_outside False (join sep ts) = (False, join sep us)" by auto
  have "fts_outside False (join sep (t # ts)) = (False, join sep (u # us))"
    using u us assms(2) by (cases ts; cases us) (simp_all add: fts_outside_append)
  then show ?case using u us by (intro exI [of _ "u # us"]) simp
qed simp

lemma fts_no_match_outside: "fts_outside False fts_no_match = (False, [])"
  by code_simp

text \<open>C21. No character of a user query reaches FTS5 outside a string literal.\<close>

theorem fts_query_injection_safe:
  "\<exists>us. length us \<le> 8 \<and> set us \<subseteq> {''*'', ''(* OR *)''} \<and>
     fts_outside False (fts_query_v2 query) = (False, join '' AND '' us) \<and>
     (\<exists>vs. length vs \<le> 8 \<and> set vs \<subseteq> {''*'', ''(* OR *)''} \<and>
       fts_outside False (fts_join_or (fts_query_terms query)) = (False, join '' OR '' vs))"
proof -
  have *: "\<forall>t \<in> set (fts_query_terms query). \<exists>u \<in> {''*'', ''(* OR *)''}. fts_outside False t = (False, u)"
  proof
    fix t
    assume "t \<in> set (fts_query_terms query)"
    then obtain s where "t = fts_expand_hyphen s" "s \<in> set (fts_guard_tokens (fts_tokenize query))"
      by (auto simp: fts_query_terms_def dest: in_set_takeD)
    moreover then have "CHR 0x22 \<notin> set s" using fts_guard_sub fts_tokenize_clean by blast
    ultimately show "\<exists>u \<in> {''*'', ''(* OR *)''}. fts_outside False t = (False, u)"
      using fts_expand_outside by blast
  qed
  have n: "length (fts_query_terms query) \<le> 8" by (simp add: fts_query_terms_def FTS_TERM_CAP_def)
  have seps: "fts_outside False '' AND '' = (False, '' AND '')" "fts_outside False '' OR '' = (False, '' OR '')"
    by simp_all
  obtain us where us: "length us = length (fts_query_terms query)" "set us \<subseteq> {''*'', ''(* OR *)''}"
    "fts_outside False (join '' AND '' (fts_query_terms query)) = (False, join '' AND '' us)"
    using fts_outside_join [OF * seps(1)] by blast
  obtain vs where vs: "length vs = length (fts_query_terms query)" "set vs \<subseteq> {''*'', ''(* OR *)''}"
    "fts_outside False (join '' OR '' (fts_query_terms query)) = (False, join '' OR '' vs)"
    using fts_outside_join [OF * seps(2)] by blast
  have "fts_outside False (fts_query_v2 query) = (False, join '' AND '' us)"
    "fts_outside False (fts_join_or (fts_query_terms query)) = (False, join '' OR '' vs)"
    using us vs fts_no_match_outside by (cases "fts_query_terms query = []"; simp add: fts_query_v2_def fts_join_or_def Let_def)+
  with us vs n show ?thesis by (intro exI [of _ us] conjI exI [of _ vs]) simp_all
qed

section \<open>Search\<close>

datatype search_error = BadTask

definition TASK_SLUG_RE :: "string \<Rightarrow> bool" where
  "TASK_SLUG_RE = slug_re"

definition normalize_task_boundary :: "string \<Rightarrow> search_error + string" where
  "normalize_task_boundary task =
     (if starts_with task ''task:'' then Inl BadTask
      else (let n = normalize_task_slug task
            in if TASK_SLUG_RE n then Inr (''task:'' @ n) else Inl BadTask))"

definition get_all_tags :: "row list \<Rightarrow> string \<Rightarrow> nat" where
  "get_all_tags rs tag = sum_list (map (\<lambda>r. count_list (m_tags (mem r)) tag) rs)"

definition bare_slug_task_retry_tags :: "string list option \<Rightarrow> (string \<Rightarrow> nat) \<Rightarrow> string list option" where
  "bare_slug_task_retry_tags tags universe =
     (case tags of
        None \<Rightarrow> None
      | Some ts \<Rightarrow>
          if ts = [] \<or> list_ex (\<lambda>t. starts_with t ''task:'') ts then None
          else
            (let f = (\<lambda>t. if TASK_SLUG_RE t \<and> 0 < universe (''task:'' @ t) then ''task:'' @ t else t)
             in if list_ex (\<lambda>t. TASK_SLUG_RE t \<and> 0 < universe (''task:'' @ t)) ts then Some (map f ts) else None))"

text \<open>The tag filter of a request: the tags asked for and the minted task tag.\<close>

definition task_filter :: "string list option \<Rightarrow> string option \<Rightarrow> search_error + string list option" where
  "task_filter tags task =
     (case task of
        None \<Rightarrow> Inr tags
      | Some t \<Rightarrow> (case normalize_task_boundary t of
                      Inl e \<Rightarrow> Inl e
                    | Inr tag \<Rightarrow> Inr (Some ((case tags of None \<Rightarrow> [] | Some ts \<Rightarrow> ts) @ [tag]))))"

definition task_scoped :: "string list option \<Rightarrow> bool" where
  "task_scoped tags \<longleftrightarrow> (case tags of None \<Rightarrow> False | Some ts \<Rightarrow> list_ex (\<lambda>t. starts_with t ''task:'') ts)"

text \<open>The scoped pass and the task-tag retry.\<close>

definition scoped_passes :: "search_env \<Rightarrow> graph \<Rightarrow> search_query \<Rightarrow> search_result list" where
  "scoped_passes env g q =
     (let scoped = search_core env g q
      in (case (if scoped = [] then bare_slug_task_retry_tags (q_tags q) (get_all_tags (g_rows g)) else None) of
            None \<Rightarrow> scoped
          | Some ts \<Rightarrow> map (\<lambda>r. r\<lparr>sr_task_fallback := True\<rparr>) (search_core env g (q\<lparr>q_tags := Some ts\<rparr>))))"

definition scoped_query :: "search_query \<Rightarrow> string list option \<Rightarrow> search_query" where
  "scoped_query q tags =
     q\<lparr>q_project := (if truthy (q_project q) then Some (normalize_project_slug (the (q_project q))) else q_project q),
       q_tags := tags\<rparr>"

definition search :: "search_env \<Rightarrow> graph \<Rightarrow> search_query \<Rightarrow> string option \<Rightarrow> search_error + search_result list" where
  "search env g q0 task =
     (case task_filter (q_tags q0) task of
        Inl e \<Rightarrow> Inl e
      | Inr tags \<Rightarrow>
          (let q = scoped_query q0 tags; results = scoped_passes env g q
           in Inr (if truthy (q_project q) \<and> results = [] \<and> q_status q = None \<and> \<not> task_scoped tags
                   then map (\<lambda>r. r\<lparr>sr_project_fallback := True\<rparr>) (search_core env g (q\<lparr>q_project := None\<rparr>))
                   else results)))"

section \<open>Scopes\<close>

lemma lifecycle_gate_update [simp]:
  "lifecycle_gate (q\<lparr>q_project := p\<rparr>) = lifecycle_gate q" "lifecycle_gate (q\<lparr>q_tags := ts\<rparr>) = lifecycle_gate q"
  by (simp_all add: lifecycle_gate_def allowed_statuses_def fun_eq_iff)

text \<open>The tags of the second pass are those asked for, some of them minted as task tags.\<close>

lemma retry_tags:
  assumes "bare_slug_task_retry_tags (Some ts) u = Some ts'"
  shows "\<not> list_ex (\<lambda>t. starts_with t ''task:'') ts \<and> (\<exists>f. ts' = map f ts \<and> (\<forall>t. f t = t \<or> f t = ''task:'' @ t))"
proof -
  have "\<not> list_ex (\<lambda>t. starts_with t ''task:'') ts \<and>
      ts' = map (\<lambda>t. if TASK_SLUG_RE t \<and> 0 < u (''task:'' @ t) then ''task:'' @ t else t) ts"
    using assms by (simp add: bare_slug_task_retry_tags_def Let_def split: if_splits)
  then show ?thesis by (intro conjI exI [of _ "\<lambda>t. if TASK_SLUG_RE t \<and> 0 < u (''task:'' @ t) then ''task:'' @ t else t"]) auto
qed

definition tags_reached :: "search_query \<Rightarrow> search_result \<Rightarrow> bool" where
  "tags_reached q r \<longleftrightarrow>
     (case q_tags q of
        None \<Rightarrow> True
      | Some ts \<Rightarrow> list_all (\<lambda>t. t \<in> set (m_tags (sr_memory r)) \<or>
                     sr_task_fallback r \<and> (''task:'' @ t) \<in> set (m_tags (sr_memory r))) ts)"

text \<open>The three sources of a row of an answer: the scoped pass, the task-tag retry and the project fallback.\<close>

lemma search_result_cases:
  assumes "search env g q task = Inr rs" "r \<in> set rs"
  obtains (plain) tags where "task_filter (q_tags q) task = Inr tags" "r \<in> set (search_core env g (scoped_query q tags))"
  | (task_retry) tags x ts where "task_filter (q_tags q) task = Inr tags" "r = x\<lparr>sr_task_fallback := True\<rparr>"
      "x \<in> set (search_core env g ((scoped_query q tags)\<lparr>q_tags := Some ts\<rparr>))"
      "bare_slug_task_retry_tags tags (get_all_tags (g_rows g)) = Some ts"
  | (project) tags x where "task_filter (q_tags q) task = Inr tags" "r = x\<lparr>sr_project_fallback := True\<rparr>"
      "x \<in> set (search_core env g ((scoped_query q tags)\<lparr>q_project := None\<rparr>))"
      "truthy (q_project (scoped_query q tags))" "q_status q = None" "\<not> task_scoped tags"
proof -
  obtain tags where tags: "task_filter (q_tags q) task = Inr tags"
    using assms(1) by (auto simp: search_def split: sum.splits)
  define q' where "q' = scoped_query q tags"
  have st: "q_status q' = q_status q" "q_tags q' = tags" by (simp_all add: q'_def scoped_query_def)
  have res: "rs = (if truthy (q_project q') \<and> scoped_passes env g q' = [] \<and> q_status q' = None \<and> \<not> task_scoped tags
      then map (\<lambda>r. r\<lparr>sr_project_fallback := True\<rparr>) (search_core env g (q'\<lparr>q_project := None\<rparr>))
      else scoped_passes env g q')"
    using assms(1) tags by (simp add: search_def Let_def q'_def [symmetric])
  consider "r \<in> set (search_core env g q')"
    | x ts where "r = x\<lparr>sr_task_fallback := True\<rparr>" "x \<in> set (search_core env g (q'\<lparr>q_tags := Some ts\<rparr>))"
        "bare_slug_task_retry_tags tags (get_all_tags (g_rows g)) = Some ts"
    | x where "r = x\<lparr>sr_project_fallback := True\<rparr>" "x \<in> set (search_core env g (q'\<lparr>q_project := None\<rparr>))"
        "truthy (q_project q')" "q_status q = None" "\<not> task_scoped tags"
    using assms(2) unfolding res scoped_passes_def Let_def st by (auto split: if_splits option.splits)
  then show thesis by cases (use plain task_retry project tags in \<open>unfold q'_def\<close>, blast+)
qed

lemma scoped_query_fields [simp]:
  "q_tags (scoped_query q tags) = tags" "q_agent (scoped_query q tags) = q_agent q" "q_status (scoped_query q tags) = q_status q"
  "lifecycle_gate (scoped_query q tags) = lifecycle_gate q"
  "q_project (scoped_query q tags) = (if truthy (q_project q) then Some (normalize_project_slug (the (q_project q))) else q_project q)"
  by (simp_all add: scoped_query_def)

text \<open>C20. Every row of an answer passes the lifecycle, agent and status gates of the request and has its
  task tag.  It is of the project asked for, if the slug normalises to a non-empty one and the row does not
  carry the fallback mark, which no query with a status or a task scope produces; a project that normalises
  to the empty slug searches globally (\<open>blank_project_global\<close>).  It has the tags asked for; where it carries
  the mark of the task fallback, the task tag stands for the bare task slug among them.\<close>

theorem search_respects_scope:
  assumes "search env g q task = Inr rs" "r \<in> set rs"
  shows "lifecycle_gate q (sr_memory r) \<and>
    (truthy (q_agent q) \<longrightarrow> m_agent (sr_memory r) = the (q_agent q)) \<and>
    (q_status q \<noteq> None \<longrightarrow> m_status (sr_memory r) = the (q_status q)) \<and>
    (truthy (q_project q) \<and> normalize_project_slug (the (q_project q)) \<noteq> [] \<and> \<not> sr_project_fallback r \<longrightarrow>
       m_project (sr_memory r) = normalize_project_slug (the (q_project q))) \<and>
    (sr_project_fallback r \<longrightarrow> q_status q = None \<and> task = None \<and> truthy (q_project q)) \<and>
    tags_reached q r \<and>
    (\<forall>t. task = Some t \<longrightarrow> (''task:'' @ normalize_task_slug t) \<in> set (m_tags (sr_memory r)))"
proof -
  obtain tags where tags: "task_filter (q_tags q) task = Inr tags"
    using assms(1) by (auto simp: search_def split: sum.splits)
  define q' where "q' = scoped_query q tags"
  have q': "q_agent q' = q_agent q" "q_status q' = q_status q" "q_tags q' = tags" "lifecycle_gate q' = lifecycle_gate q"
    "q_project q' = (if truthy (q_project q) then Some (normalize_project_slug (the (q_project q))) else q_project q)"
    by (simp_all add: q'_def scoped_query_def)
  have task: "task_scoped tags \<and> (''task:'' @ normalize_task_slug t) \<in> set (the tags)" if "task = Some t" for t
    using tags that by (auto simp: task_filter_def normalize_task_boundary_def task_scoped_def Let_def starts_with_append
      split: if_splits sum.splits option.splits)
  consider (plain) "r \<in> set (search_core env g q')"
    | (task_retry) x ts where "r = x\<lparr>sr_task_fallback := True\<rparr>" "x \<in> set (search_core env g (q'\<lparr>q_tags := Some ts\<rparr>))"
        "bare_slug_task_retry_tags tags (get_all_tags (g_rows g)) = Some ts"
    | (project) x where "r = x\<lparr>sr_project_fallback := True\<rparr>" "x \<in> set (search_core env g (q'\<lparr>q_project := None\<rparr>))"
        "truthy (q_project q')" "q_status q = None" "\<not> task_scoped tags"
    using assms by (cases rule: search_result_cases) (use tags in \<open>auto simp: q'_def\<close>)
  note r_cases = this
  have asked: "set ts \<subseteq> set (the tags) \<and> tags \<noteq> None" if "q_tags q = Some ts" for ts
    using tags that by (cases task) (auto simp: task_filter_def that split: sum.splits)
  from r_cases show ?thesis
  proof cases
    case plain
    have g: "row_gate q' (sr_memory r)" "tags_gate q' (sr_memory r)" "\<not> sr_project_fallback r" "\<not> sr_task_fallback r"
      using search_core_gated [OF plain] by auto
    have reached: "tags_reached q r"
      using g(2) asked by (fastforce simp: tags_reached_def tags_gate_def q' list_all_iff split: option.splits)
    have "(''task:'' @ normalize_task_slug t) \<in> set (m_tags (sr_memory r))" if "task = Some t" for t
      using g(2) task [OF that] by (auto simp: tags_gate_def q' list_all_iff task_scoped_def split: option.splits)
    with g reached show ?thesis by (auto simp: row_gate_def q' truthy_def)
  next
    case (task_retry x ts)
    have g: "row_gate (q'\<lparr>q_tags := Some ts\<rparr>) (sr_memory x)" "\<forall>t \<in> set ts. t \<in> set (m_tags (sr_memory x))"
      "\<not> sr_project_fallback x"
      using search_core_gated [OF task_retry(2)] by (auto simp: tags_gate_def list_all_iff)
    obtain ts0 where ts0: "tags = Some ts0" using task_retry(3) by (cases tags) (auto simp: bare_slug_task_retry_tags_def)
    obtain f where f: "ts = map f ts0" "\<forall>t. f t = t \<or> f t = ''task:'' @ t" and nts: "\<not> task_scoped tags"
      using retry_tags [of ts0 _ ts] task_retry(3) by (auto simp: ts0 task_scoped_def)
    have "tags_reached q r"
    proof -
      have "t \<in> set (m_tags (sr_memory x)) \<or> (''task:'' @ t) \<in> set (m_tags (sr_memory x))"
        if "q_tags q = Some us" "t \<in> set us" for us t
      proof -
        have "f t \<in> set ts" using asked [OF that(1)] that(2) f(1) ts0 by auto
        then have "f t \<in> set (m_tags (sr_memory x))" using g(2) by blast
        then show ?thesis using f(2) by metis
      qed
      then show ?thesis by (auto simp: tags_reached_def task_retry(1) list_all_iff split: option.split)
    qed
    moreover have "task = None" using nts task by (cases task) auto
    ultimately show ?thesis using g by (auto simp: row_gate_def q' truthy_def task_retry(1))
  next
    case (project x)
    have g: "row_gate (q'\<lparr>q_project := None\<rparr>) (sr_memory x)" "tags_gate q' (sr_memory x)" "\<not> sr_task_fallback x"
      using search_core_gated [OF project(2)] by (auto simp: tags_gate_def)
    have "tags_reached q r"
      using asked g(2) by (fastforce simp: tags_reached_def tags_gate_def q' project(1) list_all_iff split: option.splits)
    moreover have "task = None" using project(5) task by (cases task) auto
    moreover have "truthy (q_project q)" using project(3) by (auto simp: q' split: if_splits)
    ultimately show ?thesis using g project(4) by (auto simp: row_gate_def q' truthy_def project(1))
  qed
qed


section \<open>Samples\<close>

definition sample_env :: search_env where
  "sample_env =
     \<lparr>se_fts = (\<lambda>e. Some [''a'']), se_vectors = (\<lambda>t n p. None), se_alpha = 1 / 2, se_graph_walk = True,
      se_feedback_apply = True\<rparr>"

definition sample_query :: "string option \<Rightarrow> search_query" where
  "sample_query p =
     \<lparr>q_text = ''x'', q_tags = None, q_project = p, q_agent = None, q_status = None, q_limit = 2, q_alpha = None,
      q_include_raw = False, q_refined_only = False\<rparr>"

definition same_outcome :: "string list option \<Rightarrow> search_error + search_result list \<Rightarrow> bool" where
  "same_outcome want got =
     (case (want, got) of (None, Inl e) \<Rightarrow> True | (Some is, Inr rs) \<Rightarrow> map result_id rs = is | _ \<Rightarrow> False)"

lemma sample_search:
  "same_outcome (Some [''a'']) (search sample_env sample_graph (sample_query (Some ''p'')) None)"
  by code_simp

theorem search_respects_scope_witness:
  "\<exists>rs r. search sample_env sample_graph (sample_query (Some ''p'')) None = Inr rs \<and> r \<in> set rs \<and>
     lifecycle_gate (sample_query (Some ''p'')) (sr_memory r)"
proof -
  obtain rs where rs: "search sample_env sample_graph (sample_query (Some ''p'')) None = Inr rs" "map result_id rs = [''a'']"
    using sample_search by (auto simp: same_outcome_def split: sum.splits)
  then obtain r where "r \<in> set rs" by (cases rs) auto
  with search_respects_scope [OF rs(1) this] rs(1) show ?thesis by blast
qed

theorem empty_graph_walk_neutral_witness:
  "search_core (sample_env\<lparr>se_graph_walk := True\<rparr>) sample_graph (sample_query (Some ''p'')) =
   search_core (sample_env\<lparr>se_graph_walk := False\<rparr>) sample_graph (sample_query (Some ''p''))"
  by (rule empty_graph_walk_neutral) (rule sample_get)

text \<open>A project that normalises to the empty slug: the search is global, and the row of another project
  carries no mark.\<close>

lemma blank_project_global:
  "(case search sample_env sample_graph (sample_query (Some ''  '')) None of
      Inl e \<Rightarrow> False
    | Inr rs \<Rightarrow> list_ex (\<lambda>r. m_project (sr_memory r) = ''p'' \<and> \<not> sr_project_fallback r) rs)"
  by code_simp

definition sample_edge :: "string \<Rightarrow> string \<Rightarrow> edge_kind \<Rightarrow> edge" where
  "sample_edge a b k = \<lparr>e_from = a, e_to = b, e_kind = k, e_created_at = 0, e_weight = 1, e_provenance = ''declared'',
     e_scope_project = None, e_scope_agent = None\<rparr>"

text \<open>A neighbour of the first anchor by \<open>relates_to\<close> and of the second by \<open>supersedes\<close> is filed under the
  second.\<close>

lemma first_anchor_loses:
  "map wc_anchor_pos (collect_walk_candidates
     [sample_edge ''a'' ''n'' RelatesTo, sample_edge ''b'' ''n'' Supersedes] [''a'', ''b''] {''a'', ''b''}) = [2]"
  by code_simp

text \<open>Ten uses lift a second-layer neighbour over an unused first-layer neighbour of the same anchor and weight.\<close>

lemma feedback_leaps_depth_decay:
  "walk_score (1 / 2) \<lparr>wc_id = ''n'', wc_anchor_pos = 1, wc_depth = 1, wc_weight = 1, wc_via_relates = True\<rparr>
       (feedback_boost_factor 0) <
   walk_score (1 / 2) \<lparr>wc_id = ''d'', wc_anchor_pos = 1, wc_depth = 2, wc_weight = 1, wc_via_relates = True\<rparr>
       (feedback_boost_factor 10)"
  by code_simp

end
