(* ===== verification/Lanes_Lens.thy ===== *)
theory Lanes_Lens
  imports Ccr_Cache Search_Scope "HOL-Library.List_Lexorder" "HOL-Library.Char_ord"
begin

text \<open>
  The lens presets of \<open>lens.py\<close>, the retrieval lanes and the awareness cursor keys of \<open>lanes.py\<close>, and what
  \<open>fnmatch\<close> and \<open>pathlib\<close> of the standard library contribute to the rule pinning of \<open>assemble.py\<close>.

  The lane telemetry (one trace row per recall) is left out.
\<close>

section \<open>Lenses\<close>

datatype lens = CODE

definition lens_value :: "lens \<Rightarrow> string" where
  "lens_value l = ''code''"

definition LENS_CONTENT_TYPE :: "lens \<Rightarrow> string" where
  "LENS_CONTENT_TYPE l = ''code''"

abbreviation word_char :: rx where
  "word_char \<equiv> ranges word_ranges []"

abbreviation ident :: rx where
  "ident \<equiv> Seq (ranges alpha ''_'') (star word_char)"

abbreviation not_paren :: rx where
  "not_paren \<equiv> Cls True [(40, 40), (41, 41)]"

definition call_evidence :: rx where
  "call_evidence =
     seqs [lit ''('',
           Ahead (seqs [star not_paren, alts [chars '',=*<>&|'', seqs [word_char, chars ''_.'', word_char]]]),
           star not_paren, lit '')'']"

definition CODE_EXTENSIONS :: rx where
  "CODE_EXTENSIONS =
     seqs [lit ''.'',
           alts (map lit [''py'', ''pyi'', ''ts'', ''tsx'', ''js'', ''jsx'', ''mjs'', ''rs'', ''go'', ''c'', ''h'', ''cc'', ''cpp'',
             ''java'', ''kt'', ''rb'', ''sh'', ''sql'', ''toml'']),
           Bound]"

abbreviation path_chars :: rx where
  "path_chars \<equiv> ranges word_ranges [CHR ''.'', CHR ''/'', CHR 0x5C, CHR ''-'']"

abbreviation fence :: rx where
  "fence \<equiv> chars [CHR 0x60, CHR 0x27, CHR 0x22]"

definition QUERY_CODE_SIGNALS :: "rx list" where
  "QUERY_CODE_SIGNALS =
     [seqs [Bound, alts [lit ''def'', lit ''function'', lit ''fn''], plus space, ident, star space, lit ''(''],
      seqs [Bound, lit ''class'', plus space, ident, star space, chars '':({''],
      seqs [Bound, ident, call_evidence],
      seqs [Bound, ident, lit ''.'', ident, call_evidence],
      alts [seqs [star path_chars, chars [CHR ''/'', CHR 0x5C], star path_chars, CODE_EXTENSIONS],
            seqs [fence, plus path_chars, CODE_EXTENSIONS, fence]],
      alts [lit ''=>'', lit ''::'']]"

datatype lens_error = UnknownLens string

definition resolve_lens :: "string option \<Rightarrow> lens_error + lens option" where
  "resolve_lens name =
     (case name of None \<Rightarrow> Inr None | Some n \<Rightarrow> if n = ''code'' then Inr (Some CODE) else Inl (UnknownLens n))"

definition lens_active :: "lens \<Rightarrow> string \<Rightarrow> bool" where
  "lens_active l query \<longleftrightarrow> list_ex (\<lambda>sig. rx_search sig query) QUERY_CODE_SIGNALS"

definition lens_admits :: "lens \<Rightarrow> string \<Rightarrow> string \<Rightarrow> bool" where
  "lens_admits l query content_type = (if \<not> lens_active l query then True else content_type = LENS_CONTENT_TYPE l)"

text \<open>What the comments of the signals promise, on their own examples.\<close>

lemma lens_signal_examples:
  "\<not> lens_active CODE ''compare node.js (the runtime)'' \<and> \<not> lens_active CODE ''package.json'' \<and>
   \<not> lens_active CODE ''obj.method(f(x))'' \<and> lens_active CODE ''src/vesmaro/lens.py'' \<and>
   lens_active CODE ''connect(host, port)'' \<and> lens_active CODE ''options(a, b, or c)'' \<and> lens_active CODE ''def f(x)''"
  by code_simp

section \<open>Lanes\<close>

datatype lane = L_RULES | L_DECISIONS | L_KNOWLEDGE | L_SYNTHESIZED

definition lane_value :: "lane \<Rightarrow> string" where
  "lane_value l =
     (case l of L_RULES \<Rightarrow> ''rules'' | L_DECISIONS \<Rightarrow> ''decisions'' | L_KNOWLEDGE \<Rightarrow> ''knowledge''
      | L_SYNTHESIZED \<Rightarrow> ''synthesized'')"

definition PRE_LLM_PINNED_LANES :: "lane list" where
  "PRE_LLM_PINNED_LANES = [L_RULES, L_DECISIONS, L_KNOWLEDGE]"

definition PRE_LLM_LANE_VALUES :: "string list" where
  "PRE_LLM_LANE_VALUES = map lane_value PRE_LLM_PINNED_LANES"

definition LANE_SORT_INDEX :: "(string \<times> nat) list" where
  "LANE_SORT_INDEX = [(''rules'', 0), (''decisions'', 1), (''knowledge'', 2), (''synthesized'', 3)]"

definition lane_sort_key :: "string \<Rightarrow> nat \<times> string" where
  "lane_sort_key l = (case map_of LANE_SORT_INDEX l of None \<Rightarrow> length LANE_SORT_INDEX | Some i \<Rightarrow> i, l)"

text \<open>The guard of the budget stage: \<open>False\<close> is its \<open>AssertionError\<close>.\<close>

fun foreign_lanes_tail_only :: "bool \<Rightarrow> string list \<Rightarrow> bool" where
  "foreign_lanes_tail_only seen_foreign [] = True"
| "foreign_lanes_tail_only seen_foreign (v # vs) =
     (if v \<notin> set PRE_LLM_LANE_VALUES then foreign_lanes_tail_only True vs
      else if seen_foreign then False
      else foreign_lanes_tail_only seen_foreign vs)"

definition governance_tag :: "lane \<Rightarrow> string option" where
  "governance_tag l =
     (case l of L_RULES \<Rightarrow> Some ''mnemos:rule'' | L_DECISIONS \<Rightarrow> Some ''mnemos:decision'' | _ \<Rightarrow> None)"

definition GOVERNANCE_TAGS :: "string list" where
  "GOVERNANCE_TAGS = [''mnemos:rule'', ''mnemos:decision'']"

definition LANE_RECALL_LIMIT :: int where
  "LANE_RECALL_LIMIT = 50"

definition B0_TYPE_BOOST_FACTOR :: rat where
  "B0_TYPE_BOOST_FACTOR = 10"

definition is_governance :: "memory \<Rightarrow> bool" where
  "is_governance m \<longleftrightarrow> list_ex (\<lambda>t. t \<in> set (m_tags m)) GOVERNANCE_TAGS"

datatype lane_error = NoDeterministicLeg lane

definition lane_filter :: "string \<Rightarrow> string \<Rightarrow> list_filter" where
  "lane_filter project tag =
     \<lparr>lf_source = None, lf_memory_type = None, lf_status = None, lf_project = Some project, lf_agent = None,
      lf_tags = [tag], lf_category = None, lf_since = None, lf_until = None\<rparr>"

definition deterministic_lane_results :: "lane \<Rightarrow> string \<Rightarrow> row list \<Rightarrow> lane_error + memory list" where
  "deterministic_lane_results l project rs =
     (case governance_tag l of
        None \<Rightarrow> Inl (NoDeterministicLeg l)
      | Some tag \<Rightarrow> Inr (filter is_context_admissible (list_all_rows LANE_RECALL_LIMIT 0 (lane_filter project tag) rs)))"

text \<open>One lane's new rows: those no earlier lane emitted.\<close>

fun emit_unseen :: "string list \<Rightarrow> memory list \<Rightarrow> memory list" where
  "emit_unseen seen [] = []"
| "emit_unseen seen (m # ms) =
     (if m_id m \<in> set seen then emit_unseen seen ms else m # emit_unseen (m_id m # seen) ms)"

definition lane_rows :: "lane \<Rightarrow> string \<Rightarrow> row list \<Rightarrow> memory list" where
  "lane_rows l project rs = (case deterministic_lane_results l project rs of Inl e \<Rightarrow> [] | Inr ms \<Rightarrow> ms)"

definition governance_lanes_recall :: "string \<Rightarrow> row list \<Rightarrow> (memory \<times> lane) list \<times> (string \<times> nat) list" where
  "governance_lanes_recall project rs =
     (let rules = emit_unseen [] (lane_rows L_RULES project rs);
          decisions = emit_unseen (map m_id rules) (lane_rows L_DECISIONS project rs)
      in (map (\<lambda>m. (m, L_RULES)) rules @ map (\<lambda>m. (m, L_DECISIONS)) decisions,
          [(''rules'', length rules), (''decisions'', length decisions)]))"

section \<open>Awareness cursors\<close>

definition AWARENESS_CURSOR_PREFIX :: string where
  "AWARENESS_CURSOR_PREFIX = ''awr:''"

definition AWARENESS_HEARTBEAT_CURSOR_PREFIX :: string where
  "AWARENESS_HEARTBEAT_CURSOR_PREFIX = ''awrh:''"

datatype cursor_error = EmptyComponent | EmptyCursor

definition prefixed :: "string \<Rightarrow> string" where
  "prefixed s = nat_str (length s) @ '':'' @ s"

definition awareness_cursor_key :: "string \<Rightarrow> string \<Rightarrow> string \<Rightarrow> cursor_error + string" where
  "awareness_cursor_key project agent session =
     (if strip project = [] \<or> strip agent = [] \<or> strip session = [] then Inl EmptyComponent
      else Inr (AWARENESS_CURSOR_PREFIX @ prefixed project @ '':'' @ prefixed agent @ '':'' @ prefixed session))"

definition awareness_heartbeat_cursor_key :: "string \<Rightarrow> string \<Rightarrow> cursor_error + string" where
  "awareness_heartbeat_cursor_key project agent =
     (if strip project = [] \<or> strip agent = [] then Inl EmptyComponent
      else Inr (AWARENESS_HEARTBEAT_CURSOR_PREFIX @ prefixed project @ '':'' @ prefixed agent))"

definition read_cursor :: "cursor_error + string \<Rightarrow> meta_row list \<Rightarrow> cursor_error + string option" where
  "read_cursor key ms = (case key of Inl e \<Rightarrow> Inl e | Inr k \<Rightarrow> Inr (get_meta ms k))"

definition write_cursor :: "cursor_error + string \<Rightarrow> string \<Rightarrow> moment \<Rightarrow> meta_row list \<Rightarrow> cursor_error + meta_row list" where
  "write_cursor key cursor now ms =
     (if strip cursor = [] then Inl EmptyCursor
      else (case key of Inl e \<Rightarrow> Inl e | Inr k \<Rightarrow> Inr (set_meta k cursor now ms)))"

definition read_awareness_cursor :: "string \<Rightarrow> string \<Rightarrow> string \<Rightarrow> meta_row list \<Rightarrow> cursor_error + string option" where
  "read_awareness_cursor project agent session = read_cursor (awareness_cursor_key project agent session)"

definition write_awareness_cursor ::
  "string \<Rightarrow> string \<Rightarrow> string \<Rightarrow> string \<Rightarrow> moment \<Rightarrow> meta_row list \<Rightarrow> cursor_error + meta_row list" where
  "write_awareness_cursor project agent session = write_cursor (awareness_cursor_key project agent session)"

definition read_awareness_heartbeat_cursor :: "string \<Rightarrow> string \<Rightarrow> meta_row list \<Rightarrow> cursor_error + string option" where
  "read_awareness_heartbeat_cursor project agent = read_cursor (awareness_heartbeat_cursor_key project agent)"

definition write_awareness_heartbeat_cursor ::
  "string \<Rightarrow> string \<Rightarrow> string \<Rightarrow> moment \<Rightarrow> meta_row list \<Rightarrow> cursor_error + meta_row list" where
  "write_awareness_heartbeat_cursor project agent = write_cursor (awareness_heartbeat_cursor_key project agent)"

section \<open>Paths and globs\<close>

definition path_parts :: "string \<Rightarrow> string list" where
  "path_parts file = filter (\<lambda>p. p \<noteq> [] \<and> p \<noteq> ''.'') (split_on (CHR ''/'') file)"

definition path_name :: "string \<Rightarrow> string" where
  "path_name file = (if path_parts file = [] then [] else last (path_parts file))"

text \<open>\<open>Path.stem\<close>: the name up to its last dot, unless the dot is its first or last character.\<close>

definition path_stem :: "string \<Rightarrow> string" where
  "path_stem file =
     (let n = path_name file
      in (case find (\<lambda>i. n ! i = CHR ''.'') (rev [0..<length n]) of
            None \<Rightarrow> n
          | Some i \<Rightarrow> if 0 < i \<and> i < length n - 1 then take i n else n))"

text \<open>A bracket expression of \<open>fnmatch\<close>: the pieces between the hyphens that make ranges, empty ranges removed.\<close>

function glob_chunks :: "nat \<Rightarrow> string \<Rightarrow> string list" where
  "glob_chunks from s =
     (case find (\<lambda>k. s ! k = CHR ''-'') [from..<length s] of
        None \<Rightarrow> [s]
      | Some k \<Rightarrow> take k s # glob_chunks 2 (drop (k + 1) s))"
  by pat_completeness auto
termination
  by (relation "measure (\<lambda>(n, s). length s)") (auto simp: find_Some_iff)

definition close_chunks :: "string list \<Rightarrow> string list" where
  "close_chunks cs =
     (if last cs = [] \<and> butlast cs \<noteq> [] then butlast (butlast cs) @ [last (butlast cs) @ ''-''] else cs)"

fun drop_empty_ranges :: "string list \<Rightarrow> string list" where
  "drop_empty_ranges [] = []"
| "drop_empty_ranges (c # cs) =
     (case drop_empty_ranges cs of
        [] \<Rightarrow> [c]
      | d # ds \<Rightarrow> if (of_char (hd d) :: nat) < of_char (last c) then (butlast c @ tl d) # ds else c # d # ds)"

abbreviation char_range :: "char \<Rightarrow> nat \<times> nat" where
  "char_range c \<equiv> (of_char c, of_char c)"

function chunk_ranges :: "string list \<Rightarrow> (nat \<times> nat) list" where
  "chunk_ranges [] = []"
| "chunk_ranges [c] = map char_range c"
| "chunk_ranges (c # d # ds) =
     (if c = [] then (45, 45) # chunk_ranges (d # ds)
      else map char_range (butlast c) @ [(of_char (last c), of_char (hd d))] @ chunk_ranges (tl d # ds))"
  by pat_completeness auto
termination
  by (relation "measure length") auto

definition bracket_rx :: "string \<Rightarrow> rx" where
  "bracket_rx body =
     (let neg = (body \<noteq> [] \<and> hd body = CHR ''!''); items = (if neg then tl body else body);
          cs = drop_empty_ranges (close_chunks (glob_chunks 1 items))
      in if concat cs = [] then Cls neg [] else Cls neg (chunk_ranges cs))"

definition bracket_end :: "string \<Rightarrow> nat option" where
  "bracket_end s =
     (let j = (if s \<noteq> [] \<and> hd s = CHR ''!'' then 1 else 0);
          j' = (if j < length s \<and> s ! j = CHR '']'' then j + 1 else j)
      in find (\<lambda>k. s ! k = CHR '']'') [j'..<length s])"

function glob_rx :: "string \<Rightarrow> rx list" where
  "glob_rx [] = []"
| "glob_rx (c # s) =
     (if c = CHR ''*'' then star (Cls True []) # glob_rx s
      else if c = CHR ''?'' then Cls True [] # glob_rx s
      else if c = CHR ''['' then
        (case bracket_end s of None \<Rightarrow> chars [c] # glob_rx s | Some j \<Rightarrow> bracket_rx (take j s) # glob_rx (drop (j + 1) s))
      else chars [c] # glob_rx s)"
  by pat_completeness auto
termination
  by (relation "measure length") auto

definition fnmatch :: "string \<Rightarrow> string \<Rightarrow> bool" where
  "fnmatch name pat \<longleftrightarrow> length name \<in> set (ends (seqs (glob_rx pat)) name 0)"

lemma fnmatch_examples:
  "fnmatch ''src/vesmaro/lens.py'' ''src/**'' \<and> fnmatch ''lens.py'' ''*.py'' \<and> \<not> fnmatch ''lens.pyc'' ''*.py'' \<and>
   fnmatch ''a-b'' ''[a-c][!0-9]b'' \<and> \<not> fnmatch ''b'' ''[c-a]'' \<and> fnmatch ''['' ''['' \<and> fnmatch '']'' ''[]]''"
  by code_simp

section \<open>Properties of lanes and cursors\<close>

lemma emit_unseen_subset: "set (emit_unseen seen ms) \<subseteq> set ms"
  by (induction seen ms rule: emit_unseen.induct) auto

lemma emit_unseen_distinct:
  "distinct (map m_id (emit_unseen seen ms)) \<and> set (map m_id (emit_unseen seen ms)) \<inter> set seen = {}"
  by (induction seen ms rule: emit_unseen.induct) auto

lemma lane_rows_admitted:
  assumes "m \<in> set (lane_rows l project rs)"
  shows "is_context_admissible m \<and> (\<exists>tag. governance_tag l = Some tag \<and> tag \<in> set (m_tags m))"
proof -
  obtain tag where t: "governance_tag l = Some tag"
    and m: "m \<in> set (filter is_context_admissible (list_all_rows LANE_RECALL_LIMIT 0 (lane_filter project tag) rs))"
    using assms by (auto simp: lane_rows_def deterministic_lane_results_def split: option.splits sum.splits)
  from m obtain r where "r \<in> set (filter (\<lambda>r. list_filter_matches (lane_filter project tag) (mem r)) rs)" "m = row_to_memory r"
    using set_sql_limit set_sql_offset by (fastforce simp: list_all_rows_def)
  then have "tag \<in> set (m_tags m)" by (auto simp: list_filter_matches_def lane_filter_def row_to_memory_def)
  with t m show ?thesis by auto
qed

lemma governance_recall_spec:
  assumes "governance_lanes_recall project rs = (hits, counts)"
  shows "distinct (map (m_id \<circ> fst) hits) \<and> (\<forall>(m, l) \<in> set hits. is_context_admissible m \<and>
    (\<exists>tag. governance_tag l = Some tag \<and> tag \<in> set (m_tags m)))"
proof -
  define rules where "rules = emit_unseen [] (lane_rows L_RULES project rs)"
  define decisions where "decisions = emit_unseen (map m_id rules) (lane_rows L_DECISIONS project rs)"
  have h: "hits = map (\<lambda>m. (m, L_RULES)) rules @ map (\<lambda>m. (m, L_DECISIONS)) decisions"
    using assms by (simp add: governance_lanes_recall_def Let_def rules_def decisions_def)
  have "distinct (map m_id rules)" "distinct (map m_id decisions)" "set (map m_id decisions) \<inter> set (map m_id rules) = {}"
    using emit_unseen_distinct unfolding rules_def decisions_def by blast+
  moreover have "set rules \<subseteq> set (lane_rows L_RULES project rs)" "set decisions \<subseteq> set (lane_rows L_DECISIONS project rs)"
    unfolding rules_def decisions_def by (rule emit_unseen_subset)+
  ultimately show ?thesis
    unfolding h using lane_rows_admitted by (auto simp: o_def)
qed

lemma lane_key_pinned: "v \<in> set PRE_LLM_LANE_VALUES \<longleftrightarrow> fst (lane_sort_key v) < 3"
  by (auto simp: PRE_LLM_LANE_VALUES_def PRE_LLM_PINNED_LANES_def lane_value_def lane_sort_key_def LANE_SORT_INDEX_def split: if_splits)

lemma sorted_lanes_tail_only:
  "sorted (map (fst \<circ> lane_sort_key) vs) \<Longrightarrow> (seen \<Longrightarrow> \<forall>v \<in> set vs. v \<notin> set PRE_LLM_LANE_VALUES) \<Longrightarrow>
   foreign_lanes_tail_only seen vs"
proof (induction seen vs rule: foreign_lanes_tail_only.induct)
  case (2 seen v vs)
  show ?case
  proof (cases "v \<in> set PRE_LLM_LANE_VALUES")
    case True
    then show ?thesis using 2 by auto
  next
    case False
    have "\<forall>w \<in> set vs. w \<notin> set PRE_LLM_LANE_VALUES"
    proof
      fix w assume "w \<in> set vs"
      then have "fst (lane_sort_key v) \<le> fst (lane_sort_key w)" using 2(3) by auto
      then show "w \<notin> set PRE_LLM_LANE_VALUES" using False by (auto simp: lane_key_pinned)
    qed
    then show ?thesis using 2(1) [OF False] 2(3) False by simp
  qed
qed simp

lemma length_prefixed_inj: "prefixed s @ x = prefixed t @ y \<Longrightarrow> s = t \<and> x = y"
proof -
  assume e: "prefixed s @ x = prefixed t @ y"
  have "split_on (CHR '':'') (nat_str n @ CHR '':'' # z) = nat_str n # split_on (CHR '':'') z" for n z
    by (rule split_on_append [OF nat_str_no_colon])
  then have "nat_str (length s) = nat_str (length t)" "split_on (CHR '':'') (s @ x) = split_on (CHR '':'') (t @ y)"
    using arg_cong [OF e, of "split_on (CHR '':'')"] by (simp_all add: prefixed_def)
  then have "length s = length t" "s @ x = t @ y" using nat_str_inj join_split_on by metis+
  then show ?thesis by simp
qed

lemma cursor_key_shape:
  "awareness_cursor_key p a s = Inr k \<Longrightarrow> k = ''awr:'' @ prefixed p @ '':'' @ prefixed a @ '':'' @ prefixed s @ []"
  by (auto simp: awareness_cursor_key_def AWARENESS_CURSOR_PREFIX_def split: if_splits)

lemma heartbeat_key_shape:
  "awareness_heartbeat_cursor_key p a = Inr k \<Longrightarrow> k = ''awrh:'' @ prefixed p @ '':'' @ prefixed a @ []"
  by (auto simp: awareness_heartbeat_cursor_key_def AWARENESS_HEARTBEAT_CURSOR_PREFIX_def split: if_splits)

text \<open>The key of a project, agent and session determines the three, the heartbeat key of a project and agent the
  two, and no key is of both kinds.\<close>

lemma cursor_key_inj:
  assumes "awareness_cursor_key p a s = Inr k" "awareness_cursor_key q b u = Inr k"
  shows "p = q \<and> a = b \<and> s = u"
proof -
  have "prefixed p @ '':'' @ prefixed a @ '':'' @ prefixed s @ [] = prefixed q @ '':'' @ prefixed b @ '':'' @ prefixed u @ []"
    using cursor_key_shape [OF assms(1)] cursor_key_shape [OF assms(2)] by simp
  from length_prefixed_inj [OF this] have p: "p = q" and r: "prefixed a @ '':'' @ prefixed s @ [] = prefixed b @ '':'' @ prefixed u @ []" by auto
  from length_prefixed_inj [OF r] have a: "a = b" and r2: "prefixed s @ [] = prefixed u @ []" by auto
  from length_prefixed_inj [OF r2] p a show ?thesis by simp
qed

lemma heartbeat_key_inj:
  assumes "awareness_heartbeat_cursor_key p a = Inr k" "awareness_heartbeat_cursor_key q b = Inr k"
  shows "p = q \<and> a = b"
proof -
  have "prefixed p @ '':'' @ prefixed a @ [] = prefixed q @ '':'' @ prefixed b @ []"
    using heartbeat_key_shape [OF assms(1)] heartbeat_key_shape [OF assms(2)] by simp
  from length_prefixed_inj [OF this] have p: "p = q" and r: "prefixed a @ [] = prefixed b @ []" by auto
  from length_prefixed_inj [OF r] p show ?thesis by simp
qed

lemma cursor_keys_apart:
  assumes "awareness_cursor_key p a s = Inr k"
  shows "awareness_heartbeat_cursor_key q b \<noteq> Inr k"
  using cursor_key_shape [OF assms] heartbeat_key_shape [of q b k] by auto

lemma read_other:
  assumes "k \<noteq> k'"
  shows "get_meta (set_meta k c now ms) k' = get_meta ms k'"
  using meta_kv.get_put_other [OF assms] .

text \<open>Cursors are isolated: a written cursor is read back for its project, agent and session, and the write changes
  what no other triple and no heartbeat pair reads, whatever colons their components contain.\<close>

theorem cursor_isolated:
  assumes "write_awareness_cursor p a s c now ms = Inr ms'"
  shows "read_awareness_cursor p a s ms' = Inr (Some c) \<and>
    (\<forall>q b u. (q, b, u) \<noteq> (p, a, s) \<longrightarrow> read_awareness_cursor q b u ms' = read_awareness_cursor q b u ms) \<and>
    (\<forall>q b. read_awareness_heartbeat_cursor q b ms' = read_awareness_heartbeat_cursor q b ms)"
proof -
  obtain k where k: "awareness_cursor_key p a s = Inr k" and ms': "ms' = set_meta k c now ms"
    using assms by (auto simp: write_awareness_cursor_def write_cursor_def split: sum.splits if_splits)
  have "read_awareness_cursor q b u ms' = read_awareness_cursor q b u ms" if "(q, b, u) \<noteq> (p, a, s)" for q b u
  proof (cases "awareness_cursor_key q b u")
    case (Inr k')
    then have "k \<noteq> k'" using k cursor_key_inj that by blast
    then show ?thesis by (simp add: read_awareness_cursor_def read_cursor_def Inr ms' read_other)
  qed (simp add: read_awareness_cursor_def read_cursor_def)
  moreover have "read_awareness_heartbeat_cursor q b ms' = read_awareness_heartbeat_cursor q b ms" for q b
  proof (cases "awareness_heartbeat_cursor_key q b")
    case (Inr k')
    then have "k \<noteq> k'" using cursor_keys_apart [OF k] by metis
    then show ?thesis by (simp add: read_awareness_heartbeat_cursor_def read_cursor_def Inr ms' read_other)
  qed (simp add: read_awareness_heartbeat_cursor_def read_cursor_def)
  ultimately show ?thesis
    by (simp add: read_awareness_cursor_def read_cursor_def k ms' meta_kv.get_put_same)
qed

theorem cursor_isolated_witness:
  "\<exists>ms'. write_awareness_cursor ''a:b'' ''c'' ''d'' ''cur'' 0 [] = Inr ms' \<and>
     read_awareness_cursor ''a:b'' ''c'' ''d'' ms' = Inr (Some ''cur'') \<and>
     read_awareness_cursor ''a'' ''b:c'' ''d'' ms' = read_awareness_cursor ''a'' ''b:c'' ''d'' []"
proof -
  have "\<exists>ms'. write_awareness_cursor ''a:b'' ''c'' ''d'' ''cur'' 0 [] = Inr ms'"
    by (simp add: write_awareness_cursor_def write_cursor_def awareness_cursor_key_def strip_def lstrip_def rstrip_def py_isspace_def)
  then obtain ms' where w: "write_awareness_cursor ''a:b'' ''c'' ''d'' ''cur'' 0 [] = Inr ms'" by blast
  from cursor_isolated [OF w] w show ?thesis by auto
qed

end
