(* ===== verification/Assembly.thy ===== *)
theory Assembly
  imports Lanes_Lens
begin

text \<open>
  \<open>assemble_context\<close> of \<open>assemble.py\<close>: the six stages recall, ccr, filter, scan, align and budget over a list of
  candidates, the registry of asynchronous results, and the session stamps of \<open>manager.py\<close>.

  A state holds what the assembly reads and writes: the memory graph (read only), the CCR cache, the
  session stamps and the asynchronous results.  The float printer, the search legs and the snippet engine are
  parameters, as are the fresh handle and the project-graph beacon line.
\<close>

section \<open>Vocabulary\<close>

definition VALID_MODES :: "string list" where
  "VALID_MODES = [''sync'', ''async'', ''code'', ''prose'']"

definition CONTENT_TYPE_MODES :: "string list" where
  "CONTENT_TYPE_MODES = [''code'', ''prose'']"

definition RECALL_DEPTH :: int where
  "RECALL_DEPTH = 10"

definition ASYNC_REGISTRY_CAP :: nat where
  "ASYNC_REGISTRY_CAP = 32"

definition RETRIEVAL_ISO_REGISTRY_CAP :: nat where
  "RETRIEVAL_ISO_REGISTRY_CAP = 10000"

record cand =
  ca_memory :: memory
  ca_score :: rat
  ca_search_type :: string
  ca_content_type :: string
  ca_content :: string
  ca_ccr_expanded :: bool
  ca_ccr_redactions :: nat
  ca_ccr_patterns :: "string \<Rightarrow> nat"
  ca_ccr_hashes :: "string list"
  ca_redactions :: nat
  ca_patterns :: "string \<Rightarrow> nat"
  ca_filter_profile :: "string option"
  ca_moved :: nat
  ca_lane :: string

definition new_cand :: "memory \<Rightarrow> rat \<Rightarrow> string \<Rightarrow> string \<Rightarrow> string \<Rightarrow> cand" where
  "new_cand m score search_type ct lane_name =
     \<lparr>ca_memory = m, ca_score = score, ca_search_type = search_type, ca_content_type = ct, ca_content = effective_content m,
      ca_ccr_expanded = False, ca_ccr_redactions = 0, ca_ccr_patterns = no_patterns, ca_ccr_hashes = [], ca_redactions = 0,
      ca_patterns = no_patterns, ca_filter_profile = None, ca_moved = 0, ca_lane = lane_name\<rparr>"

definition search_type :: "search_mode \<Rightarrow> string" where
  "search_type m = (case m of Hybrid \<Rightarrow> ''hybrid'' | FtsOnly \<Rightarrow> ''fts_only'')"

definition source_value :: "memory_source \<Rightarrow> string" where
  "source_value s =
     (case s of MANUAL \<Rightarrow> ''manual'' | WEB \<Rightarrow> ''web'' | FILE \<Rightarrow> ''file'' | MCP \<Rightarrow> ''mcp'' | OBSIDIAN \<Rightarrow> ''obsidian''
      | CLI \<Rightarrow> ''cli'' | RULE \<Rightarrow> ''rule'' | SYNTHESIZED \<Rightarrow> ''synthesized'')"

definition build_provenance :: "memory \<Rightarrow> string \<Rightarrow> string \<Rightarrow> string" where
  "build_provenance m retrieved project =
     join '' ''
       ([''[mnemos:'' @ m_id m, ''project='' @ (if m_project m \<noteq> [] then m_project m else project),
         ''status='' @ status_value (m_status m), ''origin='' @ source_value (m_source m)] @
        (case m_pipeline_state m of None \<Rightarrow> [] | Some ps \<Rightarrow> [''pipeline='' @ pipeline_state_value ps]) @
        [''v='' @ int_str (m_marker_version m), ''retrieved='' @ retrieved]) @ '']''"

datatype assemble_error =
    SessionRequired | ProjectMissing | InvalidMode string | BudgetTooSmall int | BlankQuery | BadLens lens_error
  | TaskPrefixed | BadTaskSlug | UnknownHandle | ForeignHandle | BothTreatments | ForeignLaneInside
  | SearchFailed search_error | MarkerFailed marker_error | RetrieveFailed

definition validate :: "string \<Rightarrow> string \<Rightarrow> int \<Rightarrow> string \<Rightarrow> assemble_error option" where
  "validate session project budget mode =
     (if session = [] \<or> strip session = [] then Some SessionRequired
      else if project = [] \<or> strip project = [] then Some ProjectMissing
      else if mode \<notin> set VALID_MODES then Some (InvalidMode mode)
      else if budget < 1 then Some (BudgetTooSmall budget)
      else None)"

section \<open>Stage 1: recall\<close>

text \<open>The content type of a row, and whether it was classified on the fly.\<close>

definition content_type_of :: "memory \<Rightarrow> string \<times> bool" where
  "content_type_of m =
     (case m_metadata m ''content_type'' of
        Some (JStr s) \<Rightarrow>
          if s = ''code'' \<or> s = ''prose'' then (s, False)
          else (if detect_profile (effective_content m) None = ''code'' then ''code'' else ''prose'', True)
      | _ \<Rightarrow> (if detect_profile (effective_content m) None = ''code'' then ''code'' else ''prose'', True))"

definition matches_apply_to :: "memory \<Rightarrow> string \<Rightarrow> bool" where
  "matches_apply_to m file =
     list_ex (\<lambda>tag. starts_with tag ''applyTo:'' \<and>
        (fnmatch file (drop (length ''applyTo:'') tag) \<or> fnmatch (path_name file) (drop (length ''applyTo:'') tag))) (m_tags m)"

definition applyto_partition :: "string \<Rightarrow> cand list \<Rightarrow> cand list" where
  "applyto_partition file cs =
     filter (\<lambda>c. matches_apply_to (ca_memory c) file) cs @ filter (\<lambda>c. \<not> matches_apply_to (ca_memory c) file) cs"

definition derived_query :: "string option \<Rightarrow> string option \<Rightarrow> string \<Rightarrow> string" where
  "derived_query query file project =
     (if truthy query then the query else if truthy file then path_stem (the file) else project)"

definition recall_query :: "string \<Rightarrow> string \<Rightarrow> string option \<Rightarrow> search_query" where
  "recall_query query project task =
     \<lparr>q_text = query, q_tags = (if truthy task then Some [''task:'' @ the task] else None), q_project = Some project,
      q_agent = None, q_status = None, q_limit = RECALL_DEPTH, q_alpha = None, q_include_raw = False, q_refined_only = False\<rparr>"

definition lane_cands :: "string \<Rightarrow> string option \<Rightarrow> string option \<Rightarrow> row list \<Rightarrow> cand list" where
  "lane_cands project task content_type rs =
     map (\<lambda>(m, l). new_cand m 1 ''lane'' (fst (content_type_of m)) (lane_value l))
       (filter (\<lambda>(m, l). (truthy task \<longrightarrow> (''task:'' @ the task) \<in> set (m_tags m)) \<and>
                        (content_type = None \<or> fst (content_type_of m) = the content_type))
          (fst (governance_lanes_recall project rs)))"

definition boosted :: "bool \<Rightarrow> search_result \<Rightarrow> rat" where
  "boosted type_boost r =
     (if type_boost \<and> is_governance (sr_memory r) then fl (sr_score r * B0_TYPE_BOOST_FACTOR) else sr_score r)"

definition knowledge_cands :: "bool \<Rightarrow> bool \<Rightarrow> string option \<Rightarrow> search_result list \<Rightarrow> cand list" where
  "knowledge_cands lanes_enabled type_boost content_type results =
     map (\<lambda>r. new_cand (sr_memory r) (boosted type_boost r) (search_type (sr_mode r)) (fst (content_type_of (sr_memory r))) ''knowledge'')
       (filter (\<lambda>r. \<not> (lanes_enabled \<and> is_governance (sr_memory r)) \<and>
                    (content_type = None \<or> fst (content_type_of (sr_memory r)) = the content_type)) results)"

text \<open>The pinning of rule rows for a file: over the whole list, or within each lane.\<close>

definition tail_lanes :: "cand list \<Rightarrow> string list" where
  "tail_lanes cs = filter (\<lambda>v. v \<notin> set PRE_LLM_LANE_VALUES) (rev (remdups (rev (map ca_lane cs))))"

definition pin_rules :: "bool \<Rightarrow> string option \<Rightarrow> cand list \<Rightarrow> cand list" where
  "pin_rules lanes_enabled file cs =
     (if \<not> truthy file then cs
      else if lanes_enabled then
        concat (map (\<lambda>v. applyto_partition (the file) (filter (\<lambda>c. ca_lane c = v) cs))
          (map lane_value PRE_LLM_PINNED_LANES @ tail_lanes cs))
      else applyto_partition (the file) cs)"

record recall_request =
  rr_project :: string
  rr_file :: "string option"
  rr_content_type :: "string option"
  rr_query :: "string option"
  rr_lanes :: bool
  rr_type_boost :: bool
  rr_task :: "string option"
  rr_lens :: "lens option"

record recall_stats =
  rs_query :: string
  rs_explicit :: bool
  rs_candidates :: nat
  rs_lens_active :: bool
  rs_lens_filtered :: nat

definition collected :: "recall_request \<Rightarrow> row list \<Rightarrow> search_result list \<Rightarrow> cand list" where
  "collected q rs results =
     (let cs = (if rr_lanes q then lane_cands (rr_project q) (rr_task q) (rr_content_type q) rs else []) @
               knowledge_cands (rr_lanes q) (rr_type_boost q) (rr_content_type q) results
      in if rr_type_boost q then sort_key (\<lambda>c. - ca_score c) cs else cs)"

definition projected :: "lens option \<Rightarrow> string \<Rightarrow> cand list \<Rightarrow> cand list" where
  "projected l query cs =
     (case l of
        None \<Rightarrow> cs
      | Some l \<Rightarrow> if lens_active l query then filter (\<lambda>c. lens_admits l query (ca_content_type c)) cs else cs)"

definition recall_stage :: "search_env \<Rightarrow> graph \<Rightarrow> recall_request \<Rightarrow> assemble_error + cand list \<times> recall_stats" where
  "recall_stage env g q =
     (let query = derived_query (rr_query q) (rr_file q) (rr_project q)
      in (case search env g (recall_query query (rr_project q) (rr_task q)) None of
            Inl e \<Rightarrow> Inl (SearchFailed e)
          | Inr results \<Rightarrow>
              (let cs = collected q (g_rows g) results; kept = projected (rr_lens q) query cs
               in Inr (pin_rules (rr_lanes q) (rr_file q) kept,
                       \<lparr>rs_query = query, rs_explicit = truthy (rr_query q), rs_candidates = length results,
                        rs_lens_active = (case rr_lens q of None \<Rightarrow> False | Some l \<Rightarrow> lens_active l query),
                        rs_lens_filtered = length cs - length kept\<rparr>))))"

section \<open>Stage 2: marker expansion\<close>

record ccr_stats =
  cs_markers_found :: nat
  cs_expanded :: nat
  cs_skipped_missing :: nat
  cs_skipped_budget :: nat
  cs_skipped_refused :: nat

definition no_ccr :: ccr_stats where
  "no_ccr = \<lparr>cs_markers_found = 0, cs_expanded = 0, cs_skipped_missing = 0, cs_skipped_budget = 0, cs_skipped_refused = 0\<rparr>"

definition expand_request :: "string \<Rightarrow> string option \<Rightarrow> string \<Rightarrow> marker \<Rightarrow> retrieve_request" where
  "expand_request project agent session mk =
     (let identity = (strip_or_none agent \<noteq> None \<and> strip session \<noteq> [])
      in \<lparr>rq_hash = mk_hash mk, rq_query = None, rq_snippet_count = None, rq_project = Some project, rq_validate_marker = None,
          rq_original_chars = (if identity then Some (mk_original mk) else None),
          rq_agent = (if identity then agent else None), rq_session = (if identity then Some session else None)\<rparr>)"

definition splice :: "string \<Rightarrow> nat \<times> nat \<Rightarrow> string \<Rightarrow> string" where
  "splice content place original = take (fst place) content @ original @ drop (snd place) content"

definition adopt :: "cand \<Rightarrow> string \<Rightarrow> string \<Rightarrow> nat \<Rightarrow> (string \<Rightarrow> nat) \<Rightarrow> cand" where
  "adopt c content h redactions patterns =
     c\<lparr>ca_content := content, ca_ccr_expanded := True, ca_ccr_redactions := redactions,
       ca_ccr_hashes := ca_ccr_hashes c @ [h],
       ca_ccr_patterns := (if redactions = 0 then ca_ccr_patterns c else patterns)\<rparr>"

text \<open>What is spliced in for an answer of the cache, if anything.\<close>

definition try_adopt :: "int \<Rightarrow> cand \<Rightarrow> marker \<Rightarrow> string \<Rightarrow> nat \<Rightarrow> (string \<Rightarrow> nat) \<Rightarrow> ccr_stats \<Rightarrow> cand \<times> ccr_stats" where
  "try_adopt budget c mk original redactions patterns st =
     (let content = splice (ca_content c) (mk_span mk) original
      in if budget < int (estimate_tokens content) then (c, st\<lparr>cs_skipped_budget := cs_skipped_budget st + 1\<rparr>)
         else (adopt c content (mk_hash mk) redactions patterns, st\<lparr>cs_expanded := cs_expanded st + 1\<rparr>))"

fun expand_cands ::
  "ccr_config \<Rightarrow> snip_engine \<Rightarrow> moment \<Rightarrow> row list \<Rightarrow> string \<Rightarrow> int \<Rightarrow> string option \<Rightarrow> string \<Rightarrow> cand list \<Rightarrow> ccr_stats \<Rightarrow>
   ccr_row list \<Rightarrow> (assemble_error + cand list \<times> ccr_stats) \<times> ccr_row list" where
  "expand_cands cfg eng now mems project budget agent session [] st rows = (Inr ([], st), rows)"
| "expand_cands cfg eng now mems project budget agent session (c # cs) st rows =
     (case parse_marker (ca_content c) of
        Inl e \<Rightarrow> (Inl (MarkerFailed e), rows)
      | Inr None \<Rightarrow>
          (case expand_cands cfg eng now mems project budget agent session cs st rows of
             (Inl e, rows2) \<Rightarrow> (Inl e, rows2)
           | (Inr (cs2, st2), rows2) \<Rightarrow> (Inr (c # cs2, st2), rows2))
      | Inr (Some mk) \<Rightarrow>
          (let st0 = st\<lparr>cs_markers_found := cs_markers_found st + 1\<rparr>;
               (out, rows1) = retrieve_content cfg eng now mems (expand_request project agent session mk) rows
           in (case out of
                 StoreFailed \<Rightarrow> (Inl RetrieveFailed, rows1)
               | GateRaised e \<Rightarrow> (Inl RetrieveFailed, rows1)
               | _ \<Rightarrow>
                   (let (c1, st1) =
                      (case out of
                         Refused f r n p \<Rightarrow> (c, st0\<lparr>cs_skipped_refused := cs_skipped_refused st0 + 1\<rparr>)
                       | Retracted t \<Rightarrow> try_adopt budget c mk t 0 no_patterns st0
                       | Original t p n k red pats \<Rightarrow> try_adopt budget c mk t red pats st0
                       | _ \<Rightarrow> (c, st0\<lparr>cs_skipped_missing := cs_skipped_missing st0 + 1\<rparr>))
                    in (case expand_cands cfg eng now mems project budget agent session cs st1 rows1 of
                          (Inl e, rows2) \<Rightarrow> (Inl e, rows2)
                        | (Inr (cs2, st2), rows2) \<Rightarrow> (Inr (c1 # cs2, st2), rows2))))))"

text \<open>Without expansion the markers are only counted.\<close>

fun count_markers :: "cand list \<Rightarrow> marker_error + nat" where
  "count_markers [] = Inr 0"
| "count_markers (c # cs) =
     (case parse_marker (ca_content c) of
        Inl e \<Rightarrow> Inl e
      | Inr mk \<Rightarrow> map_sum id (\<lambda>n. (if mk = None then 0 else 1) + n) (count_markers cs))"

definition ccr_stage ::
  "ccr_config \<Rightarrow> snip_engine \<Rightarrow> moment \<Rightarrow> row list \<Rightarrow> string \<Rightarrow> int \<Rightarrow> bool \<Rightarrow> string option \<Rightarrow> string \<Rightarrow> cand list \<Rightarrow>
   ccr_row list \<Rightarrow> (assemble_error + cand list \<times> ccr_stats) \<times> ccr_row list" where
  "ccr_stage cfg eng now mems project budget expand agent session cs rows =
     (if expand then expand_cands cfg eng now mems project budget agent session cs no_ccr rows
      else (case count_markers cs of
              Inl e \<Rightarrow> (Inl (MarkerFailed e), rows)
            | Inr n \<Rightarrow> (Inr (cs, no_ccr\<lparr>cs_markers_found := n\<rparr>), rows)))"

section \<open>Stages 3 to 5: filter, scan, align\<close>

definition filter_stage :: "(string \<Rightarrow> string) \<Rightarrow> string \<Rightarrow> cand list \<Rightarrow> cand list" where
  "filter_stage fr version =
     map (\<lambda>c. let f = apply_filter fr (ca_content c) None None version
              in c\<lparr>ca_content := fr_clean_content f, ca_filter_profile := Some (fr_profile f)\<rparr>)"

definition scan_cand :: "bool \<Rightarrow> cand \<Rightarrow> cand option" where
  "scan_cand refuse c =
     (let s = scan_issuance refuse (ca_content c)
      in if is_refused s then None
         else Some (c\<lparr>ca_content := is_text s, ca_redactions := is_redactions s + ca_ccr_redactions c,
                      ca_patterns := (\<lambda>name. ca_ccr_patterns c name + is_patterns s name)\<rparr>))"

definition scan_stage :: "bool \<Rightarrow> cand list \<Rightarrow> cand list" where
  "scan_stage refuse cs = List.map_filter (scan_cand refuse) cs"

definition align_stage :: "aligner_config \<Rightarrow> cand list \<Rightarrow> cand list" where
  "align_stage cfg =
     map (\<lambda>c. let a = align_prefix cfg (ca_content c) (ca_filter_profile c)
              in c\<lparr>ca_content := al_text a, ca_moved := al_moved a\<rparr>)"

section \<open>Stage 6: budget\<close>

record block =
  bl_memory :: memory
  bl_project :: string
  bl_score :: rat
  bl_search_type :: string
  bl_content_type :: string
  bl_provenance :: string
  bl_content :: string
  bl_tokens :: nat
  bl_redactions :: nat
  bl_patterns :: "string \<Rightarrow> nat"
  bl_ccr_expanded :: bool
  bl_ccr_hashes :: "string list"
  bl_lane :: "string option"

definition block_text :: "block \<Rightarrow> string" where
  "block_text b = bl_provenance b @ newline @ bl_content b"

definition block_of :: "bool \<Rightarrow> string \<Rightarrow> string \<Rightarrow> cand \<Rightarrow> block" where
  "block_of lanes_enabled project retrieved c =
     (let m = ca_memory c; p = build_provenance m retrieved project
      in \<lparr>bl_memory = m, bl_project = (if m_project m \<noteq> [] then m_project m else project), bl_score = ca_score c,
          bl_search_type = ca_search_type c, bl_content_type = ca_content_type c, bl_provenance = p,
          bl_content = ca_content c, bl_tokens = estimate_tokens (p @ newline @ ca_content c), bl_redactions = ca_redactions c,
          bl_patterns = ca_patterns c, bl_ccr_expanded = ca_ccr_expanded c, bl_ccr_hashes = ca_ccr_hashes c,
          bl_lane = (if lanes_enabled then Some (ca_lane c) else None)\<rparr>)"

text \<open>Python's sort by lane index, lane name and falling score, as three stable sorts.\<close>

definition lane_sorted :: "cand list \<Rightarrow> cand list" where
  "lane_sorted cs =
     sort_key (\<lambda>c. fst (lane_sort_key (ca_lane c))) (sort_key (\<lambda>c. snd (lane_sort_key (ca_lane c))) (sort_key (\<lambda>c. - ca_score c) cs))"

text \<open>The greedy fill: blocks included, blocks skipped and budget left.\<close>

fun fill :: "int \<Rightarrow> block list \<Rightarrow> block list \<times> nat \<times> int" where
  "fill remaining [] = ([], 0, remaining)"
| "fill remaining (b # bs) =
     (if remaining < int (bl_tokens b) then
        (case fill remaining bs of (inc, skipped, left) \<Rightarrow> (inc, skipped + 1, left))
      else
        (case fill (remaining - int (bl_tokens b)) bs of (inc, skipped, left) \<Rightarrow> (b # inc, skipped, left)))"

record budget_stats =
  bs_budget :: int
  bs_estimated :: int
  bs_skipped :: nat

definition budget_stage ::
  "int \<Rightarrow> string \<Rightarrow> string \<Rightarrow> bool \<Rightarrow> cand list \<Rightarrow> assemble_error + block list \<times> budget_stats" where
  "budget_stage budget project retrieved lanes_enabled cs0 =
     (let cs = (if lanes_enabled then lane_sorted cs0 else cs0)
      in if lanes_enabled \<and> \<not> foreign_lanes_tail_only False (map ca_lane cs) then Inl ForeignLaneInside
         else
           (case fill budget (map (block_of lanes_enabled project retrieved) cs) of
              (inc, skipped, left) \<Rightarrow>
                Inr (inc, \<lparr>bs_budget = budget, bs_estimated = budget - left, bs_skipped = skipped\<rparr>)))"

section \<open>The pipeline\<close>

record context_block =
  cb_session :: string
  cb_project :: string
  cb_file :: "string option"
  cb_mode :: string
  cb_content_type :: "string option"
  cb_text :: string
  cb_blocks :: "block list"
  cb_recall :: recall_stats
  cb_ccr :: ccr_stats
  cb_budget :: budget_stats
  cb_task :: "string option"
  cb_lens :: "string option"
  cb_handle :: "string option"

record asm_state =
  as_graph :: graph
  as_ccr :: "ccr_row list"
  as_stamps :: "(string \<times> string) list"
  as_async :: "(string \<times> context_block \<times> string) list"

record asm_env =
  ae_search :: search_env
  ae_snippets :: snip_engine
  ae_ccr :: ccr_config
  ae_aligner :: aligner_config
  ae_lanes :: bool
  ae_type_boost :: bool
  ae_repr :: "string \<Rightarrow> string"
  ae_filter_version :: string
  ae_beacon :: "string \<Rightarrow> string option"

record asm_request =
  ar_session :: string
  ar_project :: string
  ar_file :: "string option"
  ar_budget :: int
  ar_mode :: string
  ar_expand :: bool
  ar_handle :: "string option"
  ar_agent :: "string option"
  ar_query :: "string option"
  ar_task :: "string option"
  ar_lens :: "string option"

datatype asm_answer = Assembled context_block | Stored string

definition store_async_result ::
  "string \<Rightarrow> context_block \<Rightarrow> string \<Rightarrow> (string \<times> context_block \<times> string) list \<Rightarrow> (string \<times> context_block \<times> string) list" where
  "store_async_result handle result session registry =
     (let r = AList.update handle (result, session) registry in drop (length r - ASYNC_REGISTRY_CAP) r)"

definition fetch_async_result ::
  "string \<Rightarrow> string \<Rightarrow> (string \<times> context_block \<times> string) list \<Rightarrow>
   (assemble_error + context_block) \<times> (string \<times> context_block \<times> string) list" where
  "fetch_async_result handle session registry =
     (case map_of registry handle of
        None \<Rightarrow> (Inl UnknownHandle, registry)
      | Some (result, owner) \<Rightarrow>
          if owner \<noteq> session then (Inl ForeignHandle, registry) else (Inr result, AList.delete handle registry))"

definition retrieval_iso :: "moment \<Rightarrow> string \<Rightarrow> (string \<times> string) list \<Rightarrow> string \<times> (string \<times> string) list" where
  "retrieval_iso now session stamps =
     (case map_of stamps session of
        Some stamp \<Rightarrow> (stamp, stamps)
      | None \<Rightarrow>
          (let s = stamps @ [(session, isoformat now)] in (isoformat now, drop (length s - RETRIEVAL_ISO_REGISTRY_CAP) s)))"

definition check_request :: "asm_request \<Rightarrow> assemble_error + lens option" where
  "check_request q =
     (case validate (ar_session q) (ar_project q) (ar_budget q) (ar_mode q) of
        Some e \<Rightarrow> Inl e
      | None \<Rightarrow>
          if ar_query q \<noteq> None \<and> strip (the (ar_query q)) = [] then Inl BlankQuery
          else (case resolve_lens (ar_lens q) of
                  Inl e \<Rightarrow> Inl (BadLens e)
                | Inr l \<Rightarrow>
                    (case ar_task q of
                       None \<Rightarrow> Inr l
                     | Some t \<Rightarrow>
                         if starts_with t ''task:'' then Inl TaskPrefixed
                         else if \<not> TASK_SLUG_RE t then Inl BadTaskSlug
                         else Inr l)))"

definition recall_request_of :: "asm_env \<Rightarrow> asm_request \<Rightarrow> lens option \<Rightarrow> recall_request" where
  "recall_request_of env q l =
     \<lparr>rr_project = ar_project q, rr_file = ar_file q,
      rr_content_type = (if ar_mode q \<in> set CONTENT_TYPE_MODES then Some (ar_mode q) else None), rr_query = ar_query q,
      rr_lanes = ae_lanes env, rr_type_boost = ae_type_boost env, rr_task = ar_task q, rr_lens = l\<rparr>"

definition with_beacon :: "(string \<Rightarrow> string option) \<Rightarrow> string \<Rightarrow> string \<Rightarrow> string" where
  "with_beacon beacon project t =
     (case beacon project of
        None \<Rightarrow> t
      | Some line \<Rightarrow> if line = [] then t else if t \<noteq> [] then t @ newline @ newline @ line else line)"

text \<open>The six stages of one assembly, from the candidates to the block.\<close>

definition run_stages ::
  "asm_env \<Rightarrow> moment \<Rightarrow> asm_request \<Rightarrow> lens option \<Rightarrow> string \<Rightarrow> graph \<Rightarrow> ccr_row list \<Rightarrow>
   (assemble_error + context_block) \<times> ccr_row list" where
  "run_stages env now q l retrieved g ccr =
     (case recall_stage (ae_search env) g (recall_request_of env q l) of
        Inl e \<Rightarrow> (Inl e, ccr)
      | Inr (cs0, recall) \<Rightarrow>
          (case ccr_stage (ae_ccr env) (ae_snippets env) now (g_rows g) (ar_project q) (ar_budget q) (ar_expand q) (ar_agent q)
                  (ar_session q) cs0 ccr of
             (Inl e, ccr') \<Rightarrow> (Inl e, ccr')
           | (Inr (cs1, ccr_st), ccr') \<Rightarrow>
               (let cs2 = filter_stage (ae_repr env) (ae_filter_version env) cs1;
                    cs3 = scan_stage (cc_refuse_on_secret (ae_ccr env)) cs2;
                    cs4 = align_stage (ae_aligner env) cs3
                in (case budget_stage (ar_budget q) (ar_project q) retrieved (ae_lanes env) cs4 of
                      Inl e \<Rightarrow> (Inl e, ccr')
                    | Inr (blocks, budget_st) \<Rightarrow>
                        (Inr \<lparr>cb_session = ar_session q, cb_project = ar_project q, cb_file = ar_file q,
                           cb_mode = (if ar_mode q = ''async'' then ''async'' else ''sync''),
                           cb_content_type = rr_content_type (recall_request_of env q l),
                           cb_text = with_beacon (ae_beacon env) (ar_project q) (join (newline @ newline) (map block_text blocks)),
                           cb_blocks = blocks, cb_recall = recall, cb_ccr = ccr_st, cb_budget = budget_st,
                           cb_task = ar_task q, cb_lens = map_option lens_value l, cb_handle = None\<rparr>, ccr')))))"

definition assemble_context ::
  "asm_env \<Rightarrow> moment \<Rightarrow> string \<Rightarrow> asm_request \<Rightarrow> asm_state \<Rightarrow> (assemble_error + asm_answer) \<times> asm_state" where
  "assemble_context env now fresh q st =
     (case check_request q of
        Inl e \<Rightarrow> (Inl e, st)
      | Inr l \<Rightarrow>
          (case ar_handle q of
             Some h \<Rightarrow>
               (case fetch_async_result h (ar_session q) (as_async st) of
                  (Inl e, registry) \<Rightarrow> (Inl e, st)
                | (Inr result, registry) \<Rightarrow> (Inr (Assembled (result\<lparr>cb_handle := Some h\<rparr>)), st\<lparr>as_async := registry\<rparr>))
           | None \<Rightarrow>
               (let (retrieved, stamps) = retrieval_iso now (ar_session q) (as_stamps st); st1 = st\<lparr>as_stamps := stamps\<rparr>
                in if ae_lanes env \<and> ae_type_boost env then (Inl BothTreatments, st1)
                   else
                     (case run_stages env now q l retrieved (as_graph st1) (as_ccr st1) of
                        (Inl e, ccr) \<Rightarrow> (Inl e, st1\<lparr>as_ccr := ccr\<rparr>)
                      | (Inr result, ccr) \<Rightarrow>
                          if ar_mode q = ''async'' then
                            (Inr (Stored fresh), st1\<lparr>as_ccr := ccr,
                               as_async := store_async_result fresh result (ar_session q) (as_async st1)\<rparr>)
                          else (Inr (Assembled result), st1\<lparr>as_ccr := ccr\<rparr>)))))"

end
