(* ===== verification/Api_Auth.thy ===== *)
theory Api_Auth
  imports Prelude
begin

text \<open>
  Authentication of the REST interface: \<open>AuthStore\<close> of \<open>api/auth_store.py\<close> (bearer tokens, sessions, challenges), the
  endpoints \<open>login\<close>, \<open>verify\<close>, \<open>logout\<close> and \<open>me\<close> of \<open>api/auth.py\<close>, and \<open>AuthMiddleware.dispatch\<close> of
  \<open>api/middleware.py\<close>.

  One request reads the clock once.  SHA-256 is the parameter \<open>sha\<close>, the decryption of a stored TOTP secret \<open>dec\<close>
  (\<open>None\<close> on a wrong key), and \<open>code_at secret step\<close> the code of a secret in a thirty-second step; \<open>pyotp\<close>'s
  \<open>verify(code, valid_window=1)\<close> accepts the codes of the current step and of its two neighbours.  Fresh
  identifiers and secrets are arguments.
\<close>

section \<open>Tables\<close>

definition TOKEN_PREFIX :: string where
  "TOKEN_PREFIX = ''mnk_''"

definition LOCKOUT_MINUTES :: int where
  "LOCKOUT_MINUTES = 15"

definition LOGIN_LOCKOUT_THRESHOLD :: nat where
  "LOGIN_LOCKOUT_THRESHOLD = 10"

definition TOTP_LOCKOUT_THRESHOLD :: nat where
  "TOTP_LOCKOUT_THRESHOLD = 3"

definition CHALLENGE_MAX_ATTEMPTS :: nat where
  "CHALLENGE_MAX_ATTEMPTS = 5"

definition CHALLENGE_TTL_SEC :: int where
  "CHALLENGE_TTL_SEC = 120"

definition MAX_SESSION_LIFETIME_SEC :: int where
  "MAX_SESSION_LIFETIME_SEC = 7 * 24 * 3600"

record auth_token =
  tk_id :: string
  tk_sha :: string
  tk_name :: "string option"
  tk_totp_blob :: "string option"
  tk_created_at :: moment
  tk_expires_at :: "iso_text option"
  tk_disabled_at :: "iso_text option"
  tk_failures :: nat
  tk_totp_failures :: nat
  tk_last_step :: "int option"
  tk_revoked :: bool
  tk_totp_required :: bool

record auth_session =
  ss_sha :: string
  ss_token :: string
  ss_created_at :: moment
  ss_expires_at :: moment
  ss_last_seen_at :: moment
  ss_client_ip :: "string option"

record challenge =
  ch_id :: string
  ch_token :: string
  ch_created_at :: moment
  ch_expires_at :: moment
  ch_attempts :: nat

record auth_db =
  db_tokens :: "auth_token list"
  db_sessions :: "auth_session list"
  db_challenges :: "challenge list"

text \<open>A violated key or foreign key.\<close>

datatype auth_error = IntegrityError

section \<open>Tokens\<close>

definition create_token ::
  "(string \<Rightarrow> string) \<Rightarrow> moment \<Rightarrow> string \<Rightarrow> string \<Rightarrow> string option \<Rightarrow> iso_text option \<Rightarrow> bool \<Rightarrow> auth_db \<Rightarrow>
   auth_error + (string \<times> string) \<times> auth_db" where
  "create_token sha now fresh_id fresh_secret name expires_at totp_required db =
     (let plaintext = TOKEN_PREFIX @ fresh_secret; token_id = ''tid_'' @ fresh_id
      in if token_id \<in> tk_id ` set (db_tokens db) \<or> sha plaintext \<in> tk_sha ` set (db_tokens db) then Inl IntegrityError
         else Inr ((token_id, plaintext), db\<lparr>db_tokens := db_tokens db @
           [\<lparr>tk_id = token_id, tk_sha = sha plaintext, tk_name = name, tk_totp_blob = None, tk_created_at = now,
             tk_expires_at = expires_at, tk_disabled_at = None, tk_failures = 0, tk_totp_failures = 0, tk_last_step = None,
             tk_revoked = False, tk_totp_required = totp_required\<rparr>]\<rparr>))"

definition list_auth_tokens :: "auth_db \<Rightarrow> auth_token list" where
  "list_auth_tokens db = order_asc tk_created_at (db_tokens db)"

definition get_token_by_hash :: "string \<Rightarrow> auth_db \<Rightarrow> auth_token option" where
  "get_token_by_hash h db = row_find tk_sha h (db_tokens db)"

definition get_token_by_id :: "string \<Rightarrow> auth_db \<Rightarrow> auth_token option" where
  "get_token_by_id i db = row_find tk_id i (db_tokens db)"

definition update_token :: "string \<Rightarrow> (auth_token \<Rightarrow> auth_token) \<Rightarrow> auth_db \<Rightarrow> auth_db" where
  "update_token i f db = db\<lparr>db_tokens := rows_update (\<lambda>t. tk_id t = i) f (db_tokens db)\<rparr>"

definition clear_lockout :: "string \<Rightarrow> auth_db \<Rightarrow> auth_db" where
  "clear_lockout i = update_token i (\<lambda>t. t\<lparr>tk_disabled_at := None, tk_failures := 0, tk_totp_failures := 0\<rparr>)"

definition unexpired :: "moment \<Rightarrow> auth_token \<Rightarrow> bool" where
  "unexpired now t \<longleftrightarrow> (case tk_expires_at t of None \<Rightarrow> True | Some (Iso e) \<Rightarrow> now \<le> e | Some (NotIso s) \<Rightarrow> False)"

definition lockout_end :: "moment \<Rightarrow> moment" where
  "lockout_end d = d + minutes LOCKOUT_MINUTES"

definition is_token_active :: "moment \<Rightarrow> auth_token \<Rightarrow> auth_db \<Rightarrow> bool \<times> auth_db" where
  "is_token_active now t db =
     (if tk_revoked t then (False, db)
      else case tk_disabled_at t of
        None \<Rightarrow> (unexpired now t, db)
      | Some (NotIso s) \<Rightarrow> (False, db)
      | Some (Iso d) \<Rightarrow> if now < lockout_end d then (False, db) else (unexpired now t, clear_lockout (tk_id t) db))"

definition failures_of :: "(auth_token \<Rightarrow> nat) \<Rightarrow> string \<Rightarrow> auth_db \<Rightarrow> nat" where
  "failures_of count i db = (case get_token_by_id i db of None \<Rightarrow> 0 | Some t \<Rightarrow> count t)"

definition lock_token :: "moment \<Rightarrow> string \<Rightarrow> auth_db \<Rightarrow> auth_db" where
  "lock_token now i = update_token i (\<lambda>t. t\<lparr>tk_disabled_at := Some (Iso now)\<rparr>)"

definition increment_login_failure :: "moment \<Rightarrow> string \<Rightarrow> auth_db \<Rightarrow> nat \<times> auth_db" where
  "increment_login_failure now i db =
     (let db1 = update_token i (\<lambda>t. t\<lparr>tk_failures := tk_failures t + 1\<rparr>) db; count = failures_of tk_failures i db1
      in (count, if LOGIN_LOCKOUT_THRESHOLD \<le> count then lock_token now i db1 else db1))"

definition increment_totp_failure :: "moment \<Rightarrow> string \<Rightarrow> auth_db \<Rightarrow> nat \<times> auth_db" where
  "increment_totp_failure now i db =
     (let db1 = update_token i (\<lambda>t. t\<lparr>tk_totp_failures := tk_totp_failures t + 1\<rparr>) db; count = failures_of tk_totp_failures i db1
      in (count, if TOTP_LOCKOUT_THRESHOLD \<le> count then lock_token now i db1 else db1))"

definition reset_failures :: "string \<Rightarrow> auth_db \<Rightarrow> auth_db" where
  "reset_failures i = update_token i (\<lambda>t. t\<lparr>tk_failures := 0, tk_totp_failures := 0\<rparr>)"

definition revoke_token :: "string \<Rightarrow> auth_db \<Rightarrow> bool \<times> auth_db" where
  "revoke_token i db = (0 < rowcount (\<lambda>t. tk_id t = i) (db_tokens db), update_token i (\<lambda>t. t\<lparr>tk_revoked := True\<rparr>) db)"

definition set_totp_secret :: "string \<Rightarrow> string \<Rightarrow> auth_db \<Rightarrow> auth_db" where
  "set_totp_secret i blob = update_token i (\<lambda>t. t\<lparr>tk_totp_blob := Some blob\<rparr>)"

definition clear_totp_secret :: "string \<Rightarrow> auth_db \<Rightarrow> auth_db" where
  "clear_totp_secret i = update_token i (\<lambda>t. t\<lparr>tk_totp_blob := None\<rparr>)"

definition get_totp_last_step :: "string \<Rightarrow> auth_db \<Rightarrow> int option" where
  "get_totp_last_step i db = (case get_token_by_id i db of None \<Rightarrow> None | Some t \<Rightarrow> tk_last_step t)"

definition set_totp_last_step :: "string \<Rightarrow> int \<Rightarrow> auth_db \<Rightarrow> auth_db" where
  "set_totp_last_step i step = update_token i (\<lambda>t. t\<lparr>tk_last_step := Some step\<rparr>)"

section \<open>Challenges\<close>

definition create_challenge :: "moment \<Rightarrow> string \<Rightarrow> string \<Rightarrow> int \<Rightarrow> auth_db \<Rightarrow> (auth_error + string) \<times> auth_db" where
  "create_challenge now fresh token_id ttl_sec db =
     (let challenge_id = ''chg_'' @ fresh;
          db1 = db\<lparr>db_challenges := rows_delete (\<lambda>c. ch_token c = token_id) (db_challenges db)\<rparr>
      in if challenge_id \<in> ch_id ` set (db_challenges db1) \<or> token_id \<notin> tk_id ` set (db_tokens db) then (Inl IntegrityError, db1)
         else (Inr challenge_id, db1\<lparr>db_challenges := db_challenges db1 @
           [\<lparr>ch_id = challenge_id, ch_token = token_id, ch_created_at = now, ch_expires_at = now + sec ttl_sec, ch_attempts = 0\<rparr>]\<rparr>))"

definition get_challenge :: "string \<Rightarrow> auth_db \<Rightarrow> challenge option" where
  "get_challenge i db = row_find ch_id i (db_challenges db)"

definition is_challenge_valid :: "moment \<Rightarrow> challenge \<Rightarrow> bool" where
  "is_challenge_valid now c \<longleftrightarrow> now \<le> ch_expires_at c \<and> ch_attempts c < CHALLENGE_MAX_ATTEMPTS"

definition increment_challenge_attempts :: "string \<Rightarrow> auth_db \<Rightarrow> nat \<times> auth_db" where
  "increment_challenge_attempts i db =
     (let db1 = db\<lparr>db_challenges := rows_update (\<lambda>c. ch_id c = i) (\<lambda>c. c\<lparr>ch_attempts := ch_attempts c + 1\<rparr>) (db_challenges db)\<rparr>
      in (case get_challenge i db1 of None \<Rightarrow> 0 | Some c \<Rightarrow> ch_attempts c, db1))"

definition invalidate_challenge :: "string \<Rightarrow> auth_db \<Rightarrow> auth_db" where
  "invalidate_challenge i db = db\<lparr>db_challenges := rows_delete (\<lambda>c. ch_id c = i) (db_challenges db)\<rparr>"

section \<open>Sessions\<close>

definition create_session ::
  "(string \<Rightarrow> string) \<Rightarrow> moment \<Rightarrow> string \<Rightarrow> string \<Rightarrow> int \<Rightarrow> string option \<Rightarrow> auth_db \<Rightarrow> auth_error + (string \<times> moment) \<times> auth_db" where
  "create_session sha now plaintext token_id ttl_sec client_ip db =
     (let expires = now + sec ttl_sec
      in if sha plaintext \<in> ss_sha ` set (db_sessions db) \<or> token_id \<notin> tk_id ` set (db_tokens db) then Inl IntegrityError
         else Inr ((plaintext, expires), db\<lparr>db_sessions := db_sessions db @
           [\<lparr>ss_sha = sha plaintext, ss_token = token_id, ss_created_at = now, ss_expires_at = expires, ss_last_seen_at = now,
             ss_client_ip = client_ip\<rparr>]\<rparr>))"

definition get_session_by_hash :: "string \<Rightarrow> auth_db \<Rightarrow> auth_session option" where
  "get_session_by_hash h db = row_find ss_sha h (db_sessions db)"

definition session_cap :: "auth_session \<Rightarrow> moment" where
  "session_cap s = ss_created_at s + sec MAX_SESSION_LIFETIME_SEC"

definition is_session_valid :: "moment \<Rightarrow> auth_session \<Rightarrow> string option \<Rightarrow> bool \<Rightarrow> bool" where
  "is_session_valid now s client_ip session_pin_ip \<longleftrightarrow>
     now \<le> ss_expires_at s \<and> now \<le> session_cap s \<and> (\<not> session_pin_ip \<or> client_ip = None \<or> ss_client_ip s = client_ip)"

definition touch_session :: "moment \<Rightarrow> string \<Rightarrow> int \<Rightarrow> auth_db \<Rightarrow> auth_db" where
  "touch_session now h ttl_sec db =
     db\<lparr>db_sessions := rows_update (\<lambda>s. ss_sha s = h)
       (\<lambda>s. s\<lparr>ss_last_seen_at := now, ss_expires_at := min (now + sec ttl_sec) (session_cap s)\<rparr>) (db_sessions db)\<rparr>"

definition revoke_session :: "string \<Rightarrow> auth_db \<Rightarrow> auth_db" where
  "revoke_session h db = db\<lparr>db_sessions := rows_delete (\<lambda>s. ss_sha s = h) (db_sessions db)\<rparr>"

section \<open>Endpoints\<close>

record api_config =
  ac_loopback :: bool
  ac_auth_enabled :: bool
  ac_master_key :: string
  ac_session_ttl_sec :: int
  ac_session_pin_ip :: bool
  ac_behind_tls_proxy :: bool

datatype http_error =
    InvalidFormat | InvalidToken | InvalidChallenge | TokenInactive | TotpNotEnrolled | KeyNotConfigured | TotpConfigError
  | InvalidCode | CodeAlreadyUsed | NotAuthenticated | SessionNotFound | TokenNotFound | InternalError

text \<open>The status code of each refusal.\<close>

definition http_status :: "http_error \<Rightarrow> nat" where
  "http_status e =
     (case e of TotpNotEnrolled \<Rightarrow> 400 | KeyNotConfigured \<Rightarrow> 500 | TotpConfigError \<Rightarrow> 500 | InternalError \<Rightarrow> 500 | _ \<Rightarrow> 401)"

datatype login_answer = Challenge string | Session string moment

definition issue_session ::
  "(string \<Rightarrow> string) \<Rightarrow> api_config \<Rightarrow> moment \<Rightarrow> string \<Rightarrow> string \<Rightarrow> string \<Rightarrow> auth_db \<Rightarrow> (http_error + login_answer) \<times> auth_db" where
  "issue_session sha cfg now fresh token_id client_ip db =
     (case create_session sha now fresh token_id (ac_session_ttl_sec cfg) (if ac_session_pin_ip cfg then Some client_ip else None) db of
        Inl e \<Rightarrow> (Inl InternalError, db)
      | Inr ((plaintext, expires), db1) \<Rightarrow> (Inr (Session plaintext expires), db1))"

definition login ::
  "(string \<Rightarrow> string) \<Rightarrow> api_config \<Rightarrow> moment \<Rightarrow> string \<Rightarrow> string \<Rightarrow> string \<Rightarrow> auth_db \<Rightarrow> (http_error + login_answer) \<times> auth_db" where
  "login sha cfg now fresh token client_ip db =
     (if \<not> starts_with token ''mnk_'' then (Inl InvalidFormat, db)
      else case get_token_by_hash (sha token) db of
        None \<Rightarrow> (Inl InvalidToken, db)
      | Some t \<Rightarrow>
          (case is_token_active now t db of
             (False, db1) \<Rightarrow> (Inl InvalidToken, snd (increment_login_failure now (tk_id t) db1))
           | (True, db1) \<Rightarrow>
               if tk_totp_blob t \<noteq> None then
                 (case create_challenge now fresh (tk_id t) CHALLENGE_TTL_SEC db1 of
                    (Inl e, db2) \<Rightarrow> (Inl InternalError, db2)
                  | (Inr c, db2) \<Rightarrow> (Inr (Challenge c), db2))
               else
                 (case issue_session sha cfg now fresh (tk_id t) client_ip db1 of
                    (Inl e, db2) \<Rightarrow> (Inl e, db2)
                  | (Inr s, db2) \<Rightarrow> (Inr s, reset_failures (tk_id t) db2))))"

definition time_step :: "moment \<Rightarrow> int" where
  "time_step now = now div sec 30"

definition totp_verify :: "(string \<Rightarrow> int \<Rightarrow> string) \<Rightarrow> string \<Rightarrow> moment \<Rightarrow> string \<Rightarrow> bool" where
  "totp_verify code_at secret now code \<longleftrightarrow> list_ex (\<lambda>i. code = code_at secret (time_step now + i)) [-1, 0, 1]"

text \<open>What follows an accepted code: the replay guard, and the session.\<close>

definition verify_accepted ::
  "(string \<Rightarrow> string) \<Rightarrow> api_config \<Rightarrow> moment \<Rightarrow> string \<Rightarrow> string \<Rightarrow> string \<Rightarrow> string \<Rightarrow> auth_db \<Rightarrow> (http_error + login_answer) \<times> auth_db" where
  "verify_accepted sha cfg now fresh challenge_id token_id client_ip db =
     (case get_totp_last_step token_id db of
        Some prev \<Rightarrow>
          if time_step now \<le> prev then (Inl CodeAlreadyUsed, snd (increment_totp_failure now token_id db))
          else issue_session sha cfg now fresh token_id client_ip
                 (reset_failures token_id (invalidate_challenge challenge_id (set_totp_last_step token_id (time_step now) db)))
      | None \<Rightarrow> issue_session sha cfg now fresh token_id client_ip
                 (reset_failures token_id (invalidate_challenge challenge_id (set_totp_last_step token_id (time_step now) db))))"

definition verify_rejected :: "moment \<Rightarrow> string \<Rightarrow> string \<Rightarrow> auth_db \<Rightarrow> auth_db" where
  "verify_rejected now challenge_id token_id db =
     (case increment_challenge_attempts challenge_id db of
        (attempts, db1) \<Rightarrow>
          snd (increment_totp_failure now token_id (if 5 \<le> attempts then invalidate_challenge challenge_id db1 else db1)))"

definition verify ::
  "(string \<Rightarrow> string) \<Rightarrow> (string \<Rightarrow> string \<Rightarrow> string option) \<Rightarrow> (string \<Rightarrow> int \<Rightarrow> string) \<Rightarrow> api_config \<Rightarrow> moment \<Rightarrow> string \<Rightarrow> string \<Rightarrow>
   string \<Rightarrow> string \<Rightarrow> auth_db \<Rightarrow> (http_error + login_answer) \<times> auth_db" where
  "verify sha dec code_at cfg now fresh challenge_id code client_ip db =
     (case get_challenge challenge_id db of
        None \<Rightarrow> (Inl InvalidChallenge, db)
      | Some c \<Rightarrow>
          if \<not> is_challenge_valid now c then (Inl InvalidChallenge, db)
          else case get_token_by_id (ch_token c) db of
            None \<Rightarrow> (Inl TokenInactive, invalidate_challenge challenge_id db)
          | Some t \<Rightarrow>
              (case is_token_active now t db of
                 (False, db1) \<Rightarrow> (Inl TokenInactive, invalidate_challenge challenge_id db1)
               | (True, db1) \<Rightarrow>
                   (case tk_totp_blob t of
                      None \<Rightarrow> (Inl TotpNotEnrolled, db1)
                    | Some blob \<Rightarrow>
                        if ac_master_key cfg = [] then (Inl KeyNotConfigured, db1)
                        else case dec (ac_master_key cfg) blob of
                          None \<Rightarrow> (Inl TotpConfigError, db1)
                        | Some secret \<Rightarrow>
                            if \<not> totp_verify code_at secret now code then
                              (Inl InvalidCode, verify_rejected now challenge_id (ch_token c) db1)
                            else verify_accepted sha cfg now fresh challenge_id (ch_token c) client_ip db1)))"

record http_request =
  hr_path :: string
  hr_method :: string
  hr_authorization :: string
  hr_cookie :: "string option"
  hr_peer :: "string option"
  hr_client_ip :: string

definition bearer_of :: "http_request \<Rightarrow> string option" where
  "bearer_of r = (if starts_with (hr_authorization r) ''Bearer '' then Some (drop 7 (hr_authorization r)) else None)"

definition session_from_request :: "http_request \<Rightarrow> string option" where
  "session_from_request r = (case bearer_of r of Some b \<Rightarrow> Some b | None \<Rightarrow> hr_cookie r)"

definition logout :: "(string \<Rightarrow> string) \<Rightarrow> http_request \<Rightarrow> auth_db \<Rightarrow> auth_db" where
  "logout sha r db = (if truthy (session_from_request r) then revoke_session (sha (the (session_from_request r))) db else db)"

record me_answer =
  me_token_id :: string
  me_totp :: bool
  me_totp_required :: bool
  me_expires_at :: moment

definition me :: "(string \<Rightarrow> string) \<Rightarrow> http_request \<Rightarrow> auth_db \<Rightarrow> http_error + me_answer" where
  "me sha r db =
     (if \<not> truthy (session_from_request r) then Inl NotAuthenticated
      else case get_session_by_hash (sha (the (session_from_request r))) db of
        None \<Rightarrow> Inl SessionNotFound
      | Some s \<Rightarrow>
          (case get_token_by_id (ss_token s) db of
             None \<Rightarrow> Inl TokenNotFound
           | Some t \<Rightarrow> Inr \<lparr>me_token_id = ss_token s, me_totp = (tk_totp_blob t \<noteq> None), me_totp_required = True,
                           me_expires_at = ss_expires_at s\<rparr>))"

section \<open>The middleware\<close>

definition ALWAYS_BYPASS :: "string list" where
  "ALWAYS_BYPASS = [''/health'', ''/auth/login'', ''/auth/verify'', ''/api/v1/federation/pull'']"

definition DOCS_BYPASS :: "string list" where
  "DOCS_BYPASS = [''/docs'', ''/redoc'', ''/openapi.json'']"

definition METRICS_BYPASS :: "string list" where
  "METRICS_BYPASS = [''/metrics'', ''/api/v1/metrics'']"

definition MUTATION_METHODS :: "string list" where
  "MUTATION_METHODS = [''POST'', ''PUT'', ''DELETE'', ''PATCH'']"

definition bypass_paths :: "bool \<Rightarrow> string list" where
  "bypass_paths loopback = ALWAYS_BYPASS @ (if loopback then METRICS_BYPASS @ DOCS_BYPASS else [])"

datatype admission = Bypassed | LocalMode | DirectBearer string | WithSession auth_session

definition direct_bearer ::
  "(string \<Rightarrow> string) \<Rightarrow> moment \<Rightarrow> string option \<Rightarrow> auth_db \<Rightarrow> auth_token option \<times> auth_db" where
  "direct_bearer sha now bearer db =
     (case bearer of
        None \<Rightarrow> (None, db)
      | Some b \<Rightarrow>
          if \<not> starts_with b ''mnk_'' then (None, db)
          else case get_token_by_hash (sha b) db of
            None \<Rightarrow> (None, db)
          | Some t \<Rightarrow>
              (case is_token_active now t db of
                 (active, db1) \<Rightarrow> (if active \<and> \<not> tk_totp_required t then Some t else None, db1)))"

definition request_ip :: "api_config \<Rightarrow> http_request \<Rightarrow> string option" where
  "request_ip cfg r = (if ac_behind_tls_proxy cfg then Some (hr_client_ip r) else hr_peer r)"

text \<open>The answer is an admission or the status of the refusal; \<open>None\<close> stands for a configuration or a store that is not there.\<close>

definition dispatch ::
  "(string \<Rightarrow> string) \<Rightarrow> api_config option \<Rightarrow> bool \<Rightarrow> moment \<Rightarrow> http_request \<Rightarrow> auth_db \<Rightarrow> (nat + admission) \<times> auth_db" where
  "dispatch sha config has_store now r db =
     (case config of
        None \<Rightarrow> (Inl 503, db)
      | Some cfg \<Rightarrow>
          if hr_path r \<in> set (bypass_paths (ac_loopback cfg)) then (Inr Bypassed, db)
          else if \<not> ac_auth_enabled cfg then (if ac_loopback cfg then Inr LocalMode else Inl 401, db)
          else
            (let bearer = bearer_of r; token = (if truthy bearer then bearer else hr_cookie r)
             in if \<not> truthy token then (Inl 401, db)
                else if \<not> has_store then (Inl 503, db)
                else case direct_bearer sha now bearer db of
                  (Some t, db1) \<Rightarrow> (Inr (DirectBearer (tk_id t)), db1)
                | (None, db1) \<Rightarrow>
                    (case get_session_by_hash (sha (the token)) db1 of
                       None \<Rightarrow> (Inl 401, db1)
                     | Some s \<Rightarrow>
                         if \<not> is_session_valid now s (request_ip cfg r) (ac_session_pin_ip cfg) then (Inl 401, db1)
                         else if hr_method r \<in> set MUTATION_METHODS \<and> \<not> truthy bearer then (Inl 403, db1)
                         else (Inr (WithSession s), touch_session now (sha (the token)) (ac_session_ttl_sec cfg) db1))))"

end
