(* ===== verification/Auth_Safety.thy ===== *)
theory Auth_Safety
  imports Api_Auth
begin

text \<open>
  What the authentication of \<open>Api_Auth\<close> guarantees: the invariant of its three tables over every run with a clock
  that does not go back, who gets a session, the lockouts, and that a locked-out owner of the second factor gets in again.
\<close>

section \<open>Steps and runs\<close>

text \<open>One request, or one call of the token administration, at a moment.\<close>

inductive auth_step ::
  "(string \<Rightarrow> string) \<Rightarrow> (string \<Rightarrow> string \<Rightarrow> string option) \<Rightarrow> (string \<Rightarrow> int \<Rightarrow> string) \<Rightarrow> moment \<Rightarrow> auth_db \<Rightarrow> auth_db \<Rightarrow> bool"
  for sha dec code_at now db where
  step_login: "auth_step sha dec code_at now db (snd (login sha cfg now fresh token client_ip db))"
| step_verify: "auth_step sha dec code_at now db (snd (verify sha dec code_at cfg now fresh challenge_id code client_ip db))"
| step_dispatch: "auth_step sha dec code_at now db (snd (dispatch sha config has_store now r db))"
| step_logout: "auth_step sha dec code_at now db (logout sha r db)"
| step_create: "create_token sha now fresh_id fresh_secret name expires_at totp_required db = Inr (p, db') \<Longrightarrow>
    auth_step sha dec code_at now db db'"
| step_revoke: "auth_step sha dec code_at now db (snd (revoke_token i db))"
| step_enrol: "auth_step sha dec code_at now db (set_totp_secret i blob db)"
| step_unenrol: "auth_step sha dec code_at now db (clear_totp_secret i db)"

text \<open>A run: steps at moments that do not decrease, and waiting.\<close>

inductive auth_run ::
  "(string \<Rightarrow> string) \<Rightarrow> (string \<Rightarrow> string \<Rightarrow> string option) \<Rightarrow> (string \<Rightarrow> int \<Rightarrow> string) \<Rightarrow> moment \<Rightarrow> auth_db \<Rightarrow> moment \<Rightarrow> auth_db \<Rightarrow> bool"
  for sha dec code_at t0 db0 where
  run_start: "auth_run sha dec code_at t0 db0 t0 db0"
| run_step: "auth_run sha dec code_at t0 db0 t db \<Longrightarrow> t \<le> now \<Longrightarrow> auth_step sha dec code_at now db db' \<Longrightarrow>
    auth_run sha dec code_at t0 db0 now db'"
| run_wait: "auth_run sha dec code_at t0 db0 t db \<Longrightarrow> t \<le> now \<Longrightarrow> auth_run sha dec code_at t0 db0 now db"

inductive_cases auth_stepE: "auth_step sha dec code_at now db db'"

definition empty_auth :: auth_db where
  "empty_auth = \<lparr>db_tokens = [], db_sessions = [], db_challenges = []\<rparr>"

section \<open>The invariant\<close>

definition auth_token_ok :: "moment \<Rightarrow> auth_token \<Rightarrow> bool" where
  "auth_token_ok now t \<longleftrightarrow>
     (case tk_disabled_at t of
        None \<Rightarrow> tk_failures t < LOGIN_LOCKOUT_THRESHOLD \<and> tk_totp_failures t < TOTP_LOCKOUT_THRESHOLD
      | Some (Iso d) \<Rightarrow> d \<le> now
      | Some (NotIso s) \<Rightarrow> False) \<and>
     (case tk_last_step t of None \<Rightarrow> True | Some p \<Rightarrow> p \<le> time_step now)"

definition challenge_ok :: "moment \<Rightarrow> challenge \<Rightarrow> bool" where
  "challenge_ok now c \<longleftrightarrow>
     ch_attempts c < CHALLENGE_MAX_ATTEMPTS \<and> ch_created_at c \<le> now \<and> ch_expires_at c = ch_created_at c + sec CHALLENGE_TTL_SEC"

definition session_ok :: "moment \<Rightarrow> auth_session \<Rightarrow> bool" where
  "session_ok now s \<longleftrightarrow> ss_created_at s \<le> ss_last_seen_at s \<and> ss_last_seen_at s \<le> now"

definition auth_inv :: "moment \<Rightarrow> auth_db \<Rightarrow> bool" where
  "auth_inv now db \<longleftrightarrow>
     distinct (map tk_id (db_tokens db)) \<and> distinct (map tk_sha (db_tokens db)) \<and>
     distinct (map ss_sha (db_sessions db)) \<and>
     distinct (map ch_id (db_challenges db)) \<and> distinct (map ch_token (db_challenges db)) \<and>
     ss_token ` set (db_sessions db) \<subseteq> tk_id ` set (db_tokens db) \<and>
     ch_token ` set (db_challenges db) \<subseteq> tk_id ` set (db_tokens db) \<and>
     list_all (auth_token_ok now) (db_tokens db) \<and> list_all (session_ok now) (db_sessions db) \<and>
     list_all (challenge_ok now) (db_challenges db)"

lemma time_step_mono: "a \<le> b \<Longrightarrow> time_step a \<le> time_step b"
  by (simp add: time_step_def sec_def zdiv_mono1)

lemma auth_token_ok_later: "auth_token_ok now t \<Longrightarrow> now \<le> now' \<Longrightarrow> auth_token_ok now' t"
  using time_step_mono [of now now'] by (auto simp: auth_token_ok_def split: option.splits iso_text.splits)

lemma auth_inv_later: "auth_inv now db \<Longrightarrow> now \<le> now' \<Longrightarrow> auth_inv now' db"
  using auth_token_ok_later
  by (fastforce simp: auth_inv_def list_all_iff challenge_ok_def session_ok_def)

lemma auth_inv_empty: "auth_inv t empty_auth"
  by (simp add: auth_inv_def empty_auth_def)

lemma auth_invD:
  assumes "auth_inv now db"
  shows "distinct (map tk_id (db_tokens db))" "distinct (map tk_sha (db_tokens db))"
    "distinct (map ss_sha (db_sessions db))" "distinct (map ch_id (db_challenges db))"
    "distinct (map ch_token (db_challenges db))"
    "\<And>t. t \<in> set (db_tokens db) \<Longrightarrow> auth_token_ok now t"
    "\<And>c. c \<in> set (db_challenges db) \<Longrightarrow> challenge_ok now c"
    "\<And>s. s \<in> set (db_sessions db) \<Longrightarrow> session_ok now s"
    "\<And>c. c \<in> set (db_challenges db) \<Longrightarrow> ch_token c \<in> tk_id ` set (db_tokens db)"
    "\<And>s. s \<in> set (db_sessions db) \<Longrightarrow> ss_token s \<in> tk_id ` set (db_tokens db)"
  using assms unfolding auth_inv_def by (auto simp: list_all_iff)

section \<open>How the operations change the tables\<close>

lemma update_token_other [simp]:
  "db_sessions (update_token i f db) = db_sessions db" "db_challenges (update_token i f db) = db_challenges db"
  by (simp_all add: update_token_def)

lemma get_update_token:
  assumes "\<And>t. tk_id (f t) = tk_id t"
  shows "get_token_by_id j (update_token i f db) = map_option (\<lambda>t. if tk_id t = i then f t else t) (get_token_by_id j db)"
  by (simp add: get_token_by_id_def update_token_def row_find_update assms)

lemma update_token_update:
  assumes "\<And>t. tk_id (f t) = tk_id t"
  shows "update_token i g (update_token i f db) = update_token i (\<lambda>t. g (f t)) db"
  by (simp add: update_token_def rows_update_def assms)

lemma update_token_cong:
  assumes "\<And>t. t \<in> set (db_tokens db) \<Longrightarrow> tk_id t = i \<Longrightarrow> f t = g t"
  shows "update_token i f db = update_token i g db"
  using assms by (simp add: update_token_def rows_update_def cong: map_cong)

lemma auth_inv_update_token:
  assumes "auth_inv now db" "\<And>t. tk_id (f t) = tk_id t" "\<And>t. tk_sha (f t) = tk_sha t"
    and "\<And>t. t \<in> set (db_tokens db) \<Longrightarrow> tk_id t = i \<Longrightarrow> auth_token_ok now t \<Longrightarrow> auth_token_ok now (f t)"
  shows "auth_inv now (update_token i f db)"
proof -
  have ids: "map tk_id (db_tokens (update_token i f db)) = map tk_id (db_tokens db)"
    and shas: "map tk_sha (db_tokens (update_token i f db)) = map tk_sha (db_tokens db)"
    using assms(2,3) by (simp_all add: update_token_def rows_update_def)
  have set_ids: "tk_id ` set (db_tokens (update_token i f db)) = tk_id ` set (db_tokens db)"
    using arg_cong [OF ids, of set] by simp
  have "list_all (auth_token_ok now) (db_tokens (update_token i f db))"
    using assms(1,4) by (auto simp: auth_inv_def update_token_def list_all_iff set_rows_update)
  with assms(1) show ?thesis unfolding auth_inv_def ids shas set_ids update_token_other by blast
qed

lemma token_by_id:
  assumes "distinct (map tk_id (db_tokens db))" "t \<in> set (db_tokens db)"
  shows "get_token_by_id (tk_id t) db = Some t"
  using assms by (simp add: get_token_by_id_def row_find_distinct)

lemma token_by_idD: "get_token_by_id i db = Some t \<Longrightarrow> tk_id t = i \<and> t \<in> set (db_tokens db)"
  unfolding get_token_by_id_def by (rule row_find_SomeD)

lemma token_by_hashD: "get_token_by_hash h db = Some t \<Longrightarrow> tk_sha t = h \<and> t \<in> set (db_tokens db)"
  unfolding get_token_by_hash_def by (rule row_find_SomeD)

definition count_login_failure :: "moment \<Rightarrow> auth_token \<Rightarrow> auth_token" where
  "count_login_failure now t =
     (let n = tk_failures t + 1
      in t\<lparr>tk_failures := n, tk_disabled_at := (if LOGIN_LOCKOUT_THRESHOLD \<le> n then Some (Iso now) else tk_disabled_at t)\<rparr>)"

definition count_totp_failure :: "moment \<Rightarrow> auth_token \<Rightarrow> auth_token" where
  "count_totp_failure now t =
     (let n = tk_totp_failures t + 1
      in t\<lparr>tk_totp_failures := n, tk_disabled_at := (if TOTP_LOCKOUT_THRESHOLD \<le> n then Some (Iso now) else tk_disabled_at t)\<rparr>)"

lemma count_failure_fields [simp]:
  "tk_id (count_login_failure now t) = tk_id t" "tk_sha (count_login_failure now t) = tk_sha t"
  "tk_last_step (count_login_failure now t) = tk_last_step t" "tk_revoked (count_login_failure now t) = tk_revoked t"
  "tk_id (count_totp_failure now t) = tk_id t" "tk_sha (count_totp_failure now t) = tk_sha t"
  "tk_last_step (count_totp_failure now t) = tk_last_step t" "tk_revoked (count_totp_failure now t) = tk_revoked t"
  by (simp_all add: count_login_failure_def count_totp_failure_def Let_def)

lemma increment_login_failure_eq:
  assumes "distinct (map tk_id (db_tokens db))" "t \<in> set (db_tokens db)"
  shows "increment_login_failure now (tk_id t) db = (tk_failures t + 1, update_token (tk_id t) (count_login_failure now) db)"
proof -
  have uniq: "u = t" if "u \<in> set (db_tokens db)" "tk_id u = tk_id t" for u
    using assms that by (meson inj_onD distinct_map)
  show ?thesis
    using token_by_id [OF assms] uniq
    by (simp add: increment_login_failure_def Let_def failures_of_def get_update_token lock_token_def update_token_update)
       (intro conjI impI update_token_cong; force simp: count_login_failure_def Let_def)
qed

lemma increment_totp_failure_eq:
  assumes "distinct (map tk_id (db_tokens db))" "t \<in> set (db_tokens db)"
  shows "increment_totp_failure now (tk_id t) db = (tk_totp_failures t + 1, update_token (tk_id t) (count_totp_failure now) db)"
proof -
  have uniq: "u = t" if "u \<in> set (db_tokens db)" "tk_id u = tk_id t" for u
    using assms that by (meson inj_onD distinct_map)
  show ?thesis
    using token_by_id [OF assms] uniq
    by (simp add: increment_totp_failure_def Let_def failures_of_def get_update_token lock_token_def update_token_update)
       (intro conjI impI update_token_cong; force simp: count_totp_failure_def Let_def)
qed

lemma auth_token_ok_count:
  assumes "auth_token_ok now t"
  shows "auth_token_ok now (count_login_failure now t)" "auth_token_ok now (count_totp_failure now t)"
  using assms
  by (auto simp: auth_token_ok_def count_login_failure_def count_totp_failure_def Let_def split: option.splits iso_text.splits)

lemma auth_inv_clear_lockout: "auth_inv now db \<Longrightarrow> auth_inv now (clear_lockout i db)"
  unfolding clear_lockout_def
  by (rule auth_inv_update_token)
     (auto simp: auth_token_ok_def LOGIN_LOCKOUT_THRESHOLD_def TOTP_LOCKOUT_THRESHOLD_def)

lemma auth_inv_reset: "auth_inv now db \<Longrightarrow> auth_inv now (reset_failures i db)"
  unfolding reset_failures_def
  by (rule auth_inv_update_token)
     (auto simp: auth_token_ok_def LOGIN_LOCKOUT_THRESHOLD_def TOTP_LOCKOUT_THRESHOLD_def split: option.splits iso_text.splits)

lemma auth_inv_active: "auth_inv now db \<Longrightarrow> auth_inv now (snd (is_token_active now t db))"
  by (auto simp: is_token_active_def auth_inv_clear_lockout split: option.splits iso_text.splits)

lemma auth_inv_login_failure: "auth_inv now db \<Longrightarrow> auth_inv now (snd (increment_login_failure now i db))"
proof (cases "get_token_by_id i db")
  case None
  assume inv: "auth_inv now db"
  from None have "\<forall>t \<in> set (db_tokens db). tk_id t \<noteq> i"
    by (auto simp: get_token_by_id_def row_find_None_iff)
  then have same: "update_token i f db = db" for f by (simp add: update_token_def rows_update_none)
  show ?thesis using inv by (simp add: increment_login_failure_def same lock_token_def Let_def)
next
  case (Some t)
  assume inv: "auth_inv now db"
  have t: "tk_id t = i" "t \<in> set (db_tokens db)" using token_by_idD [OF Some] by auto
  show ?thesis
    using increment_login_failure_eq [OF auth_invD(1) [OF inv] t(2), of now] t(1)
    by (simp add: auth_inv_update_token [OF inv] auth_token_ok_count)
qed

lemma auth_inv_totp_failure: "auth_inv now db \<Longrightarrow> auth_inv now (snd (increment_totp_failure now i db))"
proof (cases "get_token_by_id i db")
  case None
  assume inv: "auth_inv now db"
  from None have "\<forall>t \<in> set (db_tokens db). tk_id t \<noteq> i"
    by (auto simp: get_token_by_id_def row_find_None_iff)
  then have same: "update_token i f db = db" for f by (simp add: update_token_def rows_update_none)
  show ?thesis using inv by (simp add: increment_totp_failure_def same lock_token_def Let_def)
next
  case (Some t)
  assume inv: "auth_inv now db"
  have t: "tk_id t = i" "t \<in> set (db_tokens db)" using token_by_idD [OF Some] by auto
  show ?thesis
    using increment_totp_failure_eq [OF auth_invD(1) [OF inv] t(2), of now] t(1)
    by (simp add: auth_inv_update_token [OF inv] auth_token_ok_count)
qed

lemma auth_inv_set_step: "auth_inv now db \<Longrightarrow> auth_inv now (set_totp_last_step i (time_step now) db)"
  unfolding set_totp_last_step_def
  by (rule auth_inv_update_token) (auto simp: auth_token_ok_def split: option.splits iso_text.splits)

lemma auth_inv_blob: "auth_inv now db \<Longrightarrow> auth_inv now (update_token i (\<lambda>t. t\<lparr>tk_totp_blob := b\<rparr>) db)"
  by (rule auth_inv_update_token) (auto simp: auth_token_ok_def split: option.splits iso_text.splits)

lemma auth_inv_revoke: "auth_inv now db \<Longrightarrow> auth_inv now (snd (revoke_token i db))"
  unfolding revoke_token_def snd_conv by (rule auth_inv_update_token) (auto simp: auth_token_ok_def split: option.splits iso_text.splits)

lemma auth_inv_invalidate: "auth_inv now db \<Longrightarrow> auth_inv now (invalidate_challenge i db)"
  by (auto simp: auth_inv_def invalidate_challenge_def list_all_iff distinct_map_delete)

lemma auth_inv_revoke_session: "auth_inv now db \<Longrightarrow> auth_inv now (revoke_session h db)"
  by (auto simp: auth_inv_def revoke_session_def list_all_iff distinct_map_delete)

lemma distinct_map_snoc: "distinct (map f xs) \<Longrightarrow> f y \<notin> f ` set xs \<Longrightarrow> distinct (map f (xs @ [y]))"
  by simp

lemma auth_inv_create_challenge:
  assumes "auth_inv now db"
  shows "auth_inv now (snd (create_challenge now fresh i CHALLENGE_TTL_SEC db))"
proof -
  let ?cs = "rows_delete (\<lambda>c. ch_token c = i) (db_challenges db)"
  have base: "auth_inv now (db\<lparr>db_challenges := ?cs\<rparr>)"
    using assms by (auto simp: auth_inv_def list_all_iff distinct_map_delete)
  have gone: "i \<notin> ch_token ` set ?cs" by auto
  show ?thesis
    using base gone
    by (auto simp: create_challenge_def Let_def auth_inv_def challenge_ok_def CHALLENGE_MAX_ATTEMPTS_def)
qed

lemma auth_inv_create_session:
  assumes "auth_inv now db" "create_session sha now p i ttl ip db = Inr (r, db')"
  shows "auth_inv now db'"
proof -
  have fresh: "sha p \<notin> ss_sha ` set (db_sessions db)" "i \<in> tk_id ` set (db_tokens db)"
    and db': "db' = db\<lparr>db_sessions := db_sessions db @
        [\<lparr>ss_sha = sha p, ss_token = i, ss_created_at = now, ss_expires_at = now + sec ttl, ss_last_seen_at = now, ss_client_ip = ip\<rparr>]\<rparr>"
    using assms(2) by (simp_all add: create_session_def Let_def split: if_splits)
  from assms(1) fresh show ?thesis by (simp add: db' auth_inv_def session_ok_def)
qed

lemma auth_inv_issue:
  assumes "auth_inv now db"
  shows "auth_inv now (snd (issue_session sha cfg now fresh i ip db))"
  using assms auth_inv_create_session [OF assms, of sha fresh i]
  by (auto simp: issue_session_def split: sum.splits)

lemma auth_inv_touch: "auth_inv now db \<Longrightarrow> auth_inv now (touch_session now h ttl db)"
proof -
  assume a: "auth_inv now db"
  have 1: "map ss_sha (db_sessions (touch_session now h ttl db)) = map ss_sha (db_sessions db)"
    and 2: "map ss_token (db_sessions (touch_session now h ttl db)) = map ss_token (db_sessions db)"
    by (simp_all add: touch_session_def rows_update_def)
  have 3: "ss_token ` set (db_sessions (touch_session now h ttl db)) = ss_token ` set (db_sessions db)"
    using arg_cong [OF 2, of set] by simp
  have 4: "list_all (session_ok now) (db_sessions (touch_session now h ttl db))"
    using a by (auto simp: auth_inv_def touch_session_def list_all_iff set_rows_update session_ok_def)
  have 5: "db_tokens (touch_session now h ttl db) = db_tokens db" "db_challenges (touch_session now h ttl db) = db_challenges db"
    by (simp_all add: touch_session_def)
  from a 4 show ?thesis unfolding auth_inv_def 1 3 5 by blast
qed


section \<open>What a token keeps\<close>

text \<open>
  How a token may look after a step: the accepted time step never goes back, a lockout that has not ended is not
  lifted (it may be renewed), and a revocation is final.
\<close>

definition token_evolves :: "moment \<Rightarrow> auth_token \<Rightarrow> auth_token \<Rightarrow> bool" where
  "token_evolves now t t' \<longleftrightarrow>
     tk_id t' = tk_id t \<and> tk_sha t' = tk_sha t \<and> (tk_revoked t \<longrightarrow> tk_revoked t') \<and>
     (\<forall>p. tk_last_step t = Some p \<longrightarrow> (\<exists>p'. tk_last_step t' = Some p' \<and> p \<le> p')) \<and>
     (\<forall>d. tk_disabled_at t = Some (Iso d) \<and> now < lockout_end d \<longrightarrow> (\<exists>d'. tk_disabled_at t' = Some (Iso d') \<and> d \<le> d'))"

lemma token_evolves_refl [simp]: "token_evolves now t t"
  by (simp add: token_evolves_def)

lemma lockout_end_mono: "d \<le> d' \<Longrightarrow> lockout_end d \<le> lockout_end d'"
  by (simp add: lockout_end_def)

lemma token_evolves_trans:
  assumes "token_evolves now t u" "token_evolves now' u v" "now \<le> now'"
  shows "token_evolves now' t v"
proof -
  have "\<exists>d'. tk_disabled_at v = Some (Iso d') \<and> d \<le> d'"
    if d: "tk_disabled_at t = Some (Iso d)" "now' < lockout_end d" for d
  proof -
    from d assms(1,3) obtain e where e: "tk_disabled_at u = Some (Iso e)" "d \<le> e"
      unfolding token_evolves_def by (meson le_less_trans)
    from d(2) lockout_end_mono [OF e(2)] have "now' < lockout_end e" by simp
    with e assms(2) show ?thesis unfolding token_evolves_def by (meson order_trans)
  qed
  moreover have "\<exists>p'. tk_last_step v = Some p' \<and> p \<le> p'" if "tk_last_step t = Some p" for p
    using that assms(1,2) unfolding token_evolves_def by (meson order_trans)
  ultimately show ?thesis using assms(1,2) unfolding token_evolves_def by simp
qed

definition db_evolves :: "moment \<Rightarrow> auth_db \<Rightarrow> auth_db \<Rightarrow> bool" where
  "db_evolves now db db' \<longleftrightarrow>
     (\<forall>i t. get_token_by_id i db = Some t \<longrightarrow> (\<exists>t'. get_token_by_id i db' = Some t' \<and> token_evolves now t t'))"

lemma db_evolves_refl [simp]: "db_evolves now db db"
  by (simp add: db_evolves_def)

lemma db_evolves_trans: "db_evolves now a b \<Longrightarrow> db_evolves now' b c \<Longrightarrow> now \<le> now' \<Longrightarrow> db_evolves now' a c"
  unfolding db_evolves_def by (meson token_evolves_trans)

definition auth_ok :: "moment \<Rightarrow> auth_db \<Rightarrow> auth_db \<Rightarrow> bool" where
  "auth_ok now db0 db \<longleftrightarrow> auth_inv now db \<and> db_evolves now db0 db"

lemma auth_ok_inv: "auth_ok now db0 db \<Longrightarrow> auth_inv now db"
  by (simp add: auth_ok_def)

lemma auth_ok_keep: "auth_ok now db0 db \<Longrightarrow> auth_inv now db' \<Longrightarrow> db_tokens db' = db_tokens db \<Longrightarrow> auth_ok now db0 db'"
  by (simp add: auth_ok_def db_evolves_def get_token_by_id_def)

lemma auth_ok_update_token:
  assumes ok: "auth_ok now db0 db"
    and inv: "auth_inv now (update_token i f db)" and ids: "\<And>t. tk_id (f t) = tk_id t"
    and ev: "\<And>t. t \<in> set (db_tokens db) \<Longrightarrow> tk_id t = i \<Longrightarrow> auth_token_ok now t \<Longrightarrow> token_evolves now t (f t)"
  shows "auth_ok now db0 (update_token i f db)"
proof -
  have "db_evolves now db (update_token i f db)"
    using ev auth_invD(6) [OF auth_ok_inv [OF ok]] unfolding db_evolves_def
    by (auto simp: get_update_token [of f, OF ids] dest: token_by_idD)
  with ok inv db_evolves_trans show ?thesis unfolding auth_ok_def by blast
qed

lemma auth_ok_active:
  assumes ok: "auth_ok now db0 db" and t: "t \<in> set (db_tokens db)"
  shows "auth_ok now db0 (snd (is_token_active now t db))"
proof -
  have uniq: "u = t" if "u \<in> set (db_tokens db)" "tk_id u = tk_id t" for u
    using auth_invD(1) [OF auth_ok_inv [OF ok]] t that by (meson inj_onD distinct_map)
  have "auth_ok now db0 (clear_lockout (tk_id t) db)" if "tk_disabled_at t = Some (Iso d)" "\<not> now < lockout_end d" for d
    using auth_inv_clear_lockout [OF auth_ok_inv [OF ok], of "tk_id t"] that unfolding clear_lockout_def
    by (intro auth_ok_update_token [OF ok]) (auto simp: token_evolves_def dest: uniq)
  with ok show ?thesis by (auto simp: is_token_active_def split: option.splits iso_text.splits)
qed

lemma token_evolves_count:
  assumes "auth_token_ok now t"
  shows "token_evolves now t (count_login_failure now t)" "token_evolves now t (count_totp_failure now t)"
  using assms
  by (auto simp: token_evolves_def auth_token_ok_def count_login_failure_def count_totp_failure_def Let_def split: option.splits)

lemma update_token_absent:
  assumes "get_token_by_id i db = None"
  shows "update_token i f db = db"
proof -
  from assms have "\<forall>t \<in> set (db_tokens db). tk_id t \<noteq> i" by (auto simp: get_token_by_id_def row_find_None_iff)
  then show ?thesis by (simp add: update_token_def rows_update_none)
qed

lemma auth_ok_login_failure: "auth_ok now db0 db \<Longrightarrow> auth_ok now db0 (snd (increment_login_failure now i db))"
proof (cases "get_token_by_id i db")
  case None
  then show "auth_ok now db0 db \<Longrightarrow> ?thesis"
    by (simp add: increment_login_failure_def lock_token_def Let_def update_token_absent)
next
  case (Some t)
  assume ok: "auth_ok now db0 db"
  note inv = auth_ok_inv [OF ok]
  have t: "tk_id t = i" "t \<in> set (db_tokens db)" using token_by_idD [OF Some] by auto
  have "auth_ok now db0 (update_token i (count_login_failure now) db)"
    by (intro auth_ok_update_token [OF ok] auth_inv_update_token [OF inv]) (simp_all add: auth_token_ok_count token_evolves_count)
  then show ?thesis using increment_login_failure_eq [OF auth_invD(1) [OF inv] t(2), of now] t(1) by simp
qed

lemma auth_ok_totp_failure: "auth_ok now db0 db \<Longrightarrow> auth_ok now db0 (snd (increment_totp_failure now i db))"
proof (cases "get_token_by_id i db")
  case None
  then show "auth_ok now db0 db \<Longrightarrow> ?thesis"
    by (simp add: increment_totp_failure_def lock_token_def Let_def update_token_absent)
next
  case (Some t)
  assume ok: "auth_ok now db0 db"
  note inv = auth_ok_inv [OF ok]
  have t: "tk_id t = i" "t \<in> set (db_tokens db)" using token_by_idD [OF Some] by auto
  have "auth_ok now db0 (update_token i (count_totp_failure now) db)"
    by (intro auth_ok_update_token [OF ok] auth_inv_update_token [OF inv]) (simp_all add: auth_token_ok_count token_evolves_count)
  then show ?thesis using increment_totp_failure_eq [OF auth_invD(1) [OF inv] t(2), of now] t(1) by simp
qed

lemma auth_ok_reset: "auth_ok now db0 db \<Longrightarrow> auth_ok now db0 (reset_failures i db)"
  using auth_inv_reset [OF auth_ok_inv, of now db0 db i] unfolding reset_failures_def
  by (intro auth_ok_update_token) (auto simp: token_evolves_def)

lemma auth_ok_set_step: "auth_ok now db0 db \<Longrightarrow> auth_ok now db0 (set_totp_last_step i (time_step now) db)"
  using auth_inv_set_step [OF auth_ok_inv, of now db0 db i] unfolding set_totp_last_step_def
  by (intro auth_ok_update_token) (auto simp: token_evolves_def auth_token_ok_def)

lemma auth_ok_blob: "auth_ok now db0 db \<Longrightarrow> auth_ok now db0 (update_token i (\<lambda>t. t\<lparr>tk_totp_blob := b\<rparr>) db)"
  using auth_inv_blob [OF auth_ok_inv, of now db0 db i b] by (intro auth_ok_update_token) (auto simp: token_evolves_def)

lemma auth_ok_revoke: "auth_ok now db0 db \<Longrightarrow> auth_ok now db0 (snd (revoke_token i db))"
  using auth_inv_revoke [OF auth_ok_inv, of now db0 db i] unfolding revoke_token_def snd_conv
  by (intro auth_ok_update_token) (auto simp: token_evolves_def)

lemma create_challenge_tokens [simp]: "db_tokens (snd (create_challenge now fresh i ttl db)) = db_tokens db"
  by (simp add: create_challenge_def Let_def)

lemma create_session_tokens: "create_session sha now p i ttl ip db = Inr (r, db') \<Longrightarrow> db_tokens db' = db_tokens db"
  by (auto simp: create_session_def Let_def split: if_splits)

lemma issue_session_tokens [simp]: "db_tokens (snd (issue_session sha cfg now fresh i ip db)) = db_tokens db"
  by (auto simp: issue_session_def dest: create_session_tokens split: sum.splits)

lemma small_tokens [simp]:
  "db_tokens (invalidate_challenge c db) = db_tokens db" "db_tokens (revoke_session h db) = db_tokens db"
  "db_tokens (touch_session now h ttl db) = db_tokens db" "db_tokens (snd (increment_challenge_attempts c db)) = db_tokens db"
  by (simp_all add: invalidate_challenge_def revoke_session_def touch_session_def increment_challenge_attempts_def Let_def)

lemma auth_ok_challenge: "auth_ok now db0 db \<Longrightarrow> auth_ok now db0 (snd (create_challenge now fresh i CHALLENGE_TTL_SEC db))"
  by (rule auth_ok_keep) (simp_all add: auth_inv_create_challenge auth_ok_inv)

lemma auth_ok_issue: "auth_ok now db0 db \<Longrightarrow> auth_ok now db0 (snd (issue_session sha cfg now fresh i ip db))"
  by (rule auth_ok_keep) (simp_all add: auth_inv_issue auth_ok_inv)

lemma auth_ok_invalidate: "auth_ok now db0 db \<Longrightarrow> auth_ok now db0 (invalidate_challenge c db)"
  by (rule auth_ok_keep) (simp_all add: auth_inv_invalidate auth_ok_inv)

lemma auth_inv_challenges:
  "auth_inv now db \<Longrightarrow> distinct (map ch_id cs) \<Longrightarrow> distinct (map ch_token cs) \<Longrightarrow>
   ch_token ` set cs \<subseteq> tk_id ` set (db_tokens db) \<Longrightarrow> list_all (challenge_ok now) cs \<Longrightarrow>
   auth_inv now (db\<lparr>db_challenges := cs\<rparr>)"
  by (simp add: auth_inv_def)

text \<open>A rejected attempt: the counter goes up, and a challenge with five attempts is gone.\<close>

lemma auth_inv_attempt:
  assumes inv: "auth_inv now db"
  shows "auth_inv now (let (n, db1) = increment_challenge_attempts c db in if 5 \<le> n then invalidate_challenge c db1 else db1)"
proof -
  let ?f = "\<lambda>x. x\<lparr>ch_attempts := Suc (ch_attempts x)\<rparr>" and ?cs = "db_challenges db"
  let ?up = "rows_update (\<lambda>x. ch_id x = c) ?f ?cs"
  have ids: "map ch_id ?up = map ch_id ?cs" "map ch_token ?up = map ch_token ?cs"
    by (simp_all add: rows_update_def)
  have toks: "ch_token ` set ?up = ch_token ` set ?cs" using arg_cong [OF ids(2), of set] by simp
  show ?thesis
  proof (cases "get_challenge c db")
    case None
    then have "\<forall>x \<in> set ?cs. ch_id x \<noteq> c" by (auto simp: get_challenge_def row_find_None_iff)
    then have same: "?up = ?cs" by (simp add: rows_update_none)
    show ?thesis using None inv by (simp add: increment_challenge_attempts_def Let_def same get_challenge_def)
  next
    case (Some x)
    then have x: "ch_id x = c" "x \<in> set ?cs" unfolding get_challenge_def by (auto dest: row_find_SomeD)
    have uniq: "y = x" if "y \<in> set ?cs" "ch_id y = c" for y
      using auth_invD(4) [OF inv] x that by (metis inj_onD distinct_map)
    have find: "row_find ch_id c ?up = Some (?f x)"
      using Some x(1) by (simp add: get_challenge_def row_find_update)
    have ok: "challenge_ok now y" if "y \<in> set ?up" "ch_id y = c \<longrightarrow> ch_attempts x + 1 < CHALLENGE_MAX_ATTEMPTS" for y
      using that auth_invD(7) [OF inv] x by (auto simp: set_rows_update challenge_ok_def dest: uniq)
    have keep: "auth_inv now (db\<lparr>db_challenges := ?up\<rparr>)" if "\<not> 5 \<le> ch_attempts x + 1"
      using inv ok that unfolding auth_inv_def by (simp add: ids toks list_all_iff CHALLENGE_MAX_ATTEMPTS_def)
    have sub: "ch_token ` set (rows_delete (\<lambda>y. ch_id y = c) ?up) \<subseteq> tk_id ` set (db_tokens db)"
    proof -
      have "ch_token ` set (rows_delete (\<lambda>y. ch_id y = c) ?up) \<subseteq> ch_token ` set ?up" by (rule image_mono) simp
      also have "\<dots> \<subseteq> tk_id ` set (db_tokens db)" using toks inv unfolding auth_inv_def by simp
      finally show ?thesis .
    qed
    have all: "list_all (challenge_ok now) (rows_delete (\<lambda>y. ch_id y = c) ?up)" using ok by (simp add: list_all_iff)
    have dist: "distinct (map ch_id (rows_delete (\<lambda>y. ch_id y = c) ?up))" "distinct (map ch_token (rows_delete (\<lambda>y. ch_id y = c) ?up))"
      using inv by (simp_all add: auth_inv_def ids distinct_map_delete)
    have "auth_inv now (db\<lparr>db_challenges := rows_delete (\<lambda>y. ch_id y = c) ?up\<rparr>)"
      by (rule auth_inv_challenges) (rule inv dist sub all)+
    with keep show ?thesis
      by (simp add: increment_challenge_attempts_def Let_def get_challenge_def find invalidate_challenge_def)
  qed
qed

lemma auth_ok_rejected:
  assumes ok: "auth_ok now db0 db"
  shows "auth_ok now db0 (verify_rejected now c i db)"
proof -
  obtain n db1 where n: "increment_challenge_attempts c db = (n, db1)" by fastforce
  let ?db2 = "if 5 \<le> n then invalidate_challenge c db1 else db1"
  have "auth_inv now ?db2" using auth_inv_attempt [OF auth_ok_inv [OF ok], of c] by (simp add: n)
  moreover have "db_tokens ?db2 = db_tokens db" using small_tokens(4) [of c db] by (simp add: n)
  ultimately have "auth_ok now db0 ?db2" by (rule auth_ok_keep [OF ok])
  then show ?thesis by (simp add: verify_rejected_def n auth_ok_totp_failure)
qed

section \<open>Every step keeps the invariant\<close>

lemma auth_ok_login:
  assumes ok: "auth_ok now db0 db"
  shows "auth_ok now db0 (snd (login sha cfg now fresh token ip db))"
proof (cases "get_token_by_hash (sha token) db")
  case None
  with ok show ?thesis by (simp add: login_def)
next
  case (Some t)
  then have t: "t \<in> set (db_tokens db)" by (simp add: token_by_hashD)
  obtain a db1 where a: "is_token_active now t db = (a, db1)" by fastforce
  then have ok1: "auth_ok now db0 db1" using auth_ok_active [OF ok t] by simp
  show ?thesis
    using ok ok1 auth_ok_challenge [OF ok1, of fresh "tk_id t"] auth_ok_issue [OF ok1, of sha cfg fresh "tk_id t" ip]
    by (cases "create_challenge now fresh (tk_id t) CHALLENGE_TTL_SEC db1"; cases "issue_session sha cfg now fresh (tk_id t) ip db1")
       (auto simp: login_def Some a auth_ok_login_failure auth_ok_reset split: bool.splits sum.splits)
qed

lemma auth_ok_accepted:
  assumes ok: "auth_ok now db0 db"
  shows "auth_ok now db0 (snd (verify_accepted sha cfg now fresh c i ip db))"
  using ok
  by (auto simp: verify_accepted_def split: option.splits
      intro!: auth_ok_totp_failure auth_ok_issue auth_ok_reset auth_ok_invalidate auth_ok_set_step)

lemma auth_ok_verify:
  assumes ok: "auth_ok now db0 db"
  shows "auth_ok now db0 (snd (verify sha dec code_at cfg now fresh c code ip db))"
proof (cases "get_challenge c db")
  case None
  with ok show ?thesis by (simp add: verify_def)
next
  case (Some x)
  note x = Some
  show ?thesis
  proof (cases "get_token_by_id (ch_token x) db")
    case None
    with ok x show ?thesis by (simp add: verify_def auth_ok_invalidate)
  next
    case (Some t)
    then have t: "t \<in> set (db_tokens db)" by (simp add: token_by_idD)
    obtain a db1 where a: "is_token_active now t db = (a, db1)" by fastforce
    then have ok1: "auth_ok now db0 db1" using auth_ok_active [OF ok t] by simp
    show ?thesis
      using ok ok1
      by (auto simp: verify_def x Some a auth_ok_invalidate auth_ok_rejected auth_ok_accepted
          split: bool.splits option.splits)
  qed
qed

lemma auth_ok_direct:
  assumes ok: "auth_ok now db0 db"
  shows "auth_ok now db0 (snd (direct_bearer sha now b db))"
proof (cases b)
  case None
  with ok show ?thesis by (simp add: direct_bearer_def)
next
  case (Some p)
  note p = Some
  show ?thesis
  proof (cases "get_token_by_hash (sha p) db")
    case None
    with ok p show ?thesis by (simp add: direct_bearer_def)
  next
    case (Some t)
    then have t: "t \<in> set (db_tokens db)" by (simp add: token_by_hashD)
    show ?thesis
      using ok auth_ok_active [OF ok t]
      by (cases "is_token_active now t db") (simp add: direct_bearer_def p Some)
  qed
qed

lemma auth_ok_dispatch:
  assumes ok: "auth_ok now db0 db"
  shows "auth_ok now db0 (snd (dispatch sha config has_store now r db))"
proof -
  obtain a db1 where a: "direct_bearer sha now (bearer_of r) db = (a, db1)" by fastforce
  then have ok1: "auth_ok now db0 db1" using auth_ok_direct [OF ok, of sha "bearer_of r"] by simp
  have "auth_ok now db0 (touch_session now h ttl db1)" for h ttl
    by (rule auth_ok_keep [OF ok1]) (simp_all add: auth_inv_touch auth_ok_inv [OF ok1])
  with ok ok1 show ?thesis by (simp add: dispatch_def a Let_def split: option.splits)
qed

lemma auth_ok_create:
  assumes ok: "auth_ok now db0 db"
    and new: "create_token sha now fresh_id fresh_secret name expires_at req db = Inr (p, db')"
  shows "auth_ok now db0 db'"
proof -
  obtain t where db': "db' = db\<lparr>db_tokens := db_tokens db @ [t]\<rparr>" and t: "tk_id t \<notin> tk_id ` set (db_tokens db)"
    "tk_sha t \<notin> tk_sha ` set (db_tokens db)" "auth_token_ok now t"
    using new by (auto simp: create_token_def Let_def auth_token_ok_def LOGIN_LOCKOUT_THRESHOLD_def TOTP_LOCKOUT_THRESHOLD_def
        split: if_splits)
  have "auth_inv now db'"
    using auth_ok_inv [OF ok] t unfolding auth_inv_def db' by auto
  moreover have "db_evolves now db db'"
    by (auto simp: db_evolves_def get_token_by_id_def db' row_find_append)
  ultimately show ?thesis using ok db_evolves_trans unfolding auth_ok_def by blast
qed

lemma auth_step_ok:
  assumes "auth_inv now db" "auth_step sha dec code_at now db db'"
  shows "auth_ok now db db'"
proof -
  have ok: "auth_ok now db db" using assms(1) by (simp add: auth_ok_def)
  have logout: "auth_ok now db (logout sha r db)" for r
    by (rule auth_ok_keep [OF ok]) (simp_all add: logout_def auth_inv_revoke_session assms(1))
  from assms(2) show ?thesis
    by cases (auto intro: ok logout auth_ok_login auth_ok_verify auth_ok_dispatch auth_ok_create auth_ok_revoke auth_ok_blob
        simp: set_totp_secret_def clear_totp_secret_def)
qed

lemma auth_run_ok:
  assumes "auth_run sha dec code_at t0 db0 now db" "auth_inv t0 db0"
  shows "t0 \<le> now \<and> auth_ok now db0 db"
  using assms
proof (induction rule: auth_run.induct)
  case run_start
  then show ?case by (simp add: auth_ok_def)
next
  case (run_step t db now db')
  then have t: "t0 \<le> t" "auth_inv t db" "db_evolves t db0 db" by (auto simp: auth_ok_def)
  have "auth_inv now db" using t(2) run_step(2) by (rule auth_inv_later)
  then have "auth_ok now db db'" using run_step(3) by (rule auth_step_ok)
  with t run_step(2) db_evolves_trans [of t db0 db now db'] show ?case by (auto simp: auth_ok_def)
next
  case (run_wait t db now)
  then have t: "t0 \<le> t" "auth_inv t db" "db_evolves t db0 db" by (auto simp: auth_ok_def)
  with run_wait(2) auth_inv_later [of t db now] db_evolves_trans [of t db0 db now db] show ?case by (auto simp: auth_ok_def)
qed


section \<open>Properties\<close>

lemma is_token_activeD:
  assumes "is_token_active now t db = (True, db1)"
  shows "\<not> tk_revoked t" "unexpired now t" "\<And>d. tk_disabled_at t = Some (Iso d) \<Longrightarrow> lockout_end d \<le> now"
    "db1 = (if tk_disabled_at t = None then db else clear_lockout (tk_id t) db)"
  using assms by (auto simp: is_token_active_def split: if_splits option.splits iso_text.splits)

lemma locked_not_active:
  assumes "tk_disabled_at t = Some (Iso d)" "now < lockout_end d"
  shows "is_token_active now t db = (False, db)"
  using assms by (simp add: is_token_active_def)

lemma reachable_inv: "auth_run sha dec code_at s0 empty_auth now db \<Longrightarrow> auth_inv now db"
  using auth_run_ok auth_inv_empty unfolding auth_ok_def by blast

lemma token_by_hash_unique:
  assumes "auth_inv now db" "get_token_by_id i db = Some t"
  shows "get_token_by_hash (tk_sha t) db = Some t"
  using assms unfolding get_token_by_hash_def
  by (intro row_find_distinct) (auto simp: auth_inv_def dest: token_by_idD)

lemma invalidated_gone [simp]: "get_challenge c (invalidate_challenge c db) = None"
  by (simp add: get_challenge_def invalidate_challenge_def row_find_delete_key)

lemma create_session_challenges: "create_session sha now p i ttl ip db = Inr (r, db') \<Longrightarrow> db_challenges db' = db_challenges db"
  by (auto simp: create_session_def Let_def split: if_splits)

text \<open>What an accepted second factor was, and what it leaves.\<close>

lemma verify_accepted_session:
  assumes "verify_accepted sha cfg now fresh c i ip db = (Inr a, db')"
  shows "(\<forall>p. get_totp_last_step i db = Some p \<longrightarrow> p < time_step now) \<and>
    a = Session fresh (now + sec (ac_session_ttl_sec cfg)) \<and>
    db_sessions db' = db_sessions db @ [\<lparr>ss_sha = sha fresh, ss_token = i, ss_created_at = now,
      ss_expires_at = now + sec (ac_session_ttl_sec cfg), ss_last_seen_at = now,
      ss_client_ip = (if ac_session_pin_ip cfg then Some ip else None)\<rparr>] \<and>
    get_challenge c db' = None \<and>
    db_tokens db' = db_tokens (reset_failures i (set_totp_last_step i (time_step now) db))"
  using assms
  by (auto simp: verify_accepted_def issue_session_def create_session_def Let_def get_challenge_def reset_failures_def
      set_totp_last_step_def invalidate_challenge_def update_token_def row_find_delete_key
      split: option.splits if_splits sum.splits)

lemma verify_session:
  assumes "verify sha dec code_at cfg now fresh c code ip db = (Inr a, db')"
  obtains x t blob secret db1 where "get_challenge c db = Some x" "is_challenge_valid now x"
    "get_token_by_id (ch_token x) db = Some t" "is_token_active now t db = (True, db1)" "tk_totp_blob t = Some blob"
    "dec (ac_master_key cfg) blob = Some secret" "totp_verify code_at secret now code"
    "verify_accepted sha cfg now fresh c (ch_token x) ip db1 = (Inr a, db')"
  using assms by (auto simp: verify_def split: option.splits if_splits prod.splits bool.splits)

text \<open>
  C31.  A session comes out of \<open>verify\<close> only for a live challenge of an unrevoked, unexpired token that is not locked
  out, with a code of the decrypted secret for the current step or a neighbour, at a step after the last accepted one.
  The challenge is spent, and the stored session belongs to that token.
\<close>

theorem second_factor_required:
  assumes "auth_run sha dec code_at s0 empty_auth now db"
    and "verify sha dec code_at cfg now fresh c code ip db = (Inr a, db')"
  shows "\<exists>x t blob secret. get_challenge c db = Some x \<and> now \<le> ch_expires_at x \<and>
    get_token_by_id (ch_token x) db = Some t \<and> \<not> tk_revoked t \<and> unexpired now t \<and>
    (\<forall>d. tk_disabled_at t = Some (Iso d) \<longrightarrow> lockout_end d \<le> now) \<and>
    tk_totp_blob t = Some blob \<and> dec (ac_master_key cfg) blob = Some secret \<and> totp_verify code_at secret now code \<and>
    (\<forall>p. tk_last_step t = Some p \<longrightarrow> p < time_step now) \<and>
    a = Session fresh (now + sec (ac_session_ttl_sec cfg)) \<and> get_challenge c db' = None \<and>
    (\<exists>s. db_sessions db' = db_sessions db @ [s] \<and> ss_token s = tk_id t \<and> ss_sha s = sha fresh \<and> ss_created_at s = now)"
proof -
  from assms(2) obtain x t blob secret db1 where 1: "get_challenge c db = Some x" "is_challenge_valid now x"
    "get_token_by_id (ch_token x) db = Some t" "is_token_active now t db = (True, db1)" "tk_totp_blob t = Some blob"
    "dec (ac_master_key cfg) blob = Some secret" "totp_verify code_at secret now code"
    "verify_accepted sha cfg now fresh c (ch_token x) ip db1 = (Inr a, db')" by (rule verify_session)
  note t = token_by_idD [OF 1(3)]
  have last: "get_totp_last_step (ch_token x) db1 = tk_last_step t" and sess: "db_sessions db1 = db_sessions db"
    using is_token_activeD(4) [OF 1(4)] 1(3) t
    by (simp_all add: get_totp_last_step_def clear_lockout_def get_update_token)
  from verify_accepted_session [OF 1(8)] 1(1,3,5-7) t is_token_activeD(1-3) [OF 1(4)] 1(2) last sess show ?thesis
    by (auto simp: is_challenge_valid_def)
qed

text \<open>
  C32.  A lockout holds: until its fifteen minutes are over, whatever else happens, the token's bearer does not log in,
  none of its challenges is verified, and it is not admitted as a direct bearer.
\<close>

theorem lockout_holds:
  assumes "auth_run sha dec code_at s0 empty_auth t0 db0"
    and "get_token_by_id i db0 = Some t" "tk_disabled_at t = Some (Iso d)"
    and "auth_run sha dec code_at t0 db0 now db" "now < lockout_end d"
  shows "(\<forall>cfg fresh token ip. sha token = tk_sha t \<longrightarrow> (\<exists>e. fst (login sha cfg now fresh token ip db) = Inl e)) \<and>
    (\<forall>cfg fresh c code ip x. get_challenge c db = Some x \<and> ch_token x = i \<longrightarrow>
       (\<exists>e. fst (verify sha dec code_at cfg now fresh c code ip db) = Inl e)) \<and>
    (\<forall>config has_store r. fst (dispatch sha config has_store now r db) \<noteq> Inr (DirectBearer i))"
proof -
  have ok: "auth_ok now db0 db" using auth_run_ok [OF assms(4) reachable_inv [OF assms(1)]] by simp
  then obtain t' where t': "get_token_by_id i db = Some t'" "token_evolves now t t'"
    using assms(2) unfolding auth_ok_def db_evolves_def by blast
  then obtain d' where d': "tk_disabled_at t' = Some (Iso d')" "now < lockout_end d'"
    using assms(3,5) lockout_end_mono unfolding token_evolves_def by (meson less_le_trans)
  have sha: "tk_sha t' = tk_sha t" using t'(2) by (simp add: token_evolves_def)
  note inactive = locked_not_active [OF d']
  have hash: "get_token_by_hash (tk_sha t) db = Some t'" using token_by_hash_unique [OF auth_ok_inv [OF ok] t'(1)] sha by simp
  have "\<exists>e. fst (login sha cfg now fresh token ip db) = Inl e" if "sha token = tk_sha t" for cfg fresh token ip
    using that by (simp add: login_def hash inactive)
  moreover have "\<exists>e. fst (verify sha dec code_at cfg now fresh c code ip db) = Inl e"
    if "get_challenge c db = Some x" "ch_token x = i" for cfg fresh c code ip x
    using that t'(1) by (simp add: verify_def inactive)
  moreover have "fst (dispatch sha config has_store now r db) \<noteq> Inr (DirectBearer i)" for config has_store r
  proof
    assume "fst (dispatch sha config has_store now r db) = Inr (DirectBearer i)"
    then obtain u db1 where u: "direct_bearer sha now (bearer_of r) db = (Some u, db1)" "tk_id u = i"
      by (auto simp: dispatch_def Let_def split: option.splits if_splits prod.splits)
    then obtain b where b: "get_token_by_hash b db = Some u" "fst (is_token_active now u db)"
      by (auto simp: direct_bearer_def split: option.splits if_splits prod.splits)
    have "u = t'"
      using token_by_hashD [OF b(1)] u(2) t'(1) token_by_id [OF auth_invD(1) [OF auth_ok_inv [OF ok]], of u] by simp
    with b(2) inactive show False by simp
  qed
  ultimately show ?thesis by blast
qed

text \<open>C33.  Two sessions that \<open>verify\<close> issues for one token, in any run, belong to different time steps, the later one to the later step.\<close>

theorem one_session_per_step:
  assumes "auth_run sha dec code_at s0 empty_auth t1 db1"
    and "verify sha dec code_at cfg t1 fresh c code ip db1 = (Inr a, db2)"
    and "auth_run sha dec code_at t1 db2 t2 db3"
    and "verify sha dec code_at cfg' t2 fresh' c' code' ip' db3 = (Inr b, db4)"
    and "map_option ch_token (get_challenge c' db3) = map_option ch_token (get_challenge c db1)"
  shows "time_step t1 < time_step t2"
proof -
  from assms(2) obtain x t db where 1: "get_challenge c db1 = Some x" "get_token_by_id (ch_token x) db1 = Some t"
    "is_token_active t1 t db1 = (True, db)" "verify_accepted sha cfg t1 fresh c (ch_token x) ip db = (Inr a, db2)"
    by (rule verify_session)
  from assms(4) obtain y u db' where 2: "get_challenge c' db3 = Some y" "get_token_by_id (ch_token y) db3 = Some u"
    "is_token_active t2 u db3 = (True, db')" "verify_accepted sha cfg' t2 fresh' c' (ch_token y) ip' db' = (Inr b, db4)"
    by (rule verify_session)
  have y: "ch_token y = ch_token x" using assms(5) 1(1) 2(1) by simp
  have "auth_step sha dec code_at t1 db1 db2" using step_verify [of sha dec code_at t1 db1 cfg fresh c code ip] assms(2) by simp
  then have inv2: "auth_inv t1 db2" using auth_step_ok reachable_inv [OF assms(1)] auth_ok_inv by blast
  have "\<exists>v. get_token_by_id (ch_token x) db2 = Some v \<and> tk_last_step v = Some (time_step t1)"
    using verify_accepted_session [OF 1(4)] is_token_activeD(4) [OF 1(3)] 1(2) token_by_idD [OF 1(2)]
    by (simp add: get_token_by_id_def [of _ db2])
       (simp add: get_token_by_id_def [symmetric] reset_failures_def set_totp_last_step_def clear_lockout_def get_update_token)
  then obtain v where v: "get_token_by_id (ch_token x) db2 = Some v" "tk_last_step v = Some (time_step t1)" by blast
  have "auth_ok t2 db2 db3" using auth_run_ok [OF assms(3) inv2] by simp
  with v obtain p where p: "tk_last_step u = Some p" "time_step t1 \<le> p"
    using 2(2) y unfolding auth_ok_def db_evolves_def token_evolves_def by fastforce
  have "get_totp_last_step (ch_token y) db' = Some p"
    using is_token_activeD(4) [OF 2(3)] 2(2) p(1) by (simp add: get_totp_last_step_def clear_lockout_def get_update_token)
  with verify_accepted_session [OF 2(4)] p(2) show ?thesis by fastforce
qed


text \<open>
  C34.  No request is admitted with a session later than seven days after its creation, nor after its expiry, and a
  change is admitted only with the bearer header.  Touching the session moves neither its creation nor its expiry past
  that limit.
\<close>

theorem session_hard_cap:
  assumes "dispatch sha config has_store now r db = (Inr (WithSession s), db')"
  shows "s \<in> set (db_sessions db) \<and> now \<le> ss_expires_at s \<and> now \<le> ss_created_at s + sec MAX_SESSION_LIFETIME_SEC \<and>
    (hr_method r \<in> set MUTATION_METHODS \<longrightarrow> truthy (bearer_of r)) \<and>
    (\<exists>s'. get_session_by_hash (ss_sha s) db' = Some s' \<and> ss_token s' = ss_token s \<and> ss_created_at s' = ss_created_at s \<and>
       ss_expires_at s' \<le> ss_created_at s + sec MAX_SESSION_LIFETIME_SEC)"
proof -
  have sess: "db_sessions (snd (direct_bearer sha now b db)) = db_sessions db" for b
    by (auto simp: direct_bearer_def is_token_active_def clear_lockout_def split: option.splits iso_text.splits if_splits prod.splits)
  from assms obtain cfg db1 h where 1: "direct_bearer sha now (bearer_of r) db = (None, db1)"
    "get_session_by_hash h db1 = Some s" "is_session_valid now s (request_ip cfg r) (ac_session_pin_ip cfg)"
    "\<not> (hr_method r \<in> set MUTATION_METHODS \<and> \<not> truthy (bearer_of r))" "db' = touch_session now h (ac_session_ttl_sec cfg) db1"
    by (auto simp: dispatch_def Let_def split: option.splits if_splits prod.splits)
  have s: "ss_sha s = h" "s \<in> set (db_sessions db)"
    using row_find_SomeD [OF 1(2) [unfolded get_session_by_hash_def]] sess [of "bearer_of r"] 1(1) by auto
  have "get_session_by_hash h db' = Some (s\<lparr>ss_last_seen_at := now, ss_expires_at := min (now + sec (ac_session_ttl_sec cfg)) (session_cap s)\<rparr>)"
    using 1(2) s(1) by (simp add: 1(5) touch_session_def get_session_by_hash_def row_find_update)
  with s 1(3,4) show ?thesis by (auto simp: is_session_valid_def session_cap_def)
qed

lemma unexpired_earlier: "unexpired now t \<Longrightarrow> now' \<le> now \<Longrightarrow> unexpired now' t"
  by (auto simp: unexpired_def split: option.splits iso_text.splits)

lemma time_step_after_lockout: "a + minutes LOCKOUT_MINUTES \<le> b \<Longrightarrow> time_step a < time_step b"
proof -
  assume "a + minutes LOCKOUT_MINUTES \<le> b"
  then have "a + 1 * 30000000 \<le> b" by (simp add: minutes_def LOCKOUT_MINUTES_def sec_def)
  then have "(a + 1 * 30000000) div 30000000 \<le> b div 30000000" by (rule zdiv_mono1) simp
  then show ?thesis by (simp add: time_step_def sec_def)
qed

lemma active_after_silence:
  assumes "auth_token_ok t0 t" "\<not> tk_revoked t" "unexpired t1 t" "t0 + minutes LOCKOUT_MINUTES \<le> t1"
  shows "is_token_active t1 t db = (True, if tk_disabled_at t = None then db else clear_lockout (tk_id t) db)"
  using assms by (auto simp: is_token_active_def auth_token_ok_def lockout_end_def split: option.splits iso_text.splits)

text \<open>
  C35.  A lockout ends.  Whatever happened before, after fifteen minutes of silence the bearer of an unrevoked, unexpired,
  enrolled token is given a challenge, and the code of the current step answers it with a session.
\<close>

theorem lockout_recovers:
  assumes "auth_run sha dec code_at s0 empty_auth t0 db"
    and "get_token_by_id i db = Some t" "\<not> tk_revoked t" "tk_totp_blob t = Some blob" "unexpired t2 t"
    and "tk_sha t = sha token" "starts_with token ''mnk_''"
    and "t0 + minutes LOCKOUT_MINUTES \<le> t1" "t1 \<le> t2" "t2 \<le> t1 + sec CHALLENGE_TTL_SEC"
    and "''chg_'' @ fresh \<notin> ch_id ` set (db_challenges db)" "sha fresh' \<notin> ss_sha ` set (db_sessions db)"
    and "ac_master_key cfg \<noteq> []" "dec (ac_master_key cfg) blob = Some secret"
  shows "\<exists>db1 db2. login sha cfg t1 fresh token ip db = (Inr (Challenge (''chg_'' @ fresh)), db1) \<and>
    verify sha dec code_at cfg t2 fresh' (''chg_'' @ fresh) (code_at secret (time_step t2)) ip db1 =
      (Inr (Session fresh' (t2 + sec (ac_session_ttl_sec cfg))), db2)"
proof -
  let ?c = "''chg_'' @ fresh"
  define dba where "dba = (if tk_disabled_at t = None then db else clear_lockout i db)"
  define t' where "t' = (if tk_disabled_at t = None then t else t\<lparr>tk_disabled_at := None, tk_failures := 0, tk_totp_failures := 0\<rparr>)"
  define ch where "ch = \<lparr>ch_id = ?c, ch_token = i, ch_created_at = t1, ch_expires_at = t1 + sec CHALLENGE_TTL_SEC, ch_attempts = 0\<rparr>"
  define db1 where "db1 = dba\<lparr>db_challenges := rows_delete (\<lambda>c. ch_token c = i) (db_challenges dba) @ [ch]\<rparr>"
  have inv: "auth_inv t0 db" using assms(1) by (rule reachable_inv)
  have t: "tk_id t = i" "t \<in> set (db_tokens db)" using token_by_idD [OF assms(2)] by auto
  have ok: "auth_token_ok t0 t" using inv t(2) by (rule auth_invD)
  have active: "is_token_active t1 t db = (True, dba)"
    using active_after_silence [OF ok assms(3) unexpired_earlier [OF assms(5,9)] assms(8)] t(1) by (simp add: dba_def)
  have hash: "get_token_by_hash (sha token) db = Some t" using token_by_hash_unique [OF inv assms(2)] assms(6) by simp
  have chs: "db_challenges dba = db_challenges db" and sess: "db_sessions dba = db_sessions db"
    and tok': "get_token_by_id i dba = Some t'"
    using assms(2) t(1) by (simp_all add: dba_def t'_def clear_lockout_def get_update_token)
  have mem: "i \<in> tk_id ` set (db_tokens dba)" using token_by_idD [OF tok'] by auto
  have new: "?c \<notin> ch_id ` set (rows_delete (\<lambda>c. ch_token c = i) (db_challenges db))" using assms(11) by auto
  have login: "login sha cfg t1 fresh token ip db = (Inr (Challenge ?c), db1)"
    using assms(4,7) new mem
    by (simp add: login_def hash active create_challenge_def Let_def t(1) chs db1_def ch_def)
  have ch: "get_challenge ?c db1 = Some ch"
    using new by (simp add: get_challenge_def db1_def chs row_find_append row_find_None_iff [THEN iffD2]) (simp add: ch_def)
  have tok1: "get_token_by_id i db1 = Some t'" using tok' by (simp add: get_token_by_id_def db1_def)
  have t2: "is_token_active t2 t' db1 = (True, db1)"
    using assms(3,5) by (simp add: is_token_active_def t'_def unexpired_def)
  have step: "p < time_step t2" if "tk_last_step t' = Some p" for p
  proof -
    have "p \<le> time_step t0" using ok that by (simp add: t'_def auth_token_ok_def split: if_splits)
    also have "\<dots> < time_step t2" using time_step_after_lockout [of t0 t2] assms(8,9) by simp
    finally show ?thesis .
  qed
  define dbv where "dbv = reset_failures i (invalidate_challenge ?c (set_totp_last_step i (time_step t2) db1))"
  have free: "sha fresh' \<notin> ss_sha ` set (db_sessions dbv)"
    using assms(12) by (simp add: dbv_def reset_failures_def invalidate_challenge_def set_totp_last_step_def db1_def sess)
  have "get_token_by_id i dbv \<noteq> None"
    using tok1 by (simp add: dbv_def reset_failures_def set_totp_last_step_def get_update_token)
       (simp add: get_token_by_id_def invalidate_challenge_def update_token_def row_find_update)
  then have mem2: "i \<in> tk_id ` set (db_tokens dbv)" using row_find_None_iff [of tk_id i "db_tokens dbv"] by (auto simp: get_token_by_id_def)
  have accepted: "verify_accepted sha cfg t2 fresh' ?c i ip db1 = issue_session sha cfg t2 fresh' i ip dbv"
    using step by (auto simp: verify_accepted_def get_totp_last_step_def tok1 dbv_def split: option.splits)
  have valid: "is_challenge_valid t2 ch" using assms(10) by (simp add: is_challenge_valid_def ch_def CHALLENGE_MAX_ATTEMPTS_def)
  have verified: "totp_verify code_at secret t2 (code_at secret (time_step t2))" by (simp add: totp_verify_def)
  have blob: "tk_totp_blob t' = Some blob" using assms(4) by (simp add: t'_def)
  have "ch_token ch = i" by (simp add: ch_def)
  then have "verify sha dec code_at cfg t2 fresh' ?c (code_at secret (time_step t2)) ip db1 = issue_session sha cfg t2 fresh' i ip dbv"
    using assms(13,14) by (simp add: verify_def ch valid tok1 t2 blob verified accepted del: append_Cons append_Nil)
  moreover have "fst (issue_session sha cfg t2 fresh' i ip dbv) = Inr (Session fresh' (t2 + sec (ac_session_ttl_sec cfg)))"
    using free mem2 by (simp add: issue_session_def create_session_def Let_def)
  ultimately show ?thesis using login by (metis prod.collapse)
qed


section \<open>What the code does not do\<close>

text \<open>A revoked token's sessions go on: \<open>dispatch\<close> admits the same session after \<open>revoke_token\<close>.\<close>

lemma revoked_session_admitted:
  assumes "fst (dispatch sha config has_store now r db) = Inr (WithSession s)"
  shows "fst (dispatch sha config has_store now r (snd (revoke_token i db))) = Inr (WithSession s)"
proof -
  let ?db' = "snd (revoke_token i db)"
  have sess: "db_sessions (snd (direct_bearer sha now b x)) = db_sessions x" for b x
    by (auto simp: direct_bearer_def is_token_active_def clear_lockout_def split: option.splits iso_text.splits if_splits prod.splits)
  have same: "db_sessions ?db' = db_sessions db" by (simp add: revoke_token_def)
  have hash: "get_token_by_hash h ?db' = map_option (\<lambda>t. if tk_id t = i then t\<lparr>tk_revoked := True\<rparr> else t) (get_token_by_hash h db)" for h
    by (simp add: get_token_by_hash_def revoke_token_def update_token_def row_find_update)
  have none: "fst (direct_bearer sha now b ?db') = None" if "fst (direct_bearer sha now b db) = None" for b
    using that
    by (auto simp: direct_bearer_def hash is_token_active_def unexpired_def split: option.splits iso_text.splits if_splits prod.splits)
  obtain a x where x: "direct_bearer sha now (bearer_of r) db = (a, x)" by fastforce
  obtain a' x' where x': "direct_bearer sha now (bearer_of r) ?db' = (a', x')" by fastforce
  have "db_sessions x' = db_sessions x" using sess [of "bearer_of r"] x x' same by (metis snd_conv)
  then have sessions: "get_session_by_hash h x' = get_session_by_hash h x" for h by (simp add: get_session_by_hash_def)
  have "a = None" using assms x by (auto simp: dispatch_def Let_def split: option.splits if_splits)
  moreover from this have "a' = None" using none [of "bearer_of r"] x x' by simp
  ultimately show ?thesis using assms by (auto simp: dispatch_def Let_def x x' sessions split: option.splits if_splits)
qed

text \<open>
  A code stays good: what was accepted as the code of its own step is accepted again in the next step, which the replay
  guard lets through.
\<close>

lemma code_accepted_twice:
  assumes "time_step t2 = time_step t1 + 1" "tk_last_step t = Some (time_step t1)"
  shows "totp_verify code_at secret t2 (code_at secret (time_step t1)) \<and> (\<forall>p. tk_last_step t = Some p \<longrightarrow> p < time_step t2)"
  using assms by (simp add: totp_verify_def)

text \<open>A locked token with nine counted failures is locked anew by each further login with its own bearer.\<close>

lemma retry_renews_lockout:
  assumes "auth_inv now db" "get_token_by_hash (sha token) db = Some t" "starts_with token ''mnk_''"
    and "tk_disabled_at t = Some (Iso d)" "now < lockout_end d" "9 \<le> tk_failures t"
  shows "\<exists>t'. get_token_by_id (tk_id t) (snd (login sha cfg now fresh token ip db)) = Some t' \<and> tk_disabled_at t' = Some (Iso now)"
proof -
  note inactive = locked_not_active [OF assms(4,5)] and t = token_by_hashD [OF assms(2)]
  have "snd (login sha cfg now fresh token ip db) = update_token (tk_id t) (count_login_failure now) db"
    using increment_login_failure_eq [OF auth_invD(1) [OF assms(1)], of t now] assms(3) t
    by (simp add: login_def assms(2) inactive)
  with token_by_id [OF auth_invD(1) [OF assms(1)], of t] t assms(6) show ?thesis
    by (simp add: get_update_token) (simp add: count_login_failure_def Let_def LOGIN_LOCKOUT_THRESHOLD_def)
qed

text \<open>A token without a secret gets its session at login, whatever its \<open>totp_required\<close>.\<close>

lemma unenrolled_login:
  assumes "get_token_by_hash (sha token) db = Some t" "starts_with token ''mnk_''" "is_token_active now t db = (True, db1)"
    and "tk_totp_blob t = None" "issue_session sha cfg now fresh (tk_id t) ip db1 = (Inr s, db2)"
  shows "fst (login sha cfg now fresh token ip db) = Inr s"
  using assms by (simp add: login_def)

section \<open>Runs\<close>

definition demo_code :: "string \<Rightarrow> int \<Rightarrow> string" where
  "demo_code secret step = replicate (nat step) (CHR ''x'')"

definition demo_cfg :: api_config where
  "demo_cfg = \<lparr>ac_loopback = False, ac_auth_enabled = True, ac_master_key = ''k'', ac_session_ttl_sec = 3600,
     ac_session_pin_ip = False, ac_behind_tls_proxy = False\<rparr>"

abbreviation demo_run :: "moment \<Rightarrow> auth_db \<Rightarrow> moment \<Rightarrow> auth_db \<Rightarrow> bool" where
  "demo_run \<equiv> auth_run (\<lambda>s. s) (\<lambda>k b. Some b) demo_code"

definition demo_token :: "nat \<Rightarrow> nat \<Rightarrow> iso_text option \<Rightarrow> int option \<Rightarrow> auth_token" where
  "demo_token totp_failures failures disabled_at last_step =
     \<lparr>tk_id = ''tid_a'', tk_sha = ''mnk_s'', tk_name = None, tk_totp_blob = Some ''S'', tk_created_at = 0, tk_expires_at = None,
      tk_disabled_at = disabled_at, tk_failures = failures, tk_totp_failures = totp_failures, tk_last_step = last_step, tk_revoked = False,
      tk_totp_required = True\<rparr>"

definition demo_challenge :: "moment \<Rightarrow> nat \<Rightarrow> challenge" where
  "demo_challenge now attempts =
     \<lparr>ch_id = ''chg_c'', ch_token = ''tid_a'', ch_created_at = now, ch_expires_at = now + sec 120, ch_attempts = attempts\<rparr>"

definition demo_session :: "moment \<Rightarrow> string \<Rightarrow> auth_session" where
  "demo_session now p =
     \<lparr>ss_sha = p, ss_token = ''tid_a'', ss_created_at = now, ss_expires_at = now + sec 3600, ss_last_seen_at = now, ss_client_ip = None\<rparr>"

definition demo_db :: "auth_token \<Rightarrow> auth_session list \<Rightarrow> challenge list \<Rightarrow> auth_db" where
  "demo_db t ss cs = \<lparr>db_tokens = [t], db_sessions = ss, db_challenges = cs\<rparr>"

lemmas demo_defs = demo_code_def demo_cfg_def demo_token_def demo_challenge_def demo_session_def demo_db_def empty_auth_def

lemma demo_created:
  "create_token (\<lambda>s. s) 0 ''a'' ''s'' None None True empty_auth =
     Inr ((''tid_a'', ''mnk_s''), demo_db ((demo_token 0 0 None None)\<lparr>tk_totp_blob := None\<rparr>) [] [])"
  by code_simp

lemma demo_enrolled:
  "set_totp_secret ''tid_a'' ''S'' (demo_db ((demo_token 0 0 None None)\<lparr>tk_totp_blob := None\<rparr>) [] []) = demo_db (demo_token 0 0 None None) [] []"
  by code_simp

lemma demo_login:
  "login (\<lambda>s. s) demo_cfg 0 ''c'' ''mnk_s'' ''ip'' (demo_db (demo_token 0 0 None None) [] []) =
     (Inr (Challenge ''chg_c''), demo_db (demo_token 0 0 None None) [] [demo_challenge 0 0])"
  by code_simp

lemma demo_wrong:
  "verify (\<lambda>s. s) (\<lambda>k b. Some b) demo_code demo_cfg 0 ''f'' ''chg_c'' ''no'' ''ip'' (demo_db (demo_token 0 0 None None) [] [demo_challenge 0 0]) =
     (Inl InvalidCode, demo_db (demo_token 1 0 None None) [] [demo_challenge 0 1])"
  "verify (\<lambda>s. s) (\<lambda>k b. Some b) demo_code demo_cfg 0 ''f'' ''chg_c'' ''no'' ''ip'' (demo_db (demo_token 1 0 None None) [] [demo_challenge 0 1]) =
     (Inl InvalidCode, demo_db (demo_token 2 0 None None) [] [demo_challenge 0 2])"
  "verify (\<lambda>s. s) (\<lambda>k b. Some b) demo_code demo_cfg 0 ''f'' ''chg_c'' ''no'' ''ip'' (demo_db (demo_token 2 0 None None) [] [demo_challenge 0 2]) =
     (Inl InvalidCode, demo_db (demo_token 3 0 (Some (Iso 0)) None) [] [demo_challenge 0 3])"
  by code_simp+

lemma demo_right:
  "verify (\<lambda>s. s) (\<lambda>k b. Some b) demo_code demo_cfg 0 ''f'' ''chg_c'' [] ''ip'' (demo_db (demo_token 0 0 None None) [] [demo_challenge 0 0]) =
     (Inr (Session ''f'' 3600000000), demo_db (demo_token 0 0 None (Some 0)) [demo_session 0 ''f''] [])"
  by code_simp

lemma demo_again:
  "login (\<lambda>s. s) demo_cfg 30000000 ''c'' ''mnk_s'' ''ip'' (demo_db (demo_token 0 0 None (Some 0)) [demo_session 0 ''f''] []) =
     (Inr (Challenge ''chg_c''), demo_db (demo_token 0 0 None (Some 0)) [demo_session 0 ''f''] [demo_challenge 30000000 0])"
  by code_simp

text \<open>The code of step 0 is used again in step 1.\<close>

lemma demo_replayed:
  "verify (\<lambda>s. s) (\<lambda>k b. Some b) demo_code demo_cfg 30000000 ''g'' ''chg_c'' [] ''ip''
     (demo_db (demo_token 0 0 None (Some 0)) [demo_session 0 ''f''] [demo_challenge 30000000 0]) =
     (Inr (Session ''g'' 3630000000), demo_db (demo_token 0 0 None (Some 1)) [demo_session 0 ''f'', demo_session 30000000 ''g''] [])"
  by code_simp

lemma demo_run_login: "demo_run 0 empty_auth 0 (demo_db (demo_token 0 0 None None) [] [demo_challenge 0 0])"
proof -
  have "demo_run 0 empty_auth 0 (demo_db ((demo_token 0 0 None None)\<lparr>tk_totp_blob := None\<rparr>) [] [])"
    by (rule run_step [OF run_start order_refl step_create [OF demo_created]])
  from run_step [OF this order_refl step_enrol [of _ _ _ 0 _ "''tid_a''" "''S''"]]
  have "demo_run 0 empty_auth 0 (demo_db (demo_token 0 0 None None) [] [])" by (simp only: demo_enrolled)
  from run_step [OF this order_refl step_login [of _ _ _ 0 _ demo_cfg "''c''" "''mnk_s''" "''ip''"]]
  show ?thesis by (simp only: demo_login snd_conv)
qed

lemma demo_run_wrong:
  assumes "demo_run 0 empty_auth 0 db"
    and "verify (\<lambda>s. s) (\<lambda>k b. Some b) demo_code demo_cfg 0 ''f'' ''chg_c'' ''no'' ''ip'' db = (r, db')"
  shows "demo_run 0 empty_auth 0 db'"
  using run_step [OF assms(1) order_refl step_verify [of _ _ _ 0 _ demo_cfg "''f''" "''chg_c''" "''no''" "''ip''"]] assms(2)
  by simp

lemma demo_run_locked: "demo_run 0 empty_auth 0 (demo_db (demo_token 3 0 (Some (Iso 0)) None) [] [demo_challenge 0 3])"
  by (rule demo_run_wrong [OF demo_run_wrong [OF demo_run_wrong [OF demo_run_login demo_wrong(1)] demo_wrong(2)] demo_wrong(3)])

lemma demo_run_again:
  "demo_run 0 (demo_db (demo_token 0 0 None (Some 0)) [demo_session 0 ''f''] []) 30000000
     (demo_db (demo_token 0 0 None (Some 0)) [demo_session 0 ''f''] [demo_challenge 30000000 0])"
  using run_step [OF run_start [of _ _ _ 0] _ step_login [where now = 30000000 and cfg = demo_cfg and fresh = "''c''" and
      token = "''mnk_s''" and client_ip = "''ip''" and sha = "\<lambda>s. s" and dec = "\<lambda>k b. Some b" and code_at = demo_code and
      db = "demo_db (demo_token 0 0 None (Some 0)) [demo_session 0 ''f''] []"]]
  by (simp add: demo_again)

lemma demo_by_id [simp]: "get_token_by_id ''tid_a'' (demo_db (demo_token a b c d) ss cs) = Some (demo_token a b c d)"
  by (simp add: demo_db_def demo_token_def get_token_by_id_def)

lemma second_factor_required_witness:
  "\<exists>x t blob secret. get_challenge ''chg_c'' (demo_db (demo_token 0 0 None None) [] [demo_challenge 0 0]) = Some x \<and>
     get_token_by_id (ch_token x) (demo_db (demo_token 0 0 None None) [] [demo_challenge 0 0]) = Some t \<and>
     tk_totp_blob t = Some blob \<and> totp_verify demo_code secret 0 []"
  using second_factor_required [OF demo_run_login demo_right] by blast

lemma lockout_holds_witness:
  "\<exists>e. fst (login (\<lambda>s. s) demo_cfg 899000000 ''d'' ''mnk_s'' ''ip''
     (demo_db (demo_token 3 0 (Some (Iso 0)) None) [] [demo_challenge 0 3])) = Inl e"
proof -
  have w: "demo_run 0 (demo_db (demo_token 3 0 (Some (Iso 0)) None) [] [demo_challenge 0 3]) 899000000
      (demo_db (demo_token 3 0 (Some (Iso 0)) None) [] [demo_challenge 0 3])"
    by (rule run_wait [OF run_start]) simp
  have d: "tk_disabled_at (demo_token 3 0 (Some (Iso 0)) None) = Some (Iso 0)" by (simp add: demo_token_def)
  have l: "(899000000 :: moment) < lockout_end 0" by (simp add: lockout_end_def minutes_def sec_def LOCKOUT_MINUTES_def)
  have s: "''mnk_s'' = tk_sha (demo_token 3 0 (Some (Iso 0)) None)" by (simp add: demo_token_def)
  show ?thesis using lockout_holds [OF demo_run_locked demo_by_id d w l] s by blast
qed

lemma one_session_per_step_witness: "time_step 0 < time_step 30000000"
proof -
  have "map_option ch_token (get_challenge ''chg_c'' (demo_db (demo_token 0 0 None (Some 0)) [demo_session 0 ''f''] [demo_challenge 30000000 0])) =
      map_option ch_token (get_challenge ''chg_c'' (demo_db (demo_token 0 0 None None) [] [demo_challenge 0 0]))"
    by (simp add: demo_defs get_challenge_def)
  then show ?thesis by (rule one_session_per_step [OF demo_run_login demo_right demo_run_again demo_replayed])
qed

definition demo_request :: http_request where
  "demo_request = \<lparr>hr_path = ''/memories'', hr_method = ''POST'', hr_authorization = ''Bearer f'', hr_cookie = None,
     hr_peer = None, hr_client_ip = ''ip''\<rparr>"

lemma demo_dispatch:
  "dispatch (\<lambda>s. s) (Some demo_cfg) True 5000000 demo_request (demo_db (demo_token 0 0 None (Some 0)) [demo_session 0 ''f''] []) =
     (Inr (WithSession (demo_session 0 ''f'')), demo_db (demo_token 0 0 None (Some 0))
        [(demo_session 0 ''f'')\<lparr>ss_last_seen_at := 5000000, ss_expires_at := 3605000000\<rparr>] [])"
  by code_simp

lemma session_hard_cap_witness: "5000000 \<le> ss_created_at (demo_session 0 ''f'') + sec MAX_SESSION_LIFETIME_SEC"
  using session_hard_cap [OF demo_dispatch] by blast

lemma lockout_recovers_witness:
  "\<exists>db1 db2. login (\<lambda>s. s) demo_cfg 900000000 ''d'' ''mnk_s'' ''ip'' (demo_db (demo_token 3 0 (Some (Iso 0)) None) [] [demo_challenge 0 3]) =
       (Inr (Challenge (''chg_'' @ ''d'')), db1) \<and>
     verify (\<lambda>s. s) (\<lambda>k b. Some b) demo_code demo_cfg 930000000 ''g'' (''chg_'' @ ''d'') (demo_code ''S'' (time_step 930000000)) ''ip'' db1 =
       (Inr (Session ''g'' (930000000 + sec (ac_session_ttl_sec demo_cfg))), db2)"
  by (rule lockout_recovers [OF demo_run_locked demo_by_id, where blob = "''S''"])
     (simp_all add: demo_defs unexpired_def minutes_def sec_def LOCKOUT_MINUTES_def CHALLENGE_TTL_SEC_def)

end
