(* ===== verification/Canon.thy ===== *)
theory Canon
  imports Regex Memory_Model "HOL-Library.Code_Target_Nat"
begin

text \<open>
  The record canon of \<open>canon_validate.py\<close>: the envelope \<open>metadata.canon\<close>, the required sections, the title rules and
  the dates of a body.

  A violation is a constructor that carries what its message shows; the code and the rule are the source's, the wording
  of the detail is left to \<open>as_dict\<close>'s first argument.  Two lookups in a frozen set raise \<open>TypeError\<close> for a list or a
  dictionary; that is the value \<open>None\<close>.  The Cyrillic alternatives of the date patterns match no text of code points
  below 256 and are left out.
\<close>

section \<open>The envelope\<close>

definition ENVELOPE_TYPES :: "string list" where
  "ENVELOPE_TYPES = [''checkpoint'', ''decision'', ''report'', ''task'']"

definition ENVELOPE_STATUSES :: "string list" where
  "ENVELOPE_STATUSES = [''active'', ''deprecated'', ''draft'', ''resolved'', ''superseded'']"

definition RESOLVED_ALLOWED_TYPES :: "string list" where
  "RESOLVED_ALLOWED_TYPES = [''report'', ''task'']"

definition ENVELOPE_REQUIRED_EXTRAS :: "string \<Rightarrow> string list" where
  "ENVELOPE_REQUIRED_EXTRAS ctype =
     (if ctype = ''checkpoint'' then [''session_ref'']
      else if ctype = ''task'' then [''owner_slug'', ''priority'', ''size'']
      else if ctype = ''decision'' then [''reversible'']
      else if ctype = ''report'' then [''period''] else [])"

definition ENVELOPE_ALLOWED_KEYS :: "string \<Rightarrow> string list" where
  "ENVELOPE_ALLOWED_KEYS ctype = [''schema_version'', ''type'', ''status'', ''language''] @ ENVELOPE_REQUIRED_EXTRAS ctype"

definition TASK_PRIORITIES :: "string list" where
  "TASK_PRIORITIES = [''P0'', ''P1'', ''P2'', ''P3'']"

definition TASK_SIZES :: "string list" where
  "TASK_SIZES = [''XS'', ''S'', ''M'', ''L'']"

definition CLIENT_ENVELOPE_TYPES :: "string list" where
  "CLIENT_ENVELOPE_TYPES = [''task'', ''decision'', ''report'']"

text \<open>Membership of a value in a frozen set of strings: an unhashable value raises.\<close>

definition in_frozenset :: "json option \<Rightarrow> string list \<Rightarrow> bool option" where
  "in_frozenset v ss =
     (case v of
        Some (JArr _) \<Rightarrow> None
      | Some (JObj _) \<Rightarrow> None
      | Some j \<Rightarrow> Some (case json_str j of Some s \<Rightarrow> s \<in> set ss | None \<Rightarrow> False)
      | None \<Rightarrow> Some False)"

definition canon_envelope_is_client_authored :: "json option \<Rightarrow> bool option" where
  "canon_envelope_is_client_authored canon =
     (case canon of Some (JObj kvs) \<Rightarrow> in_frozenset (map_of kvs ''type'') CLIENT_ENVELOPE_TYPES | _ \<Rightarrow> Some False)"

definition py_type_name :: "json \<Rightarrow> string" where
  "py_type_name v =
     (case v of JNull \<Rightarrow> ''NoneType'' | JBool _ \<Rightarrow> ''bool'' | JInt _ \<Rightarrow> ''int'' | JReal _ \<Rightarrow> ''float'' | JStr _ \<Rightarrow> ''str''
      | JStamp _ \<Rightarrow> ''str'' | JArr _ \<Rightarrow> ''list'' | JObj _ \<Rightarrow> ''dict'')"

section \<open>Violations\<close>

datatype canon_violation =
    BadSchemaVersion "json option"
  | BadType "json option"
  | BadStatus "json option"
  | ResolvedNotAllowed string
  | BadLanguage "json option"
  | MissingExtra string string
  | UnknownField string string
  | BadSessionRef string
  | BadOwnerSlug json
  | BadPriority json
  | BadSize json
  | BadReversible string
  | BadPeriod string
  | MissingSections string "string list"
  | EmptyTitle
  | LongTitle nat
  | MultilineTitle
  | NonIsoDate string
  | RelativeDate string

definition cv_code :: "canon_violation \<Rightarrow> string" where
  "cv_code v =
     (case v of
        BadStatus _ \<Rightarrow> ''CANON-E-STATUS'' | ResolvedNotAllowed _ \<Rightarrow> ''CANON-E-STATUS''
      | BadLanguage _ \<Rightarrow> ''CANON-E-LANGUAGE''
      | MissingSections _ _ \<Rightarrow> ''CANON-E-SECTION''
      | EmptyTitle \<Rightarrow> ''CANON-E-TITLE'' | LongTitle _ \<Rightarrow> ''CANON-E-TITLE'' | MultilineTitle \<Rightarrow> ''CANON-E-TITLE''
      | NonIsoDate _ \<Rightarrow> ''CANON-E-DATE'' | RelativeDate _ \<Rightarrow> ''CANON-E-DATE''
      | _ \<Rightarrow> ''CANON-E-ENVELOPE'')"

text \<open>The section sign is the code point 0xA7.\<close>

definition cv_rule :: "canon_violation \<Rightarrow> string" where
  "cv_rule v =
     (let s = ''canon '' @ [CHR 0xA7]
      in case v of
           ResolvedNotAllowed _ \<Rightarrow> s @ ''7''
         | BadLanguage _ \<Rightarrow> s @ ''2/'' @ [CHR 0xA7] @ ''6''
         | MissingSections _ _ \<Rightarrow> s @ ''3''
         | EmptyTitle \<Rightarrow> s @ ''3'' | LongTitle _ \<Rightarrow> s @ ''3'' | MultilineTitle \<Rightarrow> s @ ''3''
         | NonIsoDate _ \<Rightarrow> s @ ''5'' | RelativeDate _ \<Rightarrow> s @ ''5''
         | _ \<Rightarrow> s @ ''2'')"

definition as_dict :: "(canon_violation \<Rightarrow> string) \<Rightarrow> canon_violation \<Rightarrow> json" where
  "as_dict wording v = JObj [(''code'', JStr (cv_code v)), (''rule'', JStr (cv_rule v)), (''detail'', JStr (wording v))]"

text \<open>A value in a list of strings.\<close>

definition str_in :: "json option \<Rightarrow> string list \<Rightarrow> bool" where
  "str_in v ss = (case v of Some j \<Rightarrow> (case json_str j of Some s \<Rightarrow> s \<in> set ss | None \<Rightarrow> False) | None \<Rightarrow> False)"

definition str_or_null :: "json \<Rightarrow> bool" where
  "str_or_null v \<longleftrightarrow> v = JNull \<or> json_str v \<noteq> None"

text \<open>The checks of one extra field, when it is there.\<close>

definition on_field :: "(string \<times> json) list \<Rightarrow> string \<Rightarrow> (json \<Rightarrow> canon_violation list option) \<Rightarrow> canon_violation list option" where
  "on_field canon key check = (case map_of canon key of None \<Rightarrow> Some [] | Some v \<Rightarrow> check v)"

definition enum_field :: "string list \<Rightarrow> (json \<Rightarrow> canon_violation) \<Rightarrow> json \<Rightarrow> canon_violation list option" where
  "enum_field allowed bad v = map_option (\<lambda>inside. if inside then [] else [bad v]) (in_frozenset (Some v) allowed)"

fun joined :: "'a list option list \<Rightarrow> 'a list option" where
  "joined [] = Some []"
| "joined (x # xs) = (case x of None \<Rightarrow> None | Some a \<Rightarrow> map_option (\<lambda>b. a @ b) (joined xs))"

definition extra_checks :: "string \<Rightarrow> (string \<times> json) list \<Rightarrow> canon_violation list option" where
  "extra_checks ctype canon =
     (if ctype = ''checkpoint'' then
        on_field canon ''session_ref'' (\<lambda>v. Some (if str_or_null v then [] else [BadSessionRef (py_type_name v)]))
      else if ctype = ''task'' then
        joined
          [on_field canon ''owner_slug'' (\<lambda>v. Some (case json_str v of
              Some s \<Rightarrow> if s = [] then [BadOwnerSlug v] else [] | None \<Rightarrow> [BadOwnerSlug v])),
           on_field canon ''priority'' (enum_field TASK_PRIORITIES BadPriority),
           on_field canon ''size'' (enum_field TASK_SIZES BadSize)]
      else if ctype = ''decision'' then
        on_field canon ''reversible'' (\<lambda>v. Some (case v of JBool _ \<Rightarrow> [] | _ \<Rightarrow> [BadReversible (py_type_name v)]))
      else on_field canon ''period'' (\<lambda>v. Some (if str_or_null v then [] else [BadPeriod (py_type_name v)])))"

text \<open>\<open>_envelope_violations\<close> on an object; the caller admits nothing else.\<close>

definition known_type :: "(string \<times> json) list \<Rightarrow> string option" where
  "known_type canon =
     (case map_of canon ''type'' of
        Some j \<Rightarrow> (case json_str j of Some s \<Rightarrow> if s \<in> set ENVELOPE_TYPES then Some s else None | None \<Rightarrow> None)
      | None \<Rightarrow> None)"

definition envelope_violations :: "(string \<times> json) list \<Rightarrow> canon_violation list option" where
  "envelope_violations canon =
     (let ctype = known_type canon; status = map_of canon ''status'' in
      joined
        [Some (if str_in (map_of canon ''schema_version'') [''1''] then [] else [BadSchemaVersion (map_of canon ''schema_version'')]),
         Some (if ctype = None then [BadType (map_of canon ''type'')] else []),
         Some (if \<not> str_in status ENVELOPE_STATUSES then [BadStatus status]
               else (case ctype of
                       Some t \<Rightarrow> if str_in status [''resolved''] \<and> t \<notin> set RESOLVED_ALLOWED_TYPES then [ResolvedNotAllowed t] else []
                     | None \<Rightarrow> [])),
         Some (if str_in (map_of canon ''language'') [''ru'', ''en''] then [] else [BadLanguage (map_of canon ''language'')]),
         (case ctype of
            None \<Rightarrow> Some []
          | Some t \<Rightarrow>
              joined
                [Some (map (MissingExtra t) (filter (\<lambda>k. map_of canon k = None) (ENVELOPE_REQUIRED_EXTRAS t))),
                 Some (map (UnknownField t) (sort (remdups (filter (\<lambda>k. k \<notin> set (ENVELOPE_ALLOWED_KEYS t)) (map fst canon))))),
                 extra_checks t canon])])"

section \<open>Title, sections, dates\<close>

definition CANON_REQUIRED_SECTIONS :: "string \<Rightarrow> string list" where
  "CANON_REQUIRED_SECTIONS ctype =
     (if ctype = ''checkpoint'' then [''Goals'', ''Completed'', ''In Progress'', ''Decisions'', ''Context'']
      else if ctype = ''task'' then [''Why'', ''Acceptance'', ''Out of scope'', ''References'']
      else if ctype = ''decision'' then [''Decision'', ''Why'', ''Alternatives'']
      else if ctype = ''report'' then [''Summary'', ''Done'', ''Verification'', ''Awaiting owner''] else [])"

definition TITLE_MAX :: nat where
  "TITLE_MAX = 80"

definition title_violations :: "string option \<Rightarrow> canon_violation list" where
  "title_violations title =
     (case title of
        None \<Rightarrow> []
      | Some t \<Rightarrow>
          if t = [] then [EmptyTitle]
          else (if TITLE_MAX < length t then [LongTitle (length t)] else []) @
               (if CHR 0x0A \<in> set t \<or> CHR 0x0D \<in> set t then [MultilineTitle] else []))"

text \<open>\<open>re.search("^## NAME\r?$", content, re.MULTILINE)\<close>: some line is that header.\<close>

definition has_section :: "string \<Rightarrow> string \<Rightarrow> bool" where
  "has_section content name \<longleftrightarrow>
     list_ex (\<lambda>l. l = ''## '' @ name \<or> l = ''## '' @ name @ [CHR 0x0D]) (split_on (CHR 0x0A) content)"

definition section_violations :: "string \<Rightarrow> string \<Rightarrow> canon_violation list" where
  "section_violations content ctype =
     (let missing = filter (\<lambda>n. \<not> has_section content n) (CANON_REQUIRED_SECTIONS ctype)
      in if missing = [] then [] else [MissingSections ctype missing])"

definition digit_rx :: rx where
  "digit_rx = Cls False [(48, 57)]"

definition DOTTED_DATE_RE :: rx where
  "DOTTED_DATE_RE =
     seqs [Bound, Rep 1 (Some 2) digit_rx, chars ''.'', Rep 1 (Some 2) digit_rx,
           opt (Seq (chars ''.'') (Rep 1 (Some 4) digit_rx)), Bound]"

definition STANDALONE_RELATIVE_RE :: rx where
  "STANDALONE_RELATIVE_RE =
     seqs [Bound, alts (map lit_ci [''yesterday'', ''today'', ''tomorrow'', ''last week'', ''next week'']), Bound]"

definition RELATIVE_DATE_RE :: rx where
  "RELATIVE_DATE_RE = Alt DOTTED_DATE_RE STANDALONE_RELATIVE_RE"

text \<open>\<open>str.isdigit\<close> on one character: the decimal digits and the three superscripts of Latin-1.\<close>

definition py_isdigit :: "char \<Rightarrow> bool" where
  "py_isdigit c \<longleftrightarrow> is_digit c \<or> of_char c \<in> {178, 179, 185 :: nat}"

definition is_version_literal :: "string \<Rightarrow> string \<Rightarrow> nat \<Rightarrow> nat \<Rightarrow> bool" where
  "is_version_literal fragment content start stop \<longleftrightarrow>
     (let parts = split_on (CHR ''.'') fragment;
          neighbours = (if 0 < start then [content ! (start - 1)] else []) @ (if stop < length content then [content ! stop] else [])
      in if list_ex (\<lambda>c. py_isdigit c \<or> c = CHR ''.'') neighbours then True
         else if 4 \<le> length parts then True
         else if length parts = 3 then \<not> list_ex (\<lambda>p. 1900 \<le> digits_val p \<and> digits_val p \<le> 2099) parts
         else \<not> (13 \<le> digits_val (parts ! 0) \<and> digits_val (parts ! 0) \<le> 31 \<and>
                1 \<le> digits_val (parts ! 1) \<and> digits_val (parts ! 1) \<le> 12))"

definition date_violations :: "string \<Rightarrow> canon_violation list" where
  "date_violations content =
     map (\<lambda>(a, b). NonIsoDate (slice content a b))
       (filter (\<lambda>(a, b). CHR ''.'' \<in> set (slice content a b) \<and> \<not> is_version_literal (slice content a b) content a b)
         (finditer RELATIVE_DATE_RE content)) @
     map (\<lambda>(a, b). RelativeDate (slice content a b)) (finditer STANDALONE_RELATIVE_RE content)"

section \<open>The record\<close>

definition validate_canon_record :: "string \<Rightarrow> string option \<Rightarrow> metadata \<Rightarrow> canon_violation list option" where
  "validate_canon_record content title md =
     (case md ''canon'' of
        Some (JObj canon) \<Rightarrow>
          joined
            [envelope_violations canon,
             Some (case known_type canon of Some t \<Rightarrow> section_violations content t | None \<Rightarrow> []),
             Some (title_violations title),
             Some (date_violations content)]
      | _ \<Rightarrow> Some [])"

section \<open>What a clean record is\<close>

lemma joined_Some_Nil: "joined xs = Some [] \<longleftrightarrow> (\<forall>x \<in> set xs. x = Some [])"
  by (induction xs rule: joined.induct) (auto split: option.splits)

text \<open>The abstract envelope: the schema of the canon, written as one predicate.\<close>

definition envelope_ok :: "(string \<times> json) list \<Rightarrow> string \<Rightarrow> bool" where
  "envelope_ok canon t \<longleftrightarrow>
     known_type canon = Some t \<and> str_in (map_of canon ''schema_version'') [''1''] \<and>
     str_in (map_of canon ''status'') ENVELOPE_STATUSES \<and>
     (str_in (map_of canon ''status'') [''resolved''] \<longrightarrow> t = ''task'' \<or> t = ''report'') \<and>
     str_in (map_of canon ''language'') [''ru'', ''en''] \<and>
     fst ` set canon \<subseteq> set (ENVELOPE_ALLOWED_KEYS t) \<and> set (ENVELOPE_REQUIRED_EXTRAS t) \<subseteq> dom (map_of canon) \<and>
     (t = ''checkpoint'' \<longrightarrow> str_or_null (the (map_of canon ''session_ref''))) \<and>
     (t = ''task'' \<longrightarrow> (\<exists>s. json_str (the (map_of canon ''owner_slug'')) = Some s \<and> s \<noteq> []) \<and>
        str_in (map_of canon ''priority'') TASK_PRIORITIES \<and> str_in (map_of canon ''size'') TASK_SIZES) \<and>
     (t = ''decision'' \<longrightarrow> (\<exists>b. map_of canon ''reversible'' = Some (JBool b))) \<and>
     (t = ''report'' \<longrightarrow> str_or_null (the (map_of canon ''period'')))"

lemma known_type_cases: "known_type canon = Some t \<Longrightarrow> t \<in> {''checkpoint'', ''decision'', ''report'', ''task''}"
  by (auto simp: known_type_def ENVELOPE_TYPES_def split: option.splits if_splits)

lemma enum_field_ok: "enum_field allowed bad v = Some [] \<longleftrightarrow> str_in (Some v) allowed"
  by (cases v) (auto simp: enum_field_def in_frozenset_def str_in_def json_str_def)

lemma extra_checks_ok:
  assumes "known_type canon = Some t" "set (ENVELOPE_REQUIRED_EXTRAS t) \<subseteq> dom (map_of canon)"
  shows "extra_checks t canon = Some [] \<longleftrightarrow>
     (t = ''checkpoint'' \<longrightarrow> str_or_null (the (map_of canon ''session_ref''))) \<and>
     (t = ''task'' \<longrightarrow> (\<exists>s. json_str (the (map_of canon ''owner_slug'')) = Some s \<and> s \<noteq> []) \<and>
        str_in (map_of canon ''priority'') TASK_PRIORITIES \<and> str_in (map_of canon ''size'') TASK_SIZES) \<and>
     (t = ''decision'' \<longrightarrow> (\<exists>b. map_of canon ''reversible'' = Some (JBool b))) \<and>
     (t = ''report'' \<longrightarrow> str_or_null (the (map_of canon ''period'')))"
proof -
  have field: "on_field canon k f = f (the (map_of canon k))" if "k \<in> set (ENVELOPE_REQUIRED_EXTRAS t)" for k f
    using assms(2) that by (auto simp: on_field_def)
  have key: "\<exists>v. map_of canon k = Some v" if "k \<in> set (ENVELOPE_REQUIRED_EXTRAS t)" for k
    using assms(2) that by auto
  from known_type_cases [OF assms(1)] consider "t = ''checkpoint''" | "t = ''task''" | "t = ''decision''" | "t = ''report''" by blast
  then show ?thesis
  proof cases
    case 1
    with field show ?thesis by (simp add: extra_checks_def ENVELOPE_REQUIRED_EXTRAS_def)
  next
    case 2
    with key [of "''priority''"] key [of "''size''"] obtain p z where pz: "map_of canon ''priority'' = Some p" "map_of canon ''size'' = Some z"
      by (auto simp: ENVELOPE_REQUIRED_EXTRAS_def)
    have owner: "(case json_str v of None \<Rightarrow> [BadOwnerSlug v] | Some s \<Rightarrow> if s = [] then [BadOwnerSlug v] else []) = [] \<longleftrightarrow>
        (\<exists>s. json_str v = Some s \<and> s \<noteq> [])" for v
      by (cases "json_str v") auto
    from 2 field show ?thesis
      by (simp add: extra_checks_def ENVELOPE_REQUIRED_EXTRAS_def joined_Some_Nil enum_field_ok pz owner conj_commute del: joined.simps)
  next
    case 3
    with key [of "''reversible''"] obtain v where "map_of canon ''reversible'' = Some v"
      by (auto simp: ENVELOPE_REQUIRED_EXTRAS_def)
    with 3 field show ?thesis by (cases v) (simp_all add: extra_checks_def ENVELOPE_REQUIRED_EXTRAS_def)
  next
    case 4
    with field show ?thesis by (simp add: extra_checks_def ENVELOPE_REQUIRED_EXTRAS_def)
  qed
qed

text \<open>
  A record with an envelope passes without a violation exactly when the envelope satisfies the schema of its type,
  every section of that type is a line of the body, the title is absent or a single non-empty line of at most eighty
  characters, and no date of the body is flagged.
\<close>

theorem canon_clean_iff:
  assumes "md ''canon'' = Some (JObj canon)"
  shows "validate_canon_record content title md = Some [] \<longleftrightarrow>
    (\<exists>t. envelope_ok canon t \<and> (\<forall>n \<in> set (CANON_REQUIRED_SECTIONS t). has_section content n)) \<and>
    (\<forall>s. title = Some s \<longrightarrow> s \<noteq> [] \<and> length s \<le> 80 \<and> CHR 0x0A \<notin> set s \<and> CHR 0x0D \<notin> set s) \<and>
    date_violations content = []"
proof -
  have title: "title_violations title = [] \<longleftrightarrow>
      (\<forall>s. title = Some s \<longrightarrow> s \<noteq> [] \<and> length s \<le> 80 \<and> CHR 0x0A \<notin> set s \<and> CHR 0x0D \<notin> set s)"
    by (cases title) (auto simp: title_violations_def TITLE_MAX_def)
  have sections: "section_violations content t = [] \<longleftrightarrow> (\<forall>n \<in> set (CANON_REQUIRED_SECTIONS t). has_section content n)" for t
    by (simp add: section_violations_def Let_def filter_empty_conv)
  have one: "known_type canon = Some t" if "envelope_ok canon t" for t
    using that unfolding envelope_ok_def by (rule conjunct1)
  have envelope: "envelope_violations canon = Some [] \<longleftrightarrow> (\<exists>t. envelope_ok canon t)"
  proof (cases "known_type canon")
    case None
    then show ?thesis by (simp add: envelope_violations_def Let_def joined_Some_Nil envelope_ok_def)
  next
    case (Some t)
    have allowed: "sort (remdups (filter (\<lambda>k. k \<notin> set (ENVELOPE_ALLOWED_KEYS t)) (map fst canon))) = [] \<longleftrightarrow>
        fst ` set canon \<subseteq> set (ENVELOPE_ALLOWED_KEYS t)"
      by (auto simp: filter_empty_conv simp flip: set_empty)
    have required: "filter (\<lambda>k. map_of canon k = None) (ENVELOPE_REQUIRED_EXTRAS t) = [] \<longleftrightarrow>
        set (ENVELOPE_REQUIRED_EXTRAS t) \<subseteq> dom (map_of canon)"
      by (auto simp: filter_empty_conv dom_def)
    have resolved: "t \<in> set RESOLVED_ALLOWED_TYPES \<longleftrightarrow> t = ''task'' \<or> t = ''report''"
      by (auto simp: RESOLVED_ALLOWED_TYPES_def)
    have ok: "u = t" if "envelope_ok canon u" for u
      using one [OF that] Some by simp
    have "envelope_violations canon = Some [] \<longleftrightarrow>
        str_in (map_of canon ''schema_version'') [''1''] \<and>
        (str_in (map_of canon ''status'') ENVELOPE_STATUSES \<and>
         (str_in (map_of canon ''status'') [''resolved''] \<longrightarrow> t \<in> set RESOLVED_ALLOWED_TYPES)) \<and>
        str_in (map_of canon ''language'') [''ru'', ''en''] \<and>
        set (ENVELOPE_REQUIRED_EXTRAS t) \<subseteq> dom (map_of canon) \<and>
        fst ` set canon \<subseteq> set (ENVELOPE_ALLOWED_KEYS t) \<and> extra_checks t canon = Some []"
      unfolding envelope_violations_def Let_def Some joined_Some_Nil option.case list.set ball_simps option.inject
      unfolding joined_Some_Nil list.set ball_simps option.inject map_is_Nil_conv allowed required
      by (cases "str_in (map_of canon ''status'') ENVELOPE_STATUSES"; cases "t \<in> set RESOLVED_ALLOWED_TYPES") simp_all
    moreover have "envelope_ok canon t \<longleftrightarrow>
        str_in (map_of canon ''schema_version'') [''1''] \<and>
        (str_in (map_of canon ''status'') ENVELOPE_STATUSES \<and>
         (str_in (map_of canon ''status'') [''resolved''] \<longrightarrow> t \<in> set RESOLVED_ALLOWED_TYPES)) \<and>
        str_in (map_of canon ''language'') [''ru'', ''en''] \<and>
        set (ENVELOPE_REQUIRED_EXTRAS t) \<subseteq> dom (map_of canon) \<and>
        fst ` set canon \<subseteq> set (ENVELOPE_ALLOWED_KEYS t) \<and> extra_checks t canon = Some []"
      unfolding envelope_ok_def resolved using extra_checks_ok [OF Some] Some by argo
    ultimately have "envelope_violations canon = Some [] \<longleftrightarrow> envelope_ok canon t" by argo
    then show ?thesis using ok by blast
  qed
  have typed: "(case known_type canon of None \<Rightarrow> [] | Some t \<Rightarrow> section_violations content t) = [] \<longleftrightarrow>
      (\<forall>n \<in> set (CANON_REQUIRED_SECTIONS t). has_section content n)" if "envelope_ok canon t" for t
    using one [OF that] by (simp add: sections)
  have split: "validate_canon_record content title md = Some [] \<longleftrightarrow>
      (\<exists>t. envelope_ok canon t) \<and> (case known_type canon of None \<Rightarrow> [] | Some t \<Rightarrow> section_violations content t) = [] \<and>
      title_violations title = [] \<and> date_violations content = []"
    by (simp add: validate_canon_record_def assms joined_Some_Nil envelope del: joined.simps)
  show ?thesis unfolding split title using typed by blast
qed

definition sample_envelope :: "(string \<times> json) list" where
  "sample_envelope = [(''schema_version'', JStr ''1''), (''type'', JStr ''decision''), (''status'', JStr ''active''),
     (''language'', JStr ''en''), (''reversible'', JBool True)]"

lemma canon_clean_iff_witness:
  "(\<exists>t. envelope_ok sample_envelope t) \<and>
   validate_canon_record (join [CHR 0x0A] [''## Decision'', ''## Why'', ''## Alternatives'']) (Some ''t'')
     [''canon'' \<mapsto> JObj sample_envelope] = Some []"
proof -
  have md: "[''canon'' \<mapsto> JObj sample_envelope] ''canon'' = Some (JObj sample_envelope)" by simp
  have "validate_canon_record (join [CHR 0x0A] [''## Decision'', ''## Why'', ''## Alternatives'']) (Some ''t'')
      [''canon'' \<mapsto> JObj sample_envelope] = Some []"
    by code_simp
  with canon_clean_iff [where md = "[''canon'' \<mapsto> JObj sample_envelope]", OF md] show ?thesis by blast
qed

section \<open>What the checks miss\<close>

text \<open>A list as the priority raises, although the function is documented never to: the write path then skips the check.\<close>

lemma unhashable_priority_raises:
  "validate_canon_record [] None [''canon'' \<mapsto> JObj [(''type'', JStr ''task''), (''priority'', JArr [])]] = None"
  by code_simp

lemma unhashable_type_raises: "canon_envelope_is_client_authored (Some (JObj [(''type'', JArr [])])) = None"
  by code_simp

text \<open>A dotted date at the end of a sentence is taken for a version.\<close>

lemma sentence_final_date_passes:
  "date_violations ''27.09.'' = []" "date_violations ''27.09'' = [NonIsoDate ''27.09'']"
  "date_violations ''27.09.2026.'' = []"
  by code_simp+

end
