(* ===== verification/Memory_Manager.thy ===== *)
theory Memory_Manager
  imports Refinement Memory_Graph Context_Filter Ccr_Cache Canon
begin

text \<open>
  The write and read path of \<open>MemoryManager\<close> (\<open>manager.py\<close>): \<open>add\<close>, \<open>get\<close>, \<open>update\<close>, \<open>delete\<close>, the ingest scan, the
  publication and canon gates, the context filter, and the vault of \<open>storage/vault.py\<close>.

  The state is that of the refinement pipeline (rows and vectors), the graph tables and the files of the vault.  The
  environment adds to \<open>pl_env\<close> the settings, the vector search that minting uses and the failures of a vault write;
  fresh identifiers and the clock (read once per operation) are arguments.  A vault file is the record of what
  \<open>memory_to_file\<close> puts in its front matter and body.
\<close>

section \<open>The vault\<close>

definition memory_type_value :: "memory_type \<Rightarrow> string" where
  "memory_type_value t =
     (case t of NOTE \<Rightarrow> ''note'' | FACT \<Rightarrow> ''fact'' | SNIPPET \<Rightarrow> ''snippet'' | BOOKMARK \<Rightarrow> ''bookmark''
      | CONVERSATION \<Rightarrow> ''conversation'' | SESSION_CONTEXT \<Rightarrow> ''session_context'')"

record vault_post =
  vp_content :: string
  vp_id :: string
  vp_title :: string
  vp_tags :: "string list"
  vp_source :: memory_source
  vp_source_url :: "string option"
  vp_memory_type :: memory_type
  vp_created :: moment
  vp_updated :: moment
  vp_project :: "string option"
  vp_agent :: "string option"
  vp_status :: memory_status
  vp_quality_score :: "real option"
  vp_cluster_id :: "string option"
  vp_extra :: metadata

text \<open>\<open>c.isalnum() or c in " -_"\<close> on the code points below 256.\<close>

definition filename_char :: "char \<Rightarrow> bool" where
  "filename_char c \<longleftrightarrow> in_ranges word_ranges c \<or> c = CHR '' '' \<or> c = CHR ''-''"

definition sanitize_filename :: "string \<Rightarrow> string" where
  "sanitize_filename title =
     (let safe = take 80 (strip (map (\<lambda>c. if filename_char c then c else CHR ''_'') title))
      in if safe = [] then ''untitled'' else safe)"

definition memory_dir :: "string \<Rightarrow> memory \<Rightarrow> string" where
  "memory_dir vroot m = vroot @ ''/'' @ memory_type_value (m_memory_type m)"

definition non_empty :: "string \<Rightarrow> string option" where
  "non_empty s = (if s = [] then None else Some s)"

definition post_of :: "memory \<Rightarrow> vault_post" where
  "post_of m =
     \<lparr>vp_content = m_content m, vp_id = m_id m, vp_title = auto_title m, vp_tags = m_tags m, vp_source = m_source m,
      vp_source_url = (if truthy (m_source_url m) then m_source_url m else None), vp_memory_type = m_memory_type m,
      vp_created = m_created_at m, vp_updated = m_updated_at m, vp_project = non_empty (m_project m),
      vp_agent = non_empty (m_agent m), vp_status = m_status m, vp_quality_score = m_quality_score m,
      vp_cluster_id = (if truthy (m_cluster_id m) then m_cluster_id m else None), vp_extra = m_metadata m\<rparr>"

type_synonym vault = "string \<rightharpoonup> vault_post"

definition vault_path :: "string \<Rightarrow> memory \<Rightarrow> vault \<Rightarrow> string" where
  "vault_path vroot m v =
     (let filename = sanitize_filename (auto_title m); path = memory_dir vroot m @ ''/'' @ filename @ ''.md''
      in if v path \<noteq> None \<and> truthy (m_file_path m) \<and> m_file_path m \<noteq> Some path
         then memory_dir vroot m @ ''/'' @ filename @ ''_'' @ take 8 (m_id m) @ ''.md'' else path)"

definition memory_to_file :: "string \<Rightarrow> memory \<Rightarrow> vault \<Rightarrow> string \<times> vault" where
  "memory_to_file vroot m v = (let path = vault_path vroot m v in (path, v(path \<mapsto> post_of m)))"

definition delete_file :: "string \<Rightarrow> vault \<Rightarrow> bool \<times> vault" where
  "delete_file path v = (v path \<noteq> None, v(path := None))"

section \<open>State and environment\<close>

datatype canon_mode = Canon_off | Canon_warn | Canon_strict

record mgr_env =
  mg_pl :: pl_env
  mg_canon_mode :: canon_mode
  mg_wording :: "canon_violation \<Rightarrow> string"
  mg_auto_filter :: bool
  mg_auto_mint :: bool
  mg_vectors :: "pl_state \<Rightarrow> vector_search"
  mg_float :: "string \<Rightarrow> string"
  mg_filter_version :: string
  mg_refuse_on_secret :: bool
  mg_vault_root :: string
  mg_vault_fails :: "memory \<Rightarrow> bool"

record mgr_state =
  ms_pl :: pl_state
  ms_edges :: "edge list"
  ms_stats :: "stat_row list"
  ms_metas :: "meta_row list"
  ms_vault :: vault

definition graph_of :: "mgr_state \<Rightarrow> graph" where
  "graph_of st = \<lparr>g_rows = pl_rows (ms_pl st), g_edges = ms_edges st, g_stats = ms_stats st, g_metas = ms_metas st\<rparr>"

definition put_graph :: "graph \<Rightarrow> mgr_state \<Rightarrow> mgr_state" where
  "put_graph g st =
     st\<lparr>ms_pl := (ms_pl st)\<lparr>pl_rows := g_rows g\<rparr>, ms_edges := g_edges g, ms_stats := g_stats g, ms_metas := g_metas g\<rparr>"

definition put_rows :: "row list \<Rightarrow> mgr_state \<Rightarrow> mgr_state" where
  "put_rows rs st = st\<lparr>ms_pl := (ms_pl st)\<lparr>pl_rows := rs\<rparr>\<rparr>"

datatype manager_error = DocGrouping doc_grouping_error | TypeError | CanonViolation "canon_violation list" | VectorStoreError

section \<open>The ingest scan and the gates\<close>

definition scan_and_tag :: "mgr_env \<Rightarrow> string list \<Rightarrow> string \<Rightarrow> string list \<times> (string \<Rightarrow> nat) option" where
  "scan_and_tag env tags content =
     (if content = [] then (tags, Some (\<lambda>_. 0))
      else (case pe_scan (mg_pl env) content of
              Inl e \<Rightarrow> (tags, None)
            | Inr names \<Rightarrow>
                (if names \<noteq> [] \<and> NO_FEDERATE_TAG \<notin> set tags then tags @ [NO_FEDERATE_TAG] else tags,
                 Some (count_list names))))"

definition publish_gate_detection :: "mgr_env \<Rightarrow> memory \<Rightarrow> string option \<Rightarrow> detection" where
  "publish_gate_detection env m content =
     env_detect (mg_pl env) (case content of Some c \<Rightarrow> c | None \<Rightarrow> effective_content m) (m_title m)"

definition publish_gate_verdict :: "mgr_env \<Rightarrow> memory \<Rightarrow> string option \<Rightarrow> bool" where
  "publish_gate_verdict env m content \<longleftrightarrow>
     (let d = publish_gate_detection env m content in dt_error d = None \<and> \<not> dt_positive d)"

definition canon_gate :: "mgr_env \<Rightarrow> bool \<Rightarrow> memory \<Rightarrow> manager_error + memory" where
  "canon_gate env create_path m =
     (if mg_canon_mode env = Canon_off then Inr m
      else case validate_canon_record (m_content m) (m_title m) (m_metadata m) of
        None \<Rightarrow> Inr m
      | Some [] \<Rightarrow> Inr (m\<lparr>m_metadata := (m_metadata m)(''canon_warnings'' := None)\<rparr>)
      | Some vs \<Rightarrow>
          if mg_canon_mode env = Canon_strict \<and> create_path then Inl (CanonViolation vs)
          else Inr (m\<lparr>m_metadata := (m_metadata m)(''canon_warnings'' \<mapsto> JArr (map (as_dict (mg_wording env)) vs))\<rparr>))"

section \<open>Server-minted metadata\<close>

definition CHECKPOINT_STAMP_KEYS :: "string set" where
  "CHECKPOINT_STAMP_KEYS = {''checkpoint_agent'', ''checkpoint_session'', ''checkpoint_dedup_key'', ''canon''}"

definition INTERNAL_METADATA_KEYS :: "string set" where
  "INTERNAL_METADATA_KEYS = {''pipeline_retry_count'', ''pipeline_retry_at''} \<union> CHECKPOINT_STAMP_KEYS"

definition DOC_SWEEP_STAMP_KEYS :: "string set" where
  "DOC_SWEEP_STAMP_KEYS = {''doc_swept_at''}"

definition without_keys :: "string set \<Rightarrow> metadata \<Rightarrow> metadata" where
  "without_keys ks md = md |` (- ks)"

text \<open>The keys that a caller may not supply, given whether the envelope is the caller's own.\<close>

definition strip_keys :: "bool \<Rightarrow> string set" where
  "strip_keys client_canon = (CHECKPOINT_STAMP_KEYS \<union> {''canon_warnings''}) - (if client_canon then {''canon''} else {})"

definition create_metadata :: "bool \<Rightarrow> metadata \<Rightarrow> manager_error + metadata" where
  "create_metadata trusted_checkpoint_stamps md =
     (case doc_grouping_from_metadata md of
        Inl e \<Rightarrow> Inl (DocGrouping e)
      | Inr _ \<Rightarrow>
          if trusted_checkpoint_stamps then Inr (without_keys DOC_SWEEP_STAMP_KEYS md)
          else (case canon_envelope_is_client_authored (md ''canon'') of
                  None \<Rightarrow> Inl TypeError
                | Some client \<Rightarrow> Inr (without_keys DOC_SWEEP_STAMP_KEYS (without_keys (strip_keys client) md))))"

definition merged_metadata :: "metadata \<Rightarrow> metadata \<Rightarrow> manager_error + metadata" where
  "merged_metadata previous md =
     (case canon_envelope_is_client_authored (md ''canon'') of
        None \<Rightarrow> Inl TypeError
      | Some client \<Rightarrow>
          (case (if previous ''canon'' = None then Some False else canon_envelope_is_client_authored (previous ''canon'')) of
             None \<Rightarrow> Inl TypeError
           | Some own \<Rightarrow>
               (let stripped = without_keys DOC_SWEEP_STAMP_KEYS (without_keys (strip_keys client) md);
                    internal = previous |` (INTERNAL_METADATA_KEYS - (if own then {''canon''} else {}));
                    merged = stripped ++ internal ++ (previous |` DOC_SWEEP_STAMP_KEYS)
                in (case doc_grouping_from_metadata merged of Inl e \<Rightarrow> Inl (DocGrouping e) | Inr _ \<Rightarrow> Inr merged))))"

section \<open>The context filter on a stored row\<close>

definition stat_json :: "stat \<Rightarrow> json" where
  "stat_json s = (case s of SInt i \<Rightarrow> JInt i | SBool b \<Rightarrow> JBool b | SNone \<Rightarrow> JNull | SNum q \<Rightarrow> JReal (of_rat q))"

definition stats_json :: "(string \<times> stats) list \<Rightarrow> json" where
  "stats_json st = JObj (map (\<lambda>(k, s). (k, JObj (map (\<lambda>(k, v). (k, stat_json v)) s))) st)"

datatype filter_refusal = FilterNotFound | FilterNoContent | FilterStatusGate | FilterProjectScope | FilterRefused "string option"

definition filter_source :: "memory \<Rightarrow> string" where
  "filter_source m = or_str (m_raw_content m) (m_content m)"

definition apply_context_filter ::
  "mgr_env \<Rightarrow> moment \<Rightarrow> string \<Rightarrow> string option \<Rightarrow> int option \<Rightarrow> mgr_state \<Rightarrow> (filter_refusal + filter_result) \<times> mgr_state" where
  "apply_context_filter env now i profile budget st =
     (case pl_get i (ms_pl st) of
        None \<Rightarrow> (Inl FilterNotFound, st)
      | Some m \<Rightarrow>
          if filter_source m = [] then (Inl FilterNoContent, st)
          else
            (let r = apply_filter (mg_float env) (filter_source m) profile budget (mg_filter_version env)
             in (Inr r, st\<lparr>ms_pl := snd (pl_update (m_id m)
                   [F_clean_content (Some (fr_clean_content r)), F_filter_profile (Some (fr_profile r)),
                    F_filter_stats (Some (stats_json (fr_stats r))), F_filter_version (Some (fr_version r))] now (ms_pl st))\<rparr>)))"

record issued_filter =
  if_result :: filter_result
  if_content :: string
  if_redactions :: nat
  if_patterns :: "string \<Rightarrow> nat"

definition issue_context_filter ::
  "mgr_env \<Rightarrow> moment \<Rightarrow> string \<Rightarrow> string option \<Rightarrow> int option \<Rightarrow> string option \<Rightarrow> mgr_state \<Rightarrow>
   (filter_refusal + issued_filter) \<times> mgr_state" where
  "issue_context_filter env now i profile budget project st =
     (case pl_get i (ms_pl st) of
        None \<Rightarrow> (Inl FilterNotFound, st)
      | Some m \<Rightarrow>
          if \<not> is_context_admissible m then (Inl FilterStatusGate, st)
          else if project \<noteq> None \<and> project \<noteq> Some (m_project m) then (Inl FilterProjectScope, st)
          else (case apply_context_filter env now i profile budget st of
                  (Inl e, st1) \<Rightarrow> (Inl e, st1)
                | (Inr r, st1) \<Rightarrow>
                    (let s = scan_issuance_item (mg_refuse_on_secret env) (Some (fr_clean_content r)) None
                     in if it_refused s then (Inl (FilterRefused (it_reason s)), st1)
                        else (Inr \<lparr>if_result = r, if_content = it_content s, if_redactions = it_redactions s,
                                   if_patterns = it_patterns s\<rparr>, st1))))"

section \<open>Creating a memory\<close>

record memory_create =
  mc_content :: string
  mc_title :: "string option"
  mc_tags :: "string list"
  mc_source :: memory_source
  mc_source_url :: "string option"
  mc_memory_type :: memory_type
  mc_metadata :: metadata
  mc_category :: "string option"
  mc_filter_profile :: "string option"
  mc_status :: "memory_status option"

text \<open>The memory before the visibility decision; \<open>mc_status = None\<close> is a status that was not set.\<close>

definition built_memory :: "mgr_env \<Rightarrow> moment \<Rightarrow> string \<Rightarrow> memory_create \<Rightarrow> metadata \<Rightarrow> string \<Rightarrow> string \<Rightarrow> memory" where
  "built_memory env now fresh d md project agent =
     (new_memory fresh (mc_content d) now)
       \<lparr>m_title := mc_title d, m_tags := fst (scan_and_tag env (mc_tags d) (mc_content d)), m_source := mc_source d,
        m_source_url := mc_source_url d, m_memory_type := mc_memory_type d,
        m_metadata := md(''content_type'' \<mapsto> JStr (if detect_profile (mc_content d) None = ''code'' then ''code'' else ''prose'')),
        m_category := mc_category d, m_status := (case mc_status d of Some s \<Rightarrow> s | None \<Rightarrow> RAW),
        m_filter_profile := mc_filter_profile d, m_project := project, m_agent := agent\<rparr>"

definition visible_memory :: "mgr_env \<Rightarrow> bool \<Rightarrow> memory \<Rightarrow> memory" where
  "visible_memory env status_set m =
     (if status_set then
        (if m_status m = PUBLISHED \<and> \<not> publish_gate_verdict env m None then m\<lparr>m_status := RAW\<rparr> else m)
      else if pe_curated (mg_pl env) then m\<lparr>m_status := RAW, m_pipeline_state := Some PS_PENDING\<rparr>
      else if publish_gate_verdict env m None then m\<lparr>m_status := PUBLISHED, m_pipeline_state := Some PS_PENDING\<rparr>
      else m)"

definition vault_written :: "mgr_env \<Rightarrow> memory \<Rightarrow> mgr_state \<Rightarrow> memory \<times> mgr_state" where
  "vault_written env m st =
     (if mg_vault_fails env m then (m, st)
      else (case memory_to_file (mg_vault_root env) m (ms_vault st) of
              (path, v) \<Rightarrow> (m\<lparr>m_file_path := Some path\<rparr>, st\<lparr>ms_vault := v\<rparr>)))"

definition auto_filtered :: "mgr_env \<Rightarrow> moment \<Rightarrow> string option \<Rightarrow> memory \<Rightarrow> mgr_state \<Rightarrow> memory \<times> mgr_state" where
  "auto_filtered env now profile m st =
     (if mg_auto_filter env \<and> m_content m \<noteq> [] then
        (let st1 = snd (apply_context_filter env now (m_id m) profile None st)
         in (case pl_get (m_id m) (ms_pl st1) of Some reloaded \<Rightarrow> reloaded | None \<Rightarrow> m, st1))
      else (m, st))"

text \<open>A failing embedder or vector store is logged only.\<close>

definition embedded :: "mgr_env \<Rightarrow> moment \<Rightarrow> memory \<Rightarrow> mgr_state \<Rightarrow> memory \<times> mgr_state" where
  "embedded env now m st =
     (if m_status m = PUBLISHED then
        (case upsert_embedding (mg_pl env) now m (ms_pl st) of
           (ok, pl) \<Rightarrow> (if ok then m\<lparr>m_embedding_id := Some (m_id m)\<rparr> else m, st\<lparr>ms_pl := pl\<rparr>))
      else (m, st))"

definition minted :: "mgr_env \<Rightarrow> moment \<Rightarrow> bool \<Rightarrow> memory \<Rightarrow> mgr_state \<Rightarrow> mgr_state" where
  "minted env now mint m st =
     (if mint then
        put_graph (snd (mint_relates_to_edges (mg_auto_mint env) embedding_text (mg_vectors env (ms_pl st)) m now (graph_of st))) st
      else st)"

definition persisted ::
  "mgr_env \<Rightarrow> moment \<Rightarrow> bool \<Rightarrow> bool \<Rightarrow> string option \<Rightarrow> memory \<Rightarrow> mgr_state \<Rightarrow> memory \<times> mgr_state" where
  "persisted env now trusted_rewrite mint profile m st =
     (case vault_written env m st of (m1, st1) \<Rightarrow>
        (case auto_filtered env now profile m1 (put_rows (save trusted_rewrite m1 (pl_rows (ms_pl st1))) st1) of (m2, st2) \<Rightarrow>
          (case embedded env now m2 st2 of (m3, st3) \<Rightarrow> (m3, minted env now mint m3 st3))))"

record add_flags =
  af_rewrite :: bool
  af_checkpoint :: bool
  af_mint :: bool

definition add ::
  "mgr_env \<Rightarrow> moment \<Rightarrow> string \<Rightarrow> memory_create \<Rightarrow> string \<Rightarrow> string \<Rightarrow> add_flags \<Rightarrow> mgr_state \<Rightarrow>
   (manager_error + memory) \<times> mgr_state" where
  "add env now fresh d project agent flags st =
     (case create_metadata (af_checkpoint flags) (mc_metadata d) of
        Inl e \<Rightarrow> (Inl e, st)
      | Inr md \<Rightarrow>
          (case canon_gate env True (visible_memory env (mc_status d \<noteq> None) (built_memory env now fresh d md project agent)) of
             Inl e \<Rightarrow> (Inl e, st)
           | Inr m \<Rightarrow> (case persisted env now (af_rewrite flags) (af_mint flags) (mc_filter_profile d) m st of (m', st') \<Rightarrow> (Inr m', st'))))"

section \<open>Reading and deleting\<close>

definition retracted :: "memory \<Rightarrow> memory" where
  "retracted m =
     m\<lparr>m_content := render_retraction m, m_clean_content := None, m_raw_content := None, m_title := None\<rparr>"

definition get_memory :: "string \<Rightarrow> mgr_state \<Rightarrow> memory option" where
  "get_memory i st = map_option (\<lambda>m. if is_quarantined m then retracted m else m) (pl_get i (ms_pl st))"

text \<open>The vault file goes first; a vector store that fails leaves the row.\<close>

definition delete_entry :: "mgr_env \<Rightarrow> string \<Rightarrow> mgr_state \<Rightarrow> (manager_error + bool) \<times> mgr_state" where
  "delete_entry env i st =
     (case pl_get i (ms_pl st) of
        None \<Rightarrow> (Inr False, st)
      | Some m \<Rightarrow>
          (let st1 = (if truthy (m_file_path m) then st\<lparr>ms_vault := snd (delete_file (the (m_file_path m)) (ms_vault st))\<rparr> else st)
           in if \<not> pe_vector_delete_ok (mg_pl env) then (Inl VectorStoreError, st1)
              else (let st2 = st1\<lparr>ms_pl := (ms_pl st1)\<lparr>pl_vectors := (pl_vectors (ms_pl st1))(i := None)\<rparr>\<rparr>
                    in (case delete_memory i (graph_of st2) of (ok, g) \<Rightarrow> (Inr ok, put_graph g st2)))))"

section \<open>Updating\<close>

record memory_update =
  mu_content :: "string option"
  mu_title :: "string option"
  mu_tags :: "string list option"
  mu_memory_type :: "memory_type option"
  mu_metadata :: "metadata option"
  mu_status :: "memory_status option"
  mu_category :: "string option"
  mu_quality_score :: "real option"
  mu_confidence :: "real option"
  mu_cluster_id :: "string option"

definition over :: "'a option \<Rightarrow> 'a \<Rightarrow> 'a" where
  "over new old = (case new of Some v \<Rightarrow> v | None \<Rightarrow> old)"

definition over_opt :: "'a option \<Rightarrow> 'a option \<Rightarrow> 'a option" where
  "over_opt new old = (case new of Some v \<Rightarrow> Some v | None \<Rightarrow> old)"

text \<open>The row with the fields that were given, its metadata and its tags decided.\<close>

definition edited_memory :: "mgr_env \<Rightarrow> memory_update \<Rightarrow> metadata \<Rightarrow> memory \<Rightarrow> memory" where
  "edited_memory env d md m =
     m\<lparr>m_content := over (mu_content d) (m_content m), m_title := over_opt (mu_title d) (m_title m),
       m_tags := (let tags = over (mu_tags d) (m_tags m)
                  in case mu_content d of Some c \<Rightarrow> fst (scan_and_tag env tags c) | None \<Rightarrow> tags),
       m_memory_type := over (mu_memory_type d) (m_memory_type m), m_metadata := md,
       m_status := over (mu_status d) (m_status m), m_category := over_opt (mu_category d) (m_category m),
       m_quality_score := over_opt (mu_quality_score d) (m_quality_score m),
       m_confidence := over_opt (mu_confidence d) (m_confidence m), m_cluster_id := over_opt (mu_cluster_id d) (m_cluster_id m)\<rparr>"

text \<open>The publication gate of an update: the row, and whether it was demoted.\<close>

definition update_gated :: "mgr_env \<Rightarrow> memory_status \<Rightarrow> memory_update \<Rightarrow> memory \<Rightarrow> memory \<times> bool" where
  "update_gated env previous d m =
     (let flip = (mu_status d \<noteq> None \<and> mu_status d \<noteq> Some previous \<and> m_status m = PUBLISHED);
          changed = (mu_content d \<noteq> None \<or> mu_title d \<noteq> None);
          edit = (changed \<and> is_context_admissible m)
      in if (flip \<or> edit) \<and>
            \<not> publish_gate_verdict env m (if mu_content d \<noteq> None then Some (m_content m) else None)
         then (if previous \<in> CONTEXT_ADMISSIBLE_STATUSES \<and> changed then (m\<lparr>m_status := RAW\<rparr>, True)
               else (m\<lparr>m_status := previous\<rparr>, False))
         else (m, False))"

definition requeued :: "bool \<Rightarrow> bool \<Rightarrow> memory \<Rightarrow> memory" where
  "requeued content_changed demoted m =
     (let m1 = (if content_changed \<and> \<not> demoted \<and>
                   (m_pipeline_state m = Some PS_REFINED \<or> m_pipeline_state m = None \<and> is_context_admissible m)
                then m\<lparr>m_pipeline_state := Some PS_PENDING\<rparr> else m)
      in if content_changed then m1\<lparr>m_clean_content := None\<rparr> else m1)"

text \<open>The saved row, the vector of a demoted one removed, the embedding of a published one renewed.\<close>

definition resettled :: "mgr_env \<Rightarrow> moment \<Rightarrow> bool \<Rightarrow> memory \<Rightarrow> mgr_state \<Rightarrow> memory \<times> mgr_state" where
  "resettled env now demoted m st =
     (let st1 = put_rows (save False m (pl_rows (ms_pl st))) st;
          st2 = (if demoted \<and> pe_vector_delete_ok (mg_pl env)
                 then st1\<lparr>ms_pl := (ms_pl st1)\<lparr>pl_vectors := (pl_vectors (ms_pl st1))(m_id m := None)\<rparr>\<rparr> else st1)
      in embedded env now m st2)"

definition update_memory ::
  "mgr_env \<Rightarrow> moment \<Rightarrow> string \<Rightarrow> memory_update \<Rightarrow> mgr_state \<Rightarrow> (manager_error + memory option) \<times> mgr_state" where
  "update_memory env now i d st =
     (case pl_get i (ms_pl st) of
        None \<Rightarrow> (Inr None, st)
      | Some m0 \<Rightarrow>
          (case (case mu_metadata d of None \<Rightarrow> Inr (m_metadata m0) | Some md \<Rightarrow> merged_metadata (m_metadata m0) md) of
             Inl e \<Rightarrow> (Inl e, st)
           | Inr md \<Rightarrow>
               (case update_gated env (m_status m0) d (edited_memory env d md m0) of
                  (m1, demoted) \<Rightarrow>
                    (case canon_gate env False ((requeued (mu_content d \<noteq> None) demoted m1)\<lparr>m_updated_at := now\<rparr>) of
                       Inl e \<Rightarrow> (Inl e, st)
                     | Inr m2 \<Rightarrow> (case resettled env now demoted m2 st of (m3, st') \<Rightarrow> (Inr (Some m3), st'))))))"

end
