(* ===== verification/Manager_Safety.thy ===== *)
theory Manager_Safety
  imports Memory_Manager "HOL-Library.Code_Target_Nat"
begin

text \<open>
  What the write path of \<open>Memory_Manager\<close> guarantees: what a created row holds and who sees it, which metadata no caller
  can forge or erase, and that an edit is served only behind the publication gate.
\<close>

section \<open>What follows the save of a row\<close>

text \<open>The part of a record that the context filter and the embedding leave alone.\<close>

definition core :: "memory \<Rightarrow> memory" where
  "core m = m\<lparr>m_clean_content := None, m_filter_profile := None, m_filter_stats := None, m_filter_version := None,
     m_embedding_id := None, m_updated_at := 0\<rparr>"

fun core_neutral :: "field_update \<Rightarrow> bool" where
  "core_neutral (F_clean_content _) = True"
| "core_neutral (F_filter_profile _) = True"
| "core_neutral (F_filter_stats _) = True"
| "core_neutral (F_filter_version _) = True"
| "core_neutral (F_embedding_id _) = True"
| "core_neutral _ = False"

lemma core_field:
  "m_id (core a) = m_id a" "m_content (core a) = m_content a" "m_title (core a) = m_title a" "m_tags (core a) = m_tags a" "m_status (core a) = m_status a" "m_metadata (core a) = m_metadata a" "m_project (core a) = m_project a" "m_agent (core a) = m_agent a" "m_raw_content (core a) = m_raw_content a" "m_pipeline_state (core a) = m_pipeline_state a" "m_file_path (core a) = m_file_path a" "m_memory_type (core a) = m_memory_type a"
  by (simp_all add: core_def)

lemma core_fields:
  assumes "core a = core b"
  shows "m_id a = m_id b" "m_content a = m_content b" "m_title a = m_title b" "m_tags a = m_tags b" "m_status a = m_status b" "m_metadata a = m_metadata b" "m_project a = m_project b" "m_agent a = m_agent b" "m_raw_content a = m_raw_content b" "m_pipeline_state a = m_pipeline_state b" "m_file_path a = m_file_path b" "m_memory_type a = m_memory_type b"
  using assms by (metis core_field)+

lemma core_apply: "core_neutral f \<Longrightarrow> core (apply_field f m) = core m"
  by (cases f) (simp_all add: core_def)

lemma core_fold: "list_all core_neutral fs \<Longrightarrow> core (fold apply_field fs m) = core m"
  by (induction fs arbitrary: m) (simp_all add: core_apply)

lemma core_updated [simp]: "core (m\<lparr>m_updated_at := t\<rparr>) = core m" "core (m\<lparr>m_embedding_id := e\<rparr>) = core m"
  by (simp_all add: core_def)

lemma core_neutral_whitelisted: "list_all core_neutral fs \<Longrightarrow> filter whitelisted fs = fs"
proof (induction fs)
  case (Cons f fs)
  then show ?case by (cases f) simp_all
qed simp

lemma row_to_memory_core: "core (mem a) = core (mem b) \<Longrightarrow> core (row_to_memory a) = core (row_to_memory b)"
  by (cases "mem a"; cases "mem b") (simp add: core_def row_to_memory_def)

lemma pl_update_core:
  assumes "list_all core_neutral fs" "fs \<noteq> []"
  shows "map_option core (pl_get k (snd (pl_update i fs now pl))) = map_option core (pl_get k pl)"
proof -
  note wl = core_neutral_whitelisted [OF assms(1)]
  have "row_find row_id k (pl_rows (snd (pl_update i fs now pl))) =
      map_option (\<lambda>r. if row_id r = i then r\<lparr>mem := (fold apply_field fs (mem r))\<lparr>m_updated_at := now\<rparr>\<rparr> else r)
        (row_find row_id k (pl_rows pl))"
    by (simp add: pl_update_where [OF wl assms(2)] update_where_def row_find_update)
  then show ?thesis
    by (cases "row_find row_id k (pl_rows pl)") (auto simp: pl_get_def get_def core_fold [OF assms(1)] intro: row_to_memory_core)
qed

lemma pl_update_elsewhere:
  assumes "list_all core_neutral fs" "fs \<noteq> []" "k \<noteq> i"
  shows "pl_get k (snd (pl_update i fs now pl)) = pl_get k pl"
proof -
  note wl = core_neutral_whitelisted [OF assms(1)]
  have "row_find row_id k (pl_rows (snd (pl_update i fs now pl))) =
      map_option (\<lambda>r. if row_id r = i then r\<lparr>mem := (fold apply_field fs (mem r))\<lparr>m_updated_at := now\<rparr>\<rparr> else r)
        (row_find row_id k (pl_rows pl))"
    by (simp add: pl_update_where [OF wl assms(2)] update_where_def row_find_update)
  with assms(3) show ?thesis
    by (cases "row_find row_id k (pl_rows pl)") (auto simp: pl_get_def get_def dest: row_find_SomeD)
qed

lemma upsert_core: "map_option core (pl_get k (snd (upsert_embedding env now m pl))) = map_option core (pl_get k pl)"
  by (simp add: upsert_embedding_def pl_update_core) (simp add: pl_get_def)

lemma upsert_elsewhere: "k \<noteq> m_id m \<Longrightarrow> pl_get k (snd (upsert_embedding env now m pl)) = pl_get k pl"
  by (simp add: upsert_embedding_def pl_update_elsewhere) (simp add: pl_get_def)

text \<open>The part of a row that is served; the embedding leaves it alone.\<close>

definition served_part :: "memory \<Rightarrow> memory_status \<times> string option \<times> string" where
  "served_part m = (m_status m, m_title m, effective_content m)"

lemma upsert_served: "map_option served_part (pl_get k (snd (upsert_embedding env now m pl))) = map_option served_part (pl_get k pl)"
proof (cases "pe_embed_ok env (embedding_text m)")
  case True
  let ?pl = "pl\<lparr>pl_vectors := (pl_vectors pl)(m_id m \<mapsto> vector_metadata env m)\<rparr>"
  let ?fs = "[F_embedding_id (Some (m_id m))]"
  have "row_find row_id k (pl_rows (snd (pl_update (m_id m) ?fs now ?pl))) =
      map_option (\<lambda>r. if row_id r = m_id m then r\<lparr>mem := (mem r)\<lparr>m_embedding_id := Some (m_id m), m_updated_at := now\<rparr>\<rparr> else r)
        (row_find row_id k (pl_rows pl))"
    by (simp add: pl_update_where update_where_def row_find_update)
  then show ?thesis
    using True
    by (cases "row_find row_id k (pl_rows pl)")
       (auto simp: upsert_embedding_def pl_get_def get_def served_part_def row_to_memory_def effective_content_def)
qed (simp add: upsert_embedding_def)

lemma embedded_core:
  assumes "embedded env now m st = (m', st')"
  shows "map_option core (pl_get k (ms_pl st')) = map_option core (pl_get k (ms_pl st))" "core m' = core m"
    "k \<noteq> m_id m \<Longrightarrow> pl_get k (ms_pl st') = pl_get k (ms_pl st)"
proof -
  obtain ok pl where u: "upsert_embedding (mg_pl env) now m (ms_pl st) = (ok, pl)" by fastforce
  have 1: "map_option core (pl_get k pl) = map_option core (pl_get k (ms_pl st))"
    using upsert_core [where k = k and env = "mg_pl env" and now = now and m = m and pl = "ms_pl st"] u by simp
  have 2: "pl_get k pl = pl_get k (ms_pl st)" if "k \<noteq> m_id m"
    using upsert_elsewhere [OF that, where env = "mg_pl env" and now = now and pl = "ms_pl st"] u by simp
  have m': "m' = (if m_status m = PUBLISHED \<and> ok then m\<lparr>m_embedding_id := Some (m_id m)\<rparr> else m)"
    and st': "ms_pl st' = (if m_status m = PUBLISHED then pl else ms_pl st)"
    using assms by (cases "m_status m = PUBLISHED", auto simp: embedded_def u)+
  show "core m' = core m" by (simp add: m')
  show "map_option core (pl_get k (ms_pl st')) = map_option core (pl_get k (ms_pl st))" by (simp add: st' 1)
  show "k \<noteq> m_id m \<Longrightarrow> pl_get k (ms_pl st') = pl_get k (ms_pl st)" by (simp add: st' 2)
qed

lemma filter_core:
  "map_option core (pl_get k (ms_pl (snd (apply_context_filter env now i profile budget st)))) = map_option core (pl_get k (ms_pl st))"
  by (cases "pl_get i (ms_pl st)") (simp_all add: apply_context_filter_def Let_def pl_update_core)

lemma filter_elsewhere:
  "k \<noteq> i \<Longrightarrow> pl_get k (ms_pl (snd (apply_context_filter env now i profile budget st))) = pl_get k (ms_pl st)"
proof (cases "pl_get i (ms_pl st)")
  case (Some m)
  assume k: "k \<noteq> i"
  from Some have "m_id m = i" by (auto simp: pl_get_def dest: get_id)
  with k show ?thesis by (simp add: apply_context_filter_def Let_def Some pl_update_elsewhere)
qed (simp add: apply_context_filter_def)

lemma auto_filtered_core:
  assumes "auto_filtered env now profile m st = (m', st')" "map_option core (pl_get (m_id m) (ms_pl st)) = Some c"
  shows "map_option core (pl_get k (ms_pl st')) = map_option core (pl_get k (ms_pl st))" "m_id m' = m_id m"
    "core m' = core m \<or> core m' = c" "k \<noteq> m_id m \<Longrightarrow> pl_get k (ms_pl st') = pl_get k (ms_pl st)"
proof -
  let ?st = "snd (apply_context_filter env now (m_id m) profile None st)"
  have "map_option core (pl_get (m_id m) (ms_pl ?st)) = Some c" using assms(2) by (simp add: filter_core)
  then obtain r where r: "pl_get (m_id m) (ms_pl ?st) = Some r" "core r = c" by (cases "pl_get (m_id m) (ms_pl ?st)") simp_all
  then have id: "m_id r = m_id m" by (auto simp: pl_get_def dest: get_id)
  have "m' = r \<and> st' = ?st \<or> m' = m \<and> st' = st"
    using assms(1) r(1) by (cases "mg_auto_filter env \<and> m_content m \<noteq> []") (auto simp: auto_filtered_def Let_def)
  then show "map_option core (pl_get k (ms_pl st')) = map_option core (pl_get k (ms_pl st))" "m_id m' = m_id m"
    "core m' = core m \<or> core m' = c" "k \<noteq> m_id m \<Longrightarrow> pl_get k (ms_pl st') = pl_get k (ms_pl st)"
    using id r(2) filter_core [where k = k and env = env and now = now and i = "m_id m" and profile = profile and budget = None and st = st]
      filter_elsewhere [where k = k and env = env and now = now and i = "m_id m" and profile = profile and budget = None and st = st]
    by auto
qed

lemma mint_rows: "g_rows (snd (mint_relates_to_edges on emb vec m now g)) = g_rows g"
proof -
  have "g_rows (snd (foldl (mint_one m I now) (0, g) cs)) = g_rows g" for I cs
    using mint_loop [of m I now 0 g cs] by blast
  then show ?thesis by (simp add: mint_relates_to_edges_def Let_def)
qed

lemma minted_pl [simp]: "pl_rows (ms_pl (minted env now mint m st)) = pl_rows (ms_pl st)"
  by (simp add: minted_def put_graph_def mint_rows graph_of_def)

lemma minted_get [simp]: "pl_get k (ms_pl (minted env now mint m st)) = pl_get k (ms_pl st)"
  by (simp add: pl_get_def)

lemma vault_written_core:
  assumes "vault_written env m st = (m', st')"
  shows "ms_pl st' = ms_pl st" "m' = m \<or> (\<exists>p. m' = m\<lparr>m_file_path := p\<rparr>)"
  using assms by (auto simp: vault_written_def split: if_splits prod.splits)

lemma put_rows_get [simp]: "pl_get k (ms_pl (put_rows rs st)) = get k rs"
  by (simp add: put_rows_def pl_get_def)

lemma persisted_row:
  assumes "persisted env now tr mint profile m st = (m', st')"
  shows "\<exists>p. map_option core (pl_get (m_id m) (ms_pl st')) =
      Some (core (stored_record (m\<lparr>m_file_path := p\<rparr>) (row_find row_id (m_id m) (pl_rows (ms_pl st)))))"
    "k \<noteq> m_id m \<Longrightarrow> pl_get k (ms_pl st') = pl_get k (ms_pl st)"
proof -
  obtain m1 st1 where 1: "vault_written env m st = (m1, st1)" by fastforce
  have same: "m = m\<lparr>m_file_path := m_file_path m\<rparr>" by simp
  obtain p where p: "m1 = m\<lparr>m_file_path := p\<rparr>" using vault_written_core(2) [OF 1] same by metis
  let ?sv = "put_rows (save tr m1 (pl_rows (ms_pl st1))) st1"
  obtain m2 st2 where 2: "auto_filtered env now profile m1 ?sv = (m2, st2)" by fastforce
  obtain m3 st3 where 3: "embedded env now m2 st2 = (m3, st3)" by fastforce
  have st': "st' = minted env now mint m3 st3" using assms by (auto simp: persisted_def 1 2 3)
  have id1: "m_id m1 = m_id m" by (simp add: p)
  have saved: "map_option core (pl_get (m_id m1) (ms_pl ?sv)) =
      Some (core (stored_record m1 (row_find row_id (m_id m1) (pl_rows (ms_pl st1)))))"
    by (simp add: get_save)
  note f = auto_filtered_core [OF 2 saved] and e = embedded_core [OF 3]
  have "map_option core (pl_get (m_id m) (ms_pl st')) =
      Some (core (stored_record m1 (row_find row_id (m_id m) (pl_rows (ms_pl st)))))"
    using saved e(1) [of "m_id m"] f(1) [of "m_id m"] id1 vault_written_core(1) [OF 1] by (simp add: st')
  then show "\<exists>p. map_option core (pl_get (m_id m) (ms_pl st')) =
      Some (core (stored_record (m\<lparr>m_file_path := p\<rparr>) (row_find row_id (m_id m) (pl_rows (ms_pl st)))))"
    using p by blast
  assume k: "k \<noteq> m_id m"
  have "pl_get k (ms_pl st3) = pl_get k (ms_pl ?sv)" using e(3) f(2,4) k id1 by simp
  also have "\<dots> = pl_get k (ms_pl st)" using k id1 vault_written_core(1) [OF 1] by (simp add: get_save) (simp add: pl_get_def)
  finally show "pl_get k (ms_pl st') = pl_get k (ms_pl st)" by (simp add: st')
qed

section \<open>Creating\<close>

lemma canon_gate_row:
  assumes "canon_gate env create m = Inr m'"
  shows "\<exists>w. m' = m\<lparr>m_metadata := w\<rparr> \<and> (\<forall>k. k \<noteq> ''canon_warnings'' \<longrightarrow> w k = m_metadata m k)"
proof -
  have set: "\<exists>w. m\<lparr>m_metadata := (m_metadata m)(''canon_warnings'' := v)\<rparr> = m\<lparr>m_metadata := w\<rparr> \<and>
      (\<forall>k. k \<noteq> ''canon_warnings'' \<longrightarrow> w k = m_metadata m k)" for v
    by (rule exI [of _ "(m_metadata m)(''canon_warnings'' := v)"]) simp
  have keep: "\<exists>w. m = m\<lparr>m_metadata := w\<rparr> \<and> (\<forall>k. k \<noteq> ''canon_warnings'' \<longrightarrow> w k = m_metadata m k)"
    by (rule exI [of _ "m_metadata m"]) simp
  obtain v where "validate_canon_record (m_content m) (m_title m) (m_metadata m) = v" by blast
  then have "m' = m \<or> (\<exists>v. m' = m\<lparr>m_metadata := (m_metadata m)(''canon_warnings'' := v)\<rparr>)"
    using assms unfolding canon_gate_def by (cases v rule: option.exhaust; cases "the v") (simp_all split: if_splits, blast+)
  then show ?thesis using set keep by blast
qed

definition admitted_text :: "mgr_env \<Rightarrow> string \<Rightarrow> string option \<Rightarrow> bool" where
  "admitted_text env content title \<longleftrightarrow> dt_clean (env_detect (mg_pl env) content title)"

lemma gate_verdict_clean:
  "publish_gate_verdict env m content \<longleftrightarrow> admitted_text env (case content of Some c \<Rightarrow> c | None \<Rightarrow> effective_content m) (m_title m)"
  by (auto simp: publish_gate_verdict_def publish_gate_detection_def admitted_text_def dt_clean_def dt_positive_def Let_def)

lemma visible_memory_row:
  "\<exists>s p. visible_memory env given m = m\<lparr>m_status := s, m_pipeline_state := p\<rparr>"
proof -
  have 1: "\<exists>s p. m\<lparr>m_status := a\<rparr> = m\<lparr>m_status := s, m_pipeline_state := p\<rparr>" for a
    by (rule exI [of _ a], rule exI [of _ "m_pipeline_state m"]) simp
  have 2: "\<exists>s p. m = m\<lparr>m_status := s, m_pipeline_state := p\<rparr>"
    by (rule exI [of _ "m_status m"], rule exI [of _ "m_pipeline_state m"]) simp
  have 3: "\<exists>s p. m\<lparr>m_status := a, m_pipeline_state := b\<rparr> = m\<lparr>m_status := s, m_pipeline_state := p\<rparr>" for a b
    by blast
  show ?thesis unfolding visible_memory_def using 1 2 3 by (simp split: if_splits)
qed

lemma add_row:
  assumes "add env now fresh d project agent flags st = (Inr m', st')"
  obtains md w p m where "create_metadata (af_checkpoint flags) (mc_metadata d) = Inr md"
    "m = (visible_memory env (mc_status d \<noteq> None) (built_memory env now fresh d md project agent))\<lparr>m_metadata := w\<rparr>"
    "\<forall>k. k \<noteq> ''canon_warnings'' \<and> k \<noteq> ''content_type'' \<longrightarrow> w k = md k"
    "map_option core (pl_get fresh (ms_pl st')) =
       Some (core (stored_record (m\<lparr>m_file_path := p\<rparr>) (row_find row_id fresh (pl_rows (ms_pl st)))))"
    "\<forall>k. k \<noteq> fresh \<longrightarrow> pl_get k (ms_pl st') = pl_get k (ms_pl st)"
proof -
  from assms obtain md m where 1: "create_metadata (af_checkpoint flags) (mc_metadata d) = Inr md"
    "canon_gate env True (visible_memory env (mc_status d \<noteq> None) (built_memory env now fresh d md project agent)) = Inr m"
    "persisted env now (af_rewrite flags) (af_mint flags) (mc_filter_profile d) m st = (m', st')"
    by (auto simp: add_def split: sum.splits prod.splits)
  let ?v = "visible_memory env (mc_status d \<noteq> None) (built_memory env now fresh d md project agent)"
  from visible_memory_row obtain s q where v: "?v = (built_memory env now fresh d md project agent)\<lparr>m_status := s, m_pipeline_state := q\<rparr>"
    by blast
  from canon_gate_row [OF 1(2)] obtain w where w: "m = ?v\<lparr>m_metadata := w\<rparr>" "\<forall>k. k \<noteq> ''canon_warnings'' \<longrightarrow> w k = m_metadata ?v k"
    by blast
  have id: "m_id m = fresh" unfolding w(1) v by (simp add: built_memory_def new_memory_def)
  have md: "m_metadata ?v k = md k" if "k \<noteq> ''content_type''" for k
    using that unfolding v by (simp add: built_memory_def)
  from persisted_row(1) [OF 1(3)] obtain p where p: "map_option core (pl_get fresh (ms_pl st')) =
       Some (core (stored_record (m\<lparr>m_file_path := p\<rparr>) (row_find row_id fresh (pl_rows (ms_pl st)))))"
    by (auto simp: id)
  show thesis
    by (rule that [OF 1(1) w(1) _ p]) (use w(2) md persisted_row(2) [OF 1(3)] id in auto)
qed

lemma stored_record_fields [simp]:
  "m_id (stored_record m old) = m_id m" "m_content (stored_record m old) = m_content m" "m_tags (stored_record m old) = m_tags m"
  "m_status (stored_record m old) = m_status m" "m_metadata (stored_record m old) = m_metadata m"
  "m_project (stored_record m old) = m_project m" "m_agent (stored_record m old) = m_agent m"
  "m_raw_content (stored_record m old) = m_raw_content m" "m_pipeline_state (stored_record m old) = m_pipeline_state m"
  by (simp_all add: stored_record_def saved_columns_def Let_def)

lemma scan_and_tag_tags:
  "set tags \<subseteq> set (fst (scan_and_tag env tags content))"
  "content \<noteq> [] \<Longrightarrow> pe_scan (mg_pl env) content = Inr names \<Longrightarrow> names \<noteq> [] \<Longrightarrow> NO_FEDERATE_TAG \<in> set (fst (scan_and_tag env tags content))"
  by (auto simp: scan_and_tag_def split: sum.splits)

lemma built_fields [simp]:
  "m_id (built_memory env now fresh d md p a) = fresh" "m_content (built_memory env now fresh d md p a) = mc_content d"
  "m_title (built_memory env now fresh d md p a) = mc_title d"
  "m_tags (built_memory env now fresh d md p a) = fst (scan_and_tag env (mc_tags d) (mc_content d))"
  "m_status (built_memory env now fresh d md p a) = (case mc_status d of Some s \<Rightarrow> s | None \<Rightarrow> RAW)"
  "m_project (built_memory env now fresh d md p a) = p" "m_agent (built_memory env now fresh d md p a) = a"
  "m_raw_content (built_memory env now fresh d md p a) = None" "m_clean_content (built_memory env now fresh d md p a) = None"
  "m_pipeline_state (built_memory env now fresh d md p a) = None"
  by (simp_all add: built_memory_def new_memory_def)

lemma visible_fields [simp]:
  "m_id (visible_memory env given m) = m_id m" "m_content (visible_memory env given m) = m_content m"
  "m_tags (visible_memory env given m) = m_tags m" "m_project (visible_memory env given m) = m_project m"
  "m_agent (visible_memory env given m) = m_agent m" "m_raw_content (visible_memory env given m) = m_raw_content m"
  by (simp_all add: visible_memory_def)

lemma visible_published:
  "m_status (visible_memory env (mc_status d \<noteq> None) (built_memory env now fresh d md p a)) = PUBLISHED \<longleftrightarrow>
     admitted_text env (mc_content d) (mc_title d) \<and>
     (mc_status d = Some PUBLISHED \<or> mc_status d = None \<and> \<not> pe_curated (mg_pl env))"
  by (cases "mc_status d") (auto simp: visible_memory_def gate_verdict_clean effective_content_def or_str_def)

text \<open>
  C36.  A created memory is stored whole: its content, project and agent, every tag that was given, and the exclusion tag
  when the scanner finds a secret.  It is published exactly when the danger gate admits content and title and either the
  caller asked for it or none was asked for and visibility is immediate.  No other row changes.
\<close>

theorem add_stores:
  assumes "add env now fresh d project agent flags st = (Inr m', st')"
  shows "\<exists>m. pl_get fresh (ms_pl st') = Some m \<and> m_content m = mc_content d \<and> m_project m = project \<and> m_agent m = agent \<and>
    set (mc_tags d) \<subseteq> set (m_tags m) \<and>
    (\<forall>names. mc_content d \<noteq> [] \<and> pe_scan (mg_pl env) (mc_content d) = Inr names \<and> names \<noteq> [] \<longrightarrow> NO_FEDERATE_TAG \<in> set (m_tags m)) \<and>
    (m_status m = PUBLISHED \<longleftrightarrow> dt_clean (env_detect (mg_pl env) (mc_content d) (mc_title d)) \<and>
       (mc_status d = Some PUBLISHED \<or> mc_status d = None \<and> \<not> pe_curated (mg_pl env))) \<and>
    (\<forall>k. k \<noteq> fresh \<longrightarrow> pl_get k (ms_pl st') = pl_get k (ms_pl st))"
proof -
  obtain md w p m where 0: "create_metadata (af_checkpoint flags) (mc_metadata d) = Inr md" and 1:
    "m = (visible_memory env (mc_status d \<noteq> None) (built_memory env now fresh d md project agent))\<lparr>m_metadata := w\<rparr>"
    "\<forall>k. k \<noteq> ''canon_warnings'' \<and> k \<noteq> ''content_type'' \<longrightarrow> w k = md k"
    "map_option core (pl_get fresh (ms_pl st')) =
       Some (core (stored_record (m\<lparr>m_file_path := p\<rparr>) (row_find row_id fresh (pl_rows (ms_pl st)))))"
    and other: "\<forall>k. k \<noteq> fresh \<longrightarrow> pl_get k (ms_pl st') = pl_get k (ms_pl st)" by (rule add_row [OF assms])
  from 1(3) obtain r where r: "pl_get fresh (ms_pl st') = Some r"
    "core r = core (stored_record (m\<lparr>m_file_path := p\<rparr>) (row_find row_id fresh (pl_rows (ms_pl st))))"
    by (cases "pl_get fresh (ms_pl st')") simp_all
  note f = core_fields [OF r(2)]
  have "m_content r = mc_content d" "m_project r = project" "m_agent r = agent"
    "m_tags r = fst (scan_and_tag env (mc_tags d) (mc_content d))"
    using f(2,4,7,8) by (simp_all add: 1(1))
  moreover have "m_status r = PUBLISHED \<longleftrightarrow> admitted_text env (mc_content d) (mc_title d) \<and>
      (mc_status d = Some PUBLISHED \<or> mc_status d = None \<and> \<not> pe_curated (mg_pl env))"
    using f(5) visible_published [of env d now fresh md project agent] by (simp add: 1(1))
  ultimately show ?thesis
    using r(1) other scan_and_tag_tags(1) [of "mc_tags d" env "mc_content d"] scan_and_tag_tags(2) [of "mc_content d" env _ "mc_tags d"] unfolding admitted_text_def by auto
qed

lemma create_metadata_clean:
  assumes "create_metadata False md = Inr md'"
  shows "md' ''checkpoint_agent'' = None" "md' ''checkpoint_session'' = None" "md' ''checkpoint_dedup_key'' = None" "md' ''doc_swept_at'' = None"
    "md' ''canon'' = Some c \<Longrightarrow> canon_envelope_is_client_authored (Some c) = Some True"
  using assms
  by (auto simp: create_metadata_def without_keys_def strip_keys_def CHECKPOINT_STAMP_KEYS_def DOC_SWEEP_STAMP_KEYS_def restrict_map_def
      split: sum.splits option.splits if_splits)

text \<open>
  C37.  No caller mints a server stamp through a generic create: whatever metadata it sends, the new row carries no
  checkpoint identity and no release stamp, and an envelope only if it is of a client's type.
\<close>

theorem add_forges_no_stamp:
  assumes "add env now fresh d project agent flags st = (Inr m', st')" "\<not> af_checkpoint flags"
  shows "\<exists>m. pl_get fresh (ms_pl st') = Some m \<and>
    (\<forall>k \<in> {''checkpoint_agent'', ''checkpoint_session'', ''checkpoint_dedup_key'', ''doc_swept_at''}. m_metadata m k = None) \<and>
    (\<forall>c. m_metadata m ''canon'' = Some c \<longrightarrow> canon_envelope_is_client_authored (Some c) = Some True)"
proof -
  obtain md w p m where 1:
    "create_metadata (af_checkpoint flags) (mc_metadata d) = Inr md"
    "m = (visible_memory env (mc_status d \<noteq> None) (built_memory env now fresh d md project agent))\<lparr>m_metadata := w\<rparr>"
    "\<forall>k. k \<noteq> ''canon_warnings'' \<and> k \<noteq> ''content_type'' \<longrightarrow> w k = md k"
    "map_option core (pl_get fresh (ms_pl st')) =
       Some (core (stored_record (m\<lparr>m_file_path := p\<rparr>) (row_find row_id fresh (pl_rows (ms_pl st)))))"
    "\<forall>k. k \<noteq> fresh \<longrightarrow> pl_get k (ms_pl st') = pl_get k (ms_pl st)"
    by (rule add_row [OF assms(1)])
  from 1(4) obtain r where r: "pl_get fresh (ms_pl st') = Some r"
    "core r = core (stored_record (m\<lparr>m_file_path := p\<rparr>) (row_find row_id fresh (pl_rows (ms_pl st))))"
    by (cases "pl_get fresh (ms_pl st')") simp_all
  have w: "m_metadata r = w" using core_fields(6) [OF r(2)] by (simp add: 1(2))
  have md: "create_metadata False (mc_metadata d) = Inr md" using 1(1) assms(2) by simp
  have keys: "w ''checkpoint_agent'' = md ''checkpoint_agent''" "w ''checkpoint_session'' = md ''checkpoint_session''"
    "w ''checkpoint_dedup_key'' = md ''checkpoint_dedup_key''" "w ''doc_swept_at'' = md ''doc_swept_at''" "w ''canon'' = md ''canon''"
    using 1(3) by simp_all
  show ?thesis
    using create_metadata_clean [OF md] by (intro exI [of _ r]) (simp add: r(1) w keys)
qed

section \<open>Updating\<close>

lemma update_runs:
  assumes "update_memory env now i d st = (Inr (Some m3), st')"
  obtains m0 md m1 demoted m2 where "pl_get i (ms_pl st) = Some m0"
    "(case mu_metadata d of None \<Rightarrow> Inr (m_metadata m0) | Some md \<Rightarrow> merged_metadata (m_metadata m0) md) = Inr md"
    "update_gated env (m_status m0) d (edited_memory env d md m0) = (m1, demoted)"
    "canon_gate env False ((requeued (mu_content d \<noteq> None) demoted m1)\<lparr>m_updated_at := now\<rparr>) = Inr m2"
    "resettled env now demoted m2 st = (m3, st')"
proof -
  from assms obtain m0 where m0: "pl_get i (ms_pl st) = Some m0" by (cases "pl_get i (ms_pl st)") (auto simp: update_memory_def)
  obtain md where md: "(case mu_metadata d of None \<Rightarrow> Inr (m_metadata m0) | Some md \<Rightarrow> merged_metadata (m_metadata m0) md) = Inr md"
    using assms by (cases "case mu_metadata d of None \<Rightarrow> Inr (m_metadata m0) | Some md \<Rightarrow> merged_metadata (m_metadata m0) md")
      (auto simp: update_memory_def m0)
  obtain m1 demoted where g: "update_gated env (m_status m0) d (edited_memory env d md m0) = (m1, demoted)" by fastforce
  obtain m2 where c: "canon_gate env False ((requeued (mu_content d \<noteq> None) demoted m1)\<lparr>m_updated_at := now\<rparr>) = Inr m2"
    using assms by (cases "canon_gate env False ((requeued (mu_content d \<noteq> None) demoted m1)\<lparr>m_updated_at := now\<rparr>)")
      (auto simp: update_memory_def m0 md g)
  have "resettled env now demoted m2 st = (m3, st')"
    using assms by (cases "resettled env now demoted m2 st") (auto simp: update_memory_def m0 md g c simp del: not_None_eq)
  with m0 md g c show thesis by (rule that)
qed

lemma update_gated_row:
  assumes "update_gated env previous d m = (m', demoted)"
  shows "\<exists>s. m' = m\<lparr>m_status := s\<rparr>"
proof -
  have "m' = m \<or> m' = m\<lparr>m_status := RAW\<rparr> \<or> m' = m\<lparr>m_status := previous\<rparr>"
    using assms by (auto simp: update_gated_def Let_def split: if_splits)
  moreover have "\<exists>s. m = m\<lparr>m_status := s\<rparr>" by (rule exI [of _ "m_status m"]) simp
  ultimately show ?thesis by (elim disjE) (simp, blast, blast)
qed

lemma requeued_fields [simp]:
  "m_id (requeued c dem m) = m_id m" "m_metadata (requeued c dem m) = m_metadata m" "m_status (requeued c dem m) = m_status m"
  "m_title (requeued c dem m) = m_title m" "m_content (requeued c dem m) = m_content m"
  "effective_content (requeued c dem m) = (if c then m_content m else effective_content m)"
  "is_quarantined (requeued c dem m) = is_quarantined m"
  by (auto simp: requeued_def Let_def effective_content_def or_str_def is_quarantined_def)

lemma resettled_row:
  assumes "resettled env now demoted m st = (m', st')"
  shows "map_option core (pl_get (m_id m) (ms_pl st')) = Some (core (stored_record m (row_find row_id (m_id m) (pl_rows (ms_pl st)))))"
    "m' = m \<or> m' = m\<lparr>m_embedding_id := Some (m_id m)\<rparr>"
    "map_option served_part (pl_get (m_id m) (ms_pl st')) = Some (m_status m, Some (auto_title m), effective_content m)"
proof -
  let ?st1 = "put_rows (save False m (pl_rows (ms_pl st))) st"
  let ?st2 = "if demoted \<and> pe_vector_delete_ok (mg_pl env)
      then ?st1\<lparr>ms_pl := (ms_pl ?st1)\<lparr>pl_vectors := (pl_vectors (ms_pl ?st1))(m_id m := None)\<rparr>\<rparr> else ?st1"
  have e: "embedded env now m ?st2 = (m', st')" using assms by (simp add: resettled_def Let_def)
  have rows: "pl_rows (ms_pl ?st2) = save False m (pl_rows (ms_pl st))" by (simp add: put_rows_def)
  have "map_option core (pl_get (m_id m) (ms_pl ?st2)) = Some (core (stored_record m (row_find row_id (m_id m) (pl_rows (ms_pl st)))))"
    unfolding pl_get_def rows get_save by simp
  then show "map_option core (pl_get (m_id m) (ms_pl st')) = Some (core (stored_record m (row_find row_id (m_id m) (pl_rows (ms_pl st)))))"
    using embedded_core(1) [OF e, of "m_id m"] by simp
  have "map_option served_part (pl_get (m_id m) (ms_pl ?st2)) = Some (m_status m, Some (auto_title m), effective_content m)"
    unfolding pl_get_def rows get_save
    by (simp add: served_part_def stored_record_def saved_columns_def Let_def effective_content_def)
  moreover have "map_option served_part (pl_get (m_id m) (ms_pl st')) = map_option served_part (pl_get (m_id m) (ms_pl ?st2))"
  proof (cases "m_status m = PUBLISHED")
    case True
    obtain ok pl where u: "upsert_embedding (mg_pl env) now m (ms_pl ?st2) = (ok, pl)" by fastforce
    have "ms_pl st' = pl" using e True unfolding embedded_def by (auto simp: u split: if_splits)
    then show ?thesis using upsert_served [of "m_id m" "mg_pl env" now m "ms_pl ?st2"] by (simp add: u)
  next
    case False
    then have "st' = ?st2" using e by (simp add: embedded_def)
    then show ?thesis by simp
  qed
  ultimately show "map_option served_part (pl_get (m_id m) (ms_pl st')) = Some (m_status m, Some (auto_title m), effective_content m)"
    by simp
  show "m' = m \<or> m' = m\<lparr>m_embedding_id := Some (m_id m)\<rparr>"
  proof (cases "m_status m = PUBLISHED")
    case True
    then show ?thesis using e by (cases "upsert_embedding (mg_pl env) now m (ms_pl ?st2)") (auto simp: embedded_def split: if_splits)
  next
    case False
    then show ?thesis using e by (simp add: embedded_def)
  qed
qed

text \<open>What the gate lets an update return.\<close>

lemma update_gate:
  assumes "update_memory env now i d st = (Inr (Some m'), st')" "pl_get i (ms_pl st) = Some m"
    and "(mu_content d \<noteq> None \<or> mu_title d \<noteq> None) \<and> is_context_admissible m' \<or> m_status m' = PUBLISHED \<and> m_status m \<noteq> PUBLISHED"
  shows "served_ok (mg_pl env) m'"
proof -
  obtain n md m1 demoted m2 where 0: "pl_get i (ms_pl st) = Some n"
    "(case mu_metadata d of None \<Rightarrow> Inr (m_metadata n) | Some md \<Rightarrow> merged_metadata (m_metadata n) md) = Inr md" and 1:
    "update_gated env (m_status n) d (edited_memory env d md n) = (m1, demoted)"
    "canon_gate env False ((requeued (mu_content d \<noteq> None) demoted m1)\<lparr>m_updated_at := now\<rparr>) = Inr m2"
    "resettled env now demoted m2 st = (m', st')" by (rule update_runs [OF assms(1)])
  have n: "n = m" using 0(1) assms(2) by simp
  note 1 = 1 [unfolded n]
  let ?e = "edited_memory env d md m"
  obtain s where s: "m1 = ?e\<lparr>m_status := s\<rparr>" using update_gated_row [OF 1(1)] by blast
  obtain w where w: "m2 = ((requeued (mu_content d \<noteq> None) demoted m1)\<lparr>m_updated_at := now\<rparr>)\<lparr>m_metadata := w\<rparr>"
    using canon_gate_row [OF 1(2)] by blast
  have eff: "effective_content (x\<lparr>m_updated_at := t, m_metadata := y\<rparr>) = effective_content x" "effective_content (x\<lparr>m_embedding_id := z\<rparr>) = effective_content x"
    "effective_content (x\<lparr>m_status := q\<rparr>) = effective_content x" for x :: memory and t y z q
    by (simp_all add: effective_content_def)
  have quar: "is_quarantined (x\<lparr>m_updated_at := t, m_metadata := y\<rparr>) = is_quarantined x" "is_quarantined (x\<lparr>m_embedding_id := z\<rparr>) = is_quarantined x"
    "is_quarantined (x\<lparr>m_status := q\<rparr>) = is_quarantined x" for x :: memory and t y z q
    by (simp_all add: is_quarantined_def)
  have fields: "m_status m' = s" "m_title m' = m_title ?e" "is_quarantined m' = is_quarantined ?e"
    "effective_content m' = (case (if mu_content d \<noteq> None then Some (m_content ?e) else None) of Some c \<Rightarrow> c | None \<Rightarrow> effective_content ?e)"
    using resettled_row(2) [OF 1(3)] by (auto simp: w s eff quar)
  have adm: "is_context_admissible m' \<longleftrightarrow> s \<in> CONTEXT_ADMISSIBLE_STATUSES \<and> \<not> is_quarantined ?e"
    "is_context_admissible ?e \<longleftrightarrow> m_status ?e \<in> CONTEXT_ADMISSIBLE_STATUSES \<and> \<not> is_quarantined ?e"
    using fields by (simp_all add: is_context_admissible_in_def)
  have gate: "publish_gate_verdict env ?e (if mu_content d \<noteq> None then Some (m_content ?e) else None) \<longleftrightarrow> served_ok (mg_pl env) m'"
    unfolding gate_verdict_clean admitted_text_def served_ok_def fields(2,4) ..
  have gate1: "publish_gate_verdict env ?e (Some (m_content ?e)) \<longleftrightarrow> served_ok (mg_pl env) m'" if "mu_content d = Some y" for y
    using gate that by simp
  have gate2: "publish_gate_verdict env ?e None \<longleftrightarrow> served_ok (mg_pl env) m'" if "mu_content d = None"
    using gate that by simp
  have status: "m_status ?e = over (mu_status d) (m_status m)" by (simp add: edited_memory_def)
  have pub: "PUBLISHED \<in> CONTEXT_ADMISSIBLE_STATUSES" "RAW \<notin> CONTEXT_ADMISSIBLE_STATUSES" by (simp_all add: CONTEXT_ADMISSIBLE_STATUSES_def)
  have s': "s = m_status m1" by (simp add: s)
  show ?thesis
  proof (rule ccontr)
    assume no: "\<not> served_ok (mg_pl env) m'"
    show False
      using 1(1) assms(3) no pub status s' adm fields(1)
      by (cases "mu_status d"; cases "mu_content d")
        (auto simp: update_gated_def Let_def gate1 gate2 over_def split: if_splits)
  qed
qed

text \<open>
  C38.  What an update leaves context-admissible after an edit of content or title, and what it newly publishes, has
  passed the danger gate: the row in the table has the status of the memory returned, the text it serves is free of
  findings together with the title the gate saw, and that title is the row's own -- unless the update left the title
  empty, when the save takes one from the content.
\<close>

theorem update_served_clean:
  assumes "update_memory env now i d st = (Inr (Some m'), st')" "pl_get i (ms_pl st) = Some m"
    and "(mu_content d \<noteq> None \<or> mu_title d \<noteq> None) \<and> is_context_admissible m' \<or> m_status m' = PUBLISHED \<and> m_status m \<noteq> PUBLISHED"
  shows "\<exists>r. pl_get i (ms_pl st') = Some r \<and> m_status r = m_status m' \<and>
    dt_clean (detect (pe_scan (mg_pl env)) (effective_content r) (m_title m')) \<and>
    (truthy (m_title m') \<longrightarrow> m_title r = m_title m')"
proof -
  obtain n md m1 demoted m2 where 0: "pl_get i (ms_pl st) = Some n"
    "(case mu_metadata d of None \<Rightarrow> Inr (m_metadata n) | Some md \<Rightarrow> merged_metadata (m_metadata n) md) = Inr md" and 1:
    "update_gated env (m_status n) d (edited_memory env d md n) = (m1, demoted)"
    "canon_gate env False ((requeued (mu_content d \<noteq> None) demoted m1)\<lparr>m_updated_at := now\<rparr>) = Inr m2"
    "resettled env now demoted m2 st = (m', st')" by (rule update_runs [OF assms(1)])
  obtain s where s: "m1 = (edited_memory env d md n)\<lparr>m_status := s\<rparr>" using update_gated_row [OF 1(1)] by blast
  obtain w where w: "m2 = ((requeued (mu_content d \<noteq> None) demoted m1)\<lparr>m_updated_at := now\<rparr>)\<lparr>m_metadata := w\<rparr>"
    using canon_gate_row [OF 1(2)] by blast
  have "m_id n = i" using 0(1) by (auto simp: pl_get_def dest: get_id)
  then have id: "m_id m2 = i" by (simp add: w s edited_memory_def)
  obtain r where r: "pl_get i (ms_pl st') = Some r" "served_part r = (m_status m2, Some (auto_title m2), effective_content m2)"
    using resettled_row(3) [OF 1(3)] unfolding id by blast
  have same: "m_status m' = m_status m2" "m_title m' = m_title m2" "effective_content m' = effective_content m2"
    using resettled_row(2) [OF 1(3)] by (auto simp: effective_content_def)
  have "dt_clean (detect (pe_scan (mg_pl env)) (effective_content m') (m_title m'))"
    using update_gate [OF assms] by (simp add: served_ok_def)
  moreover have "auto_title m2 = the (m_title m2)" if "truthy (m_title m2)"
    using that by (auto simp: auto_title_def truthy_def split: option.splits)
  ultimately show ?thesis
    using r same by (intro exI [of _ r]) (auto simp: served_part_def truthy_def split: option.splits)
qed

lemma merged_metadata_keeps:
  assumes "merged_metadata previous md = Inr md'"
  shows "\<And>k. k \<in> {''checkpoint_agent'', ''checkpoint_session'', ''checkpoint_dedup_key'', ''doc_swept_at''} \<Longrightarrow> md' k = previous k"
    "\<And>k. k \<in> {''pipeline_retry_count'', ''pipeline_retry_at''} \<Longrightarrow> previous k \<noteq> None \<Longrightarrow> md' k = previous k"
    "\<And>c. previous ''canon'' = Some c \<Longrightarrow> canon_envelope_is_client_authored (Some c) = Some False \<Longrightarrow> md' ''canon'' = Some c"
proof -
  from assms obtain client own where 1: "md' = without_keys DOC_SWEEP_STAMP_KEYS (without_keys (strip_keys client) md) ++
        (previous |` (INTERNAL_METADATA_KEYS - (if own then {''canon''} else {}))) ++ (previous |` DOC_SWEEP_STAMP_KEYS)"
    "(if previous ''canon'' = None then Some False else canon_envelope_is_client_authored (previous ''canon'')) = Some own"
    by (auto simp: merged_metadata_def Let_def split: option.splits sum.splits)
  show "md' k = previous k" if "k \<in> {''checkpoint_agent'', ''checkpoint_session'', ''checkpoint_dedup_key'', ''doc_swept_at''}" for k
    using that
    by (elim insertE emptyE; simp add: 1(1) map_add_def restrict_map_def without_keys_def strip_keys_def CHECKPOINT_STAMP_KEYS_def
        INTERNAL_METADATA_KEYS_def DOC_SWEEP_STAMP_KEYS_def split: option.splits)
  show "md' k = previous k" if "k \<in> {''pipeline_retry_count'', ''pipeline_retry_at''}" "previous k \<noteq> None" for k
    using that by (cases "previous k") (auto simp: 1(1) map_add_def restrict_map_def INTERNAL_METADATA_KEYS_def
        CHECKPOINT_STAMP_KEYS_def DOC_SWEEP_STAMP_KEYS_def)
  show "md' ''canon'' = Some c" if "previous ''canon'' = Some c" "canon_envelope_is_client_authored (Some c) = Some False" for c
    using that 1(2) by (simp add: 1(1) map_add_def restrict_map_def INTERNAL_METADATA_KEYS_def CHECKPOINT_STAMP_KEYS_def DOC_SWEEP_STAMP_KEYS_def)
qed

text \<open>
  C39.  No update forges or erases a server stamp: whatever metadata the caller sends, the checkpoint identity and the
  release stamp of the row stay what they were, absent or present; so do a running retry counter and its gate, and an
  envelope that the server minted.
\<close>

theorem update_keeps_stamps:
  assumes "update_memory env now i d st = (Inr (Some m'), st')" "pl_get i (ms_pl st) = Some m"
  shows "\<exists>r. pl_get i (ms_pl st') = Some r \<and>
    (\<forall>k \<in> {''checkpoint_agent'', ''checkpoint_session'', ''checkpoint_dedup_key'', ''doc_swept_at''}. m_metadata r k = m_metadata m k) \<and>
    (\<forall>k \<in> {''pipeline_retry_count'', ''pipeline_retry_at''}. m_metadata m k \<noteq> None \<longrightarrow> m_metadata r k = m_metadata m k) \<and>
    (\<forall>c. m_metadata m ''canon'' = Some c \<and> canon_envelope_is_client_authored (Some c) = Some False \<longrightarrow> m_metadata r ''canon'' = Some c)"
proof -
  obtain n md m1 demoted m2 where 0: "pl_get i (ms_pl st) = Some n" and 1:
    "(case mu_metadata d of None \<Rightarrow> Inr (m_metadata n) | Some md \<Rightarrow> merged_metadata (m_metadata n) md) = Inr md"
    "update_gated env (m_status n) d (edited_memory env d md n) = (m1, demoted)"
    "canon_gate env False ((requeued (mu_content d \<noteq> None) demoted m1)\<lparr>m_updated_at := now\<rparr>) = Inr m2"
    "resettled env now demoted m2 st = (m', st')" by (rule update_runs [OF assms(1)])
  have n: "n = m" using 0 assms(2) by simp
  note 1 = 1 [unfolded n]
  obtain s where s: "m1 = (edited_memory env d md m)\<lparr>m_status := s\<rparr>" using update_gated_row [OF 1(2)] by blast
  obtain w where w: "m2 = ((requeued (mu_content d \<noteq> None) demoted m1)\<lparr>m_updated_at := now\<rparr>)\<lparr>m_metadata := w\<rparr>"
    "\<forall>k. k \<noteq> ''canon_warnings'' \<longrightarrow> w k = md k"
    using canon_gate_row [OF 1(3)] by (auto simp: s edited_memory_def)
  have "m_id m = i" using assms(2) by (auto simp: pl_get_def dest: get_id)
  then have id: "m_id m2 = i" by (simp add: w(1) s edited_memory_def)
  from resettled_row(1) [OF 1(4)] obtain r where r: "pl_get i (ms_pl st') = Some r"
    "core r = core (stored_record m2 (row_find row_id i (pl_rows (ms_pl st))))"
    by (cases "pl_get i (ms_pl st')") (simp_all add: id)
  have meta: "m_metadata r = w" using core_fields(6) [OF r(2)] by (simp add: w(1))
  have keys: "w ''checkpoint_agent'' = md ''checkpoint_agent''" "w ''checkpoint_session'' = md ''checkpoint_session''"
    "w ''checkpoint_dedup_key'' = md ''checkpoint_dedup_key''" "w ''doc_swept_at'' = md ''doc_swept_at''" "w ''canon'' = md ''canon''"
    "w ''pipeline_retry_count'' = md ''pipeline_retry_count''" "w ''pipeline_retry_at'' = md ''pipeline_retry_at''"
    using w(2) by simp_all
  show ?thesis
  proof (cases "mu_metadata d")
    case None
    with 1(1) have "md = m_metadata m" by simp
    then show ?thesis using r(1) by (intro exI [of _ r]) (simp add: meta keys)
  next
    case (Some x)
    with 1(1) have "merged_metadata (m_metadata m) x = Inr md" by simp
    from merged_metadata_keeps [OF this] show ?thesis by (intro exI [of _ r]) (auto simp: r(1) meta keys)
  qed
qed

section \<open>Witnesses\<close>

definition sample_mgr :: "bool \<Rightarrow> mgr_env" where
  "sample_mgr filtering =
     \<lparr>mg_pl = sample_env, mg_canon_mode = Canon_off, mg_wording = (\<lambda>_. ''''), mg_auto_filter = filtering, mg_auto_mint = False,
      mg_vectors = (\<lambda>_ _ _ _. []), mg_float = (\<lambda>s. s), mg_filter_version = ''1'', mg_refuse_on_secret = False,
      mg_vault_root = ''v'', mg_vault_fails = (\<lambda>_. False)\<rparr>"

definition empty_mgr :: mgr_state where
  "empty_mgr = \<lparr>ms_pl = \<lparr>pl_rows = [], pl_vectors = Map.empty\<rparr>, ms_edges = [], ms_stats = [], ms_metas = [], ms_vault = Map.empty\<rparr>"

definition sample_create :: "string \<Rightarrow> metadata \<Rightarrow> memory_create" where
  "sample_create content md =
     \<lparr>mc_content = content, mc_title = None, mc_tags = [''x''], mc_source = MANUAL, mc_source_url = None, mc_memory_type = NOTE,
      mc_metadata = md, mc_category = None, mc_filter_profile = None, mc_status = None\<rparr>"

definition generic_flags :: add_flags where
  "generic_flags = \<lparr>af_rewrite = False, af_checkpoint = False, af_mint = True\<rparr>"

abbreviation sample_visible :: "bool \<Rightarrow> moment \<Rightarrow> string \<Rightarrow> string \<Rightarrow> metadata \<Rightarrow> metadata \<Rightarrow> memory" where
  "sample_visible f now i c md md' \<equiv>
     visible_memory (sample_mgr f) False (built_memory (sample_mgr f) now i (sample_create c md) md' ''p'' ''a'')"

lemma sample_add:
  assumes "create_metadata False md = Inr md'"
    "persisted (sample_mgr f) now False True None (sample_visible f now i c md md') st = (m, st')"
  shows "add (sample_mgr f) now i (sample_create c md) ''p'' ''a'' generic_flags st = (Inr m, st')"
proof -
  have "canon_gate (sample_mgr f) True n = Inr n" for n by (simp add: canon_gate_def sample_mgr_def)
  with assms show ?thesis by (simp add: add_def sample_create_def generic_flags_def)
qed

lemma create_metadata_sample:
  "create_metadata False Map.empty = Inr (without_keys DOC_SWEEP_STAMP_KEYS (without_keys (strip_keys False) Map.empty))"
  "create_metadata False [''checkpoint_agent'' \<mapsto> JStr ''x''] =
     Inr (without_keys DOC_SWEEP_STAMP_KEYS (without_keys (strip_keys False) [''checkpoint_agent'' \<mapsto> JStr ''x'']))"
  by (simp_all add: create_metadata_def doc_grouping_from_metadata_def DOC_GROUPING_METADATA_FIELDS_def canon_envelope_is_client_authored_def)

theorem add_stores_witness:
  "\<exists>m. pl_get ''n'' (ms_pl (snd (add (sample_mgr True) 1 ''n'' (sample_create ''text'' Map.empty) ''p'' ''a'' generic_flags empty_mgr))) = Some m \<and>
     m_content m = ''text''"
proof -
  obtain m st' where "persisted (sample_mgr True) 1 False True None (sample_visible True 1 ''n'' ''text'' Map.empty
      (without_keys DOC_SWEEP_STAMP_KEYS (without_keys (strip_keys False) Map.empty))) empty_mgr = (m, st')" by fastforce
  note a = sample_add [OF create_metadata_sample(1) this]
  from add_stores [OF a] obtain r where "pl_get ''n'' (ms_pl st') = Some r" "m_content r = mc_content (sample_create ''text'' Map.empty)"
    by blast
  moreover have "mc_content (sample_create ''text'' Map.empty) = ''text''" by (simp add: sample_create_def)
  ultimately show ?thesis unfolding a by simp
qed

theorem add_forges_no_stamp_witness:
  "\<exists>m. pl_get ''n'' (ms_pl (snd (add (sample_mgr True) 1 ''n'' (sample_create ''text'' [''checkpoint_agent'' \<mapsto> JStr ''x'']) ''p'' ''a''
       generic_flags empty_mgr))) = Some m \<and> m_metadata m ''checkpoint_agent'' = None"
proof -
  obtain m st' where "persisted (sample_mgr True) 1 False True None (sample_visible True 1 ''n'' ''text'' [''checkpoint_agent'' \<mapsto> JStr ''x'']
      (without_keys DOC_SWEEP_STAMP_KEYS (without_keys (strip_keys False) [''checkpoint_agent'' \<mapsto> JStr ''x'']))) empty_mgr = (m, st')" by fastforce
  note a = sample_add [OF create_metadata_sample(2) this]
  have "\<not> af_checkpoint generic_flags" by (simp add: generic_flags_def)
  from add_forges_no_stamp [OF a this] show ?thesis by (auto simp: a)
qed

definition no_update :: memory_update where
  "no_update = \<lparr>mu_content = None, mu_title = None, mu_tags = None, mu_memory_type = None, mu_metadata = None, mu_status = None,
     mu_category = None, mu_quality_score = None, mu_confidence = None, mu_cluster_id = None\<rparr>"

definition one_row :: "memory \<Rightarrow> mgr_state" where
  "one_row m = put_rows (save False m []) empty_mgr"

lemma one_row_get: "pl_get (m_id m) (ms_pl (one_row m)) = Some (stored_record m None)"
  by (simp add: one_row_def put_rows_def pl_get_def get_save row_find_def)

lemma sample_update:
  assumes "pl_get i (ms_pl st) = Some m0"
    "(case mu_metadata d of None \<Rightarrow> Inr (m_metadata m0) | Some md \<Rightarrow> merged_metadata (m_metadata m0) md) = Inr md"
    "update_gated (sample_mgr f) (m_status m0) d (edited_memory (sample_mgr f) d md m0) = (m1, demoted)"
    "resettled (sample_mgr f) now demoted ((requeued (mu_content d \<noteq> None) demoted m1)\<lparr>m_updated_at := now\<rparr>) st = (m3, st')"
  shows "update_memory (sample_mgr f) now i d st = (Inr (Some m3), st')"
proof -
  have "canon_gate (sample_mgr f) False n = Inr n" for n by (simp add: canon_gate_def sample_mgr_def)
  with assms show ?thesis by (simp add: update_memory_def)
qed

theorem update_served_clean_witness:
  "\<exists>m' st'. update_memory (sample_mgr False) 2 ''n'' (no_update\<lparr>mu_title := Some ''text'', mu_status := Some PUBLISHED\<rparr>)
       (one_row (new_memory ''n'' ''text'' 0)) = (Inr (Some m'), st') \<and> m_status m' = PUBLISHED \<and>
     (\<exists>r. pl_get ''n'' (ms_pl st') = Some r \<and> m_status r = PUBLISHED \<and> dt_clean (detect (pe_scan sample_env) (effective_content r) (m_title m')))"
proof -
  let ?d = "no_update\<lparr>mu_title := Some ''text'', mu_status := Some PUBLISHED\<rparr>"
  let ?m = "stored_record (new_memory ''n'' ''text'' 0) None"
  let ?e = "edited_memory (sample_mgr False) ?d (m_metadata ?m) ?m"
  have get: "pl_get ''n'' (ms_pl (one_row (new_memory ''n'' ''text'' 0))) = Some ?m"
    using one_row_get [of "new_memory ''n'' ''text'' 0"] by (simp add: new_memory_def)
  have "effective_content ?m = ''text''"
    by (simp add: effective_content_def or_str_def stored_record_def saved_columns_def no_workflow_def new_memory_def Let_def)
  then have "publish_gate_verdict (sample_mgr False) ?e None"
    using detect_sample
    by (simp add: gate_verdict_clean admitted_text_def sample_mgr_def sample_env_def edited_memory_def no_update_def over_opt_def over_def
        effective_content_def)
  then have g: "update_gated (sample_mgr False) (m_status ?m) ?d ?e = (?e, False)"
    by (simp add: update_gated_def Let_def) (simp add: no_update_def)
  have s: "m_status ?e = PUBLISHED" by (simp add: edited_memory_def over_def)
  obtain m' st' where r: "resettled (sample_mgr False) 2 False ((requeued (mu_content ?d \<noteq> None) False ?e)\<lparr>m_updated_at := 2\<rparr>)
      (one_row (new_memory ''n'' ''text'' 0)) = (m', st')" by fastforce
  have p: "m_status m' = PUBLISHED" using resettled_row(2) [OF r] s by auto
  have md: "(case mu_metadata ?d of None \<Rightarrow> Inr (m_metadata ?m) | Some md \<Rightarrow> merged_metadata (m_metadata ?m) md) = Inr (m_metadata ?m)"
    by (simp add: no_update_def)
  note u = sample_update [OF get md g r]
  have "m_status ?m \<noteq> PUBLISHED" by (simp add: new_memory_def)
  then obtain r where "pl_get ''n'' (ms_pl st') = Some r" "m_status r = m_status m'"
    "dt_clean (detect (pe_scan (mg_pl (sample_mgr False))) (effective_content r) (m_title m'))"
    using update_served_clean [OF u get] p by blast
  then show ?thesis using u p by (auto simp: sample_mgr_def)
qed

theorem update_keeps_stamps_witness:
  "\<exists>r. pl_get ''n'' (ms_pl (snd (update_memory (sample_mgr False) 2 ''n'' (no_update\<lparr>mu_metadata := Some Map.empty\<rparr>)
       (one_row ((new_memory ''n'' ''text'' 0)\<lparr>m_metadata := [''checkpoint_agent'' \<mapsto> JStr ''x'']\<rparr>))))) = Some r \<and>
     m_metadata r ''checkpoint_agent'' = Some (JStr ''x'')"
proof -
  let ?d = "no_update\<lparr>mu_metadata := Some Map.empty\<rparr>"
  let ?n = "(new_memory ''n'' ''text'' 0)\<lparr>m_metadata := [''checkpoint_agent'' \<mapsto> JStr ''x'']\<rparr>"
  let ?m = "stored_record ?n None"
  have get: "pl_get ''n'' (ms_pl (one_row ?n)) = Some ?m"
    using one_row_get [of ?n] by (simp add: new_memory_def)
  obtain md where "merged_metadata (m_metadata ?m) Map.empty = Inr md"
    by (simp add: merged_metadata_def canon_envelope_is_client_authored_def doc_grouping_from_metadata_def DOC_GROUPING_METADATA_FIELDS_def Let_def map_add_def
        restrict_map_def without_keys_def INTERNAL_METADATA_KEYS_def CHECKPOINT_STAMP_KEYS_def DOC_SWEEP_STAMP_KEYS_def)
  then have md: "(case mu_metadata ?d of None \<Rightarrow> Inr (m_metadata ?m) | Some md \<Rightarrow> merged_metadata (m_metadata ?m) md) = Inr md"
    by simp
  obtain m1 dem where g: "update_gated (sample_mgr False) (m_status ?m) ?d (edited_memory (sample_mgr False) ?d md ?m) = (m1, dem)" by fastforce
  obtain m' st' where r: "resettled (sample_mgr False) 2 dem ((requeued (mu_content ?d \<noteq> None) dem m1)\<lparr>m_updated_at := 2\<rparr>) (one_row ?n) = (m', st')"
    by fastforce
  note u = sample_update [OF get md g r]
  from update_keeps_stamps [OF u get] show ?thesis by (auto simp: u)
qed

section \<open>Where the write path falls short\<close>

text \<open>
  The danger gate of a create judges the raw content; the automatic filter then strips terminal codes, and the projection
  that is served is not judged again.  A dangerous token split by such a code is published.
\<close>

definition split_token :: string where
  "split_token = [CHR ''<'', CHR 0x1B, CHR ''['', CHR ''0'', CHR ''m'', CHR ''/'', CHR ''s'', CHR ''>'']"

lemma split_token_gate: "dt_clean (detect (\<lambda>_. Inr []) split_token None)"
  unfolding dt_clean_def by code_simp

lemma split_token_filtered: "fr_clean_content (apply_filter (\<lambda>s. s) split_token None None ''1'') = ''</s>''"
  by code_simp

lemma whole_token_gate: "\<not> dt_clean (detect (\<lambda>_. Inr []) ''</s>'' None)"
  unfolding dt_clean_def by code_simp

lemma filtered_clean_content:
  assumes "pl_get i (ms_pl st) = Some m" "filter_source m = c" "c \<noteq> []"
  shows "\<exists>r. pl_get i (ms_pl (snd (apply_context_filter env now i profile budget st))) = Some r \<and> core r = core m \<and>
    m_clean_content r = Some (fr_clean_content (apply_filter (mg_float env) c profile budget (mg_filter_version env)))"
proof -
  let ?f = "apply_filter (mg_float env) c profile budget (mg_filter_version env)"
  let ?fs = "[F_clean_content (Some (fr_clean_content ?f)), F_filter_profile (Some (fr_profile ?f)),
      F_filter_stats (Some (stats_json (fr_stats ?f))), F_filter_version (Some (fr_version ?f))]"
  from assms(1) obtain r where r: "row_find row_id i (pl_rows (ms_pl st)) = Some r" "m = row_to_memory r"
    by (auto simp: pl_get_def get_def)
  have id: "m_id m = i" using assms(1) by (auto simp: pl_get_def dest: get_id)
  have eq: "snd (apply_context_filter env now i profile budget st) = st\<lparr>ms_pl := snd (pl_update i ?fs now (ms_pl st))\<rparr>"
    using assms by (simp add: apply_context_filter_def Let_def id)
  have "row_find row_id i (pl_rows (snd (pl_update i ?fs now (ms_pl st)))) =
      Some (r\<lparr>mem := (fold apply_field ?fs (mem r))\<lparr>m_updated_at := now\<rparr>\<rparr>)"
    by (rule pl_update_find [OF _ _ r(1)]) simp_all
  then have get: "pl_get i (ms_pl (snd (apply_context_filter env now i profile budget st))) =
      Some (row_to_memory (r\<lparr>mem := (fold apply_field ?fs (mem r))\<lparr>m_updated_at := now\<rparr>\<rparr>))"
    by (simp add: eq pl_get_def get_def)
  moreover from this have "core (row_to_memory (r\<lparr>mem := (fold apply_field ?fs (mem r))\<lparr>m_updated_at := now\<rparr>\<rparr>)) = core m"
    using filter_core [where k = i and env = env and now = now and i = i and profile = profile and budget = budget and st = st] assms(1)
    by simp
  ultimately show ?thesis by (auto simp: row_to_memory_def)
qed

lemma filter_evades_gate:
  "\<exists>m st'. add (sample_mgr True) 1 ''n'' (sample_create split_token Map.empty) ''p'' ''a'' generic_flags empty_mgr = (Inr m, st') \<and>
     m_status m = PUBLISHED \<and> \<not> dt_clean (env_detect sample_env (effective_content m) None)"
proof -
  let ?md = "without_keys DOC_SWEEP_STAMP_KEYS (without_keys (strip_keys False) Map.empty)"
  let ?v = "sample_visible True 1 ''n'' split_token Map.empty ?md"
  have ne: "split_token \<noteq> []" by (simp add: split_token_def)
  have v: "m_status ?v = PUBLISHED" "m_raw_content ?v = None" "m_content ?v = split_token" "m_id ?v = ''n''"
    using split_token_gate
    by (simp_all add: visible_memory_def gate_verdict_clean admitted_text_def sample_mgr_def sample_env_def built_memory_def sample_create_def
        new_memory_def effective_content_def or_str_def)
  obtain m1 st1 where vw: "vault_written (sample_mgr True) ?v empty_mgr = (m1, st1)" by fastforce
  have m1: "m1 = ?v\<lparr>m_file_path := Some (vault_path ''v'' ?v Map.empty)\<rparr>" "pl_rows (ms_pl st1) = []"
    using vw by (auto simp: vault_written_def sample_mgr_def memory_to_file_def Let_def empty_mgr_def)
  let ?st2 = "put_rows (save False m1 []) st1"
  have get: "pl_get ''n'' (ms_pl ?st2) = Some (stored_record m1 None)"
    by (simp add: pl_get_def put_rows_def get_save m1 v row_find_def)
  have on: "mg_auto_filter (sample_mgr True)" "m_content m1 \<noteq> []" "m_id m1 = ''n''"
    using ne by (simp_all add: sample_mgr_def m1(1) v(4)) (simp add: sample_create_def)
  have src: "filter_source (stored_record m1 None) = split_token"
    by (simp add: filter_source_def m1 v or_str_def) (simp add: sample_create_def)
  obtain r where r: "pl_get ''n'' (ms_pl (snd (apply_context_filter (sample_mgr True) 1 ''n'' None None ?st2))) = Some r"
    "core r = core (stored_record m1 None)" "m_clean_content r = Some ''</s>''"
    using filtered_clean_content [OF get src ne, where env = "sample_mgr True" and now = 1 and profile = None and budget = None]
    by (auto simp: sample_mgr_def split_token_filtered)
  have af: "auto_filtered (sample_mgr True) 1 None m1 ?st2 = (r, snd (apply_context_filter (sample_mgr True) 1 ''n'' None None ?st2))"
    using r(1) by (simp add: auto_filtered_def on)
  have st: "m_status r = PUBLISHED" using core_fields(5) [OF r(2)] by (simp add: m1 v)
  obtain m3 st3 where e: "embedded (sample_mgr True) 1 r (snd (apply_context_filter (sample_mgr True) 1 ''n'' None None ?st2)) = (m3, st3)"
    by fastforce
  have m3: "m_status m3 = PUBLISHED" "m_clean_content m3 = Some ''</s>''"
    using e st r(3) by (auto simp: embedded_def split: prod.splits if_splits)
  have "persisted (sample_mgr True) 1 False True None ?v empty_mgr = (m3, minted (sample_mgr True) 1 True m3 st3)"
    by (simp add: persisted_def vw m1(2)) (simp add: af e)
  from sample_add [OF create_metadata_sample(1) this] show ?thesis
    using m3 whole_token_gate
    by (intro exI [of _ m3] exI [of _ "minted (sample_mgr True) 1 True m3 st3"]) (simp add: effective_content_def or_str_def sample_env_def)
qed

text \<open>
  Two notes with the same title share one vault file: a new memory has no file of its own yet, so the guard against
  overwriting does not apply, and the second write replaces the first.
\<close>

lemma vault_path_shared:
  assumes "m_file_path a = None" "m_file_path b = None" "m_memory_type a = m_memory_type b" "auto_title a = auto_title b"
  shows "vault_path vroot b (snd (memory_to_file vroot a v)) = vault_path vroot a v"
    "snd (memory_to_file vroot b (snd (memory_to_file vroot a v))) (vault_path vroot a v) = Some (post_of b)"
  using assms by (simp_all add: memory_to_file_def vault_path_def memory_dir_def Let_def truthy_def)

text \<open>A row that has no retry counter yet takes one from the caller.\<close>

lemma retry_counter_forged:
  "\<exists>md. merged_metadata Map.empty [''pipeline_retry_count'' \<mapsto> JInt 0, ''pipeline_retry_at'' \<mapsto> JStr ''9999''] = Inr md \<and>
     md ''pipeline_retry_at'' = Some (JStr ''9999'')"
  by (simp add: merged_metadata_def canon_envelope_is_client_authored_def doc_grouping_from_metadata_def DOC_GROUPING_METADATA_FIELDS_def Let_def map_add_def
      restrict_map_def without_keys_def strip_keys_def INTERNAL_METADATA_KEYS_def CHECKPOINT_STAMP_KEYS_def DOC_SWEEP_STAMP_KEYS_def)

text \<open>An update of the tags alone drops the exclusion tag without a scan of the content that carries the secret.\<close>

lemma exclusion_tag_dropped:
  "mu_content d = None \<Longrightarrow> mu_tags d = Some tags \<Longrightarrow> m_tags (edited_memory env d md m) = tags"
  by (simp add: edited_memory_def over_def)

end
