(* ===== verification/Checkpoints.thy ===== *)
theory Checkpoints
  imports Manager_Safety Search_Scope
begin

text \<open>
  The checkpoint channel of \<open>MemoryManager\<close> (\<open>manager.py\<close>): \<open>save_checkpoint\<close> with its identity checks, session binding,
  deduplication and rendering, and the reading side \<open>recall_context\<close>, \<open>list_recent\<close>, \<open>agent_recall\<close>.

  The hash, the Russian placeholder lines and the dash of the heading (no code point below 256) are parameters, and so is
  the configured language.
\<close>

section \<open>The frozen vocabulary\<close>

definition CHECKPOINT_FIELDS :: "string list" where
  "CHECKPOINT_FIELDS = [''goals'', ''completed'', ''in_progress'', ''decisions'', ''context'']"

definition CHECKPOINT_SECTION_TITLES :: "(string \<times> string) list" where
  "CHECKPOINT_SECTION_TITLES =
     [(''goals'', ''Goals''), (''completed'', ''Completed''), (''in_progress'', ''In Progress''), (''decisions'', ''Decisions''),
      (''context'', ''Context'')]"

definition CHECKPOINT_PLACEHOLDERS_EN :: "(string \<times> string) list" where
  "CHECKPOINT_PLACEHOLDERS_EN =
     [(''goals'', ''(no goals recorded.)''), (''completed'', ''(nothing completed yet.)''),
      (''in_progress'', ''(nothing in progress at this point.)''), (''decisions'', ''(no decisions recorded.)''),
      (''context'', ''(no continuation context recorded.)'')]"

definition lookup_str :: "(string \<times> string) list \<Rightarrow> string \<Rightarrow> string" where
  "lookup_str kvs k = (case map_of kvs k of Some v \<Rightarrow> v | None \<Rightarrow> [])"

definition CANON_LANGUAGES :: "string list" where
  "CANON_LANGUAGES = [''ru'', ''en'']"

datatype checkpoint_error =
    BadIdentity
  | BadProject
  | BadTaskSlug
  | EmptyCheckpoint
  | SessionAgentMismatch string
  | BadCheckpointLanguage
  | AddFailed manager_error

definition checkpoint_canon_envelope :: "string \<Rightarrow> string option \<Rightarrow> checkpoint_error + json" where
  "checkpoint_canon_envelope language session_ref =
     (if language \<notin> set CANON_LANGUAGES then Inl BadCheckpointLanguage
      else Inr (JObj [(''schema_version'', JStr ''1''), (''type'', JStr ''checkpoint''), (''status'', JStr ''active''),
                      (''language'', JStr language),
                      (''session_ref'', case session_ref of None \<Rightarrow> JNull | Some s \<Rightarrow> JStr s)]))"

section \<open>Saving\<close>

record checkpoint_env =
  ce_mgr :: mgr_env
  ce_sha256 :: "string \<Rightarrow> string"
  ce_language :: string
  ce_placeholder_ru :: "string \<Rightarrow> string"
  ce_dash :: string

record checkpoint_call =
  cc_fields :: "string \<Rightarrow> string option"
  cc_project :: string
  cc_agent :: "string option"
  cc_session :: "string option"
  cc_task :: "string option"
  cc_memory_type :: memory_type
  cc_language :: "string option"

definition blank_value :: "string option \<Rightarrow> bool" where
  "blank_value v \<longleftrightarrow> (case v of None \<Rightarrow> False | Some s \<Rightarrow> strip s = [])"

definition CHECKPOINT_AGENT_RE :: "string \<Rightarrow> bool" where
  "CHECKPOINT_AGENT_RE = slug_re"

definition CHECKPOINT_SESSION_RE :: "string \<Rightarrow> bool" where
  "CHECKPOINT_SESSION_RE s \<longleftrightarrow>
     1 \<le> length s \<and> length s \<le> 128 \<and> list_all (\<lambda>c. let n = of_char c :: nat in 33 \<le> n \<and> n \<le> 126) s"

definition resolved_agent :: "checkpoint_call \<Rightarrow> string" where
  "resolved_agent c = (case cc_agent c of Some a \<Rightarrow> a | None \<Rightarrow> ''user'')"

text \<open>The checks in front of every side effect: the normalized project and the task tag.\<close>

definition checkpoint_scope :: "checkpoint_call \<Rightarrow> checkpoint_error + string \<times> string option" where
  "checkpoint_scope c =
     (if blank_value (cc_agent c) \<or> blank_value (cc_session c) then Inl BadIdentity
      else if \<not> CHECKPOINT_AGENT_RE (resolved_agent c) then Inl BadIdentity
      else if (case cc_session c of None \<Rightarrow> False | Some s \<Rightarrow> \<not> CHECKPOINT_SESSION_RE s) then Inl BadIdentity
      else (let project = normalize_project_slug (cc_project c)
            in if \<not> scope_re ''project:'' (''project:'' @ project) then Inl BadProject
               else (case cc_task c of
                       None \<Rightarrow> Inr (project, None)
                     | Some t \<Rightarrow> (case normalize_task_boundary t of Inl e \<Rightarrow> Inl BadTaskSlug | Inr tag \<Rightarrow> Inr (project, Some tag)))))"

definition checkpoint_values :: "checkpoint_call \<Rightarrow> string list" where
  "checkpoint_values c = map (\<lambda>f. or_str (cc_fields c f) '''') CHECKPOINT_FIELDS"

text \<open>\<open>json.dumps\<close> of a list of strings with \<open>ensure_ascii=False\<close> and compact separators.\<close>

definition raw_esc :: "char \<Rightarrow> string" where
  "raw_esc ch = (if 127 \<le> (of_char ch :: nat) then [ch] else esc ch)"

definition raw_quoted :: "string \<Rightarrow> string" where
  "raw_quoted s = quote_char # concat (map raw_esc s) @ [quote_char]"

definition canonical_payload :: "string \<Rightarrow> string \<Rightarrow> string list \<Rightarrow> string" where
  "canonical_payload project agent values = ''['' @ join '','' (map raw_quoted (project # agent # values)) @ '']''"

definition checkpoint_placeholder :: "checkpoint_env \<Rightarrow> string \<Rightarrow> string \<Rightarrow> string" where
  "checkpoint_placeholder env language field =
     (if language = ''en'' then lookup_str CHECKPOINT_PLACEHOLDERS_EN field else ce_placeholder_ru env field)"

definition checkpoint_section :: "checkpoint_env \<Rightarrow> string \<Rightarrow> checkpoint_call \<Rightarrow> string \<Rightarrow> string" where
  "checkpoint_section env language c field =
     ''## '' @ lookup_str CHECKPOINT_SECTION_TITLES field @ [CHR 0x0A] @
     or_str (cc_fields c field) (checkpoint_placeholder env language field) @ [CHR 0x0A]"

definition checkpoint_body :: "checkpoint_env \<Rightarrow> moment \<Rightarrow> string \<Rightarrow> checkpoint_call \<Rightarrow> string" where
  "checkpoint_body env now language c =
     join [CHR 0x0A] ((''# Session checkpoint '' @ ce_dash env @ '' '' @ isoformat now @ [CHR 0x0A]) #
       map (checkpoint_section env language c) CHECKPOINT_FIELDS)"

definition checkpoint_metadata :: "string \<Rightarrow> string option \<Rightarrow> string \<Rightarrow> json \<Rightarrow> metadata" where
  "checkpoint_metadata agent session key canon =
     (let md = [''checkpoint_agent'' \<mapsto> JStr agent, ''checkpoint_dedup_key'' \<mapsto> JStr key, ''canon'' \<mapsto> canon]
      in case session of None \<Rightarrow> md | Some s \<Rightarrow> md(''checkpoint_session'' \<mapsto> JStr s))"

definition checkpoint_tags :: "string \<Rightarrow> string \<Rightarrow> string option \<Rightarrow> string list" where
  "checkpoint_tags project agent task_tag =
     [''project:'' @ project, ''agent:'' @ agent, ''mnemos:checkpoint''] @ (case task_tag of None \<Rightarrow> [] | Some t \<Rightarrow> [t])"

definition checkpoint_create ::
  "checkpoint_env \<Rightarrow> moment \<Rightarrow> checkpoint_call \<Rightarrow> string \<Rightarrow> string option \<Rightarrow> string \<Rightarrow> string \<Rightarrow> json \<Rightarrow> memory_create" where
  "checkpoint_create env now c project task_tag key language canon =
     \<lparr>mc_content = checkpoint_body env now language c, mc_title = None,
      mc_tags = checkpoint_tags project (resolved_agent c) task_tag, mc_source = MCP, mc_source_url = None,
      mc_memory_type = cc_memory_type c,
      mc_metadata = checkpoint_metadata (resolved_agent c) (cc_session c) key canon,
      mc_category = None, mc_filter_profile = None, mc_status = None\<rparr>"

definition checkpoint_flags :: add_flags where
  "checkpoint_flags = \<lparr>af_rewrite = False, af_checkpoint = True, af_mint = False\<rparr>"

definition checkpoint_key :: "checkpoint_env \<Rightarrow> checkpoint_call \<Rightarrow> string \<Rightarrow> string" where
  "checkpoint_key env c project = ce_sha256 env (canonical_payload project (resolved_agent c) (checkpoint_values c))"

text \<open>The part after the session binding.\<close>

definition store_checkpoint ::
  "checkpoint_env \<Rightarrow> moment \<Rightarrow> string \<Rightarrow> checkpoint_call \<Rightarrow> string \<Rightarrow> string option \<Rightarrow> mgr_state \<Rightarrow>
   (checkpoint_error + memory \<times> bool) \<times> mgr_state" where
  "store_checkpoint env now fresh c project task_tag st =
     (let key = checkpoint_key env c project
      in (case find_checkpoint_by_dedup_key project (resolved_agent c) key (pl_rows (ms_pl st)) of
            Some m \<Rightarrow> (Inr (m, True), st)
          | None \<Rightarrow>
              (let language = (case cc_language c of Some l \<Rightarrow> l | None \<Rightarrow> ce_language env)
               in (case checkpoint_canon_envelope language (cc_session c) of
                     Inl e \<Rightarrow> (Inl e, st)
                   | Inr canon \<Rightarrow>
                       (case add (ce_mgr env) now fresh (checkpoint_create env now c project task_tag key language canon) project
                               (resolved_agent c) checkpoint_flags st of
                          (Inl e, st') \<Rightarrow> (Inl (AddFailed e), st')
                        | (Inr m, st') \<Rightarrow> (Inr (m, False), st'))))))"

definition save_checkpoint ::
  "checkpoint_env \<Rightarrow> moment \<Rightarrow> string \<Rightarrow> checkpoint_call \<Rightarrow> mgr_state \<Rightarrow> (checkpoint_error + memory \<times> bool) \<times> mgr_state" where
  "save_checkpoint env now fresh c st =
     (case checkpoint_scope c of
        Inl e \<Rightarrow> (Inl e, st)
      | Inr (project, task_tag) \<Rightarrow>
          if list_all (\<lambda>v. v = []) (checkpoint_values c) then (Inl EmptyCheckpoint, st)
          else (case cc_session c of
                  None \<Rightarrow> store_checkpoint env now fresh c project task_tag st
                | Some s \<Rightarrow>
                    (case bind_session_agent s (resolved_agent c) now (ms_metas st) of
                       (bound, metas) \<Rightarrow>
                         (if bound \<noteq> resolved_agent c then (Inl (SessionAgentMismatch bound), st\<lparr>ms_metas := metas\<rparr>)
                          else store_checkpoint env now fresh c project task_tag (st\<lparr>ms_metas := metas\<rparr>)))))"

section \<open>Reading\<close>

text \<open>\<open>xs[:n]\<close>; a negative bound counts from the end.\<close>

definition py_prefix :: "int \<Rightarrow> 'a list \<Rightarrow> 'a list" where
  "py_prefix n xs = take (if n < 0 then length xs - nat (- n) else nat n) xs"

definition list_recent ::
  "int \<Rightarrow> int \<Rightarrow> list_filter \<Rightarrow> string option \<Rightarrow> row list \<Rightarrow> checkpoint_error + memory list" where
  "list_recent limit offset f task rs =
     (let f1 = (if truthy (lf_project f) then f\<lparr>lf_project := Some (normalize_project_slug (the (lf_project f)))\<rparr> else f)
      in (case (case task of None \<Rightarrow> Inr (lf_tags f1) | Some t \<Rightarrow> map_sum id (\<lambda>tag. lf_tags f1 @ [tag]) (normalize_task_boundary t)) of
            Inl e \<Rightarrow> Inl BadTaskSlug
          | Inr tags \<Rightarrow> Inr (filter (\<lambda>m. \<not> is_quarantined m) (list_all_rows limit offset (f1\<lparr>lf_tags := tags\<rparr>) rs))))"

record agent_recall_query =
  aq_agent :: string
  aq_project :: "string option"
  aq_query :: "string option"
  aq_task :: "string option"
  aq_limit :: int

datatype agent_feed = Searched "search_result list" | Recency "memory list"

definition agent_recall :: "search_env \<Rightarrow> graph \<Rightarrow> agent_recall_query \<Rightarrow> checkpoint_error + agent_feed" where
  "agent_recall env g q =
     (let project = (if truthy (aq_project q) then Some (normalize_project_slug (the (aq_project q))) else aq_project q)
      in (case (case aq_task q of None \<Rightarrow> Inr None | Some t \<Rightarrow> map_sum id Some (normalize_task_boundary t)) of
            Inl e \<Rightarrow> Inl BadTaskSlug
          | Inr task_tag \<Rightarrow>
              if truthy (aq_query q) then
                (case search env g \<lparr>q_text = the (aq_query q), q_tags = None, q_project = project, q_agent = Some (aq_agent q),
                                    q_status = None, q_limit = aq_limit q, q_alpha = None, q_include_raw = True,
                                    q_refined_only = False\<rparr> (aq_task q) of
                   Inl e \<Rightarrow> Inl BadTaskSlug
                 | Inr rs \<Rightarrow> Inr (Searched rs))
              else
                Inr (Recency (filter (\<lambda>m. \<not> is_quarantined m)
                  (filter (\<lambda>m. case task_tag of None \<Rightarrow> True | Some t \<Rightarrow> t \<in> set (m_tags m))
                    (list_recent_for_agent (aq_agent q) project (aq_limit q) (g_rows g)))))))"

definition recall_context ::
  "search_env \<Rightarrow> graph \<Rightarrow> string \<Rightarrow> string option \<Rightarrow> string option \<Rightarrow> int \<Rightarrow> checkpoint_error + memory list" where
  "recall_context env g project0 query task limit =
     (let project = normalize_project_slug project0
      in if project \<noteq> [] \<and> \<not> scope_re ''project:'' (''project:'' @ project) then Inl BadProject
         else (case (case task of None \<Rightarrow> Inr [''mnemos:checkpoint'']
                     | Some t \<Rightarrow> map_sum id (\<lambda>tag. [''mnemos:checkpoint'', tag]) (normalize_task_boundary t)) of
                 Inl e \<Rightarrow> Inl BadTaskSlug
               | Inr tags \<Rightarrow>
                   if truthy query then
                     (case search env g \<lparr>q_text = the query, q_tags = Some tags, q_project = Some project, q_agent = None,
                                         q_status = None, q_limit = limit, q_alpha = None, q_include_raw = False,
                                         q_refined_only = False\<rparr> task of
                        Inl e \<Rightarrow> Inl BadTaskSlug
                      | Inr rs \<Rightarrow> Inr (map sr_memory rs))
                   else
                     Inr (py_prefix limit (order_desc m_created_at
                       (filter (\<lambda>m. m_status m \<noteq> ARCHIVED \<and> \<not> is_quarantined m)
                         (list_all_rows (limit * 3) 0
                           \<lparr>lf_source = None, lf_memory_type = None, lf_status = None, lf_project = Some project, lf_agent = None,
                            lf_tags = tags, lf_category = None, lf_since = None, lf_until = None\<rparr> (g_rows g)))))))"

section \<open>What an add leaves of the rest of the state\<close>

lemma filter_metas [simp]: "ms_metas (snd (apply_context_filter env now i profile budget st)) = ms_metas st"
  by (cases "pl_get i (ms_pl st)") (simp_all add: apply_context_filter_def Let_def)

lemma pl_update_ok: "table_ok (pl_rows pl) \<Longrightarrow> table_ok (pl_rows (snd (pl_update i fs now pl)))"
  using table_ok_update_fields [of "pl_rows pl" i fs now]
  by (cases "update_fields i fs now (pl_rows pl)") (simp add: pl_update_def)

lemma filter_ok:
  "table_ok (pl_rows (ms_pl st)) \<Longrightarrow> table_ok (pl_rows (ms_pl (snd (apply_context_filter env now i profile budget st))))"
  by (cases "pl_get i (ms_pl st)") (simp_all add: apply_context_filter_def Let_def pl_update_ok)

lemma upsert_ok: "table_ok (pl_rows pl) \<Longrightarrow> table_ok (pl_rows (snd (upsert_embedding env now m pl)))"
  by (simp add: upsert_embedding_def Let_def pl_update_ok)

lemma persisted_rest:
  assumes "persisted env now tr False profile m st = (m', st')"
  shows "ms_metas st' = ms_metas st" "table_ok (pl_rows (ms_pl st)) \<Longrightarrow> table_ok (pl_rows (ms_pl st'))"
proof -
  obtain m1 st1 where 1: "vault_written env m st = (m1, st1)" by fastforce
  have k1: "ms_metas st1 = ms_metas st" "ms_pl st1 = ms_pl st"
    using 1 by (auto simp: vault_written_def split: if_splits prod.splits)
  let ?sv = "put_rows (save tr m1 (pl_rows (ms_pl st1))) st1"
  obtain m2 st2 where 2: "auto_filtered env now profile m1 ?sv = (m2, st2)" by fastforce
  have sv: "ms_metas ?sv = ms_metas st" "table_ok (pl_rows (ms_pl st)) \<Longrightarrow> table_ok (pl_rows (ms_pl ?sv))"
    by (simp_all add: put_rows_def k1 table_ok_save)
  have "st2 = ?sv \<or> st2 = snd (apply_context_filter env now (m_id m1) profile None ?sv)"
    using 2 by (auto simp: auto_filtered_def Let_def split: if_splits)
  then have k2: "ms_metas st2 = ms_metas st" "table_ok (pl_rows (ms_pl st)) \<Longrightarrow> table_ok (pl_rows (ms_pl st2))"
    using sv filter_ok by auto
  obtain m3 st3 where 3: "embedded env now m2 st2 = (m3, st3)" by fastforce
  have k3: "ms_metas st3 = ms_metas st2" "table_ok (pl_rows (ms_pl st2)) \<Longrightarrow> table_ok (pl_rows (ms_pl st3))"
    using 3 upsert_ok [of "ms_pl st2" "mg_pl env" now m2] by (auto simp: embedded_def split: if_splits prod.splits)
  have "st' = st3" using assms by (simp add: persisted_def 1 2 3 minted_def)
  then show "ms_metas st' = ms_metas st" "table_ok (pl_rows (ms_pl st)) \<Longrightarrow> table_ok (pl_rows (ms_pl st'))"
    using k2 k3 by simp_all
qed

lemma add_rest:
  assumes "add env now fresh d project agent flags st = (r, st')" "\<not> af_mint flags"
  shows "ms_metas st' = ms_metas st" "table_ok (pl_rows (ms_pl st)) \<Longrightarrow> table_ok (pl_rows (ms_pl st'))"
proof -
  have "st' = st \<or> (\<exists>m m'. persisted env now (af_rewrite flags) False (mc_filter_profile d) m st = (m', st'))"
    using assms by (auto simp: add_def split: sum.splits prod.splits)
  then show "ms_metas st' = ms_metas st" "table_ok (pl_rows (ms_pl st)) \<Longrightarrow> table_ok (pl_rows (ms_pl st'))"
    using persisted_rest by blast+
qed

section \<open>Deduplication\<close>

definition is_checkpoint_of :: "string \<Rightarrow> string \<Rightarrow> string \<Rightarrow> memory \<Rightarrow> bool" where
  "is_checkpoint_of project agent key m \<longleftrightarrow>
     m_project m = project \<and> m_agent m = agent \<and> sql_eq_text (m_metadata m ''checkpoint_dedup_key'') key \<and>
     sql_eq_text (m_metadata m ''checkpoint_agent'') agent \<and> ''mnemos:checkpoint'' \<in> set (m_tags m)"

lemma is_checkpoint_row [simp]: "is_checkpoint_of p a k (row_to_memory r) = is_checkpoint_of p a k (mem r)"
  by (simp add: is_checkpoint_of_def row_to_memory_def)

lemma find_checkpoint_alt:
  "find_checkpoint_by_dedup_key p a k rs = first_row (order_desc (\<lambda>r. m_created_at (mem r)) (filter (\<lambda>r. is_checkpoint_of p a k (mem r)) rs))"
  by (simp add: find_checkpoint_by_dedup_key_def is_checkpoint_of_def)

lemma first_row_None: "first_row rs = None \<longleftrightarrow> rs = []"
  by (simp add: first_row_def split: list.split)

lemma order_desc_Nil: "order_desc key rs = [] \<longleftrightarrow> rs = []"
  by (simp add: order_desc_def) (metis length_0_conv length_sort)

lemma find_checkpoint_None:
  "find_checkpoint_by_dedup_key p a k rs = None \<longleftrightarrow> (\<forall>r \<in> set rs. \<not> is_checkpoint_of p a k (mem r))"
  by (simp add: find_checkpoint_alt first_row_None order_desc_Nil filter_empty_conv)

lemma find_checkpoint_new:
  assumes "distinct (map row_id rs')" "\<forall>k. k \<noteq> fresh \<longrightarrow> get k rs' = get k rs"
    "find_checkpoint_by_dedup_key p a key rs = None" "get fresh rs' = Some m" "is_checkpoint_of p a key m"
  shows "find_checkpoint_by_dedup_key p a key rs' = Some m"
proof -
  from assms(4) obtain r where r: "row_find row_id fresh rs' = Some r" "m = row_to_memory r" by (auto simp: get_def)
  have r': "r \<in> set rs'" "row_id r = fresh" "is_checkpoint_of p a key (mem r)"
    using row_find_SomeD [OF r(1)] assms(5) by (simp_all add: r(2))
  have only: "q = r" if "q \<in> set rs'" "is_checkpoint_of p a key (mem q)" for q
  proof -
    have q: "row_find row_id (row_id q) rs' = Some q" by (rule row_find_distinct [OF assms(1) that(1)])
    have "row_id q = fresh"
    proof (rule ccontr)
      assume n: "row_id q \<noteq> fresh"
      have "get (row_id q) rs' = Some (row_to_memory q)" using q by (simp add: get_def)
      then have "get (row_id q) rs = Some (row_to_memory q)" using assms(2) n by simp
      then obtain q0 where "row_find row_id (row_id q) rs = Some q0" "row_to_memory q0 = row_to_memory q" by (auto simp: get_def)
      then have "q0 \<in> set rs" "is_checkpoint_of p a key (mem q0)"
        using that(2) is_checkpoint_row [of p a key q0] is_checkpoint_row [of p a key q] by (auto dest: row_find_SomeD)
      then show False using assms(3) by (simp add: find_checkpoint_None)
    qed
    then show ?thesis using q r(1) by simp
  qed
  let ?f = "filter (\<lambda>q. is_checkpoint_of p a key (mem q)) rs'"
  have "set ?f \<subseteq> {r}" using only by auto
  moreover have "r \<in> set ?f" using r' by simp
  ultimately have s: "set ?f = {r}" by blast
  have "distinct ?f" using assms(1) by (simp add: distinct_map)
  then have f: "length ?f = 1" using distinct_card [of ?f] unfolding s by simp
  obtain q where "?f = [q]" using f by (cases ?f) simp_all
  then have "?f = [r]" using s by simp
  then show ?thesis by (simp add: find_checkpoint_alt order_desc_def first_row_def r(2))
qed

lemma add_checkpoint_row:
  assumes "add env now fresh (checkpoint_create cenv now c project tag key language canon) project (resolved_agent c) checkpoint_flags st = (Inr m, st')"
  obtains r where "pl_get fresh (ms_pl st') = Some r" "is_checkpoint_of project (resolved_agent c) key r"
    "m_content r = checkpoint_body cenv now language c" "m_metadata r ''canon'' = Some canon"
    "m_tags r = fst (scan_and_tag env (checkpoint_tags project (resolved_agent c) tag) (checkpoint_body cenv now language c))"
    "\<forall>k. k \<noteq> fresh \<longrightarrow> pl_get k (ms_pl st') = pl_get k (ms_pl st)"
proof -
  let ?d = "checkpoint_create cenv now c project tag key language canon"
  obtain md w p n where 1: "create_metadata (af_checkpoint checkpoint_flags) (mc_metadata ?d) = Inr md"
    "n = (visible_memory env (mc_status ?d \<noteq> None) (built_memory env now fresh ?d md project (resolved_agent c)))\<lparr>m_metadata := w\<rparr>"
    "\<forall>k. k \<noteq> ''canon_warnings'' \<and> k \<noteq> ''content_type'' \<longrightarrow> w k = md k"
    "map_option core (pl_get fresh (ms_pl st')) =
       Some (core (stored_record (n\<lparr>m_file_path := p\<rparr>) (row_find row_id fresh (pl_rows (ms_pl st)))))"
    "\<forall>k. k \<noteq> fresh \<longrightarrow> pl_get k (ms_pl st') = pl_get k (ms_pl st)"
    by (rule add_row [OF assms])
  from 1(4) obtain r where r: "pl_get fresh (ms_pl st') = Some r"
    "core r = core (stored_record (n\<lparr>m_file_path := p\<rparr>) (row_find row_id fresh (pl_rows (ms_pl st))))"
    by (cases "pl_get fresh (ms_pl st')") simp_all
  note f = core_fields [OF r(2)]
  have fields: "mc_content ?d = checkpoint_body cenv now language c" "mc_tags ?d = checkpoint_tags project (resolved_agent c) tag"
    "mc_metadata ?d = checkpoint_metadata (resolved_agent c) (cc_session c) key canon"
    by (simp_all add: checkpoint_create_def)
  have md: "md = without_keys DOC_SWEEP_STAMP_KEYS (checkpoint_metadata (resolved_agent c) (cc_session c) key canon)"
    using 1(1) by (auto simp: create_metadata_def checkpoint_flags_def fields split: sum.splits)
  have keys: "md ''checkpoint_agent'' = Some (JStr (resolved_agent c))" "md ''checkpoint_dedup_key'' = Some (JStr key)"
    "md ''canon'' = Some canon"
    by (simp_all add: md without_keys_def DOC_SWEEP_STAMP_KEYS_def checkpoint_metadata_def Let_def split: option.split)
  have w: "w ''checkpoint_agent'' = Some (JStr (resolved_agent c))" "w ''checkpoint_dedup_key'' = Some (JStr key)" "w ''canon'' = Some canon"
    using 1(3) keys by simp_all
  have meta: "m_metadata r = w" using f(6) by (simp add: 1(2))
  have tags: "m_tags r = fst (scan_and_tag env (checkpoint_tags project (resolved_agent c) tag) (checkpoint_body cenv now language c))"
    using f(4) by (simp add: 1(2) fields)
  have "''mnemos:checkpoint'' \<in> set (m_tags r)"
    using scan_and_tag_tags(1) [of "checkpoint_tags project (resolved_agent c) tag" env "checkpoint_body cenv now language c"]
    by (auto simp: tags checkpoint_tags_def)
  moreover have "m_project r = project" "m_agent r = resolved_agent c" "m_content r = checkpoint_body cenv now language c"
    using f(2,7,8) by (simp_all add: 1(2) fields)
  ultimately show thesis
    using r(1) meta w tags 1(5) by (intro that [of r]) (simp_all add: is_checkpoint_of_def sql_eq_text_def json_str_def)
qed

text \<open>What a save that stored something went through.\<close>

lemma saved_new:
  assumes "save_checkpoint env now fresh c st = (Inr (m, False), st')"
  obtains project tag st1 language canon where "checkpoint_scope c = Inr (project, tag)"
    "\<not> list_all (\<lambda>v. v = []) (checkpoint_values c)"
    "st1 = (case cc_session c of None \<Rightarrow> st | Some s \<Rightarrow> st\<lparr>ms_metas := snd (bind_session_agent s (resolved_agent c) now (ms_metas st))\<rparr>)"
    "\<forall>s. cc_session c = Some s \<longrightarrow> fst (bind_session_agent s (resolved_agent c) now (ms_metas st)) = resolved_agent c"
    "find_checkpoint_by_dedup_key project (resolved_agent c) (checkpoint_key env c project) (pl_rows (ms_pl st1)) = None"
    "checkpoint_canon_envelope language (cc_session c) = Inr canon"
    "add (ce_mgr env) now fresh (checkpoint_create env now c project tag (checkpoint_key env c project) language canon) project
       (resolved_agent c) checkpoint_flags st1 = (Inr m, st')"
proof -
  obtain project tag where sc: "checkpoint_scope c = Inr (project, tag)"
    using assms by (cases "checkpoint_scope c") (auto simp: save_checkpoint_def)
  have ne: "\<not> list_all (\<lambda>v. v = []) (checkpoint_values c)"
    using assms by (auto simp: save_checkpoint_def sc split: if_splits)
  let ?st1 = "case cc_session c of None \<Rightarrow> st | Some s \<Rightarrow> st\<lparr>ms_metas := snd (bind_session_agent s (resolved_agent c) now (ms_metas st))\<rparr>"
  have b: "\<forall>s. cc_session c = Some s \<longrightarrow> fst (bind_session_agent s (resolved_agent c) now (ms_metas st)) = resolved_agent c"
    using assms by (auto simp: save_checkpoint_def sc ne split: prod.splits if_splits)
  have store: "store_checkpoint env now fresh c project tag ?st1 = (Inr (m, False), st')"
    using assms b by (auto simp: save_checkpoint_def sc ne split: prod.splits if_splits option.splits)
  let ?key = "checkpoint_key env c project"
  have none: "find_checkpoint_by_dedup_key project (resolved_agent c) ?key (pl_rows (ms_pl ?st1)) = None"
  proof (cases "find_checkpoint_by_dedup_key project (resolved_agent c) ?key (pl_rows (ms_pl ?st1))")
    case (Some x)
    then show ?thesis using store unfolding store_checkpoint_def Let_def Some by simp
  qed
  let ?l = "case cc_language c of Some l \<Rightarrow> l | None \<Rightarrow> ce_language env"
  obtain canon where canon: "checkpoint_canon_envelope ?l (cc_session c) = Inr canon"
  proof (cases "checkpoint_canon_envelope ?l (cc_session c)")
    case (Inl e)
    then show ?thesis using store unfolding store_checkpoint_def Let_def none by simp
  qed
  obtain x y where a: "add (ce_mgr env) now fresh (checkpoint_create env now c project tag ?key ?l canon) project (resolved_agent c)
      checkpoint_flags ?st1 = (x, y)" by fastforce
  have "x = Inr m \<and> y = st'"
    using store unfolding store_checkpoint_def Let_def none option.case canon sum.case a prod.case by (cases x) simp_all
  then show thesis using a by (intro that [OF sc ne refl b none canon]) simp_all
qed

lemma bind_again:
  "fst (bind_session_agent s a now ms) = a \<Longrightarrow>
     bind_session_agent s a now' (snd (bind_session_agent s a now ms)) = (a, snd (bind_session_agent s a now ms))"
  by (auto simp: bind_session_agent_def get_meta_def Let_def row_find_append split: if_splits option.splits)

text \<open>
  C40.  Repeating a checkpoint stores nothing: after a save into a table with distinct ids that stored a new row, the same
  fields saved again at once for the same project, agent, session and task give back that row as a duplicate and leave the
  whole state as it is, whatever the language and the type of the repetition.
\<close>

theorem checkpoint_idempotent:
  assumes "save_checkpoint env now fresh c st = (Inr (m, False), st')" "table_ok (pl_rows (ms_pl st))"
  shows "\<exists>r. pl_get fresh (ms_pl st') = Some r \<and>
    save_checkpoint env now' fresh' (c\<lparr>cc_language := l, cc_memory_type := t\<rparr>) st' = (Inr (r, True), st')"
proof -
  obtain project tag st1 language canon where 1: "checkpoint_scope c = Inr (project, tag)"
    "\<not> list_all (\<lambda>v. v = []) (checkpoint_values c)"
    "st1 = (case cc_session c of None \<Rightarrow> st | Some s \<Rightarrow> st\<lparr>ms_metas := snd (bind_session_agent s (resolved_agent c) now (ms_metas st))\<rparr>)"
    "\<forall>s. cc_session c = Some s \<longrightarrow> fst (bind_session_agent s (resolved_agent c) now (ms_metas st)) = resolved_agent c"
    "find_checkpoint_by_dedup_key project (resolved_agent c) (checkpoint_key env c project) (pl_rows (ms_pl st1)) = None"
    "checkpoint_canon_envelope language (cc_session c) = Inr canon"
    "add (ce_mgr env) now fresh (checkpoint_create env now c project tag (checkpoint_key env c project) language canon) project
       (resolved_agent c) checkpoint_flags st1 = (Inr m, st')"
    by (rule saved_new [OF assms(1)])
  let ?c = "c\<lparr>cc_language := l, cc_memory_type := t\<rparr>"
  have c: "checkpoint_scope ?c = checkpoint_scope c" "checkpoint_values ?c = checkpoint_values c" "resolved_agent ?c = resolved_agent c"
    "cc_session ?c = cc_session c" "checkpoint_key env ?c project = checkpoint_key env c project"
    by (simp_all add: checkpoint_scope_def checkpoint_values_def resolved_agent_def checkpoint_key_def Let_def)
  obtain r where r: "pl_get fresh (ms_pl st') = Some r" "is_checkpoint_of project (resolved_agent c) (checkpoint_key env c project) r"
    "\<forall>k. k \<noteq> fresh \<longrightarrow> pl_get k (ms_pl st') = pl_get k (ms_pl st1)"
    using add_checkpoint_row [OF 1(7)] by metis
  have st1: "ms_pl st1 = ms_pl st" by (simp add: 1(3) split: option.split)
  have "\<not> af_mint checkpoint_flags" by (simp add: checkpoint_flags_def)
  note rest = add_rest [OF 1(7) this]
  have ok: "distinct (map row_id (pl_rows (ms_pl st')))" using rest(2) assms(2) by (simp add: st1 table_ok_def)
  have hit: "find_checkpoint_by_dedup_key project (resolved_agent c) (checkpoint_key env c project) (pl_rows (ms_pl st')) = Some r"
    by (rule find_checkpoint_new [OF ok _ 1(5) _ r(2)]) (use r(1,3) in \<open>simp_all add: pl_get_def\<close>)
  have store: "store_checkpoint env now' fresh' ?c project tag st' = (Inr (r, True), st')"
    unfolding store_checkpoint_def Let_def c hit by simp
  have "save_checkpoint env now' fresh' ?c st' = (Inr (r, True), st')"
  proof (cases "cc_session c")
    case None
    then show ?thesis unfolding save_checkpoint_def c 1(1) using 1(2) store by simp
  next
    case (Some s)
    have "bind_session_agent s (resolved_agent c) now' (ms_metas st') = (resolved_agent c, ms_metas st')"
      using bind_again [OF 1(4) [rule_format, OF Some], of now'] rest(1) by (simp add: 1(3) Some)
    then show ?thesis unfolding save_checkpoint_def c 1(1) using 1(2) store Some by simp
  qed
  then show ?thesis using r(1) by blast
qed

section \<open>Sessions\<close>

lemma store_keeps_metas: "ms_metas (snd (store_checkpoint env now fresh c project tag st)) = ms_metas st"
proof -
  have n: "\<not> af_mint checkpoint_flags" by (simp add: checkpoint_flags_def)
  show ?thesis
    by (auto simp: store_checkpoint_def Let_def dest: add_rest(1) [OF _ n] split: option.splits sum.splits prod.splits)
qed

lemma save_keeps_binding:
  assumes "binding_of (ms_metas st) s = Some a"
  shows "binding_of (ms_metas (snd (save_checkpoint env now fresh c st))) s = Some a"
proof -
  have "binding_of (snd (bind_session_agent s' a' now (ms_metas st))) s = Some a" for s' a'
    using assms by (simp add: bind_session_agent_binding)
  then show ?thesis
    using assms by (auto simp: save_checkpoint_def store_keeps_metas split: sum.splits option.splits prod.splits) (metis snd_conv)+
qed

primrec save_all :: "(checkpoint_env \<times> moment \<times> string \<times> checkpoint_call) list \<Rightarrow> mgr_state \<Rightarrow> mgr_state" where
  "save_all [] st = st"
| "save_all (x # xs) st = (case x of (env, now, fresh, c) \<Rightarrow> save_all xs (snd (save_checkpoint env now fresh c st)))"

lemma save_all_keeps_binding: "binding_of (ms_metas st) s = Some a \<Longrightarrow> binding_of (ms_metas (save_all xs st)) s = Some a"
  by (induction xs arbitrary: st) (auto simp: save_keeps_binding split: prod.split)

text \<open>
  A session belongs to the agent that first saved under it: after a successful save with a session, whatever saves
  follow, a call that names the session and another agent is refused and changes nothing.
\<close>

theorem session_belongs_to_agent:
  assumes "save_checkpoint env now fresh c st = (Inr res, st')" "cc_session c = Some s"
    and "cc_session c' = Some s" "resolved_agent c' \<noteq> resolved_agent c"
  shows "\<exists>e. save_checkpoint env' now' fresh' c' (save_all calls st') = (Inl e, save_all calls st')"
proof -
  obtain project tag where sc: "checkpoint_scope c = Inr (project, tag)"
    using assms(1) by (cases "checkpoint_scope c") (auto simp: save_checkpoint_def)
  obtain b ms where b: "bind_session_agent s (resolved_agent c) now (ms_metas st) = (b, ms)" by fastforce
  have eq: "b = resolved_agent c" and store: "store_checkpoint env now fresh c project tag (st\<lparr>ms_metas := ms\<rparr>) = (Inr res, st')"
    using assms(1,2) by (auto simp: save_checkpoint_def sc b split: if_splits)
  have "binding_of ms s = Some (resolved_agent c)"
    using bind_session_agent_binding [of s "resolved_agent c" now "ms_metas st" s]
      bind_session_agent_result [of s "resolved_agent c" now "ms_metas st"] by (simp add: b eq split: option.splits)
  moreover have "ms_metas st' = ms" using store_keeps_metas [of env now fresh c project tag "st\<lparr>ms_metas := ms\<rparr>"] by (simp add: store)
  ultimately have bound: "binding_of (ms_metas (save_all calls st')) s = Some (resolved_agent c)"
    by (simp add: save_all_keeps_binding)
  let ?st = "save_all calls st'"
  have "bind_session_agent s (resolved_agent c') now' (ms_metas ?st) = (resolved_agent c, ms_metas ?st)"
    using bound by (auto simp: binding_of_def bind_session_agent_def get_meta_def Let_def)
  then show ?thesis
    using assms(3,4) by (auto simp: save_checkpoint_def split: sum.split prod.split)
qed

section \<open>Rendering\<close>

lemma split_on_sep: "split_on c (p @ c # s) = split_on c p @ split_on c s"
proof (induction p)
  case (Cons x p)
  obtain y ys where "split_on c p = y # ys" by (cases "split_on c p") simp_all
  with Cons show ?case by simp
qed simp

lemma line_between: "c \<notin> set h \<Longrightarrow> h \<in> set (split_on c (p @ c # h @ c # s))"
  by (simp add: split_on_sep split_on_no_sep)

lemma join_piece:
  "x \<in> set xs \<Longrightarrow> x = h @ c # t \<Longrightarrow> \<exists>p s. join [c] (y # xs) = p @ c # h @ c # s"
proof (induction xs arbitrary: y)
  case (Cons z zs)
  show ?case
  proof (cases "x = z")
    case True
    obtain u where "join [c] (z # zs) = z @ u" by (cases zs) simp_all
    then have "join [c] (y # z # zs) = y @ c # h @ c # (t @ u)" using Cons.prems(2) by (simp add: True [symmetric])
    then show ?thesis by blast
  next
    case False
    then have "x \<in> set zs" using Cons.prems(1) by simp
    from Cons.IH [OF this Cons.prems(2), of z] obtain p s where "join [c] (z # zs) = p @ c # h @ c # s" by blast
    then have "join [c] (y # z # zs) = (y @ c # p) @ c # h @ c # s" by simp
    then show ?thesis by blast
  qed
qed simp

lemma body_has_section:
  assumes "f \<in> set CHECKPOINT_FIELDS"
  shows "has_section (checkpoint_body env now language c) (lookup_str CHECKPOINT_SECTION_TITLES f)"
proof -
  let ?h = "''## '' @ lookup_str CHECKPOINT_SECTION_TITLES f"
  have nl: "CHR 0x0A \<notin> set ?h"
    using assms by (auto simp: CHECKPOINT_FIELDS_def lookup_str_def CHECKPOINT_SECTION_TITLES_def)
  have s: "checkpoint_section env language c f = ?h @ CHR 0x0A #
      (or_str (cc_fields c f) (checkpoint_placeholder env language f) @ [CHR 0x0A])"
    by (simp add: checkpoint_section_def)
  have "checkpoint_section env language c f \<in> set (map (checkpoint_section env language c) CHECKPOINT_FIELDS)" using assms by simp
  from join_piece [OF this s] obtain p t where "checkpoint_body env now language c = p @ CHR 0x0A # ?h @ CHR 0x0A # t"
    unfolding checkpoint_body_def by blast
  then have "?h \<in> set (split_on (CHR 0x0A) (checkpoint_body env now language c))" using line_between [OF nl] by simp
  then show ?thesis unfolding has_section_def list_ex_iff by blast
qed

lemma titles_required: "CANON_REQUIRED_SECTIONS ''checkpoint'' = map (lookup_str CHECKPOINT_SECTION_TITLES) CHECKPOINT_FIELDS"
  by (simp add: CANON_REQUIRED_SECTIONS_def CHECKPOINT_FIELDS_def lookup_str_def CHECKPOINT_SECTION_TITLES_def)

lemma body_sections: "section_violations (checkpoint_body env now language c) ''checkpoint'' = []"
  using body_has_section by (auto simp: section_violations_def titles_required filter_empty_conv)

lemma envelope_pairs_clean:
  fixes language :: string and ref :: json
  assumes "language \<in> {''ru'', ''en''}" "str_or_null ref"
  defines "kvs \<equiv> [(''schema_version'', JStr ''1''), (''type'', JStr ''checkpoint''), (''status'', JStr ''active''),
      (''language'', JStr language), (''session_ref'', ref)]"
  shows "known_type kvs = Some ''checkpoint''" "envelope_violations kvs = Some []"
proof -
  show t: "known_type kvs = Some ''checkpoint''" by (simp add: kvs_def known_type_def json_str_def ENVELOPE_TYPES_def)
  have keys: "map_of kvs ''schema_version'' = Some (JStr ''1'')" "map_of kvs ''status'' = Some (JStr ''active'')"
    "map_of kvs ''language'' = Some (JStr language)" "map_of kvs ''session_ref'' = Some ref" "map_of kvs ''type'' = Some (JStr ''checkpoint'')"
    "map fst kvs = [''schema_version'', ''type'', ''status'', ''language'', ''session_ref'']"
    by (simp_all add: kvs_def)
  have extras: "filter (\<lambda>k. map_of kvs k = None) (ENVELOPE_REQUIRED_EXTRAS ''checkpoint'') = []"
  proof -
    have "ENVELOPE_REQUIRED_EXTRAS ''checkpoint'' = [''session_ref'']" by (simp add: ENVELOPE_REQUIRED_EXTRAS_def)
    then show ?thesis by (simp add: keys)
  qed
  have unknown: "filter (\<lambda>k. k \<notin> set (ENVELOPE_ALLOWED_KEYS ''checkpoint'')) (map fst kvs) = []"
    unfolding keys(6) by (simp add: ENVELOPE_ALLOWED_KEYS_def ENVELOPE_REQUIRED_EXTRAS_def)
  have more: "extra_checks ''checkpoint'' kvs = Some []" using assms(2) by (simp add: extra_checks_def on_field_def keys)
  have strs: "str_in (Some (JStr ''1'')) [''1'']" "str_in (Some (JStr ''active'')) ENVELOPE_STATUSES"
    "\<not> str_in (Some (JStr ''active'')) [''resolved'']" "str_in (Some (JStr language)) [''ru'', ''en'']"
    using assms(1) by (auto simp: str_in_def json_str_def ENVELOPE_STATUSES_def)
  show "envelope_violations kvs = Some []"
    unfolding envelope_violations_def Let_def t keys(1-3) option.case extras unknown more using strs by simp
qed

lemma envelope_clean:
  assumes "checkpoint_canon_envelope language session = Inr canon"
  shows "\<exists>kvs. canon = JObj kvs \<and> envelope_violations kvs = Some [] \<and> known_type kvs = Some ''checkpoint''"
proof -
  have l: "language \<in> {''ru'', ''en''}" and c: "canon = JObj [(''schema_version'', JStr ''1''), (''type'', JStr ''checkpoint''),
      (''status'', JStr ''active''), (''language'', JStr language), (''session_ref'', case session of None \<Rightarrow> JNull | Some s \<Rightarrow> JStr s)]"
    using assms by (auto simp: checkpoint_canon_envelope_def CANON_LANGUAGES_def split: if_splits)
  have "str_or_null (case session of None \<Rightarrow> JNull | Some s \<Rightarrow> JStr s)"
    by (simp add: str_or_null_def json_str_def split: option.split)
  from envelope_pairs_clean [OF l this] show ?thesis unfolding c by blast
qed

text \<open>
  A stored checkpoint is a canon record: it carries an envelope of type checkpoint that the canon accepts, and its
  body has all five required sections, whatever the fields contain and whichever are empty.
\<close>

theorem checkpoint_is_canonical:
  assumes "save_checkpoint env now fresh c st = (Inr (m, False), st')"
  shows "\<exists>r kvs. pl_get fresh (ms_pl st') = Some r \<and> m_metadata r ''canon'' = Some (JObj kvs) \<and>
    known_type kvs = Some ''checkpoint'' \<and> envelope_violations kvs = Some [] \<and> section_violations (m_content r) ''checkpoint'' = []"
proof -
  obtain project tag st1 language canon where 1:
    "checkpoint_canon_envelope language (cc_session c) = Inr canon"
    "add (ce_mgr env) now fresh (checkpoint_create env now c project tag (checkpoint_key env c project) language canon) project
       (resolved_agent c) checkpoint_flags st1 = (Inr m, st')"
    by (rule saved_new [OF assms])
  obtain r where "pl_get fresh (ms_pl st') = Some r" "m_content r = checkpoint_body env now language c" "m_metadata r ''canon'' = Some canon"
    using add_checkpoint_row [OF 1(2)] by metis
  with envelope_clean [OF 1(1)] body_sections show ?thesis by auto
qed

section \<open>Witnesses\<close>

definition sample_cenv :: checkpoint_env where
  "sample_cenv = \<lparr>ce_mgr = sample_mgr False, ce_sha256 = (\<lambda>s. s), ce_language = ''en'', ce_placeholder_ru = (\<lambda>f. f), ce_dash = ''-''\<rparr>"

definition sample_call :: "string \<Rightarrow> checkpoint_call" where
  "sample_call agent =
     \<lparr>cc_fields = [''goals'' \<mapsto> ''ship''], cc_project = ''p'', cc_agent = Some agent, cc_session = Some ''s'', cc_task = None,
      cc_memory_type = NOTE, cc_language = None\<rparr>"

lemma add_succeeds:
  assumes "create_metadata (af_checkpoint flags) (mc_metadata d) = Inr md" "\<And>n. canon_gate env True n = Inr n"
  shows "\<exists>m st'. add env now fresh d project agent flags st = (Inr m, st')"
  using assms by (simp add: add_def split: prod.split)

lemma sample_save:
  obtains m st' where "save_checkpoint sample_cenv 5 ''n'' (sample_call ''a'') empty_mgr = (Inr (m, False), st')"
proof -
  have sc: "checkpoint_scope (sample_call ''a'') = Inr (''p'', None)"
    by code_simp
  have ne: "\<not> list_all (\<lambda>v. v = []) (checkpoint_values (sample_call ''a''))"
    by (simp add: checkpoint_values_def sample_call_def CHECKPOINT_FIELDS_def or_str_def)
  let ?st = "empty_mgr\<lparr>ms_metas := [\<lparr>mr_key = SESSION_AGENT_META_PREFIX @ ''s'', mr_value = ''a'', mr_updated_at = 5\<rparr>]\<rparr>"
  have b: "bind_session_agent ''s'' ''a'' 5 (ms_metas empty_mgr) = (''a'', ms_metas ?st)"
    by (simp add: bind_session_agent_def empty_mgr_def get_meta_def Let_def)
  obtain canon where canon: "checkpoint_canon_envelope ''en'' (Some ''s'') = Inr canon"
    by (simp add: checkpoint_canon_envelope_def CANON_LANGUAGES_def)
  let ?d = "checkpoint_create sample_cenv 5 (sample_call ''a'') ''p'' None (checkpoint_key sample_cenv (sample_call ''a'') ''p'') ''en'' canon"
  have "create_metadata (af_checkpoint checkpoint_flags) (mc_metadata ?d) = Inr (without_keys DOC_SWEEP_STAMP_KEYS (mc_metadata ?d))"
    by (simp add: checkpoint_flags_def create_metadata_def doc_grouping_from_metadata_def DOC_GROUPING_METADATA_FIELDS_def checkpoint_create_def
        checkpoint_metadata_def sample_call_def)
  moreover have "canon_gate (sample_mgr False) True n = Inr n" for n by (simp add: canon_gate_def sample_mgr_def)
  ultimately have "\<exists>m st'. add (sample_mgr False) 5 ''n'' ?d ''p'' ''a'' checkpoint_flags ?st = (Inr m, st')"
    by (rule add_succeeds)
  then obtain m st' where "add (sample_mgr False) 5 ''n'' ?d ''p'' ''a'' checkpoint_flags ?st = (Inr m, st')" by blast
  moreover have fields: "cc_session (sample_call ''a'') = Some ''s''" "resolved_agent (sample_call ''a'') = ''a''" "cc_language (sample_call ''a'') = None"
    "ce_mgr sample_cenv = sample_mgr False" "ce_language sample_cenv = ''en''"
    by (simp_all add: sample_call_def resolved_agent_def sample_cenv_def)
  moreover have "find_checkpoint_by_dedup_key p a k (pl_rows (ms_pl ?st)) = None" for p a k
    by (simp add: find_checkpoint_None empty_mgr_def)
  ultimately show thesis
    by (intro that) (simp add: save_checkpoint_def sc ne b store_checkpoint_def Let_def canon)
qed

theorem checkpoint_idempotent_witness:
  "\<exists>m st' r. save_checkpoint sample_cenv 5 ''n'' (sample_call ''a'') empty_mgr = (Inr (m, False), st') \<and>
     save_checkpoint sample_cenv 6 ''k'' ((sample_call ''a'')\<lparr>cc_language := Some ''ru'', cc_memory_type := FACT\<rparr>) st' = (Inr (r, True), st')"
proof -
  obtain m st' where s: "save_checkpoint sample_cenv 5 ''n'' (sample_call ''a'') empty_mgr = (Inr (m, False), st')" by (rule sample_save)
  have "table_ok (pl_rows (ms_pl empty_mgr))" by (simp add: empty_mgr_def table_ok_def)
  from checkpoint_idempotent [OF s this] s show ?thesis by blast
qed

theorem session_belongs_to_agent_witness:
  "\<exists>m st' e. save_checkpoint sample_cenv 5 ''n'' (sample_call ''a'') empty_mgr = (Inr (m, False), st') \<and>
     save_checkpoint sample_cenv 6 ''k'' (sample_call ''b'') st' = (Inl e, st')"
proof -
  obtain m st' where s: "save_checkpoint sample_cenv 5 ''n'' (sample_call ''a'') empty_mgr = (Inr (m, False), st')" by (rule sample_save)
  have "cc_session (sample_call ''a'') = Some ''s''" "cc_session (sample_call ''b'') = Some ''s''"
    "resolved_agent (sample_call ''b'') \<noteq> resolved_agent (sample_call ''a'')" by (simp_all add: sample_call_def resolved_agent_def)
  from session_belongs_to_agent [OF s this, where calls = "[]" and env' = sample_cenv and now' = 6 and fresh' = "''k''"] s
  show ?thesis by auto
qed

theorem checkpoint_is_canonical_witness:
  "\<exists>m st' r. save_checkpoint sample_cenv 5 ''n'' (sample_call ''a'') empty_mgr = (Inr (m, False), st') \<and>
     pl_get ''n'' (ms_pl st') = Some r \<and> section_violations (m_content r) ''checkpoint'' = []"
proof -
  obtain m st' where s: "save_checkpoint sample_cenv 5 ''n'' (sample_call ''a'') empty_mgr = (Inr (m, False), st')" by (rule sample_save)
  from checkpoint_is_canonical [OF s] s show ?thesis by blast
qed

section \<open>Where the checkpoint channel falls short\<close>

text \<open>
  A call that is refused for its language has already bound its session, although every check is meant to precede the
  first side effect.
\<close>

lemma refused_call_binds_session:
  "fst (save_checkpoint sample_cenv 5 ''n'' ((sample_call ''a'')\<lparr>cc_language := Some ''de''\<rparr>) empty_mgr) = Inl BadCheckpointLanguage \<and>
   binding_of (ms_metas (snd (save_checkpoint sample_cenv 5 ''n'' ((sample_call ''a'')\<lparr>cc_language := Some ''de''\<rparr>) empty_mgr))) ''s'' = Some ''a''"
proof -
  let ?c = "(sample_call ''a'')\<lparr>cc_language := Some ''de''\<rparr>"
  have sc: "checkpoint_scope ?c = Inr (''p'', None)" by code_simp
  have ne: "\<not> list_all (\<lambda>v. v = []) (checkpoint_values ?c)"
    by (simp add: checkpoint_values_def sample_call_def CHECKPOINT_FIELDS_def or_str_def)
  let ?st = "empty_mgr\<lparr>ms_metas := [\<lparr>mr_key = SESSION_AGENT_META_PREFIX @ ''s'', mr_value = ''a'', mr_updated_at = 5\<rparr>]\<rparr>"
  have b: "bind_session_agent ''s'' ''a'' 5 (ms_metas empty_mgr) = (''a'', ms_metas ?st)"
    by (simp add: bind_session_agent_def empty_mgr_def get_meta_def Let_def)
  have fields: "cc_session ?c = Some ''s''" "resolved_agent ?c = ''a''" "cc_language ?c = Some ''de''"
    by (simp_all add: sample_call_def resolved_agent_def)
  have none: "find_checkpoint_by_dedup_key p a k (pl_rows (ms_pl ?st)) = None" for p a k
    by (simp add: find_checkpoint_None empty_mgr_def)
  have e: "checkpoint_canon_envelope ''de'' x = Inl BadCheckpointLanguage" for x
    by (simp add: checkpoint_canon_envelope_def CANON_LANGUAGES_def)
  have "save_checkpoint sample_cenv 5 ''n'' ?c empty_mgr = (Inl BadCheckpointLanguage, ?st)"
    using none by (simp add: save_checkpoint_def sc ne b store_checkpoint_def Let_def fields e)
  then show ?thesis by (simp add: binding_of_def get_meta_def)
qed

text \<open>
  A repetition of a checkpoint that was archived or quarantined since is answered as a duplicate and stores nothing,
  while recall withholds the row: the checkpoint is acknowledged and lost.
\<close>

lemma duplicate_of_hidden_row:
  assumes "find_checkpoint_by_dedup_key project (resolved_agent c) (checkpoint_key env c project) (pl_rows (ms_pl st)) = Some m"
    "m_status m = ARCHIVED"
  shows "store_checkpoint env now fresh c project tag st = (Inr (m, True), st)"
    "recall_context senv g p None None limit = Inr ms \<Longrightarrow> m \<notin> set ms"
proof -
  show "store_checkpoint env now fresh c project tag st = (Inr (m, True), st)"
    unfolding store_checkpoint_def Let_def assms(1) by simp
  assume r: "recall_context senv g p None None limit = Inr ms"
  have "set (py_prefix limit xs) \<subseteq> set xs" for xs :: "memory list" by (simp add: py_prefix_def set_take_subset)
  then show "m \<notin> set ms" using r assms(2)
    by (fastforce simp: recall_context_def Let_def truthy_def order_desc_def split: if_splits)
qed

end
