(* ===== verification/Spec2Isabelle.thy ===== *)
theory Spec2Isabelle
  imports Token_Registry Tag_Contract Workflow Refinement Federation_Index Federation_Pull Assembly_Safety Auth_Safety Manager_Safety Checkpoints
begin

text \<open>
  A verification development for Vesmaro, a memory service for coding agents (\<open>src/src/vesmaro\<close>).

  \<^bold>\<open>The program.\<close>  Agents store memories through one object, \<open>MemoryManager\<close> (\<open>manager.py\<close>), which keeps them in SQLite
  (\<open>storage/sqlite_store.py\<close>), in a vector index and as markdown files (\<open>storage/vault.py\<close>).  A write is scanned for
  secrets and dangers, gated, filtered, embedded and linked; a background pipeline refines what was written
  (\<open>pipeline/\<close>); a read goes through search (\<open>manager.search\<close>), the context assembly (\<open>assemble.py\<close>) and the cache of
  compressed texts (\<open>ccr.py\<close>).  Servers exchange metadata and, on request, moderated content (\<open>meta_poller.py\<close>,
  \<open>federation_*.py\<close>, \<open>moderation.py\<close>).  Callers are authenticated by the REST login (\<open>api/auth*.py\<close>) or by signed agent
  tokens (\<open>agent_tokens.py\<close>).

  \<^bold>\<open>The theories, and the code that each one models.\<close>

  \<^item> \<open>Prelude\<close>: Python strings, identified rows (a table is a list of rows with a key), key-value maps, the JSON values
    and the time stamps of the code, and the locales \<open>kv_store\<close> and \<open>lifecycle\<close>, which the tables and the machines of the later theories interpret.
    \<open>Text_Ops\<close>: string methods.  \<open>Floats\<close>: binary64 values as rationals rounded by \<open>fl\<close>.
  \<^item> \<open>Regex\<close>: the part of Python's \<open>re\<close> that the code uses, as a backtracking matcher with the order of alternatives;
    \<open>Regex_Match\<close>: which characters a match consumes, when a pattern cannot match, what an anchored scan skips.
  \<^item> \<open>Memory_Model\<close>, \<open>Tag_Contract\<close>: \<open>models.py\<close>, the record, its enumerations and the contract of the tags.
  \<^item> \<open>Memory_Store\<close>: the \<open>memories\<close> and \<open>meta\<close> tables of \<open>sqlite_store.py\<close>, with the compare-and-set of the refine queue.
    \<open>Workflow\<close>: \<open>workflow.py\<close> and the guarded transition with locks, rate limit and audit log.
  \<^item> \<open>Refinement\<close>: \<open>danger_detectors.py\<close> and \<open>pipeline/\<close>: detectors, quality gate, publication gate, the refine worker
    with its retry and quarantine lanes, and the embedding heal sweep.
  \<^item> \<open>Memory_Graph\<close>: \<open>graph_minting.py\<close>, the edge and feedback tables.  \<open>Search\<close>, \<open>Search_Scope\<close>: the FTS5 query builder, the
    two legs, their fusion, the graph leg, and the task and project scope of \<open>search\<close>.
  \<^item> \<open>Context_Filter\<close>: \<open>filter/pipeline.py\<close>.  \<open>Ccr_Marker\<close>, \<open>Ccr_Cache\<close>: \<open>ccr.py\<close>, the cache table and the retrieval, and
    \<open>cache_aligner.py\<close>.  \<open>Lanes_Lens\<close>: \<open>lanes.py\<close>, \<open>lens.py\<close>.  \<open>Assembly\<close>, \<open>Assembly_Safety\<close>: \<open>assemble.py\<close>, which calls
    search, the filter, the cache, the aligner, the lanes and the secrets scanner.
  \<^item> \<open>Canon\<close>: \<open>canon_validate.py\<close>.  \<open>Memory_Manager\<close>, \<open>Manager_Safety\<close>: \<open>add\<close>, \<open>get\<close>, \<open>update\<close>, \<open>delete\<close> and the context
    filter of \<open>manager.py\<close>, and \<open>storage/vault.py\<close>, composed of store, gates, canon, filter, embedding and minting.
    \<open>Checkpoints\<close>: \<open>save_checkpoint\<close> with session binding, deduplication and rendering, \<open>recall_context\<close>, \<open>list_recent\<close>
    and \<open>agent_recall\<close>.
  \<^item> \<open>Moderation\<close>: \<open>secrets_detector.py\<close>, \<open>moderation.py\<close>.  \<open>Compact\<close>: \<open>compact.py\<close>.  \<open>Federation_Index\<close>: the import gate,
    the merge and the poller of \<open>meta_poller.py\<close>.  \<open>Federation_Pull\<close>: \<open>trigger_codes.py\<close>, \<open>federation_access_log.py\<close> and
    the pull of \<open>federation_server.py\<close>, \<open>federation_client.py\<close>, \<open>federation_a2a.py\<close>.
  \<^item> \<open>Json_Text\<close>: base64 and JSON text.  \<open>Agent_Tokens\<close>, \<open>Token_Registry\<close>: \<open>agent_tokens.py\<close> and its refinement to a map
    of grants.  \<open>Api_Auth\<close>, \<open>Auth_Safety\<close>: \<open>api/auth_store.py\<close>, \<open>api/auth.py\<close>, \<open>api/middleware.py\<close>.

  \<^bold>\<open>How the model follows the code.\<close>  A table is a list of rows in insertion order, a Python dict whose order or
  duplicates matter an association list, any other dict a map.  An operation returns its result with the new state; a
  raise, a refusal or an early return is a branch of a sum or an option.  Where many operations interleave, a step
  relation (\<open>wf_step\<close>, \<open>pl_step\<close>, \<open>graph_step\<close>, \<open>ccr_step\<close>, \<open>token_step\<close>, \<open>auth_step\<close>) has one rule per
  operation and its invariants hold in every reachable state; a deletion is a step like any other, and where a fact
  lasts only as long as its row does the runs are those that keep the row (\<open>keeping\<close>).  The clock and fresh identifiers are arguments; an
  operation reads the clock once.

  \<^bold>\<open>What the lemmas show.\<close>  Of the store: identities stay unique, a claim is exclusive, provenance is the server's.  Of the
  life cycles: histories are paths of the machine, terminal states are final while the row lives.  Of the gates: what is published or served
  has passed them, quarantine is terminal, the original text survives, no caller forges the stamps of the server.  Of
  reads: search, graph walk and assembly keep to status, project, task, lens and budget; a compressed text is retrieved
  whole; markers and tokens survive print and parse; a repeated checkpoint is stored once.  Of exchange: nothing excluded leaves, secrets are redacted, merges
  do not depend on their order.  Of authentication: no session without a second factor, a lockout holds and ends, no
  session outlives its cap.  Findings about the code are lemmas at the end of the theories they concern.

  \<^bold>\<open>Bounds and fuel.\<close>  The heal sweep takes a number of pages, and the termination theorem of \<open>Refinement\<close> shows that its cap is
  enough; the poller stops after its own page cap, as in the code.  The JSON parser takes fuel \<open>2 * length s + 2\<close>, and the
  parser lemmas show that it never runs out; how deep arrays and objects may nest before the interpreter's stack is
  exhausted is an argument of the parser, and exceeding it an error.  The matcher bounds a repetition by the length of the rest of the text, which
  is exact because a repeated body consumes.

  \<^bold>\<open>Parameters.\<close>  SHA-256, HMAC, Ed25519, Fernet and TOTP, uuid and random handles, the FTS5 engine with its snippets, the
  embedder and the vector index, the tokenizer-free float printer of JSON, HTTP and subprocess exchange, the wording of
  log lines and error texts.  Laws about them are named hypotheses of the theorems, with witnesses.  Characters are code
  points below 256: patterns with other letters lose those alternatives, and the arrow of a cache marker is the control
  character 0x1A.

  \<^bold>\<open>Not modelled.\<close>  The command line (\<open>cli/\<close>), the REST and MCP glue (\<open>api/main.py\<close>, \<open>mcp_server.py\<close>), the gRPC mesh
  (\<open>mesh_server.py\<close>, \<open>mesh_client.py\<close>) and the SDK forward to the modelled operations or wrap third-party servers.  The code
  graph (\<open>codegraph/\<close>) rests on tree-sitter.  Embeddings, the vector store and clustering are numeric code over numpy and
  model files.  Awareness and heartbeat renderings, sessions, policy triggers, metrics, watchers, adapters, updates,
  logging and the decision providers are left out: reporting and scheduling around the core, not the core itself.
  Migrations of the database, concurrent threads inside one operation and crashes between two statements of one
  transaction are outside the model.
\<close>

end
